(* ===== verification/Masq_Prelude.thy ===== *)
theory Masq_Prelude
  imports Main "HOL-Library.Word" "HOL-Library.Monad_Syntax"
begin

unbundle bit_operations_syntax

section \<open>Prelude: Rust results, checked integers and bit strings\<close>

text \<open>
  What every component of the development shares: names for Rust's integer types, the
  outcome of a fallible Rust call (\<open>Ok\<close>, \<open>Err\<close> or a panic), Rust's checked arithmetic on
  machine words, big-endian byte strings, and the reading of a word as a bit string, least
  significant bit first. The collections \<open>res_simps\<close> and \<open>checked_simps\<close> hold the rewrite
  rules by which component proofs take a chain of \<open>?\<close>-steps apart.
\<close>

named_theorems res_simps
named_theorems checked_simps
named_theorems bits_simps

type_synonym u8 = "8 word"
type_synonym u16 = "16 word"
type_synonym u32 = "32 word"
type_synonym u64 = "64 word"
type_synonym u128 = "128 word"
type_synonym bytes = "u8 list"
type_synonym bytes32 = "256 word"
type_synonym address = "160 word"

subsection \<open>Outcomes of fallible calls\<close>

text \<open>
  \<open>Result<T, E>\<close> with a third constructor for a panic (an \<open>expect\<close>, an index out of range,
  an arithmetic overflow with overflow checks on).
\<close>

datatype ('a, 'e) res = Ok 'a | Err 'e | Panic

text \<open>The \<open>?\<close> operator.\<close>

fun and_then :: "('a, 'e) res \<Rightarrow> ('a \<Rightarrow> ('b, 'e) res) \<Rightarrow> ('b, 'e) res" where
  "and_then (Ok a) k = k a"
| "and_then (Err e) k = Err e"
| "and_then Panic k = Panic"

fun map_err :: "('e \<Rightarrow> 'f) \<Rightarrow> ('a, 'e) res \<Rightarrow> ('a, 'f) res" where
  "map_err f (Ok a) = Ok a"
| "map_err f (Err e) = Err (f e)"
| "map_err f Panic = Panic"

fun ok_or :: "'e \<Rightarrow> 'a option \<Rightarrow> ('a, 'e) res" where
  "ok_or e (Some a) = Ok a"
| "ok_or e None = Err e"

fun expect :: "'a option \<Rightarrow> ('a, 'e) res" where
  "expect (Some a) = Ok a"
| "expect None = Panic"

text \<open>
  \<open>iter().map(f).collect::<Result<Vec<_>, _>>()\<close>: left to right, stopping at the first
  failure.
\<close>

fun traverse :: "('a \<Rightarrow> ('b, 'e) res) \<Rightarrow> 'a list \<Rightarrow> ('b list, 'e) res" where
  "traverse f [] = Ok []"
| "traverse f (x # xs) = and_then (f x) (\<lambda>y. and_then (traverse f xs) (\<lambda>ys. Ok (y # ys)))"

lemma and_then_eq_Ok [res_simps]:
  "and_then m k = Ok b \<longleftrightarrow> (\<exists>a. m = Ok a \<and> k a = Ok b)"
  by (cases m) auto

lemma and_then_eq_Err [res_simps]:
  "and_then m k = Err e \<longleftrightarrow> m = Err e \<or> (\<exists>a. m = Ok a \<and> k a = Err e)"
  by (cases m) auto

lemma and_then_eq_Panic [res_simps]:
  "and_then m k = Panic \<longleftrightarrow> m = Panic \<or> (\<exists>a. m = Ok a \<and> k a = Panic)"
  by (cases m) auto

lemma map_err_eq_Ok [res_simps]: "map_err f m = Ok a \<longleftrightarrow> m = Ok a"
  by (cases m) auto

lemma map_err_eq_Err [res_simps]: "map_err f m = Err e \<longleftrightarrow> (\<exists>e'. m = Err e' \<and> e = f e')"
  by (cases m) auto

lemma map_err_eq_Panic [res_simps]: "map_err f m = Panic \<longleftrightarrow> m = Panic"
  by (cases m) auto

lemma ok_or_eq_Ok [res_simps]: "ok_or e m = Ok a \<longleftrightarrow> m = Some a"
  by (cases m) auto

lemma ok_or_eq_Err [res_simps]: "ok_or e m = Err e' \<longleftrightarrow> m = None \<and> e' = e"
  by (cases m) auto

lemma ok_or_not_Panic [res_simps]: "ok_or e m \<noteq> Panic"
  by (cases m) auto

lemma expect_eq_Ok [res_simps]: "expect m = Ok a \<longleftrightarrow> m = Some a"
  by (cases m) auto

lemma expect_eq_Panic [res_simps]: "expect m = Panic \<longleftrightarrow> m = None"
  by (cases m) simp_all

lemma expect_not_Err [res_simps]: "expect m \<noteq> Err e"
  by (cases m) simp_all

lemma traverse_eq_Ok: "traverse f xs = Ok ys \<longleftrightarrow> list_all2 (\<lambda>x y. f x = Ok y) xs ys"
proof (induction xs arbitrary: ys)
  case Nil
  show ?case by auto
next
  case (Cons x xs)
  show ?case
    by (cases ys) (auto simp: and_then_eq_Ok Cons.IH)
qed

lemma traverse_Ok_length: "traverse f xs = Ok ys \<Longrightarrow> length ys = length xs"
  by (auto simp: traverse_eq_Ok dest: list_all2_lengthD)

lemma traverse_not_Panic: "(\<And>x. x \<in> set xs \<Longrightarrow> f x \<noteq> Panic) \<Longrightarrow> traverse f xs \<noteq> Panic"
  by (induction xs) (auto simp: res_simps)

subsection \<open>Checked arithmetic\<close>

definition checked_add :: "'a::len word \<Rightarrow> 'a word \<Rightarrow> 'a word option" where
  "checked_add a b = (if unat a + unat b < 2 ^ LENGTH('a) then Some (a + b) else None)"

definition checked_sub :: "'a::len word \<Rightarrow> 'a word \<Rightarrow> 'a word option" where
  "checked_sub a b = (if b \<le> a then Some (a - b) else None)"

definition checked_mul :: "'a::len word \<Rightarrow> 'a word \<Rightarrow> 'a word option" where
  "checked_mul a b = (if unat a * unat b < 2 ^ LENGTH('a) then Some (a * b) else None)"

text \<open>\<open>usize\<close> subtraction: a panic (\<open>None\<close>) when the result would be negative.\<close>

definition usub :: "nat \<Rightarrow> nat \<Rightarrow> nat option" where
  "usub a b = (if b \<le> a then Some (a - b) else None)"

text \<open>
  Rust's shift operators panic when the shift amount reaches the width of the word (with
  overflow checks on).
\<close>

definition shl :: "'a::len word \<Rightarrow> nat \<Rightarrow> 'a word option" where
  "shl w n = (if n < LENGTH('a) then Some (push_bit n w) else None)"

definition shr :: "'a::len word \<Rightarrow> nat \<Rightarrow> 'a word option" where
  "shr w n = (if n < LENGTH('a) then Some (drop_bit n w) else None)"

lemma shl_Some [simp]: "n < LENGTH('a) \<Longrightarrow> shl w n = Some (push_bit n w)"
  for w :: "'a::len word"
  by (simp add: shl_def)

lemma shr_Some [simp]: "n < LENGTH('a) \<Longrightarrow> shr w n = Some (drop_bit n w)"
  for w :: "'a::len word"
  by (simp add: shr_def)

lemma checked_add_eq_Some [checked_simps]:
  "checked_add a b = Some c \<longleftrightarrow> unat c = unat a + unat b" for a b c :: "'a::len word"
proof
  assume "checked_add a b = Some c"
  then show "unat c = unat a + unat b"
    by (auto simp: checked_add_def unat_word_ariths split: if_splits)
next
  assume c: "unat c = unat a + unat b"
  moreover have "unat c < 2 ^ LENGTH('a)"
    by (rule unsigned_less)
  ultimately have "unat a + unat b < 2 ^ LENGTH('a)"
    by simp
  moreover from this have "unat (a + b) = unat c"
    using c by (simp add: unat_word_ariths)
  then have "a + b = c"
    by (simp add: word_unat_eq_iff)
  ultimately show "checked_add a b = Some c"
    by (simp add: checked_add_def)
qed

lemma checked_add_eq_None [checked_simps]:
  "checked_add a b = None \<longleftrightarrow> 2 ^ LENGTH('a) \<le> unat a + unat b" for a b :: "'a::len word"
  by (auto simp: checked_add_def)

lemma checked_mul_eq_Some [checked_simps]:
  "checked_mul a b = Some c \<longleftrightarrow> unat c = unat a * unat b" for a b c :: "'a::len word"
proof
  assume "checked_mul a b = Some c"
  then show "unat c = unat a * unat b"
    by (auto simp: checked_mul_def unat_word_ariths split: if_splits)
next
  assume c: "unat c = unat a * unat b"
  moreover have "unat c < 2 ^ LENGTH('a)"
    by (rule unsigned_less)
  ultimately have "unat a * unat b < 2 ^ LENGTH('a)"
    by simp
  moreover from this have "unat (a * b) = unat c"
    using c by (simp add: unat_word_ariths)
  then have "a * b = c"
    by (simp add: word_unat_eq_iff)
  ultimately show "checked_mul a b = Some c"
    by (simp add: checked_mul_def)
qed

lemma checked_mul_eq_None [checked_simps]:
  "checked_mul a b = None \<longleftrightarrow> 2 ^ LENGTH('a) \<le> unat a * unat b" for a b :: "'a::len word"
  by (auto simp: checked_mul_def)

lemma checked_sub_eq_Some [checked_simps]:
  "checked_sub a b = Some c \<longleftrightarrow> unat a = unat c + unat b" for a b c :: "'a::len word"
proof
  assume "checked_sub a b = Some c"
  then have "b \<le> a" and "c = a - b"
    by (auto simp: checked_sub_def split: if_splits)
  then show "unat a = unat c + unat b"
    by (simp add: unat_sub word_le_nat_alt)
next
  assume a: "unat a = unat c + unat b"
  then have le: "b \<le> a"
    by (simp add: word_le_nat_alt)
  with a have "unat (a - b) = unat c"
    by (simp add: unat_sub)
  then have "a - b = c"
    by (simp add: word_unat_eq_iff)
  with le show "checked_sub a b = Some c"
    by (simp add: checked_sub_def)
qed

lemma checked_sub_eq_None [checked_simps]: "checked_sub a b = None \<longleftrightarrow> a < b"
  by (auto simp: checked_sub_def not_le)

lemma usub_eq_Some [checked_simps]: "usub a b = Some c \<longleftrightarrow> b \<le> a \<and> c = a - b"
  by (auto simp: usub_def)

lemma usub_Some [simp]: "b \<le> a \<Longrightarrow> usub a b = Some (a - b)"
  by (simp add: usub_def)

lemma unat_less_2p [simp]: "unat (w :: 'a::len word) < 2 ^ LENGTH('a)"
  by (rule unsigned_less)

lemma unat_of_nat_less: "n < 2 ^ LENGTH('a) \<Longrightarrow> unat (of_nat n :: 'a::len word) = n"
  by (simp add: unsigned_of_nat take_bit_nat_eq_self_iff)

subsection \<open>Vectors\<close>

text \<open>\<open>Vec::remove\<close> at an index below the length.\<close>

definition remove_nth :: "nat \<Rightarrow> 'a list \<Rightarrow> 'a list" where
  "remove_nth i xs = take i xs @ drop (Suc i) xs"

subsection \<open>Words as bit strings, least significant bit first\<close>

definition wbits :: "nat \<Rightarrow> 'a::len word \<Rightarrow> bool list" where
  "wbits n w = map (bit w) [0..<n]"

lemma length_wbits [simp]: "length (wbits n w) = n"
  by (simp add: wbits_def)

lemma wbits_0 [simp]: "wbits 0 w = []"
  by (simp add: wbits_def)

lemma nth_wbits [simp]: "i < n \<Longrightarrow> wbits n w ! i = bit w i"
  by (simp add: wbits_def)

lemma wbits_add: "wbits (m + n) w = wbits m w @ wbits n (drop_bit m w)"
  by (rule nth_equalityI) (auto simp: nth_append bit_simps)

lemma wbits_split: "m \<le> n \<Longrightarrow> wbits n w = wbits m w @ wbits (n - m) (drop_bit m w)"
  using wbits_add [of m "n - m" w] by simp

lemma take_wbits [simp]: "take m (wbits n w) = wbits (min m n) w"
  by (rule nth_equalityI) auto

lemma drop_wbits: "m \<le> n \<Longrightarrow> drop m (wbits n w) = wbits (n - m) (drop_bit m w)"
  by (rule nth_equalityI) (auto simp: bit_simps)

lemma wbits_take_bit: "m \<le> n \<Longrightarrow> wbits m (take_bit n w) = wbits m w"
  by (rule nth_equalityI) (auto simp: bit_simps)

lemma wbits_inj:
  assumes "wbits n v = wbits n w" and "take_bit n v = v" and "take_bit n w = w"
  shows "v = w"
proof (rule bit_eqI)
  fix i
  show "bit v i = bit w i"
  proof (cases "i < n")
    case True
    then show ?thesis using assms(1) by (metis nth_wbits)
  next
    case False
    then show ?thesis using assms(2,3) by (metis bit_take_bit_iff)
  qed
qed

lemma wbits_eq_iff_take_bit:
  "wbits n v = wbits n w \<longleftrightarrow> take_bit n v = take_bit n w" (is "?l \<longleftrightarrow> ?r")
proof
  assume l: ?l
  show ?r
    by (rule wbits_inj [of n]) (simp_all add: wbits_take_bit l)
next
  assume ?r
  then have "wbits n (take_bit n v) = wbits n (take_bit n w)"
    by simp
  then show ?l
    by (simp add: wbits_take_bit)
qed

lemma take_bit_less_2p:
  "take_bit n w = w \<longleftrightarrow> unat w < 2 ^ n" for w :: "'a::len word"
proof -
  have "take_bit n w = w \<longleftrightarrow> unat (take_bit n w) = unat w"
    by (simp add: word_unat_eq_iff)
  also have "\<dots> \<longleftrightarrow> take_bit n (unat w) = unat w"
    by (simp add: unsigned_take_bit_eq)
  finally show ?thesis
    by (simp add: take_bit_nat_eq_self_iff)
qed

text \<open>Joining a low part of \<open>p\<close> bits with a part shifted above it.\<close>

lemma wbits_or_push_bit:
  assumes "take_bit p a = a" and "p + k \<le> LENGTH('a)"
  shows "wbits (p + k) (a OR push_bit p b) = wbits p a @ wbits k (b :: 'a::len word)"
proof (rule nth_equalityI)
  fix i
  assume i: "i < length (wbits (p + k) (a OR push_bit p b))"
  have "bit a i \<Longrightarrow> i < p"
    using assms(1) by (metis bit_take_bit_iff)
  then show "wbits (p + k) (a OR push_bit p b) ! i = (wbits p a @ wbits k b) ! i"
    using i assms(2) by (auto simp: nth_append bit_simps)
qed simp

lemma take_bit_or_push_bit:
  assumes "take_bit p a = a" and "take_bit k b = b"
  shows "take_bit (p + k) (a OR push_bit p b) = a OR push_bit p (b :: 'a::len word)"
proof (rule bit_eqI)
  fix i
  have a: "i < p" if "bit a i"
    using assms(1) that by (metis bit_take_bit_iff)
  have b: "i - p < k" if "bit b (i - p)"
    using assms(2) that by (metis bit_take_bit_iff)
  show "bit (take_bit (p + k) (a OR push_bit p b)) i = bit (a OR push_bit p b) i"
    using a b by (auto simp: bit_simps)
qed

subsection \<open>Fixed-size arrays and big-endian bytes\<close>

text \<open>
  A fixed array \<open>[u8; 32]\<close> is the word \<open>bytes32\<close> of its bytes, most significant first, and an
  Ethereum address the word of its twenty bytes: the array of zeroes is \<open>0\<close>, and comparing two
  arrays byte by byte from the front is comparing the words. \<open>be_bytes\<close> gives the bytes back.
\<close>

definition be_bytes :: "nat \<Rightarrow> 'a::len word \<Rightarrow> bytes" where
  "be_bytes n w = map (\<lambda>i. ucast (drop_bit (8 * (n - 1 - i)) w)) [0..<n]"

definition from_be_bytes :: "bytes \<Rightarrow> 'a::len word" where
  "from_be_bytes bs = foldl (\<lambda>acc b. push_bit 8 acc OR ucast b) 0 bs"

definition ascii :: "string \<Rightarrow> bytes" where
  "ascii s = map (\<lambda>c. of_nat (of_char c)) s"

lemma length_be_bytes [simp]: "length (be_bytes n w) = n"
  by (simp add: be_bytes_def)

lemma from_be_bytes_prefix:
  fixes w :: "'a::len word"
  assumes "k \<le> n"
  shows "foldl (\<lambda>acc b. push_bit 8 acc OR ucast b) 0
           (map (\<lambda>i. ucast (drop_bit (8 * (n - 1 - i)) w) :: u8) [0..<k])
         = take_bit (8 * k) (drop_bit (8 * (n - k)) w)"
  using assms
proof (induction k)
  case 0
  show ?case by simp
next
  case (Suc k)
  let ?m = "8 * (n - Suc k)"
  have n: "8 * (n - k) = ?m + 8" "8 * (n - 1 - k) = ?m"
    using Suc.prems by auto
  have step: "push_bit 8 (take_bit (8 * k) (drop_bit (?m + 8) w)) OR ucast (ucast (drop_bit ?m w) :: u8)
      = take_bit (8 * Suc k) (drop_bit ?m w)"
  proof (rule bit_eqI)
    fix i
    assume "possible_bit TYPE('a word) i"
    then show "bit (push_bit 8 (take_bit (8 * k) (drop_bit (?m + 8) w)) OR ucast (ucast (drop_bit ?m w) :: u8)) i
        = bit (take_bit (8 * Suc k) (drop_bit ?m w)) i"
      by (cases "i < 8") (auto simp: bit_simps not_less)
  qed
  have "foldl (\<lambda>acc b. push_bit 8 acc OR ucast b) 0
      (map (\<lambda>i. ucast (drop_bit (8 * (n - 1 - i)) w) :: u8) [0..<k])
      = take_bit (8 * k) (drop_bit (?m + 8) w)"
    using Suc.IH Suc.prems unfolding n by simp
  then show ?case
    by (simp only: upt_Suc_append map_append foldl_append list.map foldl.simps n step zero_le)
qed

lemma from_be_bytes_be_bytes: "from_be_bytes (be_bytes n w) = take_bit (8 * n) w"
  using from_be_bytes_prefix [of n n w] by (simp add: from_be_bytes_def be_bytes_def)

lemma be_bytes_inj: "LENGTH('a) \<le> 8 * n \<Longrightarrow> be_bytes n a = be_bytes n b \<longleftrightarrow> a = b"
  for a b :: "'a::len word"
proof
  assume n: "LENGTH('a) \<le> 8 * n" and eq: "be_bytes n a = be_bytes n b"
  have "take_bit (8 * n) x = x" for x :: "'a word"
    using n by (simp add: take_bit_word_eq_self)
  moreover have "(from_be_bytes (be_bytes n a) :: 'a word) = from_be_bytes (be_bytes n b)"
    using eq by simp
  ultimately show "a = b"
    by (simp add: from_be_bytes_be_bytes)
qed simp

lemma ascii_inj: "ascii s = ascii t \<longleftrightarrow> s = t"
proof
  have "unat (of_nat (of_char c) :: u8) = of_char c" for c
    by (simp add: unsigned_of_nat take_bit_eq_mod)
  then have inj: "inj (\<lambda>c. of_nat (of_char c) :: u8)"
    by (metis injI of_char_eq_iff)
  assume "ascii s = ascii t"
  then show "s = t"
    using inj_map_eq_map [OF inj] by (simp add: ascii_def)
qed simp

end
