(* ===== verification/Bit_Queue.thy ===== *)
theory Bit_Queue
  imports Masq_Prelude
begin

unbundle bit_operations_syntax

section \<open>The bit queue of the country database\<close>

text \<open>
  \<open>ip_country/src/bit_queue.rs\<close>: a double-ended byte queue used as a FIFO of bits. The front
  byte keeps its unread bits in its low-order end, the back byte keeps the bits written so far
  in its low-order end. The record has the fields of the Rust struct; every operation returns
  an option, \<open>None\<close> standing for a panic (an explicit \<open>panic!\<close>, an \<open>expect\<close>, an integer or a
  shift overflow). The abstraction \<open>bq_bits\<close> reads the queue as the list of its bits in the
  order in which they will be taken; \<open>bq_inv\<close> is the representation invariant. The theory
  shows that \<open>add_bits\<close> and \<open>take_bits\<close> never panic on a queue that satisfies the invariant
  and implement append and take/drop on that list, and states that contract as the locale
  \<open>bit_fifo\<close> on which the country-block codec rests.
\<close>

record bit_queue =
  back_blank_bit_count :: nat
  byte_queue :: "u8 list"
  front_blank_bit_count :: nat

subsection \<open>Operations\<close>

definition bq_new :: bit_queue where
  "bq_new = \<lparr>back_blank_bit_count = 8, byte_queue = [0, 0], front_blank_bit_count = 8\<rparr>"

definition bq_len :: "bit_queue \<Rightarrow> nat option" where
  "bq_len q = do {
     n \<leftarrow> usub (length (byte_queue q) * 8) (back_blank_bit_count q);
     usub n (front_blank_bit_count q) }"

definition bq_is_empty :: "bit_queue \<Rightarrow> bool option" where
  "bq_is_empty q = do { n \<leftarrow> bq_len q; Some (n = 0) }"

definition back_full_bit_count :: "bit_queue \<Rightarrow> nat option" where
  "back_full_bit_count q = usub 8 (back_blank_bit_count q)"

definition front_full_bit_count :: "bit_queue \<Rightarrow> nat option" where
  "front_full_bit_count q = usub 8 (front_blank_bit_count q)"

definition low_order_ones :: "nat \<Rightarrow> u64 option" where
  "low_order_ones count = do { w \<leftarrow> shl (- 1) count; Some (NOT w) }"

text \<open>\<open>VecDeque::back_mut\<close> and \<open>front_mut\<close> with their \<open>expect\<close>.\<close>

definition modify_back :: "('a \<Rightarrow> 'a) \<Rightarrow> 'a list \<Rightarrow> 'a list option" where
  "modify_back f xs = (if xs = [] then None else Some (butlast xs @ [f (last xs)]))"

definition push_back_byte :: "bit_queue \<Rightarrow> bit_queue" where
  "push_back_byte q = q\<lparr>byte_queue := byte_queue q @ [0], back_blank_bit_count := 8\<rparr>"

definition add_some_back_bits :: "bit_queue \<Rightarrow> u64 \<Rightarrow> nat \<Rightarrow> (nat \<times> bit_queue) option" where
  "add_some_back_bits q0 bit_data bit_count = do {
     let q = (if back_blank_bit_count q0 = 0 then push_back_byte q0 else q0);
     let bits_to_add = min bit_count (back_blank_bit_count q);
     back_full \<leftarrow> back_full_bit_count q;
     shifted \<leftarrow> shl bit_data back_full;
     bs \<leftarrow> modify_back (\<lambda>b. b OR ucast shifted) (byte_queue q);
     blank \<leftarrow> usub (back_blank_bit_count q) bits_to_add;
     let q' = q\<lparr>byte_queue := bs, back_blank_bit_count := blank\<rparr>;
     Some (bits_to_add, if blank = 0 then push_back_byte q' else q') }"

text \<open>The \<open>while bit_count >= 8\<close> loop of \<open>add_back_bytes\<close>.\<close>

fun add_bytes_loop :: "u8 list \<Rightarrow> u64 \<Rightarrow> nat \<Rightarrow> (nat \<times> u8 list) option" where
  "add_bytes_loop bs bit_data bit_count =
     (if bit_count \<ge> 8 then do {
        ones \<leftarrow> low_order_ones 8;
        rest \<leftarrow> shr bit_data 8;
        add_bytes_loop (bs @ [ucast (bit_data AND ones)]) rest (bit_count - 8) }
      else Some (bit_count, bs))"

declare add_bytes_loop.simps [simp del]

definition add_back_bytes :: "bit_queue \<Rightarrow> u64 \<Rightarrow> nat \<Rightarrow> (nat \<times> bit_queue) option" where
  "add_back_bytes q0 bit_data bit_count =
     (if bit_count > 64 then None
      else if bit_count < 8 then Some (0, q0)
      else do {
        let q = (if back_blank_bit_count q0 = 8
                 then q0\<lparr>byte_queue := butlast (byte_queue q0), back_blank_bit_count := 0\<rparr>
                 else q0);
        if back_blank_bit_count q > 0 then None
        else do {
          (left, bs) \<leftarrow> add_bytes_loop (byte_queue q) bit_data bit_count;
          Some (bit_count - left, q\<lparr>byte_queue := bs\<rparr>) } })"

definition add_bits :: "bit_queue \<Rightarrow> u64 \<Rightarrow> nat \<Rightarrow> bit_queue option" where
  "add_bits q bit_data bit_count =
     (if bit_count > 64 then None
      else do {
        (initial, q) \<leftarrow> add_some_back_bits q bit_data bit_count;
        bit_data \<leftarrow> shr bit_data initial;
        bit_count \<leftarrow> usub bit_count initial;
        (whole, q) \<leftarrow> add_back_bytes q bit_data bit_count;
        bit_data \<leftarrow> shr bit_data whole;
        bit_count \<leftarrow> usub bit_count whole;
        (final, q) \<leftarrow> add_some_back_bits q bit_data bit_count;
        bit_data \<leftarrow> shr bit_data final;
        bit_count \<leftarrow> usub bit_count final;
        if bit_count \<noteq> 0 then None else Some q })"

definition pop_front_byte :: "bit_queue \<Rightarrow> bit_queue" where
  "pop_front_byte q = q\<lparr>byte_queue := tl (byte_queue q), front_blank_bit_count := 0\<rparr>"

definition take_some_front_bits :: "bit_queue \<Rightarrow> nat \<Rightarrow> ((u64 \<times> nat) \<times> bit_queue) option" where
  "take_some_front_bits q0 bit_count = do {
     full0 \<leftarrow> front_full_bit_count q0;
     let q = (if full0 = 0 \<and> length (byte_queue q0) > 2 then pop_front_byte q0 else q0);
     full \<leftarrow> front_full_bit_count q;
     let bits_to_take = min bit_count full;
     if bits_to_take = 0 then Some ((0, 0), q)
     else case byte_queue q of
       [] \<Rightarrow> None
     | front # rest \<Rightarrow> do {
         ones \<leftarrow> low_order_ones bits_to_take;
         let bit_data = front AND ucast ones;
         front' \<leftarrow> (if bits_to_take < 8 then shr front bits_to_take else Some 0);
         let q' = q\<lparr>byte_queue := front' # rest,
                    front_blank_bit_count := front_blank_bit_count q + bits_to_take\<rparr>;
         Some ((ucast bit_data, bits_to_take),
               if front_blank_bit_count q' = 8 \<and> length (byte_queue q') > 2
               then pop_front_byte q' else q') } }"

text \<open>The \<open>while bit_count >= 8\<close> loop of \<open>take_front_bytes\<close>.\<close>

fun take_bytes_loop :: "u8 list \<Rightarrow> u64 \<Rightarrow> nat \<Rightarrow> nat \<Rightarrow> (u64 \<times> nat \<times> u8 list) option" where
  "take_bytes_loop bs bit_data original bit_count =
     (if bit_count \<ge> 8 then
        (case bs of
           [] \<Rightarrow> None
         | byte # rest \<Rightarrow> do {
             shifted \<leftarrow> shl (ucast byte) (original - bit_count);
             take_bytes_loop rest (bit_data OR shifted) original (bit_count - 8) })
      else Some (bit_data, bit_count, bs))"

declare take_bytes_loop.simps [simp del]

definition take_front_bytes :: "bit_queue \<Rightarrow> nat \<Rightarrow> ((u64 \<times> nat) \<times> bit_queue) option" where
  "take_front_bytes q0 bit_count =
     (if bit_count > 64 then None
      else if bit_count < 8 then Some ((0, 0), q0)
      else do {
        let q = (if front_blank_bit_count q0 = 8 then pop_front_byte q0 else q0);
        if front_blank_bit_count q > 0 then None
        else do {
          (bit_data, left, bs) \<leftarrow> take_bytes_loop (byte_queue q) 0 bit_count bit_count;
          let q' = q\<lparr>byte_queue := bs\<rparr>;
          Some ((bit_data, bit_count - left),
                if length bs < 2
                then q'\<lparr>byte_queue := 0 # bs, front_blank_bit_count := 8\<rparr> else q') } })"

definition take_some_back_bits :: "bit_queue \<Rightarrow> nat \<Rightarrow> ((u64 \<times> nat) \<times> bit_queue) option" where
  "take_some_back_bits q bit_count = do {
     full \<leftarrow> back_full_bit_count q;
     let bits_to_take = min bit_count full;
     let remaining_bits = full - bits_to_take;
     mask \<leftarrow> low_order_ones bits_to_take;
     if byte_queue q = [] then None
     else do {
       let back = last (byte_queue q);
       let bit_data = (if remaining_bits < 8 then back AND ucast mask else 0);
       back' \<leftarrow> shr back bits_to_take;
       let q' = q\<lparr>byte_queue := butlast (byte_queue q) @ [back'],
                  back_blank_bit_count := back_blank_bit_count q + bits_to_take\<rparr>;
       Some ((ucast bit_data, bits_to_take),
             if back_blank_bit_count q' = 8 \<and> length (byte_queue q') > 2
             then q'\<lparr>byte_queue := butlast (byte_queue q'), back_blank_bit_count := 0\<rparr>
             else q') } }"

definition take_bits :: "bit_queue \<Rightarrow> nat \<Rightarrow> (u64 option \<times> bit_queue) option" where
  "take_bits q bit_count =
     (if bit_count > 64 then None
      else do {
        available \<leftarrow> bq_len q;
        if bit_count > available then Some (None, q)
        else do {
          ((d1, n1), q) \<leftarrow> take_some_front_bits q bit_count;
          left1 \<leftarrow> usub bit_count n1;
          ((d2, n2), q) \<leftarrow> take_front_bytes q left1;
          s2 \<leftarrow> shl d2 n1;
          left2 \<leftarrow> usub left1 n2;
          ((d3, n3), q) \<leftarrow> take_some_front_bits q left2;
          s3 \<leftarrow> (if n3 > 0 then shl d3 (n1 + n2) else Some 0);
          left3 \<leftarrow> usub left2 n3;
          ((d4, n4), q) \<leftarrow> take_some_back_bits q left3;
          s4 \<leftarrow> (if n4 > 0 then shl d4 (n1 + n2 + n3) else Some 0);
          left4 \<leftarrow> usub left3 n4;
          if n1 + n2 + n3 + n4 \<noteq> bit_count then None
          else Some (Some (((d1 OR s2) OR s3) OR s4), q) } })"

subsection \<open>Abstraction and invariant\<close>

text \<open>The bits of the queue in the order in which \<open>take_bits\<close> hands them out.\<close>

definition bq_bits :: "bit_queue \<Rightarrow> bool list" where
  "bq_bits q =
     (case byte_queue q of
        f # b # bs \<Rightarrow>
          wbits (8 - front_blank_bit_count q) f
          @ concat (map (wbits 8) (butlast (b # bs)))
          @ wbits (8 - back_blank_bit_count q) (last (b # bs))
      | _ \<Rightarrow> [])"

text \<open>
  At least a front and a back byte, whose unused high-order bits are clear in the back byte
  (new bits are or-ed into it); or the one-byte queue that is left when the last byte of a
  queue with a completely filled back byte has been taken.
\<close>

definition bq_inv :: "bit_queue \<Rightarrow> bool" where
  "bq_inv q \<longleftrightarrow>
     front_blank_bit_count q \<le> 8 \<and> back_blank_bit_count q \<le> 8 \<and>
     (if length (byte_queue q) \<ge> 2
      then take_bit (8 - back_blank_bit_count q) (last (byte_queue q)) = last (byte_queue q)
      else length (byte_queue q) = 1 \<and> front_blank_bit_count q = 8 \<and> back_blank_bit_count q = 0)"

abbreviation BQ :: "nat \<Rightarrow> u8 list \<Rightarrow> nat \<Rightarrow> bit_queue" where
  "BQ bb bs fb \<equiv> \<lparr>back_blank_bit_count = bb, byte_queue = bs, front_blank_bit_count = fb\<rparr>"

lemma bq_bits_BQ [simp]:
  "bq_bits (BQ bb (f # m @ [b]) fb) =
     wbits (8 - fb) f @ concat (map (wbits 8) m) @ wbits (8 - bb) b"
  by (cases m) (simp_all add: bq_bits_def)

lemma bq_bits_single [simp]: "bq_bits (BQ bb [f] fb) = []"
  by (simp add: bq_bits_def)

lemma bq_inv_BQ [simp]:
  "bq_inv (BQ bb (f # m @ [b]) fb) \<longleftrightarrow> fb \<le> 8 \<and> bb \<le> 8 \<and> take_bit (8 - bb) b = b"
  by (simp add: bq_inv_def)

lemma take_bit_8_u8 [simp]: "take_bit 8 (b :: u8) = b"
  by (rule bit_eqI) (auto simp: bit_simps dest: bit_imp_le_length)

lemma bq_inv_single [simp]: "bq_inv (BQ bb [f] fb) \<longleftrightarrow> fb = 8 \<and> bb = 0"
  by (auto simp: bq_inv_def)

lemma bq_bits_two [simp]: "bq_bits (BQ bb [f, b] fb) = wbits (8 - fb) f @ wbits (8 - bb) b"
  using bq_bits_BQ [of bb f "[]"] by simp

lemma bq_inv_two [simp]:
  "bq_inv (BQ bb [f, b] fb) \<longleftrightarrow> fb \<le> 8 \<and> bb \<le> 8 \<and> take_bit (8 - bb) b = b"
  using bq_inv_BQ [of bb f "[]"] by simp

lemma bq_cases [consumes 1, case_names many single]:
  assumes "bq_inv q"
  obtains bb f m b fb where "q = BQ bb (f # m @ [b]) fb" "fb \<le> 8" "bb \<le> 8"
      "take_bit (8 - bb) b = b"
  | f where "q = BQ 0 [f] 8"
proof (cases q)
  case q: (fields bb bs fb)
  show thesis
  proof (cases "length bs \<ge> 2")
    case True
    then obtain f r where "bs = f # r" "r \<noteq> []"
      by (cases bs) (auto simp: Suc_le_eq)
    then obtain m b where "bs = f # m @ [b]"
      by (cases r rule: rev_cases) auto
    with q assms that(1) show thesis by simp
  next
    case False
    with q assms obtain f where "bs = [f]"
      by (auto simp: bq_inv_def length_Suc_conv split: if_splits)
    with q assms that(2) show thesis by simp
  qed
qed

lemma bq_len_bits: "bq_inv q \<Longrightarrow> bq_len q = Some (length (bq_bits q))"
  by (erule bq_cases) (simp_all add: bq_len_def length_concat comp_def sum_list_triv)

lemma bq_new_inv: "bq_inv bq_new" and bq_new_bits: "bq_bits bq_new = []"
  by (simp_all add: bq_new_def bq_inv_def bq_bits_def)

lemma modify_back_snoc [simp]: "modify_back f (x # m @ [b]) = Some (x # m @ [f b])"
  by (simp add: modify_back_def)

lemma low_order_ones_mask: "n < 64 \<Longrightarrow> low_order_ones n = Some (mask n)"
  by (simp add: low_order_ones_def mask_eq_exp_minus_1 push_bit_minus_one_eq_not_mask)

subsection \<open>Writing\<close>

lemma or_ucast_push_bit:
  fixes b :: u8 and d :: u64
  assumes b: "take_bit p b = b" and "p + k \<le> 8" and p: "p < 8"
  shows "wbits (p + k) (b OR ucast (push_bit p d)) = wbits p b @ wbits k d"
proof (rule nth_equalityI)
  fix i
  assume i: "i < length (wbits (p + k) (b OR ucast (push_bit p d)))"
  have "i < p" if "bit b i"
    using b that by (metis bit_take_bit_iff)
  then show "wbits (p + k) (b OR ucast (push_bit p d)) ! i = (wbits p b @ wbits k d) ! i"
    using i assms(2) by (auto simp: nth_append bit_simps)
qed simp

lemma or_ucast_push_bit_clear:
  fixes b :: u8 and d :: u64
  assumes b: "take_bit p b = b" and d: "take_bit k d = d"
  shows "take_bit (p + k) (b OR ucast (push_bit p d)) = b OR ucast (push_bit p d)"
proof (rule bit_eqI)
  fix i
  have "i < p" if "bit b i"
    using b that by (metis bit_take_bit_iff)
  moreover have "i - p < k" if "bit d (i - p)"
    using d that by (metis bit_take_bit_iff)
  ultimately show
    "bit (take_bit (p + k) (b OR ucast (push_bit p d))) i = bit (b OR ucast (push_bit p d)) i"
    by (auto simp: bit_simps)
qed

lemma add_some_back_bits_pos:
  assumes inv: "bq_inv (BQ bb (f # m @ [b]) fb)" and bb: "0 < bb"
    and d: "take_bit n d = d"
  shows "\<exists>q'. add_some_back_bits (BQ bb (f # m @ [b]) fb) d n = Some (min n bb, q') \<and>
    bq_inv q' \<and> bq_bits q' = bq_bits (BQ bb (f # m @ [b]) fb) @ wbits (min n bb) d \<and>
    (bb \<le> n \<longrightarrow> (\<exists>f m b fb. q' = BQ 8 (f # m @ [b]) fb))"
proof (cases "n < bb")
  case True
  define b' where "b' = b OR ucast (push_bit (8 - bb) d)"
  have "wbits (8 - bb + n) b' = wbits (8 - bb) b @ wbits n d"
    unfolding b'_def using inv bb True by (intro or_ucast_push_bit) auto
  moreover have "take_bit (8 - bb + n) b' = b'"
    unfolding b'_def using inv d by (intro or_ucast_push_bit_clear) auto
  moreover have "8 - bb + n = 8 - (bb - n)"
    using True inv by auto
  moreover have "add_some_back_bits (BQ bb (f # m @ [b]) fb) d n =
    Some (n, BQ (bb - n) (f # m @ [b']) fb)"
    using inv bb True
    by (simp add: add_some_back_bits_def back_full_bit_count_def b'_def)
  ultimately show ?thesis
    using inv True by auto
next
  case False
  define b' where "b' = b OR ucast (push_bit (8 - bb) d)"
  have "wbits (8 - bb + bb) b' = wbits (8 - bb) b @ wbits bb d"
    unfolding b'_def using inv bb by (intro or_ucast_push_bit) auto
  then have "wbits 8 b' = wbits (8 - bb) b @ wbits bb d"
    using inv by simp
  moreover have "bq_bits (BQ 8 (f # (m @ [b']) @ [0]) fb) =
    wbits (8 - fb) f @ concat (map (wbits 8) m) @ wbits 8 b'"
    by (subst bq_bits_BQ) simp
  moreover have "bq_inv (BQ 8 (f # (m @ [b']) @ [0]) fb)"
    using inv by (subst bq_inv_BQ) simp
  moreover have "add_some_back_bits (BQ bb (f # m @ [b]) fb) d n =
    Some (bb, BQ 8 (f # (m @ [b']) @ [0]) fb)"
    using False inv bb
    by (simp add: add_some_back_bits_def back_full_bit_count_def push_back_byte_def b'_def)
  ultimately show ?thesis
    using False by (metis append_assoc bq_bits_BQ min.absorb2 not_le_imp_less order_less_imp_le)
qed

lemma push_back_byte_inv:
  assumes inv: "bq_inv q"
  defines "q0 \<equiv> (if back_blank_bit_count q = 0 then push_back_byte q else q)"
  shows "bq_inv q0 \<and> bq_bits q0 = bq_bits q \<and> back_blank_bit_count q0 \<noteq> 0 \<and>
    (\<exists>bb f m b fb. q0 = BQ bb (f # m @ [b]) fb)"
  using inv
proof (cases rule: bq_cases)
  case (many bb f m b fb)
  show ?thesis
  proof (cases "bb = 0")
    case True
    then have "q0 = BQ 8 (f # (m @ [b]) @ [0]) fb"
      by (simp add: q0_def many push_back_byte_def)
    then show ?thesis
      using many True by (simp only: bq_inv_BQ bq_bits_BQ) auto
  next
    case False
    then have "q0 = BQ bb (f # m @ [b]) fb"
      by (simp add: q0_def many)
    then show ?thesis
      using many False by auto
  qed
next
  case (single f)
  then have "q0 = BQ 8 (f # [] @ [0]) 8"
    by (simp add: q0_def push_back_byte_def)
  then show ?thesis
    using single by (simp only: bq_inv_BQ bq_bits_BQ) auto
qed

lemma add_some_back_bits_correct:
  assumes inv: "bq_inv q" and d: "take_bit n d = d"
  defines "k \<equiv> min n (if back_blank_bit_count q = 0 then 8 else back_blank_bit_count q)"
  shows "\<exists>q'. add_some_back_bits q d n = Some (k, q') \<and> bq_inv q' \<and>
    bq_bits q' = bq_bits q @ wbits k d \<and>
    (k < n \<longrightarrow> (\<exists>f m b fb. q' = BQ 8 (f # m @ [b]) fb))"
proof -
  define q0 where "q0 = (if back_blank_bit_count q = 0 then push_back_byte q else q)"
  from inv have q0: "bq_inv q0 \<and> bq_bits q0 = bq_bits q \<and> back_blank_bit_count q0 \<noteq> 0 \<and>
    (\<exists>bb f m b fb. q0 = BQ bb (f # m @ [b]) fb)"
    unfolding q0_def by (rule push_back_byte_inv)
  then obtain bb f m b fb where eq: "q0 = BQ bb (f # m @ [b]) fb" by blast
  have "add_some_back_bits q d n = add_some_back_bits q0 d n"
    by (simp add: add_some_back_bits_def q0_def push_back_byte_def)
  moreover have "k = min n (back_blank_bit_count q0)"
    by (simp add: k_def q0_def push_back_byte_def)
  then have "k = min n bb"
    by (simp add: eq)
  moreover have "\<exists>q'. add_some_back_bits q0 d n = Some (min n bb, q') \<and> bq_inv q' \<and>
    bq_bits q' = bq_bits q0 @ wbits (min n bb) d \<and>
    (bb \<le> n \<longrightarrow> (\<exists>f m b fb. q' = BQ 8 (f # m @ [b]) fb))"
    unfolding eq using q0 d eq by (intro add_some_back_bits_pos) auto
  moreover have "min n bb < n \<Longrightarrow> bb \<le> n"
    by simp
  ultimately show ?thesis
    using q0 by (simp only:) blast
qed

text \<open>The bytes that the loop of \<open>add_back_bytes\<close> appends.\<close>

definition chunks :: "nat \<Rightarrow> u64 \<Rightarrow> u8 list" where
  "chunks k d = map (\<lambda>i. ucast (drop_bit (8 * i) d)) [0..<k]"

lemma chunks_Suc: "chunks (Suc k) d = ucast d # chunks k (drop_bit 8 d)"
  by (simp add: chunks_def upt_conv_Cons map_Suc_upt [symmetric] comp_def drop_bit_drop_bit
      add.commute del: upt_Suc)

lemma chunks_0 [simp]: "chunks 0 d = []"
  by (simp add: chunks_def)

lemma wbits_ucast: "n \<le> 8 \<Longrightarrow> wbits n (ucast d :: u8) = wbits n (d :: u64)"
  by (rule nth_equalityI) (auto simp: bit_simps)

lemma chunks_bits: "concat (map (wbits 8) (chunks k d)) = wbits (8 * k) d"
proof (induction k arbitrary: d)
  case 0
  show ?case by simp
next
  case (Suc k)
  have "wbits (8 * Suc k) d = wbits (8 + 8 * k) d" by simp
  also have "\<dots> = wbits 8 d @ wbits (8 * k) (drop_bit 8 d)" by (rule wbits_add)
  finally show ?case by (simp add: chunks_Suc Suc.IH wbits_ucast)
qed

lemma add_bytes_loop_chunks:
  "add_bytes_loop bs d n = Some (n mod 8, bs @ chunks (n div 8) d)"
proof (induction bs d n rule: add_bytes_loop.induct)
  case (1 bs d n)
  show ?case
  proof (cases "8 \<le> n")
    case True
    have ones: "low_order_ones 8 = Some (mask 8)" by (simp add: low_order_ones_mask)
    have ucast: "ucast (d AND mask 8) = (ucast d :: u8)"
      by (rule bit_eqI) (auto simp: bit_simps)
    have "n mod 8 = (n - 8) mod 8" "n div 8 = Suc ((n - 8) div 8)"
      using True by (simp_all add: le_mod_geq le_div_geq)
    then show ?thesis
      using True "1.IH" [OF True ones, of "drop_bit 8 d"]
      by (subst add_bytes_loop.simps) (simp add: ones ucast chunks_Suc)
  next
    case False
    then show ?thesis by (subst add_bytes_loop.simps) simp
  qed
qed

lemma add_back_bytes_correct:
  assumes "8 \<le> n" and "n \<le> 64" and inv: "bq_inv (BQ 8 (f # m @ [b]) fb)"
  shows "\<exists>q'. add_back_bytes (BQ 8 (f # m @ [b]) fb) d n = Some (8 * (n div 8), q') \<and>
    bq_inv q' \<and> bq_bits q' = bq_bits (BQ 8 (f # m @ [b]) fb) @ wbits (8 * (n div 8)) d \<and>
    back_blank_bit_count q' = 0"
proof -
  define c where "c = chunks (n div 8) d"
  have "c \<noteq> []"
    using assms(1) by (simp add: c_def chunks_def)
  then obtain c' e where c': "c = c' @ [e]"
    by (cases c rule: rev_cases) auto
  have left: "n - n mod 8 = 8 * (n div 8)"
    by (simp add: minus_mod_eq_mult_div)
  have "add_back_bytes (BQ 8 (f # m @ [b]) fb) d n =
    Some (8 * (n div 8), BQ 0 (f # (m @ c') @ [e]) fb)"
    using assms(1,2) c'
    by (simp add: add_back_bytes_def add_bytes_loop_chunks left c_def [symmetric] butlast_append)
  moreover have "bq_inv (BQ 0 (f # (m @ c') @ [e]) fb)"
    using inv by (simp only: bq_inv_BQ) simp
  moreover have "bq_bits (BQ 0 (f # (m @ c') @ [e]) fb) =
    wbits (8 - fb) f @ concat (map (wbits 8) m) @ concat (map (wbits 8) c)"
    by (simp only: bq_bits_BQ) (simp add: c')
  moreover have "concat (map (wbits 8) c) = wbits (8 * (n div 8)) d"
    unfolding c_def by (rule chunks_bits)
  ultimately show ?thesis by simp
qed

lemma take_bit_drop_bit_clear:
  "take_bit n d = d \<Longrightarrow> take_bit (n - k) (drop_bit k d) = drop_bit k d" for d :: "'a::len word"
  by (metis drop_bit_take_bit)

text \<open>Phase two of \<open>add_bits\<close>: whole bytes, or nothing when fewer than eight bits are left.\<close>

lemma add_back_bytes_phase:
  assumes "bq_inv q" and "n \<le> 64" and "8 \<le> n \<longrightarrow> (\<exists>f m b fb. q = BQ 8 (f # m @ [b]) fb)"
  shows "\<exists>q'. add_back_bytes q d n = Some (8 * (n div 8), q') \<and> bq_inv q' \<and>
    bq_bits q' = bq_bits q @ wbits (8 * (n div 8)) d \<and>
    back_blank_bit_count q' = (if 8 \<le> n then 0 else back_blank_bit_count q)"
proof (cases "8 \<le> n")
  case True
  then obtain f m b fb where "q = BQ 8 (f # m @ [b]) fb"
    using assms(3) by blast
  then show ?thesis
    using True assms add_back_bytes_correct [of n f m b fb d] by simp
next
  case False
  then show ?thesis using assms(1) by (simp add: add_back_bytes_def)
qed

theorem add_bits_correct:
  assumes inv: "bq_inv q" and n: "n \<le> 64" and d: "take_bit n d = d"
  shows "\<exists>q'. add_bits q d n = Some q' \<and> bq_inv q' \<and> bq_bits q' = bq_bits q @ wbits n d"
proof -
  define k where "k = min n (if back_blank_bit_count q = 0 then 8 else back_blank_bit_count q)"
  obtain q1 where q1: "add_some_back_bits q d n = Some (k, q1)" "bq_inv q1"
      "bq_bits q1 = bq_bits q @ wbits k d" "k < n \<longrightarrow> (\<exists>f m b fb. q1 = BQ 8 (f # m @ [b]) fb)"
    using add_some_back_bits_correct [OF inv d] unfolding k_def by blast
  have k: "k \<le> n" "k \<le> 8"
    using inv by (auto simp: k_def bq_inv_def split: if_splits)
  define d1 n1 where "d1 = drop_bit k d" and "n1 = n - k"
  have d1: "take_bit n1 d1 = d1"
    using d by (simp add: d1_def n1_def take_bit_drop_bit_clear)
  obtain q2 where q2: "add_back_bytes q1 d1 n1 = Some (8 * (n1 div 8), q2)" "bq_inv q2"
      "bq_bits q2 = bq_bits q1 @ wbits (8 * (n1 div 8)) d1"
      "back_blank_bit_count q2 = (if 8 \<le> n1 then 0 else back_blank_bit_count q1)"
  proof -
    have "n1 \<le> 64" and "8 \<le> n1 \<longrightarrow> (\<exists>f m b fb. q1 = BQ 8 (f # m @ [b]) fb)"
      using n q1(4) by (simp_all add: n1_def)
    from add_back_bytes_phase [OF q1(2) this, of d1] show thesis
      using that by blast
  qed
  define d2 n2 where "d2 = drop_bit (8 * (n1 div 8)) d1" and "n2 = n1 mod 8"
  have n2: "n1 - 8 * (n1 div 8) = n2" "n2 < 8"
    by (simp_all add: n2_def minus_mult_div_eq_mod)
  have d2: "take_bit n2 d2 = d2"
    using take_bit_drop_bit_clear [OF d1, of "8 * (n1 div 8)"] by (simp add: d2_def n2(1))
  have "min n2 (if back_blank_bit_count q2 = 0 then 8 else back_blank_bit_count q2) = n2"
    using q2(4) q1(4) n2 k by (auto simp: n1_def)
  then obtain q3 where q3: "add_some_back_bits q2 d2 n2 = Some (n2, q3)" "bq_inv q3"
      "bq_bits q3 = bq_bits q2 @ wbits n2 d2"
    using add_some_back_bits_correct [OF q2(2) d2] by auto
  have "n1 < 64"
    using n inv by (auto simp: n1_def k_def bq_inv_def min_def split: if_splits)
  then have "8 * (n1 div 8) < 64"
    by linarith
  then have "add_bits q d n = Some q3"
    using n k n2 q1(1) q2(1) q3(1)
    by (simp add: add_bits_def n1_def [symmetric] d1_def [symmetric] d2_def [symmetric])
  moreover have "n = k + n1"
    using k by (simp add: n1_def)
  then have "wbits n d = wbits k d @ wbits (8 * (n1 div 8)) d1 @ wbits n2 d2"
    using wbits_add [of k n1 d] wbits_add [of "8 * (n1 div 8)" n2 d1]
    by (simp add: d1_def d2_def n2_def)
  ultimately show ?thesis
    using q1(3) q2(3) q3(2,3) by simp
qed

subsection \<open>Reading\<close>

lemma wbits_ucast_up: "n \<le> 8 \<Longrightarrow> wbits n (ucast b :: u64) = wbits n (b :: u8)"
  by (rule nth_equalityI) (auto simp: bit_simps)

lemma take_bit_ucast_and_mask:
  "k \<le> 8 \<Longrightarrow> ucast (b AND ucast (mask k :: u64)) = (take_bit k (ucast b) :: u64)" for b :: u8
  by (rule bit_eqI) (auto simp: bit_simps dest: bit_imp_le_length)

lemma take_some_front_bits_pos:
  assumes k: "k = min n (8 - fb)" "0 < k" and inv: "bq_inv (BQ bb (f # m @ [b]) fb)"
  shows "\<exists>d q'. take_some_front_bits (BQ bb (f # m @ [b]) fb) n = Some ((d, k), q') \<and>
    bq_inv q' \<and> take_bit k d = d \<and> bq_bits (BQ bb (f # m @ [b]) fb) = wbits k d @ bq_bits q' \<and>
    (k < n \<longrightarrow> front_blank_bit_count q' = 0 \<and> length (byte_queue q') \<ge> 2 \<or>
       front_blank_bit_count q' = 8 \<and> length (byte_queue q') = 2)"
proof -
  define f' where "f' = (if k < 8 then drop_bit k f else 0)"
  define d where "d = (take_bit k (ucast f) :: u64)"
  have kk: "min n (8 - fb) = k" and k8: "k \<le> 8" "fb < 8" "k \<le> 8 - fb"
    using k by auto
  have split: "wbits (8 - fb) f = wbits k d @ wbits (8 - fb - k) f'"
  proof -
    have "wbits (8 - fb) f = wbits k f @ wbits (8 - fb - k) (drop_bit k f)"
      using k8 by (intro wbits_split)
    moreover have "wbits k d = wbits k f"
      using k8 by (simp add: d_def wbits_take_bit wbits_ucast_up)
    moreover have "k = 8 \<Longrightarrow> 8 - fb - k = 0" using k8 by simp
    ultimately show ?thesis by (auto simp: f'_def)
  qed
  have ones: "low_order_ones k = Some (mask k)" using k8 by (simp add: low_order_ones_mask)
  define q1 where "q1 = BQ bb (f' # m @ [b]) (fb + k)"
  have step: "take_some_front_bits (BQ bb (f # m @ [b]) fb) n =
    Some ((d, k), if fb + k = 8 \<and> m \<noteq> [] then pop_front_byte q1 else q1)"
    using k(2) k8 ones kk
    by (auto simp: take_some_front_bits_def front_full_bit_count_def take_bit_ucast_and_mask
        d_def q1_def f'_def pop_front_byte_def Let_def)
  have q1: "bq_inv q1" "bq_bits q1 = wbits (8 - fb - k) f' @ concat (map (wbits 8) m) @ wbits (8 - bb) b"
    using inv k8 by (simp_all add: q1_def)
  have d: "take_bit k d = d" by (simp add: d_def)
  show ?thesis
  proof (cases "fb + k = 8 \<and> m \<noteq> []")
    case True
    then obtain x m' where m: "m = x # m'" by (cases m) auto
    have pop: "pop_front_byte q1 = BQ bb (x # m' @ [b]) 0"
      by (simp add: pop_front_byte_def q1_def m)
    have "bq_inv (pop_front_byte q1)"
      using inv unfolding pop by simp
    moreover have "bq_bits (BQ bb (f # m @ [b]) fb) = wbits k d @ bq_bits (pop_front_byte q1)"
      unfolding pop bq_bits_BQ split using True by (simp add: m)
    ultimately show ?thesis
      using step True d by (simp add: pop)
  next
    case False
    then have "k < n \<longrightarrow> fb + k = 8 \<and> m = []"
      using k by auto
    moreover have "bq_bits (BQ bb (f # m @ [b]) fb) = wbits k d @ bq_bits q1"
      by (simp add: split q1)
    ultimately show ?thesis
      using step False d q1 by (auto simp: q1_def)
  qed
qed

lemma take_some_front_bits_none:
  assumes "front_blank_bit_count q \<le> 8" "n = 0 \<or> front_blank_bit_count q = 8"
    and "\<not> (front_blank_bit_count q = 8 \<and> 2 < length (byte_queue q))"
  shows "take_some_front_bits q n = Some ((0, 0), q)"
  using assms by (auto simp: take_some_front_bits_def front_full_bit_count_def)

lemma take_some_front_bits_pop:
  "front_blank_bit_count q = 8 \<Longrightarrow> 2 < length (byte_queue q) \<Longrightarrow>
   take_some_front_bits q n = take_some_front_bits (pop_front_byte q) n"
  by (cases q) (simp add: take_some_front_bits_def front_full_bit_count_def pop_front_byte_def)

text \<open>
  What one call of \<open>take_some_front_bits\<close> does: it takes the next \<open>k\<close> bits, and when that is
  fewer than asked for, the front byte is either completely unread or exhausted next to the
  back byte.
\<close>

definition front_ready :: "bit_queue \<Rightarrow> bool" where
  "front_ready q \<longleftrightarrow> front_blank_bit_count q = 0 \<and> length (byte_queue q) \<ge> 2 \<or>
     front_blank_bit_count q = 8 \<and> length (byte_queue q) \<le> 2"

lemma take_some_front_bits_many:
  assumes inv: "bq_inv (BQ bb (f # m @ [b]) fb)" and "\<not> (fb = 8 \<and> m \<noteq> [])"
  shows "\<exists>d k q'. take_some_front_bits (BQ bb (f # m @ [b]) fb) n = Some ((d, k), q') \<and>
    k \<le> n \<and> k \<le> 8 \<and> bq_inv q' \<and> take_bit k d = d \<and>
    bq_bits (BQ bb (f # m @ [b]) fb) = wbits k d @ bq_bits q' \<and>
    (k < n \<longrightarrow> front_ready q') \<and> (fb = 0 \<and> n \<le> 8 \<longrightarrow> k = n)"
proof (cases "n = 0 \<or> fb = 8")
  case True
  have "take_some_front_bits (BQ bb (f # m @ [b]) fb) n = Some ((0, 0), BQ bb (f # m @ [b]) fb)"
    using True inv assms(2) by (intro take_some_front_bits_none) auto
  then show ?thesis
    using inv assms(2) True by (auto simp: front_ready_def)
next
  case False
  then have "0 < min n (8 - fb)"
    using inv by auto
  from take_some_front_bits_pos [OF refl this inv] obtain d q' where
    "take_some_front_bits (BQ bb (f # m @ [b]) fb) n = Some ((d, min n (8 - fb)), q')"
    "bq_inv q'" "take_bit (min n (8 - fb)) d = d"
    "bq_bits (BQ bb (f # m @ [b]) fb) = wbits (min n (8 - fb)) d @ bq_bits q'"
    "min n (8 - fb) < n \<longrightarrow> front_ready q'"
    unfolding front_ready_def by (metis order_refl)
  then show ?thesis by auto
qed

lemma take_some_front_bits_correct:
  assumes inv: "bq_inv q"
  shows "\<exists>d k q'. take_some_front_bits q n = Some ((d, k), q') \<and> k \<le> n \<and> k \<le> 8 \<and>
    bq_inv q' \<and> take_bit k d = d \<and> bq_bits q = wbits k d @ bq_bits q' \<and>
    (k < n \<longrightarrow> front_ready q') \<and> (front_blank_bit_count q = 0 \<and> n \<le> 8 \<longrightarrow> k = n)"
  using inv
proof (cases rule: bq_cases)
  case (many bb f m b fb)
  show ?thesis
  proof (cases "fb = 8 \<and> m \<noteq> []")
    case True
    then obtain x m' where m: "m = x # m'" by (cases m) auto
    have pop: "pop_front_byte q = BQ bb (x # m' @ [b]) 0"
      by (simp add: pop_front_byte_def many m)
    have "bq_inv (BQ bb (x # m' @ [b]) 0)"
      using many by simp
    note * = take_some_front_bits_many [OF this, of n]
    have "take_some_front_bits q n = take_some_front_bits (BQ bb (x # m' @ [b]) 0) n"
      unfolding pop [symmetric] using True many by (intro take_some_front_bits_pop) simp_all
    moreover have "bq_bits q = bq_bits (BQ bb (x # m' @ [b]) 0)"
      unfolding many(1) bq_bits_BQ using True by (simp add: m)
    moreover have "front_blank_bit_count q \<noteq> 0"
      using many(1) True by simp
    ultimately show ?thesis
      using * by auto
  next
    case False
    from take_some_front_bits_many [OF _ this] inv show ?thesis
      unfolding many by simp
  qed
next
  case (single f)
  then show ?thesis
    using inv take_some_front_bits_none [of q n] by (auto simp: front_ready_def)
qed

lemma take_bytes_loop_correct:
  assumes "n div 8 \<le> length bs" and "n \<le> orig" and "orig \<le> 64"
    and "take_bit (orig - n) d = d"
  shows "\<exists>d'. take_bytes_loop bs d orig n = Some (d', n mod 8, drop (n div 8) bs) \<and>
    take_bit (orig - n mod 8) d' = d' \<and>
    wbits (orig - n mod 8) d' = wbits (orig - n) d @ concat (map (wbits 8) (take (n div 8) bs))"
  using assms
proof (induction bs d orig n rule: take_bytes_loop.induct)
  case (1 bs d orig n)
  show ?case
  proof (cases "8 \<le> n")
    case True
    then obtain x rest where bs: "bs = x # rest"
      using "1.prems"(1) by (cases bs) auto
    have n: "n div 8 = Suc ((n - 8) div 8)" "n mod 8 = (n - 8) mod 8"
      using True by (simp_all add: le_div_geq le_mod_geq)
    define d1 where "d1 = d OR push_bit (orig - n) (ucast x)"
    have p: "orig - (n - 8) = (orig - n) + 8" "orig - n + 8 \<le> 64"
      using True "1.prems"(2,3) by simp_all
    have "take_bit 8 (ucast x :: u64) = ucast x"
      by (rule bit_eqI) (auto simp: bit_simps dest: bit_imp_le_length)
    then have t: "take_bit (orig - (n - 8)) d1 = d1"
      unfolding d1_def p(1) using "1.prems"(4) by (intro take_bit_or_push_bit) simp_all
    have w: "wbits (orig - (n - 8)) d1 = wbits (orig - n) d @ wbits 8 x"
      unfolding d1_def p(1) using "1.prems"(4) p(2)
      by (subst wbits_or_push_bit) (simp_all add: wbits_ucast_up)
    have sh: "shl (ucast x :: u64) (orig - n) = Some (push_bit (orig - n) (ucast x))"
      using p(2) by simp
    have pre: "(n - 8) div 8 \<le> length rest" "n - 8 \<le> orig"
      using "1.prems"(1,2) n by (simp_all add: bs)
    from "1.IH" [OF True bs sh, folded d1_def, OF pre "1.prems"(3) t]
    obtain d' where d': "take_bytes_loop rest d1 orig (n - 8) =
        Some (d', (n - 8) mod 8, drop ((n - 8) div 8) rest)"
      "take_bit (orig - (n - 8) mod 8) d' = d'"
      "wbits (orig - (n - 8) mod 8) d' = wbits (orig - (n - 8)) d1 @
         concat (map (wbits 8) (take ((n - 8) div 8) rest))"
      by blast
    then show ?thesis
      using True w by (subst take_bytes_loop.simps) (simp add: bs sh n d1_def [symmetric])
  next
    case False
    then show ?thesis
      using "1.prems" by (subst take_bytes_loop.simps) simp
  qed
qed

lemma flat_take:
  assumes "k \<le> length (m @ [b])" and "8 * k \<le> 8 * length m + (8 - bb)" "bb \<le> 8"
  shows "concat (map (wbits 8) m) @ wbits (8 - bb) (b :: u8) =
    concat (map (wbits 8) (take k (m @ [b]))) @
      (if k \<le> length m then concat (map (wbits 8) (drop k m)) @ wbits (8 - bb) b else [])"
proof (cases "k \<le> length m")
  case True
  have "concat (map (wbits 8) m) =
    concat (map (wbits 8) (take k m)) @ concat (map (wbits 8) (drop k m))"
    by (metis append_take_drop_id concat_append map_append)
  with True show ?thesis by simp
next
  case False
  with assms have "k = Suc (length m)" "bb = 0" by auto
  then show ?thesis by simp
qed

lemma front_ready_view:
  assumes inv: "bq_inv q" and "front_ready q" and "bq_bits q \<noteq> []"
  obtains bb m b where "bb \<le> 8" "take_bit (8 - bb) b = b"
    "(if front_blank_bit_count q = 8 then pop_front_byte q else q) = BQ bb (m @ [b]) 0"
    "bq_bits q = concat (map (wbits 8) m) @ wbits (8 - bb) b"
  using inv
proof (cases rule: bq_cases)
  case (many bb f m b fb)
  show thesis
  proof (cases "fb = 8")
    case True
    then have "m = []"
      using assms(2) many by (simp add: front_ready_def)
    then show thesis
      using that [of bb b "[]"] many True by (simp add: pop_front_byte_def)
  next
    case False
    then have "fb = 0"
      using assms(2) many by (simp add: front_ready_def)
    then show thesis
      using that [of bb b "f # m"] many by simp
  qed
next
  case (single f)
  then show thesis using assms(3) by simp
qed

text \<open>The queue that \<open>take_front_bytes\<close> leaves, from the bytes it did not take.\<close>

definition rest_queue :: "nat \<Rightarrow> u8 list \<Rightarrow> bit_queue" where
  "rest_queue bb bs = (if length bs < 2 then BQ bb (0 # bs) 8 else BQ bb bs 0)"

lemma rest_queue_nil: "bq_inv (rest_queue 0 [])" "bq_bits (rest_queue 0 []) = []"
  "front_ready (rest_queue 0 [])"
  by (simp_all add: rest_queue_def front_ready_def)

lemma rest_queue_snoc:
  assumes "bb \<le> 8" "take_bit (8 - bb) b = b"
  shows "bq_inv (rest_queue bb (m @ [b]))" "front_ready (rest_queue bb (m @ [b]))"
    "bq_bits (rest_queue bb (m @ [b])) = concat (map (wbits 8) m) @ wbits (8 - bb) b"
proof -
  have "bq_inv (rest_queue bb (m @ [b])) \<and> front_ready (rest_queue bb (m @ [b])) \<and>
    bq_bits (rest_queue bb (m @ [b])) = concat (map (wbits 8) m) @ wbits (8 - bb) b"
  proof (cases m)
    case Nil
    have "rest_queue bb (m @ [b]) = BQ bb (0 # [] @ [b]) 8"
      by (simp add: rest_queue_def Nil)
    then show ?thesis
      using assms Nil by (simp only: bq_inv_BQ bq_bits_BQ) (simp add: front_ready_def)
  next
    case (Cons x m')
    have "rest_queue bb (m @ [b]) = BQ bb (x # m' @ [b]) 0"
      by (simp add: rest_queue_def Cons)
    then show ?thesis
      using assms Cons by (simp only: bq_inv_BQ bq_bits_BQ) (simp add: front_ready_def)
  qed
  then show "bq_inv (rest_queue bb (m @ [b]))" "front_ready (rest_queue bb (m @ [b]))"
    "bq_bits (rest_queue bb (m @ [b])) = concat (map (wbits 8) m) @ wbits (8 - bb) b"
    by auto
qed

lemma take_front_bytes_correct:
  assumes inv: "bq_inv q" and ready: "front_ready q" and n: "8 \<le> n" "n \<le> 64"
    and len: "n \<le> length (bq_bits q)"
  shows "\<exists>d q'. take_front_bytes q n = Some ((d, 8 * (n div 8)), q') \<and> bq_inv q' \<and>
    take_bit (8 * (n div 8)) d = d \<and> bq_bits q = wbits (8 * (n div 8)) d @ bq_bits q' \<and>
    front_ready q'"
proof -
  from len n have "bq_bits q \<noteq> []" by auto
  with inv ready obtain bb m b where v: "bb \<le> 8" "take_bit (8 - bb) b = b"
    "(if front_blank_bit_count q = 8 then pop_front_byte q else q) = BQ bb (m @ [b]) 0"
    "bq_bits q = concat (map (wbits 8) m) @ wbits (8 - bb) b"
    by (rule front_ready_view)
  define k where "k = n div 8"
  have "length (bq_bits q) = 8 * length m + (8 - bb)"
    unfolding v(4) by (simp add: length_concat comp_def sum_list_triv)
  then have bits_k: "8 * k \<le> 8 * length m + (8 - bb)"
    using len times_div_less_eq_dividend [of 8 n] unfolding k_def by linarith
  then have k: "k \<le> length (m @ [b])"
    by simp
  obtain d where d: "take_bytes_loop (m @ [b]) 0 n n = Some (d, n mod 8, drop k (m @ [b]))"
    "take_bit (8 * k) d = d" "wbits (8 * k) d = concat (map (wbits 8) (take k (m @ [b])))"
    using take_bytes_loop_correct [of n "m @ [b]" n 0] k n
    by (auto simp: k_def minus_mod_eq_mult_div)
  have step: "take_front_bytes q n = Some ((d, 8 * k), rest_queue bb (drop k (m @ [b])))"
    using n v(3) d(1)
    by (auto simp: take_front_bytes_def rest_queue_def minus_mod_eq_mult_div k_def Let_def)
  have rest: "bq_inv (rest_queue bb (drop k (m @ [b])))"
    "front_ready (rest_queue bb (drop k (m @ [b])))"
    "bq_bits (rest_queue bb (drop k (m @ [b]))) =
      (if k \<le> length m then concat (map (wbits 8) (drop k m)) @ wbits (8 - bb) b else [])"
  proof -
    consider "k \<le> length m" | "k = Suc (length m)" "bb = 0"
      using k bits_k v(1) by fastforce
    then have "bq_inv (rest_queue bb (drop k (m @ [b]))) \<and>
      front_ready (rest_queue bb (drop k (m @ [b]))) \<and>
      bq_bits (rest_queue bb (drop k (m @ [b]))) =
      (if k \<le> length m then concat (map (wbits 8) (drop k m)) @ wbits (8 - bb) b else [])"
      by cases (simp_all add: rest_queue_snoc [OF v(1,2)] rest_queue_nil)
    then show "bq_inv (rest_queue bb (drop k (m @ [b])))"
      "front_ready (rest_queue bb (drop k (m @ [b])))"
      "bq_bits (rest_queue bb (drop k (m @ [b]))) =
        (if k \<le> length m then concat (map (wbits 8) (drop k m)) @ wbits (8 - bb) b else [])"
      by auto
  qed
  have "bq_bits q = wbits (8 * k) d @ bq_bits (rest_queue bb (drop k (m @ [b])))"
    unfolding v(4) d(3) rest(3) using k bits_k v(1) by (rule flat_take)
  with step rest(1,2) d(2) show ?thesis
    by (auto simp: k_def)
qed

text \<open>Nothing left to take: at most an empty back byte is dropped.\<close>

lemma take_some_back_bits_zero:
  assumes inv: "bq_inv q"
  shows "\<exists>q'. take_some_back_bits q 0 = Some ((0, 0), q') \<and> bq_inv q' \<and> bq_bits q' = bq_bits q"
  using inv
proof (cases rule: bq_cases)
  case (many bb f m b fb)
  have ones: "low_order_ones 0 = Some 0" by (simp add: low_order_ones_mask)
  show ?thesis
  proof (cases "bb = 8 \<and> m \<noteq> []")
    case True
    then obtain m' x where m: "m = m' @ [x]" by (cases m rule: rev_cases) auto
    have "take_some_back_bits q 0 = Some ((0, 0), BQ 0 (f # m' @ [x]) fb)"
      using True many
      by (simp add: take_some_back_bits_def back_full_bit_count_def ones m butlast_append)
    moreover have "bq_bits q = bq_bits (BQ 0 (f # m' @ [x]) fb)"
      unfolding many(1) bq_bits_BQ using True by (simp add: m)
    ultimately show ?thesis
      using many by simp
  next
    case False
    then have "take_some_back_bits q 0 = Some ((0, 0), q)"
      using many
      by (auto simp: take_some_back_bits_def back_full_bit_count_def ones)
    then show ?thesis using inv by simp
  qed
next
  case (single f)
  then show ?thesis
    by (simp add: take_some_back_bits_def back_full_bit_count_def low_order_ones_mask)
qed

lemma take_some_back_bits_last:
  assumes "take_bit (8 - bb) b = b" "bb \<le> 8" and n: "n \<le> 8 - bb" "n < 8"
  shows "\<exists>d q'. take_some_back_bits (BQ bb [f, b] 8) n = Some ((d, n), q') \<and> bq_inv q' \<and>
    take_bit n d = d \<and> bq_bits (BQ bb [f, b] 8) = wbits n d @ bq_bits q'"
proof -
  define d where "d = (take_bit n (ucast b) :: u64)"
  have ones: "low_order_ones n = Some (mask n)" using n by (simp add: low_order_ones_mask)
  have mn: "min n (8 - bb) = n" using n by simp
  have "ucast (if 8 - bb - n < 8 then b AND ucast (mask n :: u64) else 0) = d"
  proof (cases "8 - bb - n < 8")
    case True
    then show ?thesis using n by (simp add: d_def take_bit_ucast_and_mask)
  next
    case False
    then have "n = 0" by simp
    then show ?thesis using False by (simp add: d_def)
  qed
  then have "take_some_back_bits (BQ bb [f, b] 8) n =
    Some ((d, n), BQ (bb + n) [f, drop_bit n b] 8)"
    using assms by (simp add: take_some_back_bits_def back_full_bit_count_def ones mn)
  moreover have "wbits (8 - bb) b = wbits n d @ wbits (8 - bb - n) (drop_bit n b)"
    using wbits_split [of n "8 - bb" b] n by (simp add: d_def wbits_take_bit wbits_ucast_up)
  moreover have "take_bit (8 - bb - n) (drop_bit n b) = drop_bit n b"
    using take_bit_drop_bit_clear [OF assms(1)] by simp
  moreover have "take_bit n d = d" by (simp add: d_def)
  ultimately show ?thesis
    using n assms by auto
qed

text \<open>
  The last two phases of \<open>take_bits\<close> together: fewer than eight bits are left to take, from
  the front byte if that is unread, else from the back byte.
\<close>

lemma take_last_phases:
  assumes inv: "bq_inv q" and ready: "n = 0 \<or> front_ready q" and n: "n < 8"
    and len: "n \<le> length (bq_bits q)"
  shows "\<exists>d3 n3 q3 d4 n4 q4. take_some_front_bits q n = Some ((d3, n3), q3) \<and>
    take_some_back_bits q3 (n - n3) = Some ((d4, n4), q4) \<and> n3 + n4 = n \<and>
    take_bit n3 d3 = d3 \<and> take_bit n4 d4 = d4 \<and> bq_inv q4 \<and>
    bq_bits q = wbits n3 d3 @ wbits n4 d4 @ bq_bits q4"
proof -
  obtain d3 n3 q3 where t: "take_some_front_bits q n = Some ((d3, n3), q3)" "n3 \<le> n"
    "bq_inv q3" "take_bit n3 d3 = d3" "bq_bits q = wbits n3 d3 @ bq_bits q3"
    "front_blank_bit_count q = 0 \<and> n \<le> 8 \<longrightarrow> n3 = n" "n3 < n \<longrightarrow> front_ready q3"
    using take_some_front_bits_correct [OF inv, of n] by blast
  show ?thesis
  proof (cases "n3 = n")
    case True
    then show ?thesis
      using t take_some_back_bits_zero [OF t(3)] by fastforce
  next
    case False
    with t have "front_blank_bit_count q \<noteq> 0" using n by auto
    with False t ready have r: "front_blank_bit_count q = 8" "length (byte_queue q) \<le> 2"
      by (auto simp: front_ready_def)
    then have none: "take_some_front_bits q n = Some ((0, 0), q)"
      by (intro take_some_front_bits_none) auto
    from inv obtain bb f b where q: "q = BQ bb [f, b] 8" "bb \<le> 8" "take_bit (8 - bb) b = b"
    proof (cases rule: bq_cases)
      case (many bb f m b fb)
      with r that [of bb f b] show thesis by simp
    next
      case (single f)
      with len False t(2) show thesis by simp
    qed
    from take_some_back_bits_last [OF q(3,2), of n f] len n
    obtain d4 q4 where "take_some_back_bits q n = Some ((d4, n), q4)" "bq_inv q4"
      "take_bit n d4 = d4" "bq_bits q = wbits n d4 @ bq_bits q4"
      unfolding q(1) by auto
    with none show ?thesis
      by (intro exI [of _ 0] exI [of _ q] exI [of _ d4] exI [of _ n] exI [of _ q4]) simp
  qed
qed

lemma join_parts:
  assumes "take_bit a d1 = d1" "take_bit b d2 = d2" "take_bit c d3 = d3" "take_bit e d4 = d4"
    and "a + b + c + e \<le> 64"
  defines "d \<equiv> ((d1 OR push_bit a d2) OR push_bit (a + b) d3) OR push_bit (a + b + c) (d4 :: u64)"
  shows "take_bit (a + b + c + e) d = d"
    "wbits (a + b + c + e) d = wbits a d1 @ wbits b d2 @ wbits c d3 @ wbits e d4"
proof -
  have 1: "take_bit (a + b) (d1 OR push_bit a d2) = d1 OR push_bit a d2"
    using assms(1,2) by (rule take_bit_or_push_bit)
  have 2: "take_bit (a + b + c) ((d1 OR push_bit a d2) OR push_bit (a + b) d3) =
    (d1 OR push_bit a d2) OR push_bit (a + b) d3"
    using 1 assms(3) by (rule take_bit_or_push_bit)
  show "take_bit (a + b + c + e) d = d"
    unfolding d_def using 2 assms(4) by (rule take_bit_or_push_bit)
  show "wbits (a + b + c + e) d = wbits a d1 @ wbits b d2 @ wbits c d3 @ wbits e d4"
    unfolding d_def using assms(1,5) 1 2 by (simp add: wbits_or_push_bit)
qed

lemma take_front_bytes_phase:
  assumes inv: "bq_inv q" and ready: "n = 0 \<or> front_ready q" and n: "n \<le> 64"
    and len: "n \<le> length (bq_bits q)"
  shows "\<exists>d q'. take_front_bytes q n = Some ((d, 8 * (n div 8)), q') \<and> bq_inv q' \<and>
    take_bit (8 * (n div 8)) d = d \<and> bq_bits q = wbits (8 * (n div 8)) d @ bq_bits q' \<and>
    (n mod 8 = 0 \<or> front_ready q')"
proof (cases "8 \<le> n")
  case True
  then have "front_ready q" using ready by auto
  from take_front_bytes_correct [OF inv this True n len] show ?thesis by blast
next
  case False
  then show ?thesis using inv ready by (auto simp: take_front_bytes_def)
qed

theorem take_bits_correct:
  assumes inv: "bq_inv q" and n: "n \<le> 64" and len: "n \<le> length (bq_bits q)"
  shows "\<exists>d q'. take_bits q n = Some (Some d, q') \<and> bq_inv q' \<and> take_bit n d = d \<and>
    bq_bits q = wbits n d @ bq_bits q'"
proof -
  obtain d1 n1 q1 where t1: "take_some_front_bits q n = Some ((d1, n1), q1)" "n1 \<le> n" "n1 \<le> 8"
    "bq_inv q1" "take_bit n1 d1 = d1" "bq_bits q = wbits n1 d1 @ bq_bits q1"
    "n1 < n \<longrightarrow> front_ready q1"
    using take_some_front_bits_correct [OF inv, of n] by blast
  define l1 where "l1 = n - n1"
  have l1: "l1 = 0 \<or> front_ready q1" "l1 \<le> 64" "l1 \<le> length (bq_bits q1)"
    using t1 n len by (auto simp: l1_def)
  define n2 where "n2 = 8 * (l1 div 8)"
  obtain d2 q2 where t2: "take_front_bytes q1 l1 = Some ((d2, n2), q2)"
    "bq_inv q2" "take_bit n2 d2 = d2"
    "bq_bits q1 = wbits n2 d2 @ bq_bits q2" "l1 mod 8 = 0 \<or> front_ready q2"
    using take_front_bytes_phase [OF t1(4) l1] unfolding n2_def by (elim exE conjE)
  have l2: "l1 - n2 = l1 mod 8" "n2 \<le> l1" "l1 mod 8 < 8"
    by (simp_all add: n2_def minus_mult_div_eq_mod)
  have "l1 mod 8 \<le> length (bq_bits q2)"
    using l1(3) l2(1) unfolding t2(4) by simp
  from take_last_phases [OF t2(2,5) l2(3) this]
  obtain d3 n3 q3 d4 n4 q4 where t3: "take_some_front_bits q2 (l1 mod 8) = Some ((d3, n3), q3)"
    "take_some_back_bits q3 (l1 mod 8 - n3) = Some ((d4, n4), q4)" "n3 + n4 = l1 mod 8"
    "take_bit n3 d3 = d3" "take_bit n4 d4 = d4" "bq_inv q4"
    "bq_bits q2 = wbits n3 d3 @ wbits n4 d4 @ bq_bits q4"
    by blast
  have sum: "n1 + n2 + n3 + n4 = n"
    using l2 t3(3) t1(2) by (simp add: l1_def)
  define d where 
    "d = ((d1 OR push_bit n1 d2) OR push_bit (n1 + n2) d3) OR push_bit (n1 + n2 + n3) d4"
  have z: "d3 = 0" if "n3 = 0" using t3(4) that by simp
  have z': "d4 = 0" if "n4 = 0" using t3(5) that by simp
  have "take_bits q n = Some (Some d, q4)"
    using n len sum t1(1,2,3) t2(1) t3(1-3) l2 z z' bq_len_bits [OF inv]
    by (auto simp: take_bits_def l1_def [symmetric] d_def)
  moreover have "take_bit n d = d"
    "wbits n d = wbits n1 d1 @ wbits n2 d2 @ wbits n3 d3 @ wbits n4 d4"
    using join_parts [OF t1(5) t2(3) t3(4,5)] sum n unfolding d_def by simp_all
  ultimately show ?thesis
    using t3(6) by (simp add: t1(6) t2(4) t3(7))
qed

lemma take_bits_short:
  assumes "bq_inv q" and "n \<le> 64" and "length (bq_bits q) < n"
  shows "take_bits q n = Some (None, q)"
  using assms by (simp add: take_bits_def bq_len_bits)

subsection \<open>The queue as an interface\<close>

text \<open>
  What clients of the queue rely on: a queue is a list of bits, writing appends a bit field,
  reading removes one from the front and reports a shortage without changing the queue.
\<close>

locale bit_fifo =
  fixes add :: "'q \<Rightarrow> u64 \<Rightarrow> nat \<Rightarrow> 'q option"
    and get :: "'q \<Rightarrow> nat \<Rightarrow> (u64 option \<times> 'q) option"
    and bits :: "'q \<Rightarrow> bool list"
    and inv :: "'q \<Rightarrow> bool"
  assumes add_law: "inv q \<Longrightarrow> n \<le> 64 \<Longrightarrow> take_bit n d = d \<Longrightarrow>
      \<exists>q'. add q d n = Some q' \<and> inv q' \<and> bits q' = bits q @ wbits n d"
    and get_law: "inv q \<Longrightarrow> n \<le> 64 \<Longrightarrow> n \<le> length (bits q) \<Longrightarrow>
      \<exists>d q'. get q n = Some (Some d, q') \<and> inv q' \<and> take_bit n d = d \<and>
        bits q = wbits n d @ bits q'"
    and get_short: "inv q \<Longrightarrow> n \<le> 64 \<Longrightarrow> length (bits q) < n \<Longrightarrow> get q n = Some (None, q)"
begin

lemma get_field:
  assumes "inv q" "n \<le> 64" "take_bit n d = d" "bits q = wbits n d @ rest"
  shows "\<exists>q'. get q n = Some (Some d, q') \<and> inv q' \<and> bits q' = rest"
proof -
  have "n \<le> length (bits q)"
    using assms(4) by simp
  from get_law [OF assms(1,2) this] obtain d' q' where g: "get q n = Some (Some d', q')"
      "inv q'" "take_bit n d' = d'" "bits q = wbits n d' @ bits q'"
    by (elim exE conjE)
  with assms(4) have "wbits n d' = wbits n d" "bits q' = rest"
    by (simp_all add: append_eq_append_conv)
  moreover from this(1) have "d' = d"
    using g(3) assms(3) by (rule wbits_inj)
  ultimately show ?thesis
    using g by simp
qed

lemma add_never_panics: "inv q \<Longrightarrow> n \<le> 64 \<Longrightarrow> take_bit n d = d \<Longrightarrow> add q d n \<noteq> None"
  using add_law by fastforce

lemma get_never_panics: "inv q \<Longrightarrow> n \<le> 64 \<Longrightarrow> get q n \<noteq> None"
  using get_law [of q n] get_short [of q n] by (cases "n \<le> length (bits q)") force+

end

interpretation bq: bit_fifo add_bits take_bits bq_bits bq_inv
  by unfold_locales (rule add_bits_correct take_bits_correct take_bits_short; assumption)+

subsection \<open>Refinement of a list of bits\<close>

text \<open>Any interleaving of writes and reads, on the queue and on a plain list of bits.\<close>

datatype bq_op = Add u64 nat | Take nat

fun bq_run :: "bit_queue \<Rightarrow> bq_op list \<Rightarrow> (u64 option list \<times> bit_queue) option" where
  "bq_run q [] = Some ([], q)"
| "bq_run q (Add d n # ops) = do { q' \<leftarrow> add_bits q d n; bq_run q' ops }"
| "bq_run q (Take n # ops) = do {
     (r, q') \<leftarrow> take_bits q n;
     (rs, q'') \<leftarrow> bq_run q' ops;
     Some (r # rs, q'') }"

fun bits_run :: "bool list \<Rightarrow> bq_op list \<Rightarrow> u64 option list \<times> bool list" where
  "bits_run bs [] = ([], bs)"
| "bits_run bs (Add d n # ops) = bits_run (bs @ wbits n d) ops"
| "bits_run bs (Take n # ops) =
     (if n \<le> length bs
      then (let (rs, bs') = bits_run (drop n bs) ops
            in (Some (horner_sum of_bool 2 (take n bs)) # rs, bs'))
      else (let (rs, bs') = bits_run bs ops in (None # rs, bs')))"

fun bq_op_ok :: "bq_op \<Rightarrow> bool" where
  "bq_op_ok (Add d n) \<longleftrightarrow> n \<le> 64 \<and> take_bit n d = d"
| "bq_op_ok (Take n) \<longleftrightarrow> n \<le> 64"

lemma horner_sum_wbits: "horner_sum of_bool 2 (wbits n d) = take_bit n d"
  by (simp add: wbits_def horner_sum_bit_eq_take_bit)

lemma bq_run_refines:
  assumes "bq_inv q" and "list_all bq_op_ok ops"
  shows "\<exists>rs q'. bq_run q ops = Some (rs, q') \<and> bq_inv q' \<and>
    bits_run (bq_bits q) ops = (rs, bq_bits q')"
  using assms
proof (induction q ops rule: bq_run.induct)
  case (1 q)
  then show ?case by simp
next
  case (2 q d n ops)
  from "2.prems" obtain q' where "add_bits q d n = Some q'" "bq_inv q'"
      "bq_bits q' = bq_bits q @ wbits n d"
    using bq.add_law [of q n d] by auto
  with "2.IH" "2.prems"(2) show ?case by simp
next
  case (3 q n ops)
  have n: "n \<le> 64" and ops: "list_all bq_op_ok ops"
    using "3.prems" by simp_all
  show ?case
  proof (cases "n \<le> length (bq_bits q)")
    case True
    from bq.get_law [OF "3.prems"(1) n this] obtain d q' where
      t: "take_bits q n = Some (Some d, q')" "bq_inv q'" "take_bit n d = d"
         "bq_bits q = wbits n d @ bq_bits q'"
      by (elim exE conjE)
    from "3.IH" [OF t(1) refl t(2) ops] obtain rs q'' where
      "bq_run q' ops = Some (rs, q'')" "bq_inv q''"
      "bits_run (bq_bits q') ops = (rs, bq_bits q'')"
      by blast
    with t show ?thesis
      by (simp add: horner_sum_wbits)
  next
    case False
    then have t: "take_bits q n = Some (None, q)"
      using bq.get_short "3.prems"(1) n by simp
    from "3.IH" [OF t refl "3.prems"(1) ops] obtain rs q'' where
      "bq_run q ops = Some (rs, q'')" "bq_inv q''"
      "bits_run (bq_bits q) ops = (rs, bq_bits q'')"
      by blast
    with t False show ?thesis by simp
  qed
qed

text \<open>
  C10: A bit queue behaves as a FIFO list of bits. Starting from the empty queue, any sequence
  of \<open>add_bits\<close> and \<open>take_bits\<close> calls with at most 64 bits per call, and no data bit set above
  the stated count, runs without a panic; every read returns exactly the next bits that were
  written (\<open>None\<close> if there are too few), and the bits left in the queue are the bits left in
  the list.
\<close>

theorem bit_queue_refines_bit_list:
  assumes "list_all bq_op_ok ops"
  shows "\<exists>rs q'. bq_run bq_new ops = Some (rs, q') \<and> bits_run [] ops = (rs, bq_bits q')"
  using bq_run_refines [OF bq_new_inv assms] by (auto simp: bq_new_bits)

theorem bit_queue_refines_bit_list_witness:
  "list_all bq_op_ok [Add 5 3, Take 2, Take 7, Add 300 9, Take 10] \<and>
   (\<exists>rs q'. bq_run bq_new [Add 5 3, Take 2, Take 7, Add 300 9, Take 10] = Some (rs, q') \<and>
      bits_run [] [Add 5 3, Take 2, Take 7, Add 300 9, Take 10] = (rs, bq_bits q'))"
proof -
  have "list_all bq_op_ok [Add 5 3, Take 2, Take 7, Add 300 9, Take 10]"
    by (simp add: take_bit_less_2p)
  then show ?thesis
    using bit_queue_refines_bit_list by blast
qed

end
