(* ===== verification/Country_Blocks.thy ===== *)
theory Country_Blocks
  imports Bit_Queue "HOL-Library.Char_ord" "HOL-Library.List_Lexorder"
begin

unbundle bit_operations_syntax

section \<open>Countries, address ranges and country blocks\<close>

text \<open>
  \<open>ip_country/src/country_block_stream.rs\<close> and \<open>ip_country/src/countries.rs\<close>: the table of
  countries, address ranges with their ordering against one address, and country blocks. An
  address is its integer value: \<open>u32\<close> for \<open>Ipv4Addr\<close>, \<open>u128\<close> for \<open>Ipv6Addr\<close>. Error texts are
  strings, as in the source; the text of a panic is not kept.
\<close>

record country =
  country_index :: nat
  iso3166 :: string
  country_name :: string

definition country_new :: "nat \<Rightarrow> string \<Rightarrow> string \<Rightarrow> country" where
  "country_new idx code name = \<lparr>country_index = idx, iso3166 = code, country_name = name\<rparr>"

datatype ip_addr = IpV4 u32 | IpV6 u128

datatype ip_range = V4 u32 u32 | V6 u128 u128

record country_block =
  block_range :: ip_range
  block_country :: country

datatype ordering = Less | Equal | Greater

subsection \<open>Address ranges\<close>

fun ip_range_new :: "ip_addr \<Rightarrow> ip_addr \<Rightarrow> ip_range option" where
  "ip_range_new (IpV4 s) (IpV4 e) = Some (V4 s e)"
| "ip_range_new (IpV6 s) (IpV6 e) = Some (V6 s e)"
| "ip_range_new _ _ = None"

definition contains_inner :: "u128 \<Rightarrow> u128 \<Rightarrow> u128 \<Rightarrow> bool" where
  "contains_inner b e candidate \<longleftrightarrow> b \<le> candidate \<and> candidate \<le> e"

fun range_contains :: "ip_range \<Rightarrow> ip_addr \<Rightarrow> bool" where
  "range_contains (V4 b e) (IpV4 c) = contains_inner (ucast b) (ucast e) (ucast c)"
| "range_contains (V4 b e) (IpV6 c) = False"
| "range_contains (V6 b e) (IpV4 c) = False"
| "range_contains (V6 b e) (IpV6 c) = contains_inner b e c"

fun range_start :: "ip_range \<Rightarrow> ip_addr" where
  "range_start (V4 s e) = IpV4 s"
| "range_start (V6 s e) = IpV6 s"

fun range_end :: "ip_range \<Rightarrow> ip_addr" where
  "range_end (V4 s e) = IpV4 e"
| "range_end (V6 s e) = IpV6 e"

definition compare_with_range :: "'a::len word \<Rightarrow> 'a word \<Rightarrow> 'a word \<Rightarrow> ordering" where
  "compare_with_range ip low high =
     (if ip < low then Greater else if ip > high then Less else Equal)"

text \<open>\<open>None\<close> is the panic on an address and a range of different versions.\<close>

fun ordering_by_range :: "ip_range \<Rightarrow> ip_addr \<Rightarrow> ordering option" where
  "ordering_by_range (V4 low high) (IpV4 ip) = Some (compare_with_range ip low high)"
| "ordering_by_range (V6 low high) (IpV6 ip) = Some (compare_with_range ip low high)"
| "ordering_by_range _ _ = None"

text \<open>\<open>first + 1\<close> overflows, and panics, on the last address.\<close>

fun are_consecutive :: "ip_addr \<Rightarrow> ip_addr \<Rightarrow> bool option" where
  "are_consecutive (IpV4 a) (IpV4 b) = do { n \<leftarrow> checked_add a 1; Some (b = n) }"
| "are_consecutive (IpV6 a) (IpV6 b) = do { n \<leftarrow> checked_add a 1; Some (b = n) }"
| "are_consecutive _ _ = None"

lemma unat_ucast_u32_u128 [simp]: "unat (ucast (w :: u32) :: u128) = unat w"
proof -
  have "unat w < 2 ^ 32"
    using unsigned_less [of w] by simp
  then show ?thesis
    by (simp add: unsigned_ucast_eq take_bit_nat_eq_self_iff)
qed

lemma range_contains_V4 [simp]: "range_contains (V4 b e) (IpV4 c) \<longleftrightarrow> b \<le> c \<and> c \<le> e"
  by (simp add: contains_inner_def word_le_nat_alt)

lemma range_contains_V6 [simp]: "range_contains (V6 b e) (IpV6 c) \<longleftrightarrow> b \<le> c \<and> c \<le> e"
  by (simp add: contains_inner_def)

declare range_contains.simps(1,4) [simp del]

text \<open>The ordering and the containment test agree on ranges and addresses of one version.\<close>

lemma ordering_by_range_Equal:
  "ordering_by_range r ip = Some Equal \<longleftrightarrow> range_contains r ip"
  by (cases r; cases ip) (auto simp: compare_with_range_def)

subsection \<open>The table of countries\<close>

record countries =
  country_list :: "country list"
  index_by_iso3166 :: "(string \<times> nat) list"

text \<open>
  Collecting pairs into a \<open>HashMap\<close>: a later pair with the same key replaces the earlier one,
  which is \<open>map_of\<close> on the reversed list of pairs.
\<close>

definition countries_from :: "country list \<Rightarrow> countries" where
  "countries_from cs =
     \<lparr>country_list = cs,
      index_by_iso3166 = rev (map (\<lambda>c. (iso3166 c, country_index c)) cs)\<rparr>"

fun find_index :: "('a \<Rightarrow> bool) \<Rightarrow> 'a list \<Rightarrow> nat option" where
  "find_index P [] = None"
| "find_index P (x # xs) = (if P x then Some 0 else map_option Suc (find_index P xs))"

definition countries_new :: "(string \<times> string) list \<Rightarrow> countries" where
  "countries_new pairs =
     (let pairs = (case find_index (\<lambda>(code, _). code = ''ZZ'') pairs of
                     Some i \<Rightarrow> remove_nth i pairs
                   | None \<Rightarrow> pairs);
          pairs = sort_key fst pairs;
          cs = map (\<lambda>(i, code, name). country_new (i + 1) code name) (enumerate 0 pairs)
      in countries_from (country_new 0 ''ZZ'' ''Sentinel'' # cs))"

text \<open>The error of \<open>country_from_index\<close> is a message made of the index and the length: \<open>None\<close> here.\<close>

definition country_from_index :: "countries \<Rightarrow> nat \<Rightarrow> country option" where
  "country_from_index cs i =
     (if i < length (country_list cs) then Some (country_list cs ! i) else None)"

definition to_ascii_uppercase :: "string \<Rightarrow> string" where
  "to_ascii_uppercase =
     map (\<lambda>c. if CHR ''a'' \<le> c \<and> c \<le> CHR ''z'' then char_of (of_char c - 32 :: nat) else c)"

definition country_from_code :: "countries \<Rightarrow> string \<Rightarrow> (country, string) res" where
  "country_from_code cs code =
     (case map_of (index_by_iso3166 cs) (to_ascii_uppercase code) of
        None \<Rightarrow> Err ([CHR 0x27] @ code @ [CHR 0x27] @ '' is not a valid ISO3166 country code'')
      | Some i \<Rightarrow> expect (country_from_index cs i))"

definition countries_len :: "countries \<Rightarrow> nat" where
  "countries_len cs = length (country_list cs)"

lemma countries_new_sentinel:
  "country_from_index (countries_new pairs) 0 = Some (country_new 0 ''ZZ'' ''Sentinel'')"
  by (simp add: country_from_index_def countries_new_def countries_from_def Let_def)

lemma countries_new_index:
  assumes "i < countries_len (countries_new pairs)"
  shows "country_index (country_list (countries_new pairs) ! i) = i"
  using assms
  by (cases i) (auto simp: countries_len_def countries_new_def countries_from_def Let_def
      country_new_def nth_enumerate_eq split: prod.split)

end
