(* ===== verification/Country_Serde.thy ===== *)
theory Country_Serde
  imports Country_Blocks
begin

unbundle bit_operations_syntax

section \<open>The compressed country-block format\<close>

text \<open>
  \<open>ip_country/src/country_block_serde.rs\<close> and the word-packing loop of
  \<open>ip_country/src/ip_country.rs\<close>. Blocks of consecutive addresses are written to a bit queue
  as the parts (octets or segments) of the start address that differ from the previous start
  address, followed by a nine-bit country index; the reader rebuilds each start address from
  the one before it. The Rust code is generic in the address type; the model is polymorphic in
  the width \<open>'a\<close> of the address and takes the three bit counts that \<open>add_ip\<close> passes to
  \<open>add_ip_generic\<close> as arguments. The locale \<open>ip_segments\<close> states what the codec needs of an
  address type; it is interpreted for IPv4 and for IPv6, and its round-trip lemma gives the
  properties of both.
\<close>

subsection \<open>Addresses\<close>

text \<open>\<open>segments\<close> of an address, most significant first, each widened to \<open>u64\<close>.\<close>

definition segments :: "nat \<Rightarrow> 'a::len word \<Rightarrow> u64 list" where
  "segments sb ip =
     map (\<lambda>i. ucast (take_bit sb (drop_bit (LENGTH('a) - sb * Suc i) ip))) [0..<LENGTH('a) div sb]"

definition from_segments :: "nat \<Rightarrow> u64 list \<Rightarrow> 'a::len word" where
  "from_segments sb xs = foldl (\<lambda>acc s. push_bit sb acc OR ucast s) 0 xs"

definition octets :: "'a::len word \<Rightarrow> u64 list" where
  "octets ip = segments 8 ip"

definition integer_from_ip_generic :: "'a::len word \<Rightarrow> 'a word" where
  "integer_from_ip_generic ip = foldl (\<lambda>bit_data octet. push_bit 8 bit_data OR ucast octet) 0 (octets ip)"

definition plus_one_ip :: "'a::len word \<Rightarrow> 'a word" where
  "plus_one_ip ip = integer_from_ip_generic ip + 1"

definition minus_one_ip :: "'a::len word \<Rightarrow> 'a word" where
  "minus_one_ip ip = integer_from_ip_generic ip - 1"

definition max_ip_value :: "'a::len word" where
  "max_ip_value = - 1"

type_synonym difference = "nat \<times> u64"

definition ips_into_differences :: "nat \<Rightarrow> 'a::len word \<Rightarrow> 'a word \<Rightarrow> difference list" where
  "ips_into_differences sb frm to =
     map (\<lambda>(i, _, t). (i, t))
       (filter (\<lambda>(_, f, t). t \<noteq> f) (enumerate 0 (zip (segments sb frm) (segments sb to))))"

subsection \<open>Serializer\<close>

record 'ip ip_serializer =
  prev_start :: 'ip
  prev_end :: 'ip
  block_count :: nat
  ser_queue :: bit_queue

definition ip_serializer_new :: "'a::len word \<Rightarrow> 'a word \<Rightarrow> 'a word ip_serializer" where
  "ip_serializer_new s e = \<lparr>prev_start = s, prev_end = e, block_count = 0, ser_queue = bq_new\<rparr>"

fun add_differences :: "bit_queue \<Rightarrow> difference list \<Rightarrow> nat \<Rightarrow> nat \<Rightarrow> bit_queue option" where
  "add_differences q [] ib sb = Some q"
| "add_differences q ((i, v) # ds) ib sb = do {
     q \<leftarrow> add_bits q (of_nat i) ib;
     q \<leftarrow> add_bits q v sb;
     add_differences q ds ib sb }"

function add_ip_generic ::
    "'a::len word ip_serializer \<Rightarrow> 'a word \<Rightarrow> 'a word \<Rightarrow> nat \<Rightarrow> nat \<Rightarrow> nat \<Rightarrow> nat \<Rightarrow> 'a word ip_serializer option"
  where
  "add_ip_generic s0 start end_ip country_idx cb ib sb = do {
     let expected_start = plus_one_ip (prev_end s0);
     s \<leftarrow> (if start \<noteq> expected_start
           then add_ip_generic s0 expected_start (minus_one_ip start) 0 cb ib sb
           else Some s0);
     let differences = ips_into_differences sb (prev_start s) start;
     difference_count_minus_one \<leftarrow> usub (length differences) 1;
     q \<leftarrow> add_bits (ser_queue s) (of_nat difference_count_minus_one) cb;
     q \<leftarrow> add_differences q differences ib sb;
     q \<leftarrow> add_bits q (of_nat country_idx) 9;
     Some (s\<lparr>prev_start := start, prev_end := end_ip, block_count := block_count s + 1,
             ser_queue := q\<rparr>) }"
  by pat_completeness auto
termination
  by (relation "measure (\<lambda>(s, start, _). if start \<noteq> plus_one_ip (prev_end s) then 1 else 0)") auto

declare add_ip_generic.simps [simp del]

record country_block_serializer =
  ser_ipv4 :: "u32 ip_serializer"
  ser_ipv6 :: "u128 ip_serializer"

record final_bit_queue =
  final_queue :: bit_queue
  final_block_count :: nat

definition country_block_serializer_new :: country_block_serializer where
  "country_block_serializer_new =
     \<lparr>ser_ipv4 = ip_serializer_new 0xFFFFFFFE 0xFFFFFFFF,
      ser_ipv6 = ip_serializer_new 0xFFFFFFFFFFFFFFFFFFFFFFFFFFFFFFFE
                                   0xFFFFFFFFFFFFFFFFFFFFFFFFFFFFFFFF\<rparr>"

definition add_ip_v4 :: "u32 ip_serializer \<Rightarrow> u32 \<Rightarrow> u32 \<Rightarrow> nat \<Rightarrow> u32 ip_serializer option" where
  "add_ip_v4 s start end_ip idx = add_ip_generic s start end_ip idx 2 2 8"

definition add_ip_v6 :: "u128 ip_serializer \<Rightarrow> u128 \<Rightarrow> u128 \<Rightarrow> nat \<Rightarrow> u128 ip_serializer option" where
  "add_ip_v6 s start end_ip idx = add_ip_generic s start end_ip idx 3 3 16"

definition serializer_add ::
    "country_block_serializer \<Rightarrow> country_block \<Rightarrow> country_block_serializer option" where
  "serializer_add s block =
     (case block_range block of
        V4 start end_ip \<Rightarrow>
          map_option (\<lambda>v. s\<lparr>ser_ipv4 := v\<rparr>)
            (add_ip_v4 (ser_ipv4 s) start end_ip (country_index (block_country block)))
      | V6 start end_ip \<Rightarrow>
          map_option (\<lambda>v. s\<lparr>ser_ipv6 := v\<rparr>)
            (add_ip_v6 (ser_ipv6 s) start end_ip (country_index (block_country block))))"

definition serializer_finish ::
    "country_block_serializer \<Rightarrow> (final_bit_queue \<times> final_bit_queue) option" where
  "serializer_finish s = do {
     v4 \<leftarrow> (if prev_end (ser_ipv4 s) \<noteq> 0xFFFFFFFF
            then add_ip_v4 (ser_ipv4 s) (plus_one_ip (prev_end (ser_ipv4 s))) 0xFFFFFFFF 0
            else Some (ser_ipv4 s));
     v6 \<leftarrow> (if prev_end (ser_ipv6 s) \<noteq> 0xFFFFFFFFFFFFFFFFFFFFFFFFFFFFFFFF
            then add_ip_v6 (ser_ipv6 s) (plus_one_ip (prev_end (ser_ipv6 s)))
                   0xFFFFFFFFFFFFFFFFFFFFFFFFFFFFFFFF 0
            else Some (ser_ipv6 s));
     Some (\<lparr>final_queue = ser_queue v4, final_block_count = block_count v4\<rparr>,
           \<lparr>final_queue = ser_queue v6, final_block_count = block_count v6\<rparr>) }"

fun serializer_add_all ::
    "country_block_serializer \<Rightarrow> country_block list \<Rightarrow> country_block_serializer option" where
  "serializer_add_all s [] = Some s"
| "serializer_add_all s (b # bs) = do { s' \<leftarrow> serializer_add s b; serializer_add_all s' bs }"

subsection \<open>Packing into 64-bit words and back\<close>

text \<open>
  The values that \<open>generate_country_block_code\<close> writes into the generated source (the text
  around them is left out), and the bit count it writes with them.
\<close>

partial_function (option) drain_words :: "bit_queue \<Rightarrow> u64 list option" where
  "drain_words q = do {
     len \<leftarrow> bq_len q;
     if len \<ge> 64 then do {
       (r, q') \<leftarrow> take_bits q 64;
       w \<leftarrow> r;
       ws \<leftarrow> drain_words q';
       Some (w # ws) }
     else do {
       e \<leftarrow> bq_is_empty q;
       if \<not> e then do { (r, q') \<leftarrow> take_bits q len; w \<leftarrow> r; Some [w] }
       else Some [] } }"

definition generate_country_block_data :: "bit_queue \<Rightarrow> (u64 list \<times> nat) option" where
  "generate_country_block_data q = do {
     len \<leftarrow> bq_len q;
     ws \<leftarrow> drain_words q;
     Some (ws, len) }"

fun add_words :: "bit_queue \<Rightarrow> u64 list \<Rightarrow> nat \<Rightarrow> bit_queue option" where
  "add_words q ws bit_count =
     (if bit_count \<ge> 64 then
        (case ws of [] \<Rightarrow> None
         | w # ws' \<Rightarrow> do { q' \<leftarrow> add_bits q w 64; add_words q' ws' (bit_count - 64) })
      else if bit_count > 0 then (case ws of [] \<Rightarrow> None | w # _ \<Rightarrow> add_bits q w bit_count)
      else Some q)"

declare add_words.simps [simp del]

definition bit_queue_from_country_data :: "u64 list \<times> nat \<Rightarrow> bit_queue option" where
  "bit_queue_from_country_data data = add_words bq_new (fst data) (snd data)"

subsection \<open>Deserializer\<close>

record 'ip stream_record =
  rec_start :: 'ip
  rec_country_idx :: nat

record 'ip deserializer =
  deser_countries :: countries
  prev_record :: "'ip stream_record"
  deser_queue :: bit_queue
  deser_empty :: bool

definition read_difference_count :: "bit_queue \<Rightarrow> nat \<Rightarrow> (nat option \<times> bit_queue) option" where
  "read_difference_count q cb = do {
     (r, q') \<leftarrow> take_bits q cb;
     Some (map_option (\<lambda>d. unat (d + 1)) r, q') }"

fun read_differences :: "bit_queue \<Rightarrow> nat \<Rightarrow> nat \<Rightarrow> nat \<Rightarrow> (difference list \<times> bit_queue) option" where
  "read_differences q 0 ib sb = Some ([], q)"
| "read_differences q (Suc n) ib sb = do {
     (ri, q) \<leftarrow> take_bits q ib;
     case ri of
       None \<Rightarrow> read_differences q n ib sb
     | Some i \<Rightarrow> do {
         (rv, q) \<leftarrow> take_bits q sb;
         case rv of
           None \<Rightarrow> read_differences q n ib sb
         | Some v \<Rightarrow> do {
             (ds, q) \<leftarrow> read_differences q n ib sb;
             Some ((unat i, v) # ds, q) } } }"

text \<open>
  \<open>segments[d.index] = SegmentNumRep::try_from(d.value).expect(..)\<close> for each difference.
\<close>

fun apply_differences :: "nat \<Rightarrow> u64 list \<Rightarrow> difference list \<Rightarrow> u64 list option" where
  "apply_differences sb segs [] = Some segs"
| "apply_differences sb segs ((i, v) # ds) =
     (if i < length segs \<and> take_bit sb v = v then apply_differences sb (segs[i := v]) ds else None)"

definition stream_record_new ::
    "nat \<Rightarrow> difference list \<Rightarrow> u64 list \<Rightarrow> nat \<Rightarrow> 'a::len word stream_record option" where
  "stream_record_new sb ds segs idx = do {
     segs' \<leftarrow> apply_differences sb segs ds;
     Some \<lparr>rec_start = from_segments sb segs', rec_country_idx = idx\<rparr> }"

definition get_record_generic ::
    "bit_queue \<Rightarrow> 'a::len word \<Rightarrow> nat \<Rightarrow> nat \<Rightarrow> nat \<Rightarrow> ('a word stream_record option \<times> bit_queue) option"
  where
  "get_record_generic q prev cb ib sb = do {
     (count_opt, q) \<leftarrow> read_difference_count q cb;
     case count_opt of
       None \<Rightarrow> Some (None, q)
     | Some difference_count \<Rightarrow> do {
         (differences, q) \<leftarrow> read_differences q difference_count ib sb;
         if length differences < difference_count then Some (None, q)
         else do {
           (idx_opt, q) \<leftarrow> take_bits q 9;
           case idx_opt of
             None \<Rightarrow> Some (None, q)
           | Some idx \<Rightarrow> do {
               r \<leftarrow> stream_record_new sb differences (segments sb prev) (unat idx);
               Some (Some r, q) } } } }"

definition new_generic ::
    "u64 list \<times> nat \<Rightarrow> 'a::len word \<Rightarrow> countries \<Rightarrow> nat \<Rightarrow> nat \<Rightarrow> nat \<Rightarrow> 'a word deserializer option"
  where
  "new_generic data previous_start cs cb ib sb = do {
     q \<leftarrow> bit_queue_from_country_data data;
     (r, q) \<leftarrow> get_record_generic q previous_start cb ib sb;
     prev \<leftarrow> r;
     Some \<lparr>deser_countries = cs, prev_record = prev, deser_queue = q, deser_empty = False\<rparr> }"

definition next_generic ::
    "'a::len word deserializer \<Rightarrow> nat \<Rightarrow> nat \<Rightarrow> nat \<Rightarrow>
     (('a word \<times> 'a word \<times> country) option \<times> 'a word deserializer) option" where
  "next_generic d cb ib sb =
     (if deser_empty d then Some (None, d)
      else do {
        (next_opt, q) \<leftarrow> get_record_generic (deser_queue d) (rec_start (prev_record d)) cb ib sb;
        let d' = d\<lparr>deser_queue := q\<rparr>;
        case next_opt of
          Some next_record \<Rightarrow> do {
            c \<leftarrow> country_from_index (deser_countries d) (rec_country_idx (prev_record d));
            Some (Some (rec_start (prev_record d), minus_one_ip (rec_start next_record), c),
                  d'\<lparr>prev_record := next_record\<rparr>) }
        | None \<Rightarrow> do {
            c \<leftarrow> country_from_index (deser_countries d) (rec_country_idx (prev_record d));
            Some (Some (rec_start (prev_record d), max_ip_value, c), d'\<lparr>deser_empty := True\<rparr>) } })"

text \<open>\<open>into_iter().collect_vec()\<close>: \<open>None\<close> is a panic or a run that does not end.\<close>

partial_function (option) collect_generic ::
    "'a::len word deserializer \<Rightarrow> nat \<Rightarrow> nat \<Rightarrow> nat \<Rightarrow> ('a word \<times> 'a word \<times> country) list option" where
  "collect_generic d cb ib sb = do {
     (r, d') \<leftarrow> next_generic d cb ib sb;
     case r of
       None \<Rightarrow> Some []
     | Some b \<Rightarrow> do { bs \<leftarrow> collect_generic d' cb ib sb; Some (b # bs) } }"

definition ipv4_block :: "u32 \<times> u32 \<times> country \<Rightarrow> country_block" where
  "ipv4_block = (\<lambda>(s, e, c). \<lparr>block_range = V4 s e, block_country = c\<rparr>)"

definition ipv6_block :: "u128 \<times> u128 \<times> country \<Rightarrow> country_block" where
  "ipv6_block = (\<lambda>(s, e, c). \<lparr>block_range = V6 s e, block_country = c\<rparr>)"

definition ipv4_deserialize :: "u64 list \<times> nat \<Rightarrow> countries \<Rightarrow> country_block list option" where
  "ipv4_deserialize data cs = do {
     d \<leftarrow> new_generic data (0xFFFFFFFE :: u32) cs 2 2 8;
     bs \<leftarrow> collect_generic d 2 2 8;
     Some (map ipv4_block bs) }"

definition ipv6_deserialize :: "u64 list \<times> nat \<Rightarrow> countries \<Rightarrow> country_block list option" where
  "ipv6_deserialize data cs = do {
     d \<leftarrow> new_generic data (0xFFFFFFFFFFFFFFFFFFFFFFFFFFFFFFFE :: u128) cs 3 3 16;
     bs \<leftarrow> collect_generic d 3 3 16;
     Some (map ipv6_block bs) }"

subsection \<open>Addresses and their parts\<close>

lemma length_segments [simp]: "length (segments sb (ip :: 'a::len word)) = LENGTH('a) div sb"
  by (simp add: segments_def)

lemma segments_prefix:
  fixes ip :: "'a::len word"
  assumes "sb \<le> 64" and "sb * k \<le> LENGTH('a)"
  shows "foldl (\<lambda>acc s. push_bit sb acc OR ucast s) 0
           (map (\<lambda>i. ucast (take_bit sb (drop_bit (LENGTH('a) - sb * Suc i) ip)) :: u64) [0..<k])
         = drop_bit (LENGTH('a) - sb * k) ip"
  using assms
proof (induction k)
  case 0
  show ?case by (rule bit_eqI) (auto simp: bit_simps dest: bit_imp_le_length)
next
  case (Suc k)
  let ?n = "LENGTH('a) - sb * Suc k"
  have n: "LENGTH('a) - sb * k = ?n + sb"
    using Suc.prems by simp
  have step: "push_bit sb (drop_bit (?n + sb) ip) OR ucast (ucast (take_bit sb (drop_bit ?n ip)) :: u64)
      = drop_bit ?n ip"
  proof (rule bit_eqI)
    fix i
    assume "possible_bit TYPE('a word) i"
    then show "bit (push_bit sb (drop_bit (?n + sb) ip) OR
        ucast (ucast (take_bit sb (drop_bit ?n ip)) :: u64)) i = bit (drop_bit ?n ip) i"
      using Suc.prems(1) by (cases "i < sb") (simp_all add: bit_simps not_less)
  qed
  have "foldl (\<lambda>acc s. push_bit sb acc OR ucast s) 0
      (map (\<lambda>i. ucast (take_bit sb (drop_bit (LENGTH('a) - sb * Suc i) ip)) :: u64) [0..<k])
      = drop_bit (?n + sb) ip"
    using Suc.IH Suc.prems unfolding n by simp
  then show ?case
    by (simp only: upt_Suc_append map_append foldl_append list.map foldl.simps step zero_le)
qed

lemma from_segments_segments:
  assumes "sb \<le> 64" and "sb dvd LENGTH('a)"
  shows "from_segments sb (segments sb ip) = (ip :: 'a::len word)"
proof -
  have whole: "sb * (LENGTH('a) div sb) = LENGTH('a)"
    using assms(2) by (rule dvd_mult_div_cancel)
  show ?thesis
    unfolding from_segments_def segments_def segments_prefix [OF assms(1) eq_refl [OF whole]] whole
    by simp
qed

lemma segments_inj:
  assumes "sb \<le> 64" and "sb dvd LENGTH('a)" and "segments sb a = segments sb (b :: 'a::len word)"
  shows "a = b"
  using assms(3) from_segments_segments [OF assms(1,2)] by metis

lemma take_bit_ucast_take_bit: "take_bit n (ucast (take_bit n x)) = ucast (take_bit n x)"
  by (rule bit_eqI) (auto simp: bit_simps)

lemma segments_bound: "v \<in> set (segments sb ip) \<Longrightarrow> take_bit sb v = v"
  unfolding segments_def using take_bit_ucast_take_bit by fastforce

lemma integer_from_ip_generic_id: "8 dvd LENGTH('a) \<Longrightarrow> integer_from_ip_generic ip = (ip :: 'a::len word)"
  using from_segments_segments [of 8 ip]
  by (simp add: integer_from_ip_generic_def octets_def from_segments_def)

text \<open>The differences between two part lists, and that applying them to the first gives the second.\<close>

definition seg_diffs :: "nat \<Rightarrow> u64 list \<Rightarrow> u64 list \<Rightarrow> difference list" where
  "seg_diffs n xs ys =
     map (\<lambda>(i, _, t). (i, t)) (filter (\<lambda>(_, f, t). t \<noteq> f) (enumerate n (zip xs ys)))"

lemma seg_diffs_Nil [simp]: "seg_diffs n [] ys = []"
  by (simp add: seg_diffs_def)

lemma seg_diffs_Cons [simp]:
  "seg_diffs n (x # xs) (y # ys) =
     (if x = y then seg_diffs (Suc n) xs ys else (n, y) # seg_diffs (Suc n) xs ys)"
  by (simp add: seg_diffs_def)

lemma ips_into_differences_seg_diffs:
  "ips_into_differences sb a b = seg_diffs 0 (segments sb a) (segments sb b)"
  by (simp add: ips_into_differences_def seg_diffs_def)

lemma apply_seg_diffs:
  assumes "length xs = length ys" and "\<And>y. y \<in> set ys \<Longrightarrow> take_bit sb y = y"
  shows "apply_differences sb (pre @ xs) (seg_diffs (length pre) xs ys) = Some (pre @ ys)"
  using assms
proof (induction xs ys arbitrary: pre rule: list_induct2)
  case Nil
  show ?case by simp
next
  case (Cons x xs y ys)
  have "apply_differences sb ((pre @ [y]) @ xs) (seg_diffs (length (pre @ [y])) xs ys)
      = Some ((pre @ [y]) @ ys)"
    by (rule Cons.IH) (use Cons.prems in simp)
  with Cons.prems show ?case by simp
qed

lemma seg_diffs_bounds:
  "length xs = length ys \<Longrightarrow> (i, v) \<in> set (seg_diffs n xs ys) \<Longrightarrow>
     n \<le> i \<and> i < n + length xs \<and> v \<in> set ys"
  by (induction xs ys arbitrary: n rule: list_induct2) (fastforce split: if_splits)+

lemma seg_diffs_length: "length xs = length ys \<Longrightarrow> length (seg_diffs n xs ys) \<le> length xs"
  by (induction xs ys arbitrary: n rule: list_induct2) (auto intro: le_SucI)

lemma seg_diffs_empty: "length xs = length ys \<Longrightarrow> seg_diffs n xs ys = [] \<longleftrightarrow> xs = ys"
  by (induction xs ys arbitrary: n rule: list_induct2) auto

subsection \<open>What the codec needs of an address type\<close>

text \<open>
  An address of \<open>LENGTH('a)\<close> bits is cut into \<open>2 ^ ib\<close> parts of \<open>sb\<close> bits, so a part index fits
  its field of \<open>ib\<close> bits and a count of differences minus one fits its field of \<open>ib\<close> bits too.
\<close>

locale ip_segments =
  fixes ip_type :: "'a::len itself" and ib sb :: nat
  assumes parts: "LENGTH('a) = 2 ^ ib * sb"
    and part_size: "0 < sb" "sb \<le> 64"
    and index_size: "ib < 64"
    and whole_octets: "8 dvd LENGTH('a)"
begin

lemma parts_count [simp]: "LENGTH('a) div sb = 2 ^ ib"
  using parts part_size by simp

lemma plus_one [simp]: "plus_one_ip (ip :: 'a word) = ip + 1"
  by (simp add: plus_one_ip_def integer_from_ip_generic_id whole_octets)

lemma minus_one [simp]: "minus_one_ip (ip :: 'a word) = ip - 1"
  by (simp add: minus_one_ip_def integer_from_ip_generic_id whole_octets)

lemma differences_nonempty: "a \<noteq> (b :: 'a word) \<Longrightarrow> ips_into_differences sb a b \<noteq> []"
  using segments_inj [of sb a b] parts part_size
  by (auto simp: ips_into_differences_seg_diffs seg_diffs_empty)

lemma differences_length: "length (ips_into_differences sb a (b :: 'a word)) \<le> 2 ^ ib"
  using seg_diffs_length [of "segments sb a" "segments sb b" 0]
  by (simp add: ips_into_differences_seg_diffs)

lemma differences_bounds:
  "(i, v) \<in> set (ips_into_differences sb a (b :: 'a word)) \<Longrightarrow> i < 2 ^ ib \<and> take_bit sb v = v"
  using seg_diffs_bounds [of "segments sb a" "segments sb b" i v 0] segments_bound
  by (auto simp: ips_into_differences_seg_diffs)

lemma stream_record_new_differences:
  "stream_record_new sb (ips_into_differences sb a b) (segments sb a) idx =
     Some \<lparr>rec_start = (b :: 'a word), rec_country_idx = idx\<rparr>"
proof -
  have "apply_differences sb ([] @ segments sb a) (seg_diffs (length ([] :: u64 list)) (segments sb a)
      (segments sb b)) = Some ([] @ segments sb b)"
    by (rule apply_seg_diffs) (simp_all add: segments_bound)
  then show ?thesis
    using from_segments_segments [OF part_size(2), of b] parts
    by (simp add: stream_record_new_def ips_into_differences_seg_diffs)
qed

end

interpretation v4: ip_segments "TYPE(32)" 2 8
  by unfold_locales simp_all

interpretation v6: ip_segments "TYPE(128)" 3 16
  by unfold_locales simp_all

subsection \<open>The bits of a record\<close>

fun enc_diff :: "nat \<Rightarrow> nat \<Rightarrow> difference \<Rightarrow> bool list" where
  "enc_diff ib sb (i, v) = wbits ib (of_nat i :: u64) @ wbits sb v"

definition enc_record :: "nat \<Rightarrow> nat \<Rightarrow> difference list \<Rightarrow> nat \<Rightarrow> bool list" where
  "enc_record ib sb ds idx = wbits ib (of_nat (length ds - 1) :: u64) @
     concat (map (enc_diff ib sb) ds) @ wbits 9 (of_nat idx :: u64)"

fun enc_all :: "nat \<Rightarrow> nat \<Rightarrow> 'a::len word \<Rightarrow> ('a word \<times> nat) list \<Rightarrow> bool list" where
  "enc_all ib sb p [] = []"
| "enc_all ib sb p ((a, i) # rs) = enc_record ib sb (ips_into_differences sb p a) i @ enc_all ib sb a rs"

lemma enc_all_snoc:
  "enc_all ib sb p (rs @ [(a, i)]) =
     enc_all ib sb p rs @ enc_record ib sb (ips_into_differences sb (last (p # map fst rs)) a) i"
  by (induction rs arbitrary: p) auto

lemma take_bit_of_nat_u64: "k < 2 ^ n \<Longrightarrow> take_bit n (of_nat k :: u64) = of_nat k"
proof -
  assume "k < 2 ^ n"
  moreover have "unat (of_nat k :: u64) \<le> k"
    by (simp add: unsigned_of_nat)
  ultimately show ?thesis
    by (simp add: take_bit_less_2p)
qed

lemma add_differences_bits:
  assumes "bq_inv q" and "ib \<le> 64" and "sb \<le> 64"
    and "\<And>i v. (i, v) \<in> set ds \<Longrightarrow> i < 2 ^ ib \<and> take_bit sb v = v"
  shows "\<exists>q'. add_differences q ds ib sb = Some q' \<and> bq_inv q' \<and>
    bq_bits q' = bq_bits q @ concat (map (enc_diff ib sb) ds)"
  using assms(1,4)
proof (induction ds arbitrary: q)
  case Nil
  then show ?case by simp
next
  case (Cons d ds)
  obtain i v where d: "d = (i, v)" by force
  have i: "i < 2 ^ ib" and v: "take_bit sb v = v"
    using Cons.prems(2) d by auto
  obtain q1 where q1: "add_bits q (of_nat i) ib = Some q1" "bq_inv q1"
      "bq_bits q1 = bq_bits q @ wbits ib (of_nat i :: u64)"
    using bq.add_law [OF Cons.prems(1) assms(2) take_bit_of_nat_u64 [OF i]] by blast
  obtain q2 where q2: "add_bits q1 v sb = Some q2" "bq_inv q2" "bq_bits q2 = bq_bits q1 @ wbits sb v"
    using bq.add_law [OF q1(2) assms(3) v] by blast
  obtain q3 where q3: "add_differences q2 ds ib sb = Some q3" "bq_inv q3"
      "bq_bits q3 = bq_bits q2 @ concat (map (enc_diff ib sb) ds)"
    using Cons.IH [OF q2(2)] Cons.prems(2) by fastforce
  show ?case
    using q3 by (simp add: d q1 q2)
qed

lemma write_fields:
  assumes "bq_inv q" and "ib < 64" and "sb \<le> 64" and "ds \<noteq> []" and "length ds \<le> 2 ^ ib"
    and "\<And>i v. (i, v) \<in> set ds \<Longrightarrow> i < 2 ^ ib \<and> take_bit sb v = v" and "idx < 512"
  obtains q1 q2 q3 where "add_bits q (of_nat (length ds - 1)) ib = Some q1"
    and "add_differences q1 ds ib sb = Some q2" and "add_bits q2 (of_nat idx) 9 = Some q3"
    and "bq_inv q3" and "bq_bits q3 = bq_bits q @ enc_record ib sb ds idx"
proof -
  have "length ds - 1 < 2 ^ ib"
    using assms(4,5) by (cases ds) auto
  then obtain q1 where q1: "add_bits q (of_nat (length ds - 1)) ib = Some q1" "bq_inv q1"
      "bq_bits q1 = bq_bits q @ wbits ib (of_nat (length ds - 1) :: u64)"
    using bq.add_law [OF assms(1) less_imp_le [OF assms(2)] take_bit_of_nat_u64] by blast
  obtain q2 where q2: "add_differences q1 ds ib sb = Some q2" "bq_inv q2"
      "bq_bits q2 = bq_bits q1 @ concat (map (enc_diff ib sb) ds)"
    using add_differences_bits [OF q1(2) less_imp_le [OF assms(2)] assms(3,6)] by blast
  have "take_bit 9 (of_nat idx :: u64) = of_nat idx"
    using assms(7) by (intro take_bit_of_nat_u64) simp
  then obtain q3 where "add_bits q2 (of_nat idx) 9 = Some q3" "bq_inv q3"
      "bq_bits q3 = bq_bits q2 @ wbits 9 (of_nat idx :: u64)"
    using bq.add_law [OF q2(2), of 9 "of_nat idx"] by auto
  then show thesis
    using that q1 q2 by (simp add: enc_record_def)
qed

lemma read_differences_bits:
  assumes "bq_inv q" and "ib < 64" and "sb \<le> 64"
    and "\<And>i v. (i, v) \<in> set ds \<Longrightarrow> i < 2 ^ ib \<and> take_bit sb v = v"
    and "bq_bits q = concat (map (enc_diff ib sb) ds) @ rest"
  shows "\<exists>q'. read_differences q (length ds) ib sb = Some (ds, q') \<and> bq_inv q' \<and> bq_bits q' = rest"
  using assms(1,4,5)
proof (induction ds arbitrary: q)
  case Nil
  then show ?case by simp
next
  case (Cons d ds)
  obtain i v where d: "d = (i, v)" by force
  have i: "i < 2 ^ ib" and v: "take_bit sb v = v"
    using Cons.prems(2) d by auto
  have "(2 :: nat) ^ ib < 2 ^ 64"
    using assms(2) by (intro power_strict_increasing) auto
  with i have ui: "unat (of_nat i :: u64) = i"
    by (simp add: unsigned_of_nat take_bit_nat_eq_self_iff)
  obtain q1 where q1: "take_bits q ib = Some (Some (of_nat i), q1)" "bq_inv q1"
      "bq_bits q1 = wbits sb v @ concat (map (enc_diff ib sb) ds) @ rest"
    using bq.get_field [OF Cons.prems(1) less_imp_le [OF assms(2)] take_bit_of_nat_u64 [OF i]]
      Cons.prems(3) d by auto
  obtain q2 where q2: "take_bits q1 sb = Some (Some v, q2)" "bq_inv q2"
      "bq_bits q2 = concat (map (enc_diff ib sb) ds) @ rest"
    using bq.get_field [OF q1(2) assms(3) v q1(3)] by blast
  obtain q3 where "read_differences q2 (length ds) ib sb = Some (ds, q3)" "bq_inv q3" "bq_bits q3 = rest"
    using Cons.IH [OF q2(2) _ q2(3)] Cons.prems(2) by fastforce
  then show ?case
    by (simp add: d q1 q2 ui)
qed

subsection \<open>Blocks as intervals of addresses\<close>

text \<open>
  The contract between writer and reader: blocks arrive in address order without overlap
  (\<open>wf_from\<close>), and what comes back is the same blocks with every gap filled by a block of the
  filler country (\<open>complete_from\<close>), from address zero to the last address.
\<close>

fun wf_from :: "nat \<Rightarrow> ('a::len word \<times> 'a word \<times> 'c) list \<Rightarrow> bool" where
  "wf_from n [] = True"
| "wf_from n ((s, e, c) # bs) \<longleftrightarrow> n \<le> unat s \<and> s \<le> e \<and> wf_from (Suc (unat e)) bs"

fun complete_from :: "'c \<Rightarrow> nat \<Rightarrow> ('a::len word \<times> 'a word \<times> 'c) list \<Rightarrow> ('a word \<times> 'a word \<times> 'c) list" where
  "complete_from z n [] = (if n < 2 ^ LENGTH('a) then [(of_nat n, - 1, z)] else [])"
| "complete_from z n ((s, e, c) # bs) =
     (if n < unat s then [(of_nat n, s - 1, z)] else []) @ (s, e, c) # complete_from z (Suc (unat e)) bs"

definition start_idx :: "'a \<times> 'b \<times> nat \<Rightarrow> 'a \<times> nat" where
  "start_idx = (\<lambda>(s, e, i). (s, i))"

lemma start_idx_simp [simp]: "start_idx (s, e, i) = (s, i)"
  by (simp add: start_idx_def)

fun join_ends :: "('a::len word \<times> nat) list \<Rightarrow> ('a word \<times> 'a word \<times> nat) list" where
  "join_ends [] = []"
| "join_ends [(s, i)] = [(s, - 1, i)]"
| "join_ends ((s, i) # (s', i') # rs) = (s, s' - 1, i) # join_ends ((s', i') # rs)"

lemma of_nat_unat_word [simp]: "of_nat (unat w) = (w :: 'a::len word)"
  by simp

lemma Suc_unat_minus_1: "n < unat (w :: 'a::len word) \<Longrightarrow> Suc (unat (w - 1)) = unat w"
proof -
  assume "n < unat w"
  then have "checked_sub w 1 = Some (w - 1)"
    by (cases "w = 0") (auto simp: checked_sub_def word_le_nat_alt Suc_le_eq)
  then show ?thesis
    by (simp add: checked_sub_eq_Some)
qed

lemma unat_max_word: "\<not> Suc (unat e) < 2 ^ LENGTH('a) \<Longrightarrow> e = (- 1 :: 'a::len word)"
proof -
  assume "\<not> Suc (unat e) < 2 ^ LENGTH('a)"
  then have "Suc (unat e) = 2 ^ LENGTH('a)"
    using unat_less_2p [of e] by linarith
  then have "(of_nat (Suc (unat e)) :: 'a word) = of_nat (2 ^ LENGTH('a))"
    by (rule arg_cong)
  then show ?thesis
    by (simp add: eq_neg_iff_add_eq_0 add.commute)
qed

lemma wf_from_bound: "wf_from n bs \<Longrightarrow> bs \<noteq> [] \<Longrightarrow> n < 2 ^ LENGTH('a)"
  for bs :: "('a::len word \<times> 'a word \<times> 'c) list"
proof (induction bs)
  case (Cons b bs)
  then show ?case
    by (cases b) (auto intro: le_less_trans [OF _ unat_less_2p])
qed simp

lemma complete_from_start:
  assumes "wf_from n bs" and "n < 2 ^ LENGTH('a)"
  shows "\<exists>e c cs. complete_from z n bs = (of_nat n :: 'a::len word, e, c) # cs"
  using assms by (cases bs) (auto simp: le_less)

lemma join_ends_complete:
  assumes "wf_from n bs"
  shows "join_ends (map start_idx (complete_from z n bs)) = (complete_from z n bs :: ('a::len word \<times> _) list)"
  using assms
proof (induction bs arbitrary: n)
  case Nil
  show ?case by simp
next
  case (Cons b bs)
  obtain s e c where b: "b = (s, e, c)" by (cases b) auto
  let ?m = "Suc (unat e)"
  have wf: "n \<le> unat s" "s \<le> e" "wf_from ?m bs"
    using Cons.prems b by auto
  have tail: "join_ends ((s, c) # map start_idx (complete_from z ?m bs)) = (s, e, c) # complete_from z ?m bs"
  proof (cases "?m < 2 ^ LENGTH('a)")
    case True
    from complete_from_start [OF wf(3) True, of z] obtain e' c' cs
      where cs: "complete_from z ?m bs = (of_nat ?m, e', c') # cs" by blast
    have "(of_nat ?m :: 'a word) - 1 = e" by simp
    then show ?thesis
      using Cons.IH [OF wf(3)] cs by simp
  next
    case False
    then have "bs = []"
      using wf_from_bound [OF wf(3)] by blast
    then show ?thesis
      using False unat_max_word [OF False] by simp
  qed
  then show ?case
    by (simp add: b)
qed

lemma complete_from_map:
  "complete_from (f z) n (map (\<lambda>(s, e, c). (s, e, f c)) bs) = map (\<lambda>(s, e, c). (s, e, f c)) (complete_from z n bs)"
  by (induction bs arbitrary: n) auto

text \<open>Filling up to the last given block, and the end of that block.\<close>

fun fill_from :: "'c \<Rightarrow> nat \<Rightarrow> ('a::len word \<times> 'a word \<times> 'c) list \<Rightarrow> ('a word \<times> 'a word \<times> 'c) list" where
  "fill_from z n [] = []"
| "fill_from z n ((s, e, c) # bs) =
     (if n < unat s then [(of_nat n, s - 1, z)] else []) @ (s, e, c) # fill_from z (Suc (unat e)) bs"

fun end_from :: "nat \<Rightarrow> ('a::len word \<times> 'a word \<times> 'c) list \<Rightarrow> nat" where
  "end_from n [] = n"
| "end_from n ((s, e, c) # bs) = end_from (Suc (unat e)) bs"

lemma complete_from_fill:
  "complete_from z n bs = fill_from z n bs @ complete_from z (end_from n bs) []"
  by (induction z n bs rule: complete_from.induct) auto

lemma end_from_le: "n \<le> 2 ^ LENGTH('a) \<Longrightarrow> end_from n bs \<le> 2 ^ LENGTH('a)"
  for bs :: "('a::len word \<times> 'a word \<times> 'c) list"
  by (induction n bs rule: end_from.induct) (simp_all add: Suc_le_eq)

lemma wf_from_map: "wf_from n (map (\<lambda>(s, e, c). (s, e, f c)) bs) = wf_from n bs"
  by (induction bs arbitrary: n) auto

subsection \<open>The writer\<close>

text \<open>A sequence of records that can be written: no start address repeats the one before it.\<close>

fun steps :: "'a \<Rightarrow> ('a \<times> nat) list \<Rightarrow> bool" where
  "steps p [] = True"
| "steps p ((a, i) # rs) \<longleftrightarrow> p \<noteq> a \<and> i < 512 \<and> steps a rs"

lemma steps_snoc: "steps p (rs @ [(a, i)]) \<longleftrightarrow> steps p rs \<and> last (p # map fst rs) \<noteq> a \<and> i < 512"
  by (induction rs arbitrary: p) auto

text \<open>
  The state of a serializer after the addresses below \<open>n\<close> have been written as the records
  \<open>recs\<close>. Before the first record the previous addresses are the last but one and the last.
\<close>

definition ser_ok :: "nat \<Rightarrow> nat \<Rightarrow> 'a::len word ip_serializer \<Rightarrow> nat \<Rightarrow> ('a word \<times> nat) list \<Rightarrow> bool" where
  "ser_ok ib sb s n recs \<longleftrightarrow>
     bq_inv (ser_queue s) \<and> bq_bits (ser_queue s) = enc_all ib sb (- 2) recs \<and>
     prev_start s = last (- 2 # map fst recs) \<and> prev_end s = of_nat n - 1 \<and>
     block_count s = length recs \<and> steps (- 2) recs \<and> (recs = [] \<longleftrightarrow> n = 0) \<and> (\<forall>r \<in> set recs. unat (fst r) < n)"

fun add_ip_all :: "nat \<Rightarrow> nat \<Rightarrow> 'a::len word ip_serializer \<Rightarrow> ('a word \<times> 'a word \<times> nat) list \<Rightarrow>
    'a word ip_serializer option" where
  "add_ip_all ib sb s [] = Some s"
| "add_ip_all ib sb s ((a, e, i) # bs) = do {
     s' \<leftarrow> add_ip_generic s a e i ib ib sb; add_ip_all ib sb s' bs }"

context ip_segments
begin

lemma start_not_repeated:
  assumes "ser_ok ib sb s n recs" and "unat start = n"
  shows "prev_start s \<noteq> (start :: 'a word)"
proof (cases recs rule: rev_cases)
  case Nil
  have "8 \<le> LENGTH('a)"
    using whole_octets by (rule dvd_imp_le) simp
  then have "(2 :: nat) ^ 8 \<le> 2 ^ LENGTH('a)"
    by (intro power_increasing) simp_all
  then have "unat (of_nat 2 :: 'a word) = 2"
    by (intro unat_of_nat_less) simp
  then have "(- 2 :: 'a word) \<noteq> 0"
    by auto
  moreover have "prev_start s = - 2" and "unat start = 0"
    using Nil assms by (auto simp: ser_ok_def)
  moreover from this(2) have "start = 0"
    by (simp add: unat_eq_zero)
  ultimately show ?thesis
    by metis
next
  case (snoc rs r)
  then show ?thesis
    using assms by (auto simp: ser_ok_def)
qed

lemma add_ip_exact:
  assumes ok: "ser_ok ib sb s n recs" and n: "unat start = n" and e: "start \<le> end_ip" and i: "idx < 512"
  shows "\<exists>s'. add_ip_generic s start end_ip idx ib ib sb = Some s' \<and>
    ser_ok ib sb s' (Suc (unat (end_ip :: 'a word))) (recs @ [(start, idx)])"
proof -
  let ?ds = "ips_into_differences sb (prev_start s) start"
  have inv: "bq_inv (ser_queue s)" and "prev_end s = of_nat n - 1"
    using ok by (simp_all add: ser_ok_def)
  from this(2) have st: "start = plus_one_ip (prev_end s)"
    by (simp flip: n)
  have ne: "?ds \<noteq> []"
    by (rule differences_nonempty) (rule start_not_repeated [OF ok n])
  obtain q1 q2 q3 where q: "add_bits (ser_queue s) (of_nat (length ?ds - 1)) ib = Some q1"
      "add_differences q1 ?ds ib sb = Some q2" "add_bits q2 (of_nat idx) 9 = Some q3" "bq_inv q3"
      "bq_bits q3 = bq_bits (ser_queue s) @ enc_record ib sb ?ds idx"
    by (rule write_fields [OF inv index_size part_size(2) ne differences_length differences_bounds i])
  have "add_ip_generic s start end_ip idx ib ib sb =
      Some (s\<lparr>prev_start := start, prev_end := end_ip, block_count := block_count s + 1, ser_queue := q3\<rparr>)"
    using st ne q by (subst add_ip_generic.simps) (simp add: Let_def Suc_le_eq)
  moreover have "unat start \<le> unat end_ip"
    using e by (simp add: word_le_nat_alt)
  ultimately show ?thesis
    using ok q n i start_not_repeated [OF ok n]
    by (auto simp: ser_ok_def enc_all_snoc steps_snoc intro: le_less_trans less_trans)
qed

lemma add_ip_fill:
  assumes ok: "ser_ok ib sb s n recs" and n: "n \<le> unat start" and e: "start \<le> end_ip" and i: "idx < 512"
  shows "\<exists>s'. add_ip_generic s start end_ip idx ib ib sb = Some s' \<and>
    ser_ok ib sb s' (Suc (unat (end_ip :: 'a word)))
      (recs @ (if n < unat start then [(of_nat n, 0)] else []) @ [(start, idx)])"
proof (cases "n < unat start")
  case False
  with n have "unat start = n" by simp
  from add_ip_exact [OF ok this e i] False show ?thesis by simp
next
  case True
  have n2: "n < 2 ^ LENGTH('a)"
    using True less_trans [OF True unat_less_2p] by blast
  have "(of_nat n :: 'a word) \<le> start - 1"
    using Suc_unat_minus_1 [OF True] True by (simp add: word_le_nat_alt unat_of_nat_less [OF n2])
  from add_ip_exact [OF ok unat_of_nat_less [OF n2] this, of 0] obtain s1
    where s1: "add_ip_generic s (of_nat n) (start - 1) 0 ib ib sb = Some s1"
      and ok1: "ser_ok ib sb s1 (unat start) (recs @ [(of_nat n, 0)])"
    using Suc_unat_minus_1 [OF True] by auto
  have "start \<noteq> of_nat n"
    using True unat_of_nat_less [OF n2] by auto
  moreover have "prev_end s = of_nat n - 1" "prev_end s1 = start - 1"
    using ok ok1 by (simp_all add: ser_ok_def)
  ultimately have "add_ip_generic s start end_ip idx ib ib sb = add_ip_generic s1 start end_ip idx ib ib sb"
    using s1 by (subst (1 2) add_ip_generic.simps) (simp add: Let_def)
  then show ?thesis
    using add_ip_exact [OF ok1 refl e i] True by simp
qed

lemma add_ip_all_correct:
  assumes "ser_ok ib sb s n recs" and "wf_from n bs" and "list_all (\<lambda>(a, e, i). i < 512) bs"
  shows "\<exists>s'. add_ip_all ib sb s (bs :: ('a word \<times> 'a word \<times> nat) list) = Some s' \<and>
    ser_ok ib sb s' (end_from n bs) (recs @ map start_idx (fill_from 0 n bs))"
  using assms
proof (induction bs arbitrary: s n recs)
  case Nil
  then show ?case by simp
next
  case (Cons b bs)
  obtain a e i where b: "b = (a, e, i)" by (cases b) auto
  let ?g = "if n < unat a then [(of_nat n, 0)] else []"
  have wf: "n \<le> unat a" "a \<le> e" "wf_from (Suc (unat e)) bs" and i: "i < 512"
    using Cons.prems(2,3) b by auto
  from add_ip_fill [OF Cons.prems(1) wf(1,2) i] obtain s1
    where s1: "add_ip_generic s a e i ib ib sb = Some s1"
      and ok1: "ser_ok ib sb s1 (Suc (unat e)) (recs @ ?g @ [(a, i)])"
    by blast
  have "list_all (\<lambda>(a, e, i). i < 512) bs"
    using Cons.prems(3) by simp
  from Cons.IH [OF ok1 wf(3) this] obtain s2 where "add_ip_all ib sb s1 bs = Some s2"
      and "ser_ok ib sb s2 (end_from (Suc (unat e)) bs)
        ((recs @ ?g @ [(a, i)]) @ map start_idx (fill_from 0 (Suc (unat e)) bs))"
    by blast
  then show ?case
    using s1 by (cases "n < unat a") (simp_all add: b)
qed

lemma ser_ok_new: "ser_ok ib sb (ip_serializer_new (- 2) (- 1) :: 'a word ip_serializer) 0 []"
  by (simp add: ser_ok_def ip_serializer_new_def bq_new_inv bq_new_bits)

lemma finish_correct:
  assumes ok: "ser_ok ib sb s n recs" and n: "0 < n" "n \<le> 2 ^ LENGTH('a)"
  shows "\<exists>s'. (if prev_end s \<noteq> - 1 then add_ip_generic s (plus_one_ip (prev_end s)) (- 1) 0 ib ib sb
                else Some s) = Some s' \<and>
    ser_ok ib sb s' (2 ^ LENGTH('a))
      (recs @ map start_idx (complete_from 0 n ([] :: ('a word \<times> 'a word \<times> nat) list)))"
proof (cases "n < 2 ^ LENGTH('a)")
  case True
  have m: "Suc (unat (- 1 :: 'a word)) = 2 ^ LENGTH('a)"
    by (simp add: unsigned_minus_1_eq_mask mask_eq_exp_minus_1)
  have "unat (of_nat n :: 'a word) \<noteq> 0"
    using n(1) unat_of_nat_less [OF True] by simp
  then have "(of_nat n :: 'a word) \<noteq> 0"
    by (metis unat_0)
  then have "prev_end s \<noteq> - 1" and "plus_one_ip (prev_end s) = of_nat n"
    using ok by (auto simp: ser_ok_def)
  then show ?thesis
    using add_ip_exact [OF ok unat_of_nat_less [OF True], of "- 1" 0] True m
    by (simp add: word_order.extremum)
next
  case False
  with n(2) have n: "n = 2 ^ LENGTH('a)" by simp
  then have "prev_end s = - 1"
    using ok by (simp add: ser_ok_def)
  then show ?thesis
    using ok n by simp
qed

theorem serialize_correct:
  assumes "wf_from 0 bs" and "bs \<noteq> []" and "list_all (\<lambda>(a, e, i). i < 512) bs"
  shows "\<exists>s s'. add_ip_all ib sb (ip_serializer_new (- 2) (- 1)) bs = Some s \<and>
    (if prev_end s \<noteq> - 1 then add_ip_generic s (plus_one_ip (prev_end s)) (- 1) 0 ib ib sb
     else Some s) = Some s' \<and>
    ser_ok ib sb s' (2 ^ LENGTH('a)) (map start_idx (complete_from 0 0 (bs :: ('a word \<times> 'a word \<times> nat) list)))"
proof -
  obtain s where s: "add_ip_all ib sb (ip_serializer_new (- 2) (- 1)) bs = Some s"
      "ser_ok ib sb s (end_from 0 bs) (map start_idx (fill_from 0 0 bs))"
    using add_ip_all_correct [OF ser_ok_new assms(1,3)] by auto
  have "fill_from 0 0 bs \<noteq> []"
    using assms(2) by (cases bs) auto
  then have "0 < end_from 0 bs"
    using s(2) by (simp add: ser_ok_def)
  from finish_correct [OF s(2) this end_from_le] s(1) show ?thesis
    by (simp add: complete_from_fill [of 0 0 bs] del: complete_from.simps)
qed

subsubsection \<open>The reader\<close>

lemma get_record_correct:
  assumes "bq_inv q" and "p \<noteq> a" and "i < 512"
    and "bq_bits q = enc_record ib sb (ips_into_differences sb p a) i @ rest"
  shows "\<exists>q'. get_record_generic q p ib ib sb =
      Some (Some \<lparr>rec_start = (a :: 'a word), rec_country_idx = i\<rparr>, q') \<and> bq_inv q' \<and> bq_bits q' = rest"
proof -
  let ?ds = "ips_into_differences sb p a"
  have ne: "?ds \<noteq> []"
    using assms(2) by (rule differences_nonempty)
  have c: "length ?ds - 1 < 2 ^ ib"
    using differences_length [of p a] ne by (cases ?ds) auto
  have "(2 :: nat) ^ ib < 2 ^ 64"
    using index_size by (intro power_strict_increasing) auto
  with differences_length [of p a] have "length ?ds < 2 ^ LENGTH(64)"
    by (simp add: le_less_trans)
  moreover have "(of_nat (length ?ds - 1) + 1 :: u64) = of_nat (length ?ds)"
    using ne by (cases ?ds) simp_all
  ultimately have cnt: "unat (of_nat (length ?ds - 1) + 1 :: u64) = length ?ds"
    by (simp only: unat_of_nat_less)
  obtain q1 where q1: "take_bits q ib = Some (Some (of_nat (length ?ds - 1)), q1)" "bq_inv q1"
      "bq_bits q1 = concat (map (enc_diff ib sb) ?ds) @ wbits 9 (of_nat i :: u64) @ rest"
    using bq.get_field [OF assms(1) less_imp_le [OF index_size] take_bit_of_nat_u64 [OF c]] assms(4)
    by (auto simp: enc_record_def)
  obtain q2 where q2: "read_differences q1 (length ?ds) ib sb = Some (?ds, q2)" "bq_inv q2"
      "bq_bits q2 = wbits 9 (of_nat i :: u64) @ rest"
    using read_differences_bits [OF q1(2) index_size part_size(2) differences_bounds [of _ _ p a] q1(3)] by blast
  have t9: "take_bit 9 (of_nat i :: u64) = of_nat i"
    using assms(3) by (intro take_bit_of_nat_u64) simp
  obtain q3 where q3: "take_bits q2 9 = Some (Some (of_nat i), q3)" "bq_inv q3" "bq_bits q3 = rest"
    using bq.get_field [OF q2(2) _ t9 q2(3)] by auto
  have "unat (of_nat i :: u64) = i"
    using assms(3) by (intro unat_of_nat_less) simp
  then show ?thesis
    using q3 by (simp add: get_record_generic_def read_difference_count_def q1 q2 cnt [unfolded One_nat_def]
        stream_record_new_differences)
qed

lemma get_record_end:
  assumes "bq_inv q" and "bq_bits q = []" and "0 < ib"
  shows "get_record_generic q (p :: 'a word) ib ib sb = Some (None, q)"
  using bq.get_short [OF assms(1), of ib] assms index_size
  by (simp add: get_record_generic_def read_difference_count_def)

lemma collect_correct:
  assumes "0 < ib" and "bq_inv (deser_queue d)" and "\<not> deser_empty d"
    and "prev_record d = \<lparr>rec_start = (a :: 'a word), rec_country_idx = i\<rparr>"
    and "bq_bits (deser_queue d) = enc_all ib sb a rs" and "steps a rs"
    and "list_all (\<lambda>r. snd r < countries_len (deser_countries d)) ((a, i) # rs)"
  shows "collect_generic d ib ib sb =
    Some (map (\<lambda>(s, e, i). (s, e, country_list (deser_countries d) ! i)) (join_ends ((a, i) # rs)))"
  using assms(2-7)
proof (induction rs arbitrary: d a i)
  case Nil
  let ?d = "d\<lparr>deser_empty := True\<rparr>"
  have "collect_generic ?d ib ib sb = Some []"
    by (subst collect_generic.simps) (simp add: next_generic_def)
  moreover have "country_from_index (deser_countries d) i = Some (country_list (deser_countries d) ! i)"
    using Nil.prems(6) by (simp add: country_from_index_def countries_len_def)
  moreover have "get_record_generic (deser_queue d) a ib ib sb = Some (None, deser_queue d)"
    using Nil.prems by (intro get_record_end assms(1)) simp_all
  ultimately show ?case
    using Nil.prems(2,3)
    by (subst collect_generic.simps) (simp add: next_generic_def Let_def max_ip_value_def)
next
  case (Cons r rs)
  obtain b j where r: "r = (b, j)" by (cases r)
  have b: "a \<noteq> b" "j < 512" "steps b rs"
    using Cons.prems(5) r by simp_all
  from get_record_correct [OF Cons.prems(1) b(1,2)] Cons.prems(4)
  obtain q where q: "get_record_generic (deser_queue d) a ib ib sb =
      Some (Some \<lparr>rec_start = b, rec_country_idx = j\<rparr>, q)" "bq_inv q" "bq_bits q = enc_all ib sb b rs"
    by (auto simp: r)
  let ?d = "d\<lparr>deser_queue := q, prev_record := \<lparr>rec_start = b, rec_country_idx = j\<rparr>\<rparr>"
  have "country_from_index (deser_countries d) i = Some (country_list (deser_countries d) ! i)"
    using Cons.prems(6) by (simp add: country_from_index_def countries_len_def)
  moreover have "collect_generic ?d ib ib sb =
      Some (map (\<lambda>(s, e, i). (s, e, country_list (deser_countries ?d) ! i)) (join_ends ((b, j) # rs)))"
    by (rule Cons.IH) (use Cons.prems q b in \<open>simp_all add: r\<close>)
  ultimately show ?case
    using q Cons.prems(2,3) by (subst collect_generic.simps) (simp add: next_generic_def Let_def r)
qed

end

subsection \<open>Packing into words\<close>

fun pack :: "bool list \<Rightarrow> u64 list" where
  "pack bs = (if length bs \<ge> 64 then horner_sum of_bool 2 (take 64 bs) # pack (drop 64 bs)
              else if bs = [] then [] else [horner_sum of_bool 2 bs])"

declare pack.simps [simp del]

lemma horner_take_bit: "length bs \<le> n \<Longrightarrow> take_bit n (horner_sum of_bool 2 bs :: u64) = horner_sum of_bool 2 bs"
  by (simp add: take_bit_horner_sum_bit_eq)

lemma wbits_horner: "length bs \<le> 64 \<Longrightarrow> wbits (length bs) (horner_sum of_bool 2 bs :: u64) = bs"
  by (rule nth_equalityI) (auto simp: bit_horner_sum_bit_word_iff)

lemma get_horner:
  assumes "bq_inv q" and "n \<le> 64" and "n \<le> length (bq_bits q)"
  shows "\<exists>q'. take_bits q n = Some (Some (horner_sum of_bool 2 (take n (bq_bits q))), q') \<and> bq_inv q' \<and>
    bq_bits q' = drop n (bq_bits q)"
proof -
  let ?h = "horner_sum of_bool 2 (take n (bq_bits q)) :: u64"
  have "wbits n ?h = take n (bq_bits q)"
    using wbits_horner [of "take n (bq_bits q)"] assms by simp
  moreover have "take_bit n ?h = ?h"
    by (rule horner_take_bit) simp
  ultimately show ?thesis
    using bq.get_field [OF assms(1,2), of ?h "drop n (bq_bits q)"] by simp
qed

lemma drain_words_pack: "bq_inv q \<Longrightarrow> drain_words q = Some (pack (bq_bits q))"
proof (induction "length (bq_bits q)" arbitrary: q rule: less_induct)
  case less
  note len = bq_len_bits [OF less.prems]
  show ?case
  proof (cases "64 \<le> length (bq_bits q)")
    case True
    from get_horner [OF less.prems _ True] obtain q'
      where q': "take_bits q 64 = Some (Some (horner_sum of_bool 2 (take 64 (bq_bits q))), q')"
        "bq_inv q'" "bq_bits q' = drop 64 (bq_bits q)"
      by auto
    have "drain_words q' = Some (pack (bq_bits q'))"
      using less.hyps q' True by simp
    then show ?thesis
      using True len q' by (subst drain_words.simps) (subst pack.simps, simp)
  next
    case False
    from get_horner [OF less.prems, of "length (bq_bits q)"] False obtain q'
      where "take_bits q (length (bq_bits q)) = Some (Some (horner_sum of_bool 2 (bq_bits q)), q')"
      by auto
    then show ?thesis
      using False len by (subst drain_words.simps) (subst pack.simps, simp add: bq_is_empty_def)
  qed
qed

lemma add_words_pack:
  assumes "bq_inv q"
  shows "\<exists>q'. add_words q (pack bs) (length bs) = Some q' \<and> bq_inv q' \<and> bq_bits q' = bq_bits q @ bs"
  using assms
proof (induction bs arbitrary: q rule: pack.induct)
  case (1 bs)
  show ?case
  proof (cases "64 \<le> length bs")
    case True
    obtain q1 where q1: "add_bits q (horner_sum of_bool 2 (take 64 bs)) 64 = Some q1" "bq_inv q1"
        "bq_bits q1 = bq_bits q @ take 64 bs"
      using bq.add_law [OF 1(2), of 64 "horner_sum of_bool 2 (take 64 bs)"]
        horner_take_bit [of "take 64 bs" 64] wbits_horner [of "take 64 bs"] True by auto
    from 1(1) [OF True q1(2)] q1 True show ?thesis
      by (subst add_words.simps, subst pack.simps) auto
  next
    case False
    then show ?thesis
      using bq.add_law [OF 1(2), of "length bs" "horner_sum of_bool 2 bs"] 1(2)
        horner_take_bit [of bs "length bs"] wbits_horner [of bs]
      by (subst add_words.simps, subst pack.simps) auto
  qed
qed

text \<open>Writing a queue out as words and reading it back gives a queue of the same bits.\<close>

lemma country_data_bits:
  assumes "bq_inv q"
  shows "\<exists>data q'. generate_country_block_data q = Some data \<and>
    bit_queue_from_country_data data = Some q' \<and> bq_inv q' \<and> bq_bits q' = bq_bits q"
  using add_words_pack [OF bq_new_inv, of "bq_bits q"] assms
  by (simp add: generate_country_block_data_def bit_queue_from_country_data_def bq_len_bits
      drain_words_pack bq_new_bits)

subsection \<open>Round trip of a block list\<close>

context ip_segments
begin

lemma start_idx_indices:
  "list_all (\<lambda>(a, e, i). P i) bs \<Longrightarrow> P z \<Longrightarrow> list_all (\<lambda>r. P (snd r)) (map start_idx (complete_from z n bs))"
  by (induction z n bs rule: complete_from.induct) auto

lemma deserialize_correct:
  assumes "0 < ib" and "wf_from 0 bs" and ok: "ser_ok ib sb s m (map start_idx (complete_from 0 0 bs))"
    and "list_all (\<lambda>(a, e, i). i < countries_len cs) bs" and "0 < countries_len cs"
  shows "\<exists>data d. generate_country_block_data (ser_queue s) = Some data \<and>
    new_generic data (- 2 :: 'a word) cs ib ib sb = Some d \<and>
    collect_generic d ib ib sb = Some (map (\<lambda>(s, e, i). (s, e, country_list cs ! i)) (complete_from 0 0 bs))"
proof -
  have inv: "bq_inv (ser_queue s)"
    using ok by (simp add: ser_ok_def)
  obtain data q where data: "generate_country_block_data (ser_queue s) = Some data"
      "bit_queue_from_country_data data = Some q" "bq_inv q" "bq_bits q = bq_bits (ser_queue s)"
    using country_data_bits [OF inv] by blast
  obtain e i rest where c: "complete_from 0 0 bs = (0, e, i) # rest"
    using complete_from_start [OF assms(2), of 0] by auto
  let ?rs = "map start_idx rest"
  have bits: "bq_bits q = enc_record ib sb (ips_into_differences sb (- 2) (0 :: 'a word)) i @ enc_all ib sb (0 :: 'a word) ?rs"
    and st: "(- 2 :: 'a word) \<noteq> 0" "i < 512" "steps 0 ?rs"
    using ok data(4) by (simp_all add: ser_ok_def c)
  have idx: "list_all (\<lambda>r. snd r < countries_len cs) ((0, i) # ?rs)"
    using start_idx_indices [OF assms(4,5), of 0] by (simp add: c)
  obtain q' where q': "get_record_generic q (- 2 :: 'a word) ib ib sb =
      Some (Some \<lparr>rec_start = 0, rec_country_idx = i\<rparr>, q')" "bq_inv q'" "bq_bits q' = enc_all ib sb 0 ?rs"
    using get_record_correct [OF data(3) st(1,2) bits] by blast
  let ?d = "\<lparr>deser_countries = cs, prev_record = \<lparr>rec_start = 0, rec_country_idx = i\<rparr>,
      deser_queue = q', deser_empty = False\<rparr>"
  have "new_generic data (- 2 :: 'a word) cs ib ib sb = Some ?d"
    by (simp add: new_generic_def data q')
  moreover have "collect_generic ?d ib ib sb =
      Some (map (\<lambda>(s, e, i). (s, e, country_list cs ! i)) (join_ends ((0, i) # ?rs)))"
    using collect_correct [of ?d 0 i ?rs] assms(1) q' st idx by simp
  moreover have "join_ends ((0, i) # ?rs) = complete_from 0 0 bs"
    using join_ends_complete [OF assms(2), of 0] by (simp add: c)
  ultimately show ?thesis
    using data(1) by auto
qed

text \<open>The queue of a family without blocks is empty, and its reader panics.\<close>

lemma deserialize_empty:
  assumes "0 < ib"
  shows "\<exists>data. generate_country_block_data bq_new = Some data \<and>
    new_generic data (- 2 :: 'a word) cs ib ib sb = None"
proof -
  obtain data q where data: "generate_country_block_data bq_new = Some data"
      "bit_queue_from_country_data data = Some q" "bq_inv q" "bq_bits q = []"
    using country_data_bits [OF bq_new_inv] by (auto simp: bq_new_bits)
  then show ?thesis
    using get_record_end [OF data(3,4) assms] by (simp add: new_generic_def)
qed

end

fun v4_parts :: "country_block list \<Rightarrow> (u32 \<times> u32 \<times> nat) list" where
  "v4_parts [] = []"
| "v4_parts (b # bs) = (case block_range b of
     V4 s e \<Rightarrow> (s, e, country_index (block_country b)) # v4_parts bs | V6 s e \<Rightarrow> v4_parts bs)"

fun v6_parts :: "country_block list \<Rightarrow> (u128 \<times> u128 \<times> nat) list" where
  "v6_parts [] = []"
| "v6_parts (b # bs) = (case block_range b of
     V6 s e \<Rightarrow> (s, e, country_index (block_country b)) # v6_parts bs | V4 s e \<Rightarrow> v6_parts bs)"

definition indices_ok :: "countries \<Rightarrow> country_block list \<Rightarrow> bool" where
  "indices_ok cs bs \<longleftrightarrow> 0 < countries_len cs \<and>
     list_all (\<lambda>b. country_index (block_country b) < min 512 (countries_len cs)) bs"

definition indexed_block :: "countries \<Rightarrow> ('a \<times> 'a \<Rightarrow> ip_range) \<Rightarrow> 'a \<times> 'a \<times> nat \<Rightarrow> country_block" where
  "indexed_block cs r = (\<lambda>(s, e, i). \<lparr>block_range = r (s, e), block_country = country_list cs ! i\<rparr>)"

definition v4_blocks :: "countries \<Rightarrow> country_block list \<Rightarrow> country_block list" where
  "v4_blocks cs bs = map (indexed_block cs (\<lambda>(s, e). V4 s e)) (complete_from 0 0 (v4_parts bs))"

definition v6_blocks :: "countries \<Rightarrow> country_block list \<Rightarrow> country_block list" where
  "v6_blocks cs bs = map (indexed_block cs (\<lambda>(s, e). V6 s e)) (complete_from 0 0 (v6_parts bs))"

lemma serializer_add_all_split:
  "serializer_add_all s bs = do {
     a \<leftarrow> add_ip_all 2 8 (ser_ipv4 s) (v4_parts bs);
     b \<leftarrow> add_ip_all 3 16 (ser_ipv6 s) (v6_parts bs);
     Some (s\<lparr>ser_ipv4 := a, ser_ipv6 := b\<rparr>) }"
proof (induction bs arbitrary: s)
  case Nil
  show ?case by simp
next
  case (Cons b bs)
  show ?case
    by (cases "block_range b")
      (auto simp: serializer_add_def add_ip_v4_def add_ip_v6_def Cons.IH split: Option.bind_splits)
qed

lemma parts_indices:
  "indices_ok cs bs \<Longrightarrow> list_all (\<lambda>(a, e, i). i < min 512 (countries_len cs)) (v4_parts bs)"
  "indices_ok cs bs \<Longrightarrow> list_all (\<lambda>(a, e, i). i < min 512 (countries_len cs)) (v6_parts bs)"
  by (induction bs) (auto simp: indices_ok_def split: ip_range.splits)

lemma max_words:
  "(0xFFFFFFFE :: u32) = - 2" "(0xFFFFFFFF :: u32) = - 1"
  "(0xFFFFFFFFFFFFFFFFFFFFFFFFFFFFFFFE :: u128) = - 2"
  "(0xFFFFFFFFFFFFFFFFFFFFFFFFFFFFFFFF :: u128) = - 1"
  by simp_all

lemma serialize_blocks_correct:
  assumes "wf_from 0 (v4_parts bs)" and "wf_from 0 (v6_parts bs)"
    and "v4_parts bs \<noteq> []" and "v6_parts bs \<noteq> []" and "indices_ok cs bs"
  shows "\<exists>s4 s6. serializer_add_all country_block_serializer_new bs \<bind> serializer_finish =
      Some (\<lparr>final_queue = ser_queue s4, final_block_count = block_count s4\<rparr>,
            \<lparr>final_queue = ser_queue s6, final_block_count = block_count s6\<rparr>) \<and>
    ser_ok 2 8 s4 (2 ^ 32) (map start_idx (complete_from 0 0 (v4_parts bs))) \<and>
    ser_ok 3 16 s6 (2 ^ 128) (map start_idx (complete_from 0 0 (v6_parts bs)))"
proof -
  have i4: "list_all (\<lambda>(a, e, i). i < 512) (v4_parts bs)" and i6: "list_all (\<lambda>(a, e, i). i < 512) (v6_parts bs)"
    using parts_indices [OF assms(5)] by (auto simp: list_all_iff)
  obtain a4 s4 where s4: "add_ip_all 2 8 (ip_serializer_new (- 2) (- 1)) (v4_parts bs) = Some a4"
      "(if prev_end a4 \<noteq> - 1 then add_ip_generic a4 (plus_one_ip (prev_end a4)) (- 1) 0 2 2 8 else Some a4) = Some s4"
      "ser_ok 2 8 s4 (2 ^ 32) (map start_idx (complete_from 0 0 (v4_parts bs)))"
    using v4.serialize_correct [OF assms(1,3) i4] by auto
  obtain a6 s6 where s6: "add_ip_all 3 16 (ip_serializer_new (- 2) (- 1)) (v6_parts bs) = Some a6"
      "(if prev_end a6 \<noteq> - 1 then add_ip_generic a6 (plus_one_ip (prev_end a6)) (- 1) 0 3 3 16 else Some a6) = Some s6"
      "ser_ok 3 16 s6 (2 ^ 128) (map start_idx (complete_from 0 0 (v6_parts bs)))"
    using v6.serialize_correct [OF assms(2,4) i6] by auto
  have "serializer_add_all country_block_serializer_new bs = Some \<lparr>ser_ipv4 = a4, ser_ipv6 = a6\<rparr>"
    unfolding serializer_add_all_split country_block_serializer_new_def max_words using s4(1) s6(1) by simp
  moreover have "serializer_finish \<lparr>ser_ipv4 = a4, ser_ipv6 = a6\<rparr> =
      Some (\<lparr>final_queue = ser_queue s4, final_block_count = block_count s4\<rparr>,
            \<lparr>final_queue = ser_queue s6, final_block_count = block_count s6\<rparr>)"
    unfolding serializer_finish_def add_ip_v4_def add_ip_v6_def max_words ip_serializer.simps
      country_block_serializer.simps s4(2) s6(2) by simp
  ultimately show ?thesis
    using s4(3) s6(3) by auto
qed

lemma ipv4_data_correct:
  assumes "wf_from 0 (v4_parts bs)" and "indices_ok cs bs"
    and "ser_ok 2 8 s m (map start_idx (complete_from 0 0 (v4_parts bs)))"
  shows "\<exists>data. generate_country_block_data (ser_queue s) = Some data \<and>
    ipv4_deserialize data cs = Some (v4_blocks cs bs)"
proof -
  have "list_all (\<lambda>(a, e, i). i < countries_len cs) (v4_parts bs)" "0 < countries_len cs"
    using parts_indices(1) [OF assms(2)] assms(2) by (auto simp: list_all_iff indices_ok_def)
  from v4.deserialize_correct [OF _ assms(1,3) this] obtain data d
    where d: "generate_country_block_data (ser_queue s) = Some data"
      "new_generic data (- 2 :: u32) cs 2 2 8 = Some d"
      "collect_generic d 2 2 8 =
        Some (map (\<lambda>(s, e, i). (s, e, country_list cs ! i)) (complete_from 0 0 (v4_parts bs)))"
    by auto
  have "ipv4_deserialize data cs = Some (v4_blocks cs bs)"
    unfolding ipv4_deserialize_def max_words d(2)
    by (simp add: d(3) v4_blocks_def indexed_block_def ipv4_block_def case_prod_unfold)
  with d(1) show ?thesis by blast
qed

lemma ipv6_data_correct:
  assumes "wf_from 0 (v6_parts bs)" and "indices_ok cs bs"
    and "ser_ok 3 16 s m (map start_idx (complete_from 0 0 (v6_parts bs)))"
  shows "\<exists>data. generate_country_block_data (ser_queue s) = Some data \<and>
    ipv6_deserialize data cs = Some (v6_blocks cs bs)"
proof -
  have "list_all (\<lambda>(a, e, i). i < countries_len cs) (v6_parts bs)" "0 < countries_len cs"
    using parts_indices(2) [OF assms(2)] assms(2) by (auto simp: list_all_iff indices_ok_def)
  from v6.deserialize_correct [OF _ assms(1,3) this] obtain data d
    where d: "generate_country_block_data (ser_queue s) = Some data"
      "new_generic data (- 2 :: u128) cs 3 3 16 = Some d"
      "collect_generic d 3 3 16 =
        Some (map (\<lambda>(s, e, i). (s, e, country_list cs ! i)) (complete_from 0 0 (v6_parts bs)))"
    by auto
  have "ipv6_deserialize data cs = Some (v6_blocks cs bs)"
    unfolding ipv6_deserialize_def max_words d(2)
    by (simp add: d(3) v6_blocks_def indexed_block_def ipv6_block_def case_prod_unfold)
  with d(1) show ?thesis by blast
qed

text \<open>
  C11. Round trip of the country database: for a list of blocks in which each address family is
  non-empty, in address order and without overlap, serializing all blocks, packing both bit
  queues into words and deserializing the words gives back, for each family, exactly the given
  blocks with every gap up to the last address filled by a block of country 0; the block counts
  reported by the serializer are the numbers of blocks read back.
\<close>

theorem country_blocks_round_trip:
  assumes "wf_from 0 (v4_parts bs)" and "wf_from 0 (v6_parts bs)"
    and "v4_parts bs \<noteq> []" and "v6_parts bs \<noteq> []" and "indices_ok cs bs"
  shows "\<exists>f4 f6 data4 data6.
    serializer_add_all country_block_serializer_new bs \<bind> serializer_finish = Some (f4, f6) \<and>
    generate_country_block_data (final_queue f4) = Some data4 \<and>
    generate_country_block_data (final_queue f6) = Some data6 \<and>
    ipv4_deserialize data4 cs = Some (v4_blocks cs bs) \<and>
    ipv6_deserialize data6 cs = Some (v6_blocks cs bs) \<and>
    final_block_count f4 = length (v4_blocks cs bs) \<and>
    final_block_count f6 = length (v6_blocks cs bs)"
proof -
  obtain s4 s6 where s: "serializer_add_all country_block_serializer_new bs \<bind> serializer_finish =
      Some (\<lparr>final_queue = ser_queue s4, final_block_count = block_count s4\<rparr>,
            \<lparr>final_queue = ser_queue s6, final_block_count = block_count s6\<rparr>)"
    and ok4: "ser_ok 2 8 s4 (2 ^ 32) (map start_idx (complete_from 0 0 (v4_parts bs)))"
    and ok6: "ser_ok 3 16 s6 (2 ^ 128) (map start_idx (complete_from 0 0 (v6_parts bs)))"
    using serialize_blocks_correct [OF assms] by (elim exE conjE)
  have "block_count s4 = length (v4_blocks cs bs)" "block_count s6 = length (v6_blocks cs bs)"
    using ok4 ok6 by (simp_all add: ser_ok_def v4_blocks_def v6_blocks_def)
  then show ?thesis
    using ipv4_data_correct [OF assms(1,5) ok4] ipv6_data_correct [OF assms(2,5) ok6] s by auto
qed

theorem country_blocks_round_trip_witness:
  "\<exists>f4 f6 data4 data6.
    serializer_add_all country_block_serializer_new
      [\<lparr>block_range = V4 0x01020304 0x01020305, block_country = country_new 2 ''AO'' ''Angola''\<rparr>,
       \<lparr>block_range = V6 7 0xFFFFFFFFFFFFFFFFFFFFFFFFFFFFFFFF, block_country = country_new 1 ''AD'' ''Andorra''\<rparr>,
       \<lparr>block_range = V4 0x01020306 0x06070809, block_country = country_new 1 ''AD'' ''Andorra''\<rparr>]
      \<bind> serializer_finish = Some (f4, f6) \<and>
    generate_country_block_data (final_queue f4) = Some data4 \<and>
    generate_country_block_data (final_queue f6) = Some data6 \<and>
    ipv4_deserialize data4 (countries_new [(''AO'', ''Angola''), (''AD'', ''Andorra'')]) = Some
      [\<lparr>block_range = V4 0 0x01020303, block_country = country_new 0 ''ZZ'' ''Sentinel''\<rparr>,
       \<lparr>block_range = V4 0x01020304 0x01020305, block_country = country_new 2 ''AO'' ''Angola''\<rparr>,
       \<lparr>block_range = V4 0x01020306 0x06070809, block_country = country_new 1 ''AD'' ''Andorra''\<rparr>,
       \<lparr>block_range = V4 0x0607080A 0xFFFFFFFF, block_country = country_new 0 ''ZZ'' ''Sentinel''\<rparr>] \<and>
    ipv6_deserialize data6 (countries_new [(''AO'', ''Angola''), (''AD'', ''Andorra'')]) = Some
      [\<lparr>block_range = V6 0 6, block_country = country_new 0 ''ZZ'' ''Sentinel''\<rparr>,
       \<lparr>block_range = V6 7 0xFFFFFFFFFFFFFFFFFFFFFFFFFFFFFFFF, block_country = country_new 1 ''AD'' ''Andorra''\<rparr>] \<and>
    final_block_count f4 = 4 \<and> final_block_count f6 = 2"
proof -
  let ?bs = "[\<lparr>block_range = V4 0x01020304 0x01020305, block_country = country_new 2 ''AO'' ''Angola''\<rparr>,
       \<lparr>block_range = V6 7 0xFFFFFFFFFFFFFFFFFFFFFFFFFFFFFFFF, block_country = country_new 1 ''AD'' ''Andorra''\<rparr>,
       \<lparr>block_range = V4 0x01020306 0x06070809, block_country = country_new 1 ''AD'' ''Andorra''\<rparr>]"
  let ?cs = "countries_new [(''AO'', ''Angola''), (''AD'', ''Andorra'')]"
  have cs: "country_list ?cs = [country_new 0 ''ZZ'' ''Sentinel'', country_new 1 ''AD'' ''Andorra'',
      country_new 2 ''AO'' ''Angola'']"
    by code_simp
  have ok: "wf_from 0 (v4_parts ?bs)" "wf_from 0 (v6_parts ?bs)" "v4_parts ?bs \<noteq> []" "v6_parts ?bs \<noteq> []"
      "indices_ok ?cs ?bs"
    by (simp_all add: indices_ok_def countries_len_def cs country_new_def)
  have b4: "v4_blocks ?cs ?bs =
      [\<lparr>block_range = V4 0 0x01020303, block_country = country_new 0 ''ZZ'' ''Sentinel''\<rparr>,
       \<lparr>block_range = V4 0x01020304 0x01020305, block_country = country_new 2 ''AO'' ''Angola''\<rparr>,
       \<lparr>block_range = V4 0x01020306 0x06070809, block_country = country_new 1 ''AD'' ''Andorra''\<rparr>,
       \<lparr>block_range = V4 0x0607080A 0xFFFFFFFF, block_country = country_new 0 ''ZZ'' ''Sentinel''\<rparr>]"
    by (simp add: v4_blocks_def indexed_block_def cs country_new_def)
  have b6: "v6_blocks ?cs ?bs =
      [\<lparr>block_range = V6 0 6, block_country = country_new 0 ''ZZ'' ''Sentinel''\<rparr>,
       \<lparr>block_range = V6 7 0xFFFFFFFFFFFFFFFFFFFFFFFFFFFFFFFF, block_country = country_new 1 ''AD'' ''Andorra''\<rparr>]"
    by (simp add: v6_blocks_def indexed_block_def cs country_new_def)
  have len: "length (v4_blocks ?cs ?bs) = 4" "length (v6_blocks ?cs ?bs) = 2"
    unfolding b4 b6 by simp_all
  show ?thesis
    using country_blocks_round_trip [OF ok] unfolding len unfolding b4 b6 .
qed

end
