(* ===== verification/Country_Finder.thy ===== *)
theory Country_Finder
  imports Country_Serde
begin

section \<open>Looking up the country of an address\<close>

text \<open>
  \<open>ip_country/src/country_finder.rs\<close>: the finder built from the packed country data, and
  \<open>find_country\<close>. The standard library's \<open>slice::binary_search_by\<close> is modelled with its loop:
  \<open>left\<close>, \<open>right\<close> and the midpoint \<open>left + size / 2\<close>. \<open>None\<close> of the outer option is a panic. The
  lookup is shown to return the country of the block that contains the address, end to end from
  the list of blocks that was serialized.
\<close>

datatype search_result = Found nat | Insert_At nat

function binary_search_from ::
    "('a \<Rightarrow> ordering option) \<Rightarrow> 'a list \<Rightarrow> nat \<Rightarrow> nat \<Rightarrow> search_result option" where
  "binary_search_from f xs left right =
     (if left < right then do {
        let mid = left + (right - left) div 2;
        cmp \<leftarrow> f (xs ! mid);
        case cmp of
          Equal \<Rightarrow> Some (Found mid)
        | Less \<Rightarrow> binary_search_from f xs (mid + 1) right
        | Greater \<Rightarrow> binary_search_from f xs left mid }
      else Some (Insert_At left))"
  by pat_completeness auto
termination
  by (relation "measure (\<lambda>(f, xs, left, right). right - left)") auto

declare binary_search_from.simps [simp del]

definition binary_search_by :: "('a \<Rightarrow> ordering option) \<Rightarrow> 'a list \<Rightarrow> search_result option" where
  "binary_search_by f xs = binary_search_from f xs 0 (length xs)"

record country_code_finder =
  finder_countries :: countries
  finder_ipv4 :: "country_block list"
  finder_ipv6 :: "country_block list"

definition country_code_finder_new ::
    "countries \<Rightarrow> u64 list \<times> nat \<Rightarrow> u64 list \<times> nat \<Rightarrow> country_code_finder option" where
  "country_code_finder_new cs ipv4_data ipv6_data = do {
     v4 \<leftarrow> ipv4_deserialize ipv4_data cs;
     v6 \<leftarrow> ipv6_deserialize ipv6_data cs;
     Some \<lparr>finder_countries = cs, finder_ipv4 = v4, finder_ipv6 = v6\<rparr> }"

definition find_country :: "country_code_finder \<Rightarrow> ip_addr \<Rightarrow> country option option" where
  "find_country finder ip = do {
     let country_blocks = (case ip of IpV4 _ \<Rightarrow> finder_ipv4 finder | IpV6 _ \<Rightarrow> finder_ipv6 finder);
     block_index \<leftarrow> binary_search_by (\<lambda>block. ordering_by_range (block_range block) ip) country_blocks;
     country \<leftarrow> (case block_index of
         Found index \<Rightarrow> Some (block_country (country_blocks ! index))
       | Insert_At _ \<Rightarrow>
           (case country_from_code (finder_countries finder) ''ZZ'' of Ok c \<Rightarrow> Some c | _ \<Rightarrow> None));
     Some (if iso3166 country = ''ZZ'' then None else Some country) }"

subsection \<open>Binary search\<close>

lemma binary_search_from_found:
  assumes "left \<le> k" and "k < right" and "right \<le> length xs"
    and "f (xs ! k) = Some Equal"
    and "\<And>i. i < k \<Longrightarrow> f (xs ! i) = Some Less"
    and "\<And>i. k < i \<Longrightarrow> i < length xs \<Longrightarrow> f (xs ! i) = Some Greater"
  shows "binary_search_from f xs left right = Some (Found k)"
  using assms
proof (induction f xs left right rule: binary_search_from.induct)
  case (1 f xs left right)
  let ?mid = "left + (right - left) div 2"
  have mid: "left \<le> ?mid" "?mid < right"
    using 1(3,4) by auto
  consider "?mid < k" | "?mid = k" | "k < ?mid" by linarith
  then show ?case
  proof cases
    case 1
    then have "f (xs ! ?mid) = Some Less" using "1.prems"(5) by blast
    with 1 "1.prems" mid "1.IH"(1) [OF _ refl] show ?thesis
      by (subst binary_search_from.simps) (simp add: Let_def Suc_le_eq)
  next
    case 2
    then show ?thesis
      using "1.prems" mid by (subst binary_search_from.simps) (simp add: Let_def)
  next
    case 3
    then have "f (xs ! ?mid) = Some Greater" using "1.prems"(3,6) mid by simp
    with 3 "1.prems" mid "1.IH"(2) [OF _ refl] show ?thesis
      by (subst binary_search_from.simps) (simp add: Let_def)
  qed
qed

lemma binary_search_by_split:
  assumes "xs = pre @ x # post" and "f x = Some Equal"
    and "\<And>y. y \<in> set pre \<Longrightarrow> f y = Some Less" and "\<And>y. y \<in> set post \<Longrightarrow> f y = Some Greater"
  shows "binary_search_by f xs = Some (Found (length pre))"
  unfolding binary_search_by_def
proof (rule binary_search_from_found)
  fix i
  assume "length pre < i" "i < length xs"
  then have "xs ! i = post ! (i - Suc (length pre))" "i - Suc (length pre) < length post"
    using assms(1) by (auto simp: nth_append nth_Cons' diff_diff_left)
  then show "f (xs ! i) = Some Greater"
    using assms(4) by simp
qed (use assms in \<open>auto simp: nth_append\<close>)

subsection \<open>The completed block list covers every address once\<close>

fun in_part :: "'a::len word \<Rightarrow> 'a word \<times> 'a word \<times> 'c \<Rightarrow> bool" where
  "in_part ip (s, e, c) \<longleftrightarrow> s \<le> ip \<and> ip \<le> e"

definition part_lookup :: "'c \<Rightarrow> 'a::len word \<Rightarrow> ('a word \<times> 'a word \<times> 'c) list \<Rightarrow> 'c" where
  "part_lookup z ip bs = (case find (in_part ip) bs of None \<Rightarrow> z | Some (s, e, c) \<Rightarrow> c)"

lemma complete_from_starts:
  assumes "wf_from n bs"
  shows "x \<in> set (complete_from z n bs) \<Longrightarrow> n \<le> unat (fst x)"
  using assms
proof (induction z n bs rule: complete_from.induct)
  case (1 z n)
  then show ?case by (auto simp: unat_of_nat_less split: if_splits)
next
  case (2 z n s e c bs)
  have "unat s \<le> unat e"
    using 2(3) by (simp add: word_le_nat_alt)
  with 2 show ?case
    by (auto simp: unat_of_nat_less [OF less_trans [OF _ unat_less_2p]] split: if_splits)
qed

lemma find_before: "wf_from n bs \<Longrightarrow> unat ip < n \<Longrightarrow> find (in_part ip) bs = None"
proof (induction bs arbitrary: n)
  case Nil
  show ?case by simp
next
  case (Cons b bs)
  obtain s e c where b: "b = (s, e, c)" by (cases b) auto
  have "\<not> s \<le> ip" "unat ip < Suc (unat e)"
    using Cons.prems by (auto simp: b word_le_nat_alt)
  then show ?case
    using Cons.IH [of "Suc (unat e)"] Cons.prems(1) by (auto simp: b)
qed

lemma complete_from_covers:
  assumes "wf_from n bs" and "n \<le> unat ip"
  shows "\<exists>pre s e post. complete_from z n bs = pre @ (s, e, part_lookup z ip bs) # post \<and>
    s \<le> ip \<and> ip \<le> (e :: 'a::len word) \<and> (\<forall>x \<in> set pre. fst x \<le> fst (snd x) \<and> fst (snd x) < ip) \<and>
    (\<forall>x \<in> set post. ip < fst x)"
  using assms
proof (induction bs arbitrary: n)
  case Nil
  have n: "n < 2 ^ LENGTH('a)"
    using Nil(2) le_less_trans unat_less_2p by blast
  show ?case
    by (rule exI [of _ "[]"])
      (use Nil n in \<open>auto simp: part_lookup_def word_le_nat_alt [of "of_nat n"] unat_of_nat_less word_order.extremum\<close>)
next
  case (Cons b bs)
  obtain s e c where b: "b = (s, e, c)" by (cases b) auto
  have wf: "n \<le> unat s" "s \<le> e" "wf_from (Suc (unat e)) bs"
    using Cons.prems(1) by (auto simp: b)
  let ?rest = "complete_from z (Suc (unat e)) bs"
  let ?gap = "if n < unat s then [(of_nat n, s - 1, z)] else []"
  have n: "n < 2 ^ LENGTH('a)"
    using Cons.prems(2) le_less_trans unat_less_2p by blast
  have gap: "\<forall>x \<in> set ?gap. fst x \<le> fst (snd x) \<and> fst (snd x) < s"
    using Suc_unat_minus_1 [of n s] unat_of_nat_less [OF n] by (auto simp: word_le_nat_alt word_less_nat_alt)
  have rest: "\<forall>x \<in> set ?rest. e < fst x"
    using complete_from_starts [OF wf(3), of _ z] by (auto simp: word_less_nat_alt Suc_le_eq)
  consider "ip < s" | "s \<le> ip" "ip \<le> e" | "e < ip" by fastforce
  then show ?case
  proof cases
    case 1
    then have lt: "n < unat s" "unat ip < Suc (unat e)"
      using Cons.prems(2) wf by (auto simp: word_less_nat_alt word_le_nat_alt)
    moreover have "ip \<le> s - 1"
      using 1 Suc_unat_minus_1 [OF lt(1)] by (simp add: word_less_nat_alt word_le_nat_alt)
    moreover have "part_lookup z ip (b # bs) = z"
      using 1 find_before [OF wf(3) lt(2)] by (auto simp: part_lookup_def b)
    moreover have "\<forall>x \<in> set ?rest. ip < fst x"
      using rest 1 wf(2) by (meson less_le_trans less_trans)
    ultimately show ?thesis
      using 1 Cons.prems(2)
      by (intro exI [of _ "[]"]) (auto simp: b word_le_nat_alt [of "of_nat n"] unat_of_nat_less [OF n])
  next
    case 2
    have "\<forall>x \<in> set ?rest. ip < fst x"
      using rest 2(2) by (meson le_less_trans)
    moreover have "part_lookup z ip (b # bs) = c"
      using 2 by (simp add: part_lookup_def b)
    moreover have "\<forall>x \<in> set ?gap. fst x \<le> fst (snd x) \<and> fst (snd x) < ip"
      using gap 2(1) by (meson less_le_trans)
    ultimately show ?thesis
      using 2 by (intro exI [of _ ?gap]) (simp add: b)
  next
    case 3
    then have "Suc (unat e) \<le> unat ip"
      by (simp add: word_less_nat_alt Suc_le_eq)
    from Cons.IH [OF wf(3) this] obtain pre s' e' post
      where IH: "?rest = pre @ (s', e', part_lookup z ip bs) # post" "s' \<le> ip" "ip \<le> e'"
        "\<forall>x \<in> set pre. fst x \<le> fst (snd x) \<and> fst (snd x) < ip" "\<forall>x \<in> set post. ip < fst x"
      by blast
    have "part_lookup z ip (b # bs) = part_lookup z ip bs"
      using 3 by (auto simp: part_lookup_def b)
    moreover have "\<forall>x \<in> set ?gap. fst x \<le> fst (snd x) \<and> fst (snd x) < ip"
      using gap wf(2) 3 by (meson less_le_trans less_trans)
    ultimately show ?thesis
      using IH 3 wf(2) by (intro exI [of _ "?gap @ (s, e, c) # pre"]) (auto simp: b)
  qed
qed

subsection \<open>What \<open>find_country\<close> returns\<close>

definition visible_country :: "countries \<Rightarrow> nat \<Rightarrow> country option" where
  "visible_country cs i =
     (if iso3166 (country_list cs ! i) = ''ZZ'' then None else Some (country_list cs ! i))"

lemma find_country_block:
  assumes "(case ip of IpV4 _ \<Rightarrow> finder_ipv4 finder | IpV6 _ \<Rightarrow> finder_ipv6 finder) = pre @ x # post"
    and "ordering_by_range (block_range x) ip = Some Equal"
    and "\<And>y. y \<in> set pre \<Longrightarrow> ordering_by_range (block_range y) ip = Some Less"
    and "\<And>y. y \<in> set post \<Longrightarrow> ordering_by_range (block_range y) ip = Some Greater"
  shows "find_country finder ip =
    Some (if iso3166 (block_country x) = ''ZZ'' then None else Some (block_country x))"
  using binary_search_by_split [of "pre @ x # post" pre x post "\<lambda>b. ordering_by_range (block_range b) ip"]
    assms by (simp add: find_country_def Let_def)

lemma find_country_v4:
  assumes "wf_from 0 (v4_parts bs)" and "finder_ipv4 finder = v4_blocks cs bs"
  shows "find_country finder (IpV4 ip) = Some (visible_country cs (part_lookup 0 ip (v4_parts bs)))"
proof -
  let ?b = "indexed_block cs (\<lambda>(s, e). V4 s e)"
  obtain pre s e post where c: "complete_from 0 0 (v4_parts bs) =
      pre @ (s, e, part_lookup 0 ip (v4_parts bs)) # post" "s \<le> ip" "ip \<le> e"
      "\<forall>x \<in> set pre. fst x \<le> fst (snd x) \<and> fst (snd x) < ip" "\<forall>x \<in> set post. ip < fst x"
    using complete_from_covers [OF assms(1), of ip 0] by auto
  have "find_country finder (IpV4 ip) = Some (if iso3166 (block_country (?b (s, e, part_lookup 0 ip (v4_parts bs)))) =
      ''ZZ'' then None else Some (block_country (?b (s, e, part_lookup 0 ip (v4_parts bs)))))"
    by (rule find_country_block [where pre = "map ?b pre" and post = "map ?b post"])
      (use c assms(2) in \<open>fastforce simp: v4_blocks_def indexed_block_def compare_with_range_def\<close>)+
  then show ?thesis
    by (simp add: visible_country_def indexed_block_def)
qed

lemma find_country_v6:
  assumes "wf_from 0 (v6_parts bs)" and "finder_ipv6 finder = v6_blocks cs bs"
  shows "find_country finder (IpV6 ip) = Some (visible_country cs (part_lookup 0 ip (v6_parts bs)))"
proof -
  let ?b = "indexed_block cs (\<lambda>(s, e). V6 s e)"
  obtain pre s e post where c: "complete_from 0 0 (v6_parts bs) =
      pre @ (s, e, part_lookup 0 ip (v6_parts bs)) # post" "s \<le> ip" "ip \<le> e"
      "\<forall>x \<in> set pre. fst x \<le> fst (snd x) \<and> fst (snd x) < ip" "\<forall>x \<in> set post. ip < fst x"
    using complete_from_covers [OF assms(1), of ip 0] by auto
  have "find_country finder (IpV6 ip) = Some (if iso3166 (block_country (?b (s, e, part_lookup 0 ip (v6_parts bs)))) =
      ''ZZ'' then None else Some (block_country (?b (s, e, part_lookup 0 ip (v6_parts bs)))))"
    by (rule find_country_block [where pre = "map ?b pre" and post = "map ?b post"])
      (use c assms(2) in \<open>fastforce simp: v6_blocks_def indexed_block_def compare_with_range_def\<close>)+
  then show ?thesis
    by (simp add: visible_country_def indexed_block_def)
qed

lemma finder_looks_up:
  assumes "wf_from 0 (v4_parts bs)" and "wf_from 0 (v6_parts bs)"
    and "v4_parts bs \<noteq> []" and "v6_parts bs \<noteq> []" and "indices_ok cs bs"
  shows "\<exists>f4 f6 data4 data6 finder.
    serializer_add_all country_block_serializer_new bs \<bind> serializer_finish = Some (f4, f6) \<and>
    generate_country_block_data (final_queue f4) = Some data4 \<and>
    generate_country_block_data (final_queue f6) = Some data6 \<and>
    country_code_finder_new cs data4 data6 = Some finder \<and>
    (\<forall>ip. find_country finder (IpV4 ip) = Some (visible_country cs (part_lookup 0 ip (v4_parts bs)))) \<and>
    (\<forall>ip. find_country finder (IpV6 ip) = Some (visible_country cs (part_lookup 0 ip (v6_parts bs))))"
proof -
  obtain s4 s6 where s: "serializer_add_all country_block_serializer_new bs \<bind> serializer_finish =
      Some (\<lparr>final_queue = ser_queue s4, final_block_count = block_count s4\<rparr>,
            \<lparr>final_queue = ser_queue s6, final_block_count = block_count s6\<rparr>)"
    and ok4: "ser_ok 2 8 s4 (2 ^ 32) (map start_idx (complete_from 0 0 (v4_parts bs)))"
    and ok6: "ser_ok 3 16 s6 (2 ^ 128) (map start_idx (complete_from 0 0 (v6_parts bs)))"
    using serialize_blocks_correct [OF assms] by (elim exE conjE)
  obtain data4 where d4: "generate_country_block_data (ser_queue s4) = Some data4"
      "ipv4_deserialize data4 cs = Some (v4_blocks cs bs)"
    using ipv4_data_correct [OF assms(1,5) ok4] by blast
  obtain data6 where d6: "generate_country_block_data (ser_queue s6) = Some data6"
      "ipv6_deserialize data6 cs = Some (v6_blocks cs bs)"
    using ipv6_data_correct [OF assms(2,5) ok6] by blast
  let ?f = "\<lparr>finder_countries = cs, finder_ipv4 = v4_blocks cs bs, finder_ipv6 = v6_blocks cs bs\<rparr>"
  have "country_code_finder_new cs data4 data6 = Some ?f"
    by (simp add: country_code_finder_new_def d4 d6)
  moreover have "\<forall>ip. find_country ?f (IpV4 ip) = Some (visible_country cs (part_lookup 0 ip (v4_parts bs)))"
    using find_country_v4 [OF assms(1)] by simp
  moreover have "\<forall>ip. find_country ?f (IpV6 ip) = Some (visible_country cs (part_lookup 0 ip (v6_parts bs)))"
    using find_country_v6 [OF assms(2)] by simp
  ultimately show ?thesis
    using s d4(1) d6(1)
    by (intro exI [of _ "\<lparr>final_queue = ser_queue s4, final_block_count = block_count s4\<rparr>"]
        exI [of _ "\<lparr>final_queue = ser_queue s6, final_block_count = block_count s6\<rparr>"]
        exI [of _ data4] exI [of _ data6] exI [of _ ?f] conjI) simp_all
qed

subsection \<open>End to end\<close>

text \<open>Blocks whose countries are entries of the table; the nine bits of an index bound their places.\<close>

definition blocks_of_table :: "countries \<Rightarrow> country_block list \<Rightarrow> bool" where
  "blocks_of_table cs bs \<longleftrightarrow> list_all (\<lambda>b. country_index (block_country b) < 512 \<and>
     country_from_index cs (country_index (block_country b)) = Some (block_country b)) bs"

definition shown_country :: "country \<Rightarrow> country option" where
  "shown_country c = (if iso3166 c = ''ZZ'' then None else Some c)"

lemma wf_from_starts: "wf_from n bs \<Longrightarrow> (s, e, c) \<in> set bs \<Longrightarrow> n \<le> unat s"
  by (induction n bs rule: wf_from.induct) (auto simp: word_le_nat_alt)

lemma part_lookup_in:
  assumes "wf_from n bs" "(s, e, c) \<in> set bs" "s \<le> ip" "ip \<le> e"
  shows "part_lookup z ip bs = c"
  using assms
proof (induction n bs rule: wf_from.induct)
  case (2 n s' e' c' bs)
  show ?case
  proof (cases "(s, e, c) = (s', e', c')")
    case True
    then show ?thesis using 2(4,5) by (simp add: part_lookup_def)
  next
    case False
    then have "Suc (unat e') \<le> unat s" using 2(2,3) wf_from_starts [of "Suc (unat e')" bs s e c] by auto
    then have "\<not> ip \<le> e'" using 2(4) by (simp add: word_le_nat_alt)
    then show ?thesis using 2 False by (auto simp: part_lookup_def)
  qed
qed simp

lemma part_lookup_out:
  assumes "\<And>s e c. (s, e, c) \<in> set bs \<Longrightarrow> \<not> (s \<le> ip \<and> ip \<le> e)"
  shows "part_lookup z ip bs = z"
proof -
  have "find (in_part ip) bs = None" unfolding find_None_iff using assms by force
  then show ?thesis by (simp add: part_lookup_def)
qed

lemma in_v4_parts: "(s, e, i) \<in> set (v4_parts bs) \<longleftrightarrow> (\<exists>b\<in>set bs. block_range b = V4 s e \<and> i = country_index (block_country b))"
  by (induction bs rule: v4_parts.induct) (auto split: ip_range.splits)

lemma in_v6_parts: "(s, e, i) \<in> set (v6_parts bs) \<longleftrightarrow> (\<exists>b\<in>set bs. block_range b = V6 s e \<and> i = country_index (block_country b))"
  by (induction bs rule: v6_parts.induct) (auto split: ip_range.splits)

text \<open>
  C8. Country lookup is right end to end. Take blocks in which each address family is not empty, in
  address order and without overlap, and whose countries are the entries of the table at their
  indices, below 512. Then serializing and packing them works, and the finder built from the packed
  data with that table returns for an address in the range of a block the country of that block, or
  no country when that is the sentinel ZZ, and for an address outside all blocks no country. It never
  panics on an address.
\<close>

theorem country_lookup_end_to_end:
  assumes "wf_from 0 (v4_parts bs)" and "wf_from 0 (v6_parts bs)"
    and "v4_parts bs \<noteq> []" and "v6_parts bs \<noteq> []" and "blocks_of_table (countries_new pairs) bs"
  shows "\<exists>f4 f6 data4 data6 finder.
    serializer_add_all country_block_serializer_new bs \<bind> serializer_finish = Some (f4, f6) \<and>
    generate_country_block_data (final_queue f4) = Some data4 \<and>
    generate_country_block_data (final_queue f6) = Some data6 \<and>
    country_code_finder_new (countries_new pairs) data4 data6 = Some finder \<and>
    (\<forall>ip b. b \<in> set bs \<longrightarrow> range_contains (block_range b) ip \<longrightarrow> find_country finder ip = Some (shown_country (block_country b))) \<and>
    (\<forall>ip. (\<forall>b\<in>set bs. \<not> range_contains (block_range b) ip) \<longrightarrow> find_country finder ip = Some None)"
proof -
  let ?cs = "countries_new pairs"
  have entry: "country_index (block_country b) < countries_len ?cs" "visible_country ?cs (country_index (block_country b)) = shown_country (block_country b)"
    if "b \<in> set bs" for b
    using assms(5) that
    by (auto simp: blocks_of_table_def list_all_iff country_from_index_def countries_len_def visible_country_def shown_country_def split: if_splits)
  have zero: "visible_country ?cs 0 = None" "0 < countries_len ?cs"
    using countries_new_sentinel [of pairs]
    by (simp_all add: country_from_index_def countries_len_def visible_country_def country_new_def split: if_splits)
  have ok: "indices_ok ?cs bs"
    using assms(5) entry(1) zero(2) by (auto simp: indices_ok_def blocks_of_table_def list_all_iff)
  obtain f4 f6 data4 data6 finder where f: "serializer_add_all country_block_serializer_new bs \<bind> serializer_finish = Some (f4, f6)"
      "generate_country_block_data (final_queue f4) = Some data4" "generate_country_block_data (final_queue f6) = Some data6"
      "country_code_finder_new ?cs data4 data6 = Some finder"
    and look: "\<And>ip. find_country finder (IpV4 ip) = Some (visible_country ?cs (part_lookup 0 ip (v4_parts bs)))"
      "\<And>ip. find_country finder (IpV6 ip) = Some (visible_country ?cs (part_lookup 0 ip (v6_parts bs)))"
    using finder_looks_up [OF assms(1-4) ok] by blast
  have "find_country finder ip = Some (shown_country (block_country b))"
    if b: "b \<in> set bs" "range_contains (block_range b) ip" for ip b
  proof (cases ip)
    case (IpV4 a)
    with b(2) obtain s e where r: "block_range b = V4 s e" "s \<le> a" "a \<le> e" by (cases "block_range b") auto
    then have "(s, e, country_index (block_country b)) \<in> set (v4_parts bs)" using b(1) in_v4_parts by blast
    from part_lookup_in [OF assms(1) this r(2,3)] show ?thesis using look(1) entry(2) [OF b(1)] IpV4 by simp
  next
    case (IpV6 a)
    with b(2) obtain s e where r: "block_range b = V6 s e" "s \<le> a" "a \<le> e" by (cases "block_range b") auto
    then have "(s, e, country_index (block_country b)) \<in> set (v6_parts bs)" using b(1) in_v6_parts by blast
    from part_lookup_in [OF assms(2) this r(2,3)] show ?thesis using look(2) entry(2) [OF b(1)] IpV6 by simp
  qed
  moreover have "find_country finder ip = Some None" if out: "\<forall>b\<in>set bs. \<not> range_contains (block_range b) ip" for ip
  proof (cases ip)
    case (IpV4 a)
    have "part_lookup 0 a (v4_parts bs) = 0"
      by (rule part_lookup_out) (use out IpV4 in \<open>fastforce simp: in_v4_parts\<close>)
    then show ?thesis using look(1) zero(1) IpV4 by simp
  next
    case (IpV6 a)
    have "part_lookup 0 a (v6_parts bs) = 0"
      by (rule part_lookup_out) (use out IpV6 in \<open>fastforce simp: in_v6_parts\<close>)
    then show ?thesis using look(2) zero(1) IpV6 by simp
  qed
  ultimately show ?thesis using f by blast
qed

theorem country_lookup_end_to_end_witness:
  "\<exists>f4 f6 data4 data6 finder.
    serializer_add_all country_block_serializer_new
      [\<lparr>block_range = V4 0x01020304 0x01020305, block_country = country_new 2 ''AO'' ''Angola''\<rparr>,
       \<lparr>block_range = V6 7 9, block_country = country_new 1 ''AD'' ''Andorra''\<rparr>]
      \<bind> serializer_finish = Some (f4, f6) \<and>
    generate_country_block_data (final_queue f4) = Some data4 \<and>
    generate_country_block_data (final_queue f6) = Some data6 \<and>
    country_code_finder_new (countries_new [(''AO'', ''Angola''), (''AD'', ''Andorra'')]) data4 data6 = Some finder \<and>
    find_country finder (IpV4 0x01020305) = Some (Some (country_new 2 ''AO'' ''Angola'')) \<and>
    find_country finder (IpV4 0x01020306) = Some None \<and>
    find_country finder (IpV6 7) = Some (Some (country_new 1 ''AD'' ''Andorra'')) \<and>
    find_country finder (IpV6 6) = Some None"
proof -
  let ?bs = "[\<lparr>block_range = V4 0x01020304 0x01020305, block_country = country_new 2 ''AO'' ''Angola''\<rparr>,
       \<lparr>block_range = V6 7 9, block_country = country_new 1 ''AD'' ''Andorra''\<rparr>]"
  let ?cs = "countries_new [(''AO'', ''Angola''), (''AD'', ''Andorra'')]"
  have cs: "country_list ?cs = [country_new 0 ''ZZ'' ''Sentinel'', country_new 1 ''AD'' ''Andorra'',
      country_new 2 ''AO'' ''Angola'']"
    by code_simp
  have parts: "v4_parts ?bs = [(0x01020304, 0x01020305, 2)]" "v6_parts ?bs = [(7, 9, 1)]"
    by (simp_all add: country_new_def)
  have ok: "wf_from 0 (v4_parts ?bs)" "wf_from 0 (v6_parts ?bs)" "v4_parts ?bs \<noteq> []" "v6_parts ?bs \<noteq> []"
      "blocks_of_table ?cs ?bs"
    by (simp_all add: blocks_of_table_def country_from_index_def cs country_new_def)
  show ?thesis
    using country_lookup_end_to_end [OF ok] by (simp add: all_conj_distrib shown_country_def country_new_def) force
qed

end
