(* ===== verification/CryptDE.thy ===== *)
theory CryptDE
  imports Masq_Prelude
begin

unbundle bit_operations_syntax

section \<open>The encryption interface and its null implementation\<close>

text \<open>
  \<open>node/src/sub_lib/cryptde.rs\<close> and \<open>node/src/sub_lib/cryptde_null.rs\<close>. Keys, \<open>PlainData\<close> and
  \<open>CryptData\<close> wrap a vector of bytes and are byte lists here. The trait \<open>CryptDE\<close> is a record of
  functions, one per method without side effect that the rest of the development uses; a
  verifier returns \<open>None\<close> where the implementation panics. SHA-1, Keccak-256, hexadecimal
  printing and CBOR come from other crates and are parameters. The locales \<open>sig_family\<close> and
  \<open>seal_family\<close> hold what the receipt and routing components rely on; \<open>CryptDE_Real\<close> has the
  implementation over libsodium.
\<close>

type_synonym public_key = bytes
type_synonym private_key = bytes
type_synonym symmetric_key = bytes
type_synonym crypt_data = bytes
type_synonym plain_data = bytes

datatype cryptdec_error =
    EmptyKey
  | EmptyData
  | InvalidKey string
  | InvalidSignature string
  | OpeningFailed
  | OtherError string

record crypt_de =
  cde_encode :: "public_key \<Rightarrow> plain_data \<Rightarrow> (crypt_data, cryptdec_error) res"
  cde_decode :: "crypt_data \<Rightarrow> (plain_data, cryptdec_error) res"
  cde_encode_sym :: "symmetric_key \<Rightarrow> plain_data \<Rightarrow> (crypt_data, cryptdec_error) res"
  cde_decode_sym :: "symmetric_key \<Rightarrow> crypt_data \<Rightarrow> (plain_data, cryptdec_error) res"
  cde_public_key :: public_key
  cde_sign :: "plain_data \<Rightarrow> (crypt_data, cryptdec_error) res"
  cde_verify_signature :: "plain_data \<Rightarrow> crypt_data \<Rightarrow> public_key \<Rightarrow> bool option"
  cde_hash :: "plain_data \<Rightarrow> crypt_data"
  cde_digest :: bytes32

subsection \<open>Reading integers from plain data\<close>

definition get_u8 :: "plain_data \<Rightarrow> nat \<Rightarrow> u8 option" where
  "get_u8 d idx = (if idx \<ge> length d then None else Some (d ! idx))"

definition get_u16 :: "plain_data \<Rightarrow> nat \<Rightarrow> u16 option" where
  "get_u16 d idx = (if idx + 1 \<ge> length d then None
     else Some (push_bit 8 (ucast (d ! idx)) OR ucast (d ! (idx + 1))))"

definition get_u24 :: "plain_data \<Rightarrow> nat \<Rightarrow> u32 option" where
  "get_u24 d idx = (if idx + 2 \<ge> length d then None
     else Some ((push_bit 16 (ucast (d ! idx)) OR push_bit 8 (ucast (d ! (idx + 1)))) OR ucast (d ! (idx + 2))))"

definition get_u32 :: "plain_data \<Rightarrow> nat \<Rightarrow> u32 option" where
  "get_u32 d idx = (if idx + 3 \<ge> length d then None
     else Some (((push_bit 24 (ucast (d ! idx)) OR push_bit 16 (ucast (d ! (idx + 1))))
                 OR push_bit 8 (ucast (d ! (idx + 2)))) OR ucast (d ! (idx + 3))))"

subsection \<open>Serialize and encrypt\<close>

text \<open>\<open>RouteError\<close> of \<open>sub_lib/route.rs\<close> is one of the causes a codec call can report.\<close>

datatype route_error =
    HopDecodeProblem string
  | EmptyRoute
  | TooFewKeysInRouteSegment
  | DisjointRouteSegments

datatype 'se codex_error =
    SerializationError 'se
  | DeserializationError 'se
  | EncryptionError cryptdec_error
  | DecryptionError cryptdec_error
  | RoutingError route_error

definition encodex ::
    "('t \<Rightarrow> (bytes, 'se) res) \<Rightarrow> crypt_de \<Rightarrow> public_key \<Rightarrow> 't \<Rightarrow> (crypt_data, 'se codex_error) res" where
  "encodex to_vec cryptde pk item =
     and_then (map_err SerializationError (to_vec item))
       (\<lambda>serialized. map_err EncryptionError (cde_encode cryptde pk serialized))"

definition decodex ::
    "(bytes \<Rightarrow> ('t, 'se) res) \<Rightarrow> crypt_de \<Rightarrow> crypt_data \<Rightarrow> ('t, 'se codex_error) res" where
  "decodex from_slice cryptde data =
     and_then (map_err DecryptionError (cde_decode cryptde data))
       (\<lambda>decrypted. map_err DeserializationError (from_slice decrypted))"

definition create_digest :: "(bytes \<Rightarrow> bytes32) \<Rightarrow> bytes \<Rightarrow> bytes \<Rightarrow> bytes32" where
  "create_digest keccak256 msg address = keccak256 (msg @ address)"

subsection \<open>The null implementation\<close>

record crypt_de_null =
  null_private_key :: private_key
  null_public_key :: public_key
  null_digest :: bytes32
  next_symmetric_key_seed :: u64

definition other_key_data :: "bytes \<Rightarrow> bytes" where
  "other_key_data = map (\<lambda>b. b + 128)"

definition private_from_public :: "public_key \<Rightarrow> private_key" where
  "private_from_public k = other_key_data k"

definition public_from_private :: "private_key \<Rightarrow> public_key" where
  "public_from_private k = other_key_data k"

text \<open>The 32 random bytes of \<open>CryptDENull::new\<close> are an argument.\<close>

definition null_new :: "(bytes \<Rightarrow> bytes32) \<Rightarrow> bytes \<Rightarrow> bytes \<Rightarrow> crypt_de_null" where
  "null_new keccak256 random_bytes contract =
     (let private_key = random_bytes;
          public_key = public_from_private private_key
      in \<lparr>null_private_key = private_key, null_public_key = public_key,
          null_digest = create_digest keccak256 public_key contract,
          next_symmetric_key_seed = 0x0123456789ABCDEF\<rparr>)"

definition null_set_key_pair :: "(bytes \<Rightarrow> bytes32) \<Rightarrow> crypt_de_null \<Rightarrow> public_key \<Rightarrow> bytes \<Rightarrow> crypt_de_null" where
  "null_set_key_pair keccak256 c pk contract =
     c\<lparr>null_public_key := pk, null_private_key := private_from_public pk,
       null_digest := create_digest keccak256 pk contract\<rparr>"

definition null_from :: "(bytes \<Rightarrow> bytes32) \<Rightarrow> bytes \<Rightarrow> public_key \<Rightarrow> bytes \<Rightarrow> crypt_de_null" where
  "null_from keccak256 random_bytes pk contract =
     null_set_key_pair keccak256 (null_new keccak256 random_bytes contract) pk contract"

definition wrong_key_message :: "(bytes \<Rightarrow> string) \<Rightarrow> bytes \<Rightarrow> crypt_data \<Rightarrow> string" where
  "wrong_key_message to_hex key_data data =
     ''Could not decrypt with '' @ to_hex key_data @ '' data beginning with '' @
       to_hex (take (min (length key_data) (length data)) data)"

definition encode_with_key_data :: "bytes \<Rightarrow> plain_data \<Rightarrow> (crypt_data, cryptdec_error) res" where
  "encode_with_key_data key_data data =
     (if key_data = [] then Err EmptyKey
      else if data = [] then Err EmptyData
      else Ok (key_data @ data))"

text \<open>\<open>split_at\<close> panics when the index is beyond the end.\<close>

definition key_and_data :: "nat \<Rightarrow> crypt_data \<Rightarrow> (bytes \<times> bytes) option" where
  "key_and_data key_len data =
     (if key_len \<le> length data then Some (take key_len data, drop key_len data) else None)"

definition decode_with_key_data ::
    "(bytes \<Rightarrow> string) \<Rightarrow> bytes \<Rightarrow> crypt_data \<Rightarrow> (plain_data, cryptdec_error) res" where
  "decode_with_key_data to_hex key_data data =
     (if key_data = [] then Err EmptyKey
      else if data = [] then Err EmptyData
      else if length key_data > length data then Err (InvalidKey (wrong_key_message to_hex key_data data))
      else and_then (expect (key_and_data (length key_data) data))
             (\<lambda>(k, d). if k \<noteq> key_data then Panic else Ok d))"

definition null_hash :: "(bytes \<Rightarrow> bytes) \<Rightarrow> plain_data \<Rightarrow> crypt_data" where
  "null_hash sha1_digest data = sha1_digest data"

definition null_sign :: "(bytes \<Rightarrow> bytes) \<Rightarrow> crypt_de_null \<Rightarrow> plain_data \<Rightarrow> (crypt_data, cryptdec_error) res" where
  "null_sign sha1_digest c data =
     encode_with_key_data (other_key_data (null_private_key c)) (null_hash sha1_digest data)"

definition null_verify_signature ::
    "(bytes \<Rightarrow> bytes) \<Rightarrow> (bytes \<Rightarrow> string) \<Rightarrow> plain_data \<Rightarrow> crypt_data \<Rightarrow> public_key \<Rightarrow> bool option" where
  "null_verify_signature sha1_digest to_hex data signature pk =
     (case key_and_data (length pk) signature of
        None \<Rightarrow> None
      | Some (private_key_bytes, _) \<Rightarrow>
          if private_key_bytes \<noteq> pk then Some False
          else (case decode_with_key_data to_hex pk signature of
                  Err _ \<Rightarrow> Some False
                | Panic \<Rightarrow> None
                | Ok claimed_hash \<Rightarrow> Some (null_hash sha1_digest data = claimed_hash)))"

text \<open>\<open>gen_key_sym\<close> returns the key and the state with the next seed.\<close>

fun seed_bytes :: "nat \<Rightarrow> u64 \<Rightarrow> bytes" where
  "seed_bytes 0 seed = []"
| "seed_bytes (Suc n) seed = ucast (seed AND 0xFF) # seed_bytes n (drop_bit 8 seed)"

definition gen_key_sym :: "crypt_de_null \<Rightarrow> symmetric_key \<times> crypt_de_null" where
  "gen_key_sym c =
     (seed_bytes 8 (next_symmetric_key_seed c),
      c\<lparr>next_symmetric_key_seed := next_symmetric_key_seed c + 1\<rparr>)"

definition null_random :: "bytes \<Rightarrow> bytes" where
  "null_random dest = map (\<lambda>_. 0x34) dest"

definition null_crypt_de :: "(bytes \<Rightarrow> bytes) \<Rightarrow> (bytes \<Rightarrow> string) \<Rightarrow> crypt_de_null \<Rightarrow> crypt_de" where
  "null_crypt_de sha1_digest to_hex c =
     \<lparr>cde_encode = (\<lambda>pk data. encode_with_key_data (other_key_data pk) data),
      cde_decode = (\<lambda>data. decode_with_key_data to_hex (null_private_key c) data),
      cde_encode_sym = (\<lambda>key data. encode_with_key_data key data),
      cde_decode_sym = (\<lambda>key data. decode_with_key_data to_hex key data),
      cde_public_key = null_public_key c,
      cde_sign = null_sign sha1_digest c,
      cde_verify_signature = null_verify_signature sha1_digest to_hex,
      cde_hash = null_hash sha1_digest,
      cde_digest = null_digest c\<rparr>"

subsection \<open>Key pairs\<close>

lemma other_key_data_involution [simp]: "other_key_data (other_key_data k) = k"
proof -
  have "(128 + 128 :: u8) = 0"
    by code_simp
  then have "b + 128 + 128 = b" for b :: u8
    by (simp only: add.assoc add_0_right)
  then show ?thesis
    unfolding other_key_data_def by (induction k) simp_all
qed

lemma other_key_data_length [simp]: "length (other_key_data k) = length k"
  by (simp add: other_key_data_def)

lemma other_key_data_Nil [simp]: "other_key_data k = [] \<longleftrightarrow> k = []"
  by (simp add: other_key_data_def)

definition null_key_pair :: "crypt_de_null \<Rightarrow> bool" where
  "null_key_pair c \<longleftrightarrow> null_private_key c = private_from_public (null_public_key c)"

lemma null_key_pair_new: "null_key_pair (null_new keccak256 rnd contract)"
  by (simp add: null_key_pair_def null_new_def private_from_public_def public_from_private_def Let_def)

lemma null_key_pair_from: "null_key_pair (null_from keccak256 rnd pk contract)"
  by (simp add: null_key_pair_def null_from_def null_set_key_pair_def)

lemma decode_encode: "encode_with_key_data k d = Ok e \<Longrightarrow> decode_with_key_data to_hex k e = Ok d"
  by (auto simp: encode_with_key_data_def decode_with_key_data_def key_and_data_def split: if_splits)

lemma null_verify_signature_iff:
  "null_verify_signature sha1_digest to_hex d s pk =
     (if length s < length pk then None else Some (pk \<noteq> [] \<and> s = pk @ sha1_digest d))"
proof (cases "length s < length pk")
  case True
  then show ?thesis by (simp add: null_verify_signature_def key_and_data_def)
next
  case False
  have "s = pk @ sha1_digest d \<longleftrightarrow> take (length pk) s = pk \<and> sha1_digest d = drop (length pk) s"
    by (metis append_eq_conv_conj)
  with False show ?thesis
    by (auto simp: null_verify_signature_def key_and_data_def decode_with_key_data_def null_hash_def)
qed

subsection \<open>Signing as an interface\<close>

text \<open>
  A family of \<open>CryptDE\<close> objects that can verify each other's signatures: a member accepts what
  another member signed, and signatures are at least as long as the key they are checked against.
  The receipt code guards every verification with that length test. In a total family the test is
  enough to keep verification from panicking.
\<close>

locale sig_family =
  fixes member :: "crypt_de \<Rightarrow> bool"
  assumes sign_verifies: "member c \<Longrightarrow> member v \<Longrightarrow> cde_sign c d = Ok s \<Longrightarrow>
      cde_verify_signature v d s (cde_public_key c) = Some True"
    and sign_length: "member c \<Longrightarrow> cde_sign c d = Ok s \<Longrightarrow> length (cde_public_key c) \<le> length s"
begin

text \<open>The guarded verification used for receipts and settlement policies.\<close>

lemma guarded_verify_signed:
  assumes "member c" "member v" "cde_sign c d = Ok s"
  shows "\<not> length s < length (cde_public_key c) \<and> cde_verify_signature v d s (cde_public_key c) = Some True"
  using sign_verifies [OF assms] sign_length [OF assms(1,3)] by simp

end

locale total_sig_family = sig_family +
  assumes verify_total: "member v \<Longrightarrow> length pk \<le> length s \<Longrightarrow> cde_verify_signature v d s pk \<noteq> None"

definition signs_all :: "(crypt_de \<Rightarrow> bool) \<Rightarrow> bool" where
  "signs_all member \<longleftrightarrow> (\<forall>c d. member c \<longrightarrow> cde_public_key c \<noteq> [] \<longrightarrow> (\<exists>s. cde_sign c d = Ok s))"

definition null_member :: "(bytes \<Rightarrow> bytes) \<Rightarrow> (bytes \<Rightarrow> string) \<Rightarrow> crypt_de \<Rightarrow> bool" where
  "null_member sha1_digest to_hex c \<longleftrightarrow> (\<exists>n. null_key_pair n \<and> c = null_crypt_de sha1_digest to_hex n)"

lemma null_member_from [simp]:
  "null_member sha1_digest to_hex (null_crypt_de sha1_digest to_hex (null_from keccak256 rnd pk contract))"
  unfolding null_member_def using null_key_pair_from by blast

lemma null_from_public_key [simp]:
  "cde_public_key (null_crypt_de sha1_digest to_hex (null_from keccak256 rnd pk contract)) = pk"
  by (simp add: null_crypt_de_def null_from_def null_set_key_pair_def)

lemma null_sign_eq:
  "null_key_pair c \<Longrightarrow> null_sign sha1_digest c d = Ok s \<longleftrightarrow>
     null_public_key c \<noteq> [] \<and> sha1_digest d \<noteq> [] \<and> s = null_public_key c @ sha1_digest d"
  by (auto simp: null_sign_def null_key_pair_def private_from_public_def encode_with_key_data_def null_hash_def)

interpretation null: total_sig_family "null_member sha1_digest to_hex" for sha1_digest to_hex
  by unfold_locales
    (auto simp: null_member_def null_crypt_de_def null_sign_eq null_verify_signature_iff)

lemma null_signs_all: "(\<And>d. sha1_digest d \<noteq> []) \<Longrightarrow> signs_all (null_member sha1_digest to_hex)"
  by (auto simp: signs_all_def null_member_def null_crypt_de_def null_sign_eq)

subsection \<open>Sealing as an interface\<close>

text \<open>
  A family of \<open>CryptDE\<close> objects that can open what another member sealed for them. Routes and
  packages rely on nothing else.
\<close>

locale seal_family =
  fixes member :: "crypt_de \<Rightarrow> bool"
  assumes open_sealed: "member c \<Longrightarrow> member v \<Longrightarrow> cde_encode v (cde_public_key c) d = Ok e \<Longrightarrow> cde_decode c e = Ok d"
begin

lemma decodex_encodex:
  assumes "member c" "member v" and "encodex to_vec v (cde_public_key c) x = Ok e"
    and "\<And>bs. to_vec x = Ok bs \<Longrightarrow> from_slice bs = Ok x"
  shows "decodex from_slice c e = Ok x"
  using assms open_sealed [OF assms(1,2)] by (auto simp: encodex_def decodex_def res_simps)

end

text \<open>The members also seal whatever is not empty, for the key of any member that has one.\<close>

definition seals_all :: "(crypt_de \<Rightarrow> bool) \<Rightarrow> bool" where
  "seals_all member \<longleftrightarrow> (\<forall>c v d. member c \<longrightarrow> member v \<longrightarrow> cde_public_key c \<noteq> [] \<longrightarrow> d \<noteq> [] \<longrightarrow>
     (\<exists>e. cde_encode v (cde_public_key c) d = Ok e))"

lemma null_seals_all: "seals_all (null_member sha1_digest to_hex)"
  by (auto simp: seals_all_def null_member_def null_crypt_de_def encode_with_key_data_def)

interpretation sealed: seal_family "null_member sha1_digest to_hex" for sha1_digest to_hex
  by unfold_locales
    (auto simp: null_member_def null_crypt_de_def null_key_pair_def private_from_public_def dest: decode_encode)

subsection \<open>Symmetric keys\<close>

lemma seed_byte: "(ucast (x AND 0xFF :: u64) :: u8) = ucast (take_bit 8 x)"
proof -
  have "(0xFF :: u64) = mask 8" by (simp add: mask_eq_exp_minus_1)
  then show ?thesis by (simp add: take_bit_eq_mask)
qed

lemma seed_bytes_inj: "seed_bytes n a = seed_bytes n b \<Longrightarrow> take_bit (8 * n) a = take_bit (8 * n) b"
proof (induction n arbitrary: a b)
  case 0
  show ?case by simp
next
  case (Suc n)
  have "(ucast (take_bit 8 a) :: u8) = ucast (take_bit 8 b)"
    using Suc.prems by (simp add: seed_byte)
  then have "(ucast (ucast (take_bit 8 a) :: u8) :: u64) = ucast (ucast (take_bit 8 b) :: u8)"
    by simp
  moreover have "(ucast (ucast (take_bit 8 x) :: u8) :: u64) = take_bit 8 x" for x :: u64
    by (rule bit_eqI) (auto simp: bit_simps)
  ultimately have low: "take_bit 8 a = take_bit 8 b" by simp
  have high: "take_bit (8 * n) (drop_bit 8 a) = take_bit (8 * n) (drop_bit 8 b)"
    by (rule Suc.IH) (use Suc.prems in simp)
  have "take_bit (8 * Suc n) x = push_bit 8 (take_bit (8 * n) (drop_bit 8 x)) + take_bit 8 x" for x :: u64
    using bits_ident [of 8 "take_bit (8 * Suc n) x"]
    by (simp add: drop_bit_take_bit)
  then show ?case by (simp only: low high)
qed

text \<open>
  C39. Decryption inverts encryption for the null implementation: what anyone encodes for the
  public key of a key pair, the holder of the pair decodes to the same data, and what is encoded
  under a symmetric key is decoded under it; encoding fails only on an empty key or empty data.
\<close>

theorem null_decode_inverts_encode:
  "null_key_pair c \<Longrightarrow>
   (cde_encode (null_crypt_de sha1_digest to_hex other) (null_public_key c) d =
      (if null_public_key c = [] then Err EmptyKey else if d = [] then Err EmptyData
       else Ok (null_private_key c @ d))) \<and>
   (null_public_key c \<noteq> [] \<and> d \<noteq> [] \<longrightarrow>
      cde_decode (null_crypt_de sha1_digest to_hex c) (null_private_key c @ d) = Ok d) \<and>
   (k \<noteq> [] \<and> d \<noteq> [] \<longrightarrow>
      and_then (cde_encode_sym (null_crypt_de sha1_digest to_hex other) k d)
        (cde_decode_sym (null_crypt_de sha1_digest to_hex c) k) = Ok d)"
  by (auto simp: null_crypt_de_def encode_with_key_data_def null_key_pair_def private_from_public_def
      decode_with_key_data_def key_and_data_def)

theorem null_decode_inverts_encode_witness:
  "let c = null_from (\<lambda>b. 0) [1] [1, 2, 3] [9] in
   cde_encode (null_crypt_de (\<lambda>b. b) (\<lambda>b. []) c) [1, 2, 3] [7, 8] = Ok [129, 130, 131, 7, 8] \<and>
   cde_decode (null_crypt_de (\<lambda>b. b) (\<lambda>b. []) c) [129, 130, 131, 7, 8] = Ok [7, 8]"
  using null_decode_inverts_encode [where c = "null_from (\<lambda>b. 0) [1] [1, 2, 3] [9]"
      and other = "null_from (\<lambda>b. 0) [1] [1, 2, 3] [9]" and sha1_digest = "\<lambda>b. b" and to_hex = "\<lambda>b. []"
      and d = "[7, 8]" and k = "[1]", OF null_key_pair_from]
  by (simp add: Let_def null_from_def null_set_key_pair_def private_from_public_def other_key_data_def)

text \<open>
  What a null signature is and when it verifies: verification panics exactly when the
  signature is shorter than the key, and otherwise accepts exactly the concatenation of the
  (non-empty) key and the hash of the data. So a signature made by a key pair verifies under
  its public key, and under no other key of the same length and for no data with another hash.
\<close>

theorem null_signature_characterized:
  "cde_verify_signature (null_crypt_de sha1_digest to_hex v) d s pk =
     (if length s < length pk then None else Some (pk \<noteq> [] \<and> s = pk @ sha1_digest d)) \<and>
   cde_sign (null_crypt_de sha1_digest to_hex (null_from keccak256 rnd pk contract)) d =
     (if pk = [] then Err EmptyKey else if sha1_digest d = [] then Err EmptyData else Ok (pk @ sha1_digest d))"
  by (simp add: null_crypt_de_def null_verify_signature_iff null_sign_def null_from_def
      null_set_key_pair_def private_from_public_def encode_with_key_data_def null_hash_def)

text \<open>
  Symmetric keys of the null implementation do not repeat: the keys handed out at two
  different positions of its generator, less than \<open>2 ^ 64\<close> apart, differ.
\<close>

theorem gen_key_sym_fresh:
  "i < j \<and> j - i < 2 ^ 64 \<Longrightarrow>
   fst (gen_key_sym (((snd \<circ> gen_key_sym) ^^ i) c)) \<noteq> fst (gen_key_sym (((snd \<circ> gen_key_sym) ^^ j) c))"
proof -
  assume ij: "i < j \<and> j - i < 2 ^ 64"
  have seed: "next_symmetric_key_seed (((snd \<circ> gen_key_sym) ^^ n) c) = next_symmetric_key_seed c + of_nat n" for n
    by (induction n) (simp_all add: gen_key_sym_def add.assoc)
  let ?s = "next_symmetric_key_seed c"
  have "take_bit 64 (?s + of_nat i) \<noteq> take_bit 64 (?s + of_nat j)"
  proof
    assume "take_bit 64 (?s + of_nat i) = take_bit 64 (?s + of_nat j)"
    then have "(of_nat i :: u64) = of_nat j"
      by (simp add: take_bit_word_eq_self)
    then have "(of_nat (j - i) :: u64) = 0"
      using ij by (simp add: of_nat_diff)
    then have "2 ^ 64 dvd j - i"
      using word_of_nat_eq_0_iff [where 'a = 64, of "j - i"] by simp
    with ij show False
      by (auto dest: dvd_imp_le)
  qed
  then show ?thesis
    using seed_bytes_inj [of 8 "?s + of_nat i" "?s + of_nat j"] by (auto simp: gen_key_sym_def seed)
qed

theorem gen_key_sym_fresh_witness:
  "let c = null_new (\<lambda>b. 0) [1] [2] in fst (gen_key_sym c) \<noteq> fst (gen_key_sym (snd (gen_key_sym c)))"
  using gen_key_sym_fresh [of 0 1 "null_new (\<lambda>b. 0) [1] [2]"] by simp

end
