(* ===== verification/Service_Receipt.thy ===== *)
theory Service_Receipt
  imports CryptDE
begin

unbundle bit_operations_syntax

section \<open>Service receipts, session authorizations and checkpoints\<close>

text \<open>
  \<open>node/src/sub_lib/service_receipt.rs\<close>, with \<open>Wallet::address_opt\<close> and \<open>Wallet::sign\<close> of
  \<open>node/src/sub_lib/wallet.rs\<close>. A provider signs a receipt for billable service, the payer
  acknowledges it with a second signature, a wallet authorizes the payer's session key up to an
  amount and a time, and a checkpoint follows the acknowledged receipts of one route. Keccak-256,
  CBOR encoding and the elliptic-curve operations come from other crates: they are the fields of
  the record \<open>receipt_env\<close>, an argument of every definition that uses them. The JSON form of the
  EIP-712 requests (\<open>eip712_typed_data\<close>) is left out.
\<close>

subsection \<open>Constants\<close>

definition service_receipt_protocol_version :: u16 where
  "service_receipt_protocol_version = 1"

definition min_receipt_session_duration_seconds :: u64 where
  "min_receipt_session_duration_seconds = 60"

definition max_receipt_session_duration_seconds :: u64 where
  "max_receipt_session_duration_seconds = 24 * 60 * 60"

definition max_receipt_session_charge_wei :: u128 where
  "max_receipt_session_charge_wei = push_bit 126 1 - 1"

definition min_provider_settlement_duration_seconds :: u64 where
  "min_provider_settlement_duration_seconds = 60"

definition max_provider_settlement_duration_seconds :: u64 where
  "max_provider_settlement_duration_seconds = 30 * 24 * 60 * 60"

definition accounting_commitment_domain :: bytes where
  "accounting_commitment_domain = ascii ''MASQ_ACCOUNTING_COMMITMENT_V1'' @ [0]"

definition payer_acknowledgement_domain :: bytes where
  "payer_acknowledgement_domain = ascii ''MASQ_SERVICE_RECEIPT_ACK_V1'' @ [0]"

definition provider_settlement_signing_domain :: bytes where
  "provider_settlement_signing_domain = ascii ''MASQ_PROVIDER_SETTLEMENT_TRANSPORT_V1'' @ [0]"

definition service_receipt_signing_domain :: bytes where
  "service_receipt_signing_domain = ascii ''MASQ_SERVICE_RECEIPT_V1'' @ [0]"

definition eip712_domain_type :: bytes where
  "eip712_domain_type =
     ascii ''EIP712Domain(string name,string version,uint256 chainId,address verifyingContract)''"

definition eip712_name :: bytes where
  "eip712_name = ascii ''MASQ Service Receipt''"

definition eip712_version :: bytes where
  "eip712_version = ascii ''1''"

definition provider_settlement_eip712_name :: bytes where
  "provider_settlement_eip712_name = ascii ''MASQ Provider Settlement''"

definition provider_settlement_authorization_type :: bytes where
  "provider_settlement_authorization_type = ascii (''ProviderSettlementAuthorization(uint16 protocolVersion,''
     @ ''address payoutWallet,bytes providerPublicKey,uint64 validFromUnixS,uint64 expiresAtUnixS,''
     @ ''bytes32 authorizationNonce)'')"

definition session_authorization_type :: bytes where
  "session_authorization_type = ascii (''ReceiptSessionAuthorization(uint16 protocolVersion,''
     @ ''address payerWallet,bytes payerSessionPublicKey,uint256 maxTotalChargeWei,''
     @ ''uint64 validFromUnixS,uint64 expiresAtUnixS,bytes32 authorizationNonce)'')"

definition secp256k1_half_order :: bytes32 where
  "secp256k1_half_order = 0x7fffffffffffffffffffffffffffffff5d576e7357a4501ddfe92f46681b20a0"

subsection \<open>Data\<close>

datatype service_kind = Routing | Exit

record service_receipt =
  sr_protocol_version :: u16
  sr_route_epoch :: bytes32
  sr_sequence :: u64
  sr_service_kind :: service_kind
  sr_provider_public_key :: public_key
  sr_accounting_commitment :: bytes32
  sr_payload_size :: u64
  sr_service_units :: u64
  sr_service_rate :: u64
  sr_byte_rate :: u64
  sr_cumulative_charge_wei :: u128

record signed_service_receipt =
  ssr_receipt :: service_receipt
  ssr_provider_signature :: crypt_data

record acknowledged_service_receipt =
  asr_signed_receipt :: signed_service_receipt
  asr_payer_session_public_key :: public_key
  asr_payer_signature :: crypt_data

record receipt_session_policy =
  rsp_protocol_version :: u16
  rsp_chain_id :: u64
  rsp_settlement_contract :: address
  rsp_payer_wallet_address :: address
  rsp_payer_session_public_key :: public_key
  rsp_max_total_charge_wei :: u128
  rsp_valid_from_unix_s :: u64
  rsp_expires_at_unix_s :: u64
  rsp_authorization_nonce :: bytes32

text \<open>\<open>ethsign::Signature\<close>.\<close>

record eth_signature =
  sig_v :: u8
  sig_r :: bytes32
  sig_s :: bytes32

record authorized_receipt_session =
  ars_policy :: receipt_session_policy
  ars_wallet_signature :: eth_signature

record provider_settlement_policy =
  psp_protocol_version :: u16
  psp_chain_id :: u64
  psp_settlement_contract :: address
  psp_payout_wallet_address :: address
  psp_provider_public_key :: public_key
  psp_valid_from_unix_s :: u64
  psp_expires_at_unix_s :: u64
  psp_authorization_nonce :: bytes32

record authorized_provider_settlement =
  aps_policy :: provider_settlement_policy
  aps_payout_wallet_signature :: eth_signature
  aps_provider_signature :: crypt_data

record receipt_session_request =
  rsr_authorization :: authorized_receipt_session
  rsr_route_epoch :: bytes32
  rsr_accounting_commitment :: bytes32

record receipt_sequence_checkpoint =
  ck_route_epoch :: bytes32
  ck_provider_public_key :: public_key
  ck_accounting_commitment :: bytes32
  ck_payer_session_public_key :: public_key
  ck_last_sequence :: u64
  ck_cumulative_charge_wei :: u128

datatype service_receipt_error =
    AmountLimitExceeded
  | AccountingCommitmentMismatch
  | CumulativeChargeMismatch
  | CumulativeChargeOverflow
  | EmptyAmountLimit
  | EmptyAuthorizationNonce
  | EmptyAccountingCommitment
  | EmptyPayerSessionPublicKey
  | EmptyPayerWallet
  | EmptyProviderPayoutWallet
  | EmptyProviderPublicKey
  | EmptyRouteEpoch
  | EmptyServiceUnits
  | EmptySettlementContract
  | InvalidChain
  | InvalidAuthorizationWindow
  | InvalidPayerSignature
  | InvalidProviderSignature
  | InvalidProviderSettlementSignature
  | InvalidWalletSignature
  | NonMonotonicSequence
  | ProviderPublicKeyMismatch
  | ProviderSettlementAuthorizationExpired
  | ProviderSettlementAuthorizationNotYetValid
  | RouteEpochMismatch
  | SessionAuthorizationExpired
  | SessionAuthorizationNotYetValid
  | SessionKeyMismatch
  | Serialization string
  | SettlementContractMismatch
  | Signing cryptdec_error
  | WalletMismatch
  | WalletSigning string
  | WrongChain
  | UnsupportedProtocolVersion u16

subsection \<open>What comes from other crates\<close>

text \<open>
  \<open>keccak256\<close> of \<open>ethsign_crypto\<close>; \<open>serde_cbor::to_vec\<close> of the three signed structures, with the
  text of its error; \<open>Signature::recover\<close>, \<open>PublicKey::verify\<close> (\<open>None\<close> for its error) and
  \<open>PublicKey::address\<close> of \<open>ethsign\<close>, whose public keys are byte strings.
\<close>

record receipt_env =
  keccak256 :: "bytes \<Rightarrow> bytes32"
  cbor_receipt :: "service_receipt \<Rightarrow> (bytes, string) res"
  cbor_acknowledgement :: "signed_service_receipt \<times> public_key \<Rightarrow> (bytes, string) res"
  cbor_settlement_policy :: "provider_settlement_policy \<Rightarrow> (bytes, string) res"
  ec_recover :: "eth_signature \<Rightarrow> bytes32 \<Rightarrow> bytes option"
  ec_verify :: "bytes \<Rightarrow> eth_signature \<Rightarrow> bytes32 \<Rightarrow> bool option"
  ec_address :: "bytes \<Rightarrow> address"

text \<open>
  \<open>Wallet\<close>: the secret key of a \<open>SecretKey\<close> wallet is its address and its signing function, with
  the debug text of the signing error.
\<close>

datatype wallet_kind =
    WalletAddress address
  | WalletSecretKey address "bytes32 \<Rightarrow> (eth_signature, string) res"
  | WalletPublicKey bytes
  | WalletUninitialized

fun wallet_address_opt :: "receipt_env \<Rightarrow> wallet_kind \<Rightarrow> address option" where
  "wallet_address_opt env (WalletAddress a) = Some a"
| "wallet_address_opt env (WalletPublicKey pk) = Some (ec_address env pk)"
| "wallet_address_opt env (WalletSecretKey a key) = Some a"
| "wallet_address_opt env WalletUninitialized = None"

fun wallet_kind_debug :: "wallet_kind \<Rightarrow> string" where
  "wallet_kind_debug (WalletAddress a) = ''Address([REDACTED])''"
| "wallet_kind_debug (WalletSecretKey a key) = ''SecretKey([REDACTED])''"
| "wallet_kind_debug (WalletPublicKey pk) = ''PublicKey([REDACTED])''"
| "wallet_kind_debug WalletUninitialized = ''Uninitialized''"

fun wallet_sign :: "wallet_kind \<Rightarrow> bytes32 \<Rightarrow> (eth_signature, string) res" where
  "wallet_sign (WalletSecretKey a key) msg = key msg"
| "wallet_sign w msg = Err (''Cannot sign with non-keypair wallet: '' @ wallet_kind_debug w @ ''.'')"

subsection \<open>Receipts\<close>

definition make_accounting_commitment :: "receipt_env \<Rightarrow> bytes32 \<Rightarrow> public_key \<Rightarrow> bytes32" where
  "make_accounting_commitment env route_epoch payer_session_public_key =
     keccak256 env (accounting_commitment_domain @ be_bytes 32 route_epoch @ payer_session_public_key)"

definition checked_charge_wei :: "u64 \<Rightarrow> u64 \<Rightarrow> u64 \<Rightarrow> u64 \<Rightarrow> (u128, service_receipt_error) res" where
  "checked_charge_wei service_rate service_units byte_rate payload_size =
     ok_or CumulativeChargeOverflow
       (Option.bind (checked_mul (ucast service_rate) (ucast service_units)) (\<lambda>service_charge.
          Option.bind (checked_mul (ucast byte_rate) (ucast payload_size)) (\<lambda>byte_charge.
            checked_add service_charge byte_charge)))"

definition unwrap_or :: "'a \<Rightarrow> ('a, 'e) res \<Rightarrow> 'a" where
  "unwrap_or d r = (case r of Ok a \<Rightarrow> a | _ \<Rightarrow> d)"

definition new_with_service_units ::
    "bytes32 \<Rightarrow> u64 \<Rightarrow> service_kind \<Rightarrow> public_key \<Rightarrow> bytes32 \<Rightarrow> u64 \<Rightarrow> u64 \<Rightarrow> u64 \<Rightarrow> u64 \<Rightarrow> service_receipt" where
  "new_with_service_units route_epoch sequence kind provider commitment payload_size service_units
       service_rate byte_rate =
     \<lparr>sr_protocol_version = service_receipt_protocol_version, sr_route_epoch = route_epoch,
      sr_sequence = sequence, sr_service_kind = kind, sr_provider_public_key = provider,
      sr_accounting_commitment = commitment, sr_payload_size = payload_size,
      sr_service_units = service_units, sr_service_rate = service_rate, sr_byte_rate = byte_rate,
      sr_cumulative_charge_wei =
        unwrap_or (- 1) (checked_charge_wei service_rate service_units byte_rate payload_size)\<rparr>"

definition service_receipt_new ::
    "bytes32 \<Rightarrow> u64 \<Rightarrow> service_kind \<Rightarrow> public_key \<Rightarrow> bytes32 \<Rightarrow> u64 \<Rightarrow> u64 \<Rightarrow> u64 \<Rightarrow> service_receipt" where
  "service_receipt_new route_epoch sequence kind provider commitment payload_size service_rate byte_rate =
     new_with_service_units route_epoch sequence kind provider commitment payload_size 1 service_rate byte_rate"

definition checked_total_charge_wei :: "service_receipt \<Rightarrow> (u128, service_receipt_error) res" where
  "checked_total_charge_wei r =
     checked_charge_wei (sr_service_rate r) (sr_service_units r) (sr_byte_rate r) (sr_payload_size r)"

definition total_charge_wei :: "service_receipt \<Rightarrow> u128" where
  "total_charge_wei r = unwrap_or (- 1) (checked_total_charge_wei r)"

definition receipt_validate :: "service_receipt \<Rightarrow> (unit, service_receipt_error) res" where
  "receipt_validate r =
     (if sr_protocol_version r \<noteq> service_receipt_protocol_version
        then Err (UnsupportedProtocolVersion (sr_protocol_version r))
      else if sr_route_epoch r = 0 then Err EmptyRouteEpoch
      else if sr_accounting_commitment r = 0 then Err EmptyAccountingCommitment
      else if sr_provider_public_key r = [] then Err EmptyProviderPublicKey
      else if sr_service_units r = 0 then Err EmptyServiceUnits
      else and_then (checked_total_charge_wei r) (\<lambda>charge.
        if sr_cumulative_charge_wei r < charge then Err CumulativeChargeMismatch else Ok ()))"

definition next_with_service_units ::
    "service_receipt \<Rightarrow> u64 \<Rightarrow> service_kind \<Rightarrow> u64 \<Rightarrow> u64 \<Rightarrow> u64 \<Rightarrow> u64 \<Rightarrow> (service_receipt, service_receipt_error) res" where
  "next_with_service_units r sequence kind payload_size service_units service_rate byte_rate =
     and_then (receipt_validate r) (\<lambda>_.
       if sequence \<le> sr_sequence r then Err NonMonotonicSequence
       else if service_units = 0 then Err EmptyServiceUnits
       else and_then (checked_charge_wei service_rate service_units byte_rate payload_size) (\<lambda>current_charge.
         and_then (ok_or CumulativeChargeOverflow (checked_add (sr_cumulative_charge_wei r) current_charge))
           (\<lambda>cumulative.
             Ok \<lparr>sr_protocol_version = service_receipt_protocol_version, sr_route_epoch = sr_route_epoch r,
                 sr_sequence = sequence, sr_service_kind = kind,
                 sr_provider_public_key = sr_provider_public_key r,
                 sr_accounting_commitment = sr_accounting_commitment r, sr_payload_size = payload_size,
                 sr_service_units = service_units, sr_service_rate = service_rate,
                 sr_byte_rate = byte_rate, sr_cumulative_charge_wei = cumulative\<rparr>)))"

definition next_for_same_route ::
    "service_receipt \<Rightarrow> u64 \<Rightarrow> service_kind \<Rightarrow> u64 \<Rightarrow> u64 \<Rightarrow> u64 \<Rightarrow> (service_receipt, service_receipt_error) res" where
  "next_for_same_route r sequence kind payload_size service_rate byte_rate =
     next_with_service_units r sequence kind payload_size 1 service_rate byte_rate"

definition receipt_signing_data :: "receipt_env \<Rightarrow> service_receipt \<Rightarrow> (plain_data, service_receipt_error) res" where
  "receipt_signing_data env r =
     and_then (map_err Serialization (cbor_receipt env r)) (\<lambda>serialized.
       Ok (service_receipt_signing_domain @ serialized))"

definition receipt_sign ::
    "receipt_env \<Rightarrow> service_receipt \<Rightarrow> crypt_de \<Rightarrow> (signed_service_receipt, service_receipt_error) res" where
  "receipt_sign env r cryptde =
     and_then (receipt_validate r) (\<lambda>_.
       if cde_public_key cryptde \<noteq> sr_provider_public_key r then Err ProviderPublicKeyMismatch
       else and_then (receipt_signing_data env r) (\<lambda>data.
         and_then (map_err Signing (cde_sign cryptde data)) (\<lambda>signature.
           Ok \<lparr>ssr_receipt = r, ssr_provider_signature = signature\<rparr>)))"

text \<open>
  \<open>signature.len() < key.len() || !verify_signature(..)\<close>, the guarded verification of all signed
  structures: true when the signature is to be rejected.
\<close>

definition signature_rejected ::
    "crypt_de \<Rightarrow> plain_data \<Rightarrow> crypt_data \<Rightarrow> public_key \<Rightarrow> (bool, service_receipt_error) res" where
  "signature_rejected cryptde data signature pk =
     (if length signature < length pk then Ok True
      else and_then (expect (cde_verify_signature cryptde data signature pk)) (\<lambda>valid. Ok (\<not> valid)))"

definition signed_verify ::
    "receipt_env \<Rightarrow> signed_service_receipt \<Rightarrow> crypt_de \<Rightarrow> (u128, service_receipt_error) res" where
  "signed_verify env s cryptde =
     and_then (receipt_validate (ssr_receipt s)) (\<lambda>_.
       and_then (receipt_signing_data env (ssr_receipt s)) (\<lambda>data.
         and_then (signature_rejected cryptde data (ssr_provider_signature s)
             (sr_provider_public_key (ssr_receipt s))) (\<lambda>rejected.
           if rejected then Err InvalidProviderSignature
           else checked_total_charge_wei (ssr_receipt s))))"

definition acknowledgement_data ::
    "receipt_env \<Rightarrow> signed_service_receipt \<Rightarrow> public_key \<Rightarrow> (plain_data, service_receipt_error) res" where
  "acknowledgement_data env s payer =
     and_then (map_err Serialization (cbor_acknowledgement env (s, payer))) (\<lambda>serialized.
       Ok (payer_acknowledgement_domain @ serialized))"

definition signed_acknowledge ::
    "receipt_env \<Rightarrow> signed_service_receipt \<Rightarrow> crypt_de \<Rightarrow>
     (acknowledged_service_receipt, service_receipt_error) res" where
  "signed_acknowledge env s payer_cryptde =
     and_then (signed_verify env s payer_cryptde) (\<lambda>_.
       let payer = cde_public_key payer_cryptde in
       if payer = [] then Err EmptyPayerSessionPublicKey
       else if make_accounting_commitment env (sr_route_epoch (ssr_receipt s)) payer
               \<noteq> sr_accounting_commitment (ssr_receipt s) then Err AccountingCommitmentMismatch
       else and_then (acknowledgement_data env s payer) (\<lambda>data.
         and_then (map_err Signing (cde_sign payer_cryptde data)) (\<lambda>signature.
           Ok \<lparr>asr_signed_receipt = s, asr_payer_session_public_key = payer,
               asr_payer_signature = signature\<rparr>)))"

definition acknowledged_verify ::
    "receipt_env \<Rightarrow> acknowledged_service_receipt \<Rightarrow> crypt_de \<Rightarrow> (u128, service_receipt_error) res" where
  "acknowledged_verify env a cryptde =
     and_then (signed_verify env (asr_signed_receipt a) cryptde) (\<lambda>total_charge.
       if asr_payer_session_public_key a = [] then Err EmptyPayerSessionPublicKey
       else if make_accounting_commitment env (sr_route_epoch (ssr_receipt (asr_signed_receipt a)))
                 (asr_payer_session_public_key a)
               \<noteq> sr_accounting_commitment (ssr_receipt (asr_signed_receipt a))
         then Err AccountingCommitmentMismatch
       else and_then (acknowledgement_data env (asr_signed_receipt a) (asr_payer_session_public_key a)) (\<lambda>data.
         and_then (signature_rejected cryptde data (asr_payer_signature a) (asr_payer_session_public_key a))
           (\<lambda>rejected. if rejected then Err InvalidPayerSignature else Ok total_charge)))"

subsection \<open>Session policies\<close>

definition uint_word :: "u128 \<Rightarrow> bytes" where
  "uint_word v = replicate 16 0 @ be_bytes 16 v"

definition address_word :: "address \<Rightarrow> bytes" where
  "address_word a = replicate 12 0 @ be_bytes 20 a"

definition session_policy_new ::
    "u64 \<Rightarrow> address \<Rightarrow> address \<Rightarrow> public_key \<Rightarrow> u128 \<Rightarrow> u64 \<Rightarrow> u64 \<Rightarrow> bytes32 \<Rightarrow> receipt_session_policy" where
  "session_policy_new chain_id contract payer_wallet session_key max_total valid_from expires_at nonce =
     \<lparr>rsp_protocol_version = service_receipt_protocol_version, rsp_chain_id = chain_id,
      rsp_settlement_contract = contract, rsp_payer_wallet_address = payer_wallet,
      rsp_payer_session_public_key = session_key, rsp_max_total_charge_wei = max_total,
      rsp_valid_from_unix_s = valid_from, rsp_expires_at_unix_s = expires_at,
      rsp_authorization_nonce = nonce\<rparr>"

definition session_validate_structure :: "receipt_session_policy \<Rightarrow> (unit, service_receipt_error) res" where
  "session_validate_structure p =
     (if rsp_protocol_version p \<noteq> service_receipt_protocol_version
        then Err (UnsupportedProtocolVersion (rsp_protocol_version p))
      else if rsp_payer_wallet_address p = 0 then Err EmptyPayerWallet
      else if rsp_chain_id p = 0 then Err InvalidChain
      else if rsp_settlement_contract p = 0 then Err EmptySettlementContract
      else if rsp_payer_session_public_key p = [] then Err EmptyPayerSessionPublicKey
      else if rsp_max_total_charge_wei p = 0 then Err EmptyAmountLimit
      else if rsp_max_total_charge_wei p > max_receipt_session_charge_wei then Err AmountLimitExceeded
      else if rsp_valid_from_unix_s p \<ge> rsp_expires_at_unix_s p then Err InvalidAuthorizationWindow
      else (let duration_seconds = rsp_expires_at_unix_s p - rsp_valid_from_unix_s p in
        if \<not> (min_receipt_session_duration_seconds \<le> duration_seconds
              \<and> duration_seconds \<le> max_receipt_session_duration_seconds)
          then Err InvalidAuthorizationWindow
        else if rsp_authorization_nonce p = 0 then Err EmptyAuthorizationNonce
        else Ok ()))"

definition session_domain_preimage :: "receipt_env \<Rightarrow> receipt_session_policy \<Rightarrow> bytes" where
  "session_domain_preimage env p =
     be_bytes 32 (keccak256 env eip712_domain_type) @ be_bytes 32 (keccak256 env eip712_name) @
     be_bytes 32 (keccak256 env eip712_version) @ uint_word (ucast (rsp_chain_id p)) @
     address_word (rsp_settlement_contract p)"

definition session_struct_preimage :: "receipt_env \<Rightarrow> receipt_session_policy \<Rightarrow> bytes" where
  "session_struct_preimage env p =
     be_bytes 32 (keccak256 env session_authorization_type) @
     uint_word (ucast (rsp_protocol_version p)) @ address_word (rsp_payer_wallet_address p) @
     be_bytes 32 (keccak256 env (rsp_payer_session_public_key p)) @
     uint_word (rsp_max_total_charge_wei p) @ uint_word (ucast (rsp_valid_from_unix_s p)) @
     uint_word (ucast (rsp_expires_at_unix_s p)) @ be_bytes 32 (rsp_authorization_nonce p)"

definition eip712_final_preimage :: "bytes32 \<Rightarrow> bytes32 \<Rightarrow> bytes" where
  "eip712_final_preimage domain_separator struct_hash =
     [0x19, 0x01] @ be_bytes 32 domain_separator @ be_bytes 32 struct_hash"

definition session_eip712_digest ::
    "receipt_env \<Rightarrow> receipt_session_policy \<Rightarrow> (bytes32, service_receipt_error) res" where
  "session_eip712_digest env p =
     and_then (session_validate_structure p) (\<lambda>_.
       Ok (keccak256 env (eip712_final_preimage (keccak256 env (session_domain_preimage env p))
             (keccak256 env (session_struct_preimage env p)))))"

definition session_authorize ::
    "receipt_env \<Rightarrow> receipt_session_policy \<Rightarrow> wallet_kind \<Rightarrow>
     (authorized_receipt_session, service_receipt_error) res" where
  "session_authorize env p payer_wallet =
     and_then (session_validate_structure p) (\<lambda>_.
       if wallet_address_opt env payer_wallet \<noteq> Some (rsp_payer_wallet_address p) then Err WalletMismatch
       else and_then (session_eip712_digest env p) (\<lambda>digest.
         and_then (map_err WalletSigning (wallet_sign payer_wallet digest)) (\<lambda>signature.
           Ok \<lparr>ars_policy = p, ars_wallet_signature = signature\<rparr>)))"

text \<open>
  Recovering the signer's key, checking the signature with it and comparing the address: the
  common end of both wallet-signature checks.
\<close>

definition wallet_signature_check ::
    "receipt_env \<Rightarrow> eth_signature \<Rightarrow> bytes32 \<Rightarrow> address \<Rightarrow> (unit, service_receipt_error) res" where
  "wallet_signature_check env signature digest expected =
     and_then (ok_or InvalidWalletSignature (ec_recover env signature digest)) (\<lambda>pk.
       let signature_valid = (case ec_verify env pk signature digest of Some b \<Rightarrow> b | None \<Rightarrow> False) in
       if \<not> signature_valid \<or> ec_address env pk \<noteq> expected then Err InvalidWalletSignature else Ok ())"

definition session_verify ::
    "receipt_env \<Rightarrow> authorized_receipt_session \<Rightarrow> u64 \<Rightarrow> address \<Rightarrow> public_key \<Rightarrow> u64 \<Rightarrow> u128 \<Rightarrow>
     (unit, service_receipt_error) res" where
  "session_verify env a expected_chain_id expected_contract session_key now cumulative_charge =
     (let p = ars_policy a in
      and_then (session_validate_structure p) (\<lambda>_.
        if rsp_chain_id p \<noteq> expected_chain_id then Err WrongChain
        else if rsp_settlement_contract p \<noteq> expected_contract then Err SettlementContractMismatch
        else if rsp_payer_session_public_key p \<noteq> session_key then Err SessionKeyMismatch
        else if now < rsp_valid_from_unix_s p then Err SessionAuthorizationNotYetValid
        else if now > rsp_expires_at_unix_s p then Err SessionAuthorizationExpired
        else if cumulative_charge > rsp_max_total_charge_wei p then Err AmountLimitExceeded
        else and_then (session_eip712_digest env p) (\<lambda>digest.
          wallet_signature_check env (ars_wallet_signature a) digest (rsp_payer_wallet_address p))))"

definition verify_for_receipt ::
    "receipt_env \<Rightarrow> authorized_receipt_session \<Rightarrow> acknowledged_service_receipt \<Rightarrow> crypt_de \<Rightarrow> u64 \<Rightarrow> address \<Rightarrow>
     u64 \<Rightarrow> (u128, service_receipt_error) res" where
  "verify_for_receipt env a ack receipt_cryptde expected_chain_id expected_contract now =
     and_then (acknowledged_verify env ack receipt_cryptde) (\<lambda>receipt_charge.
       and_then (session_verify env a expected_chain_id expected_contract
           (asr_payer_session_public_key ack) now
           (sr_cumulative_charge_wei (ssr_receipt (asr_signed_receipt ack)))) (\<lambda>_.
         Ok receipt_charge))"

subsection \<open>Provider settlement policies\<close>

definition settlement_policy_new ::
    "u64 \<Rightarrow> address \<Rightarrow> address \<Rightarrow> public_key \<Rightarrow> u64 \<Rightarrow> u64 \<Rightarrow> bytes32 \<Rightarrow> provider_settlement_policy" where
  "settlement_policy_new chain_id contract payout_wallet provider valid_from expires_at nonce =
     \<lparr>psp_protocol_version = service_receipt_protocol_version, psp_chain_id = chain_id,
      psp_settlement_contract = contract, psp_payout_wallet_address = payout_wallet,
      psp_provider_public_key = provider, psp_valid_from_unix_s = valid_from,
      psp_expires_at_unix_s = expires_at, psp_authorization_nonce = nonce\<rparr>"

definition settlement_validate_structure ::
    "provider_settlement_policy \<Rightarrow> (unit, service_receipt_error) res" where
  "settlement_validate_structure p =
     (if psp_protocol_version p \<noteq> service_receipt_protocol_version
        then Err (UnsupportedProtocolVersion (psp_protocol_version p))
      else if psp_payout_wallet_address p = 0 then Err EmptyProviderPayoutWallet
      else if psp_chain_id p = 0 then Err InvalidChain
      else if psp_settlement_contract p = 0 then Err EmptySettlementContract
      else if psp_provider_public_key p = [] then Err EmptyProviderPublicKey
      else if psp_valid_from_unix_s p \<ge> psp_expires_at_unix_s p then Err InvalidAuthorizationWindow
      else (let duration_seconds = psp_expires_at_unix_s p - psp_valid_from_unix_s p in
        if \<not> (min_provider_settlement_duration_seconds \<le> duration_seconds
              \<and> duration_seconds \<le> max_provider_settlement_duration_seconds)
          then Err InvalidAuthorizationWindow
        else if psp_authorization_nonce p = 0 then Err EmptyAuthorizationNonce
        else Ok ()))"

definition settlement_domain_preimage :: "receipt_env \<Rightarrow> provider_settlement_policy \<Rightarrow> bytes" where
  "settlement_domain_preimage env p =
     be_bytes 32 (keccak256 env eip712_domain_type) @
     be_bytes 32 (keccak256 env provider_settlement_eip712_name) @
     be_bytes 32 (keccak256 env eip712_version) @ uint_word (ucast (psp_chain_id p)) @
     address_word (psp_settlement_contract p)"

definition settlement_struct_preimage :: "receipt_env \<Rightarrow> provider_settlement_policy \<Rightarrow> bytes" where
  "settlement_struct_preimage env p =
     be_bytes 32 (keccak256 env provider_settlement_authorization_type) @
     uint_word (ucast (psp_protocol_version p)) @ address_word (psp_payout_wallet_address p) @
     be_bytes 32 (keccak256 env (psp_provider_public_key p)) @
     uint_word (ucast (psp_valid_from_unix_s p)) @ uint_word (ucast (psp_expires_at_unix_s p)) @
     be_bytes 32 (psp_authorization_nonce p)"

definition settlement_eip712_digest ::
    "receipt_env \<Rightarrow> provider_settlement_policy \<Rightarrow> (bytes32, service_receipt_error) res" where
  "settlement_eip712_digest env p =
     and_then (settlement_validate_structure p) (\<lambda>_.
       Ok (keccak256 env (eip712_final_preimage (keccak256 env (settlement_domain_preimage env p))
             (keccak256 env (settlement_struct_preimage env p)))))"

definition transport_signing_data ::
    "receipt_env \<Rightarrow> provider_settlement_policy \<Rightarrow> eth_signature \<Rightarrow> (plain_data, service_receipt_error) res" where
  "transport_signing_data env p signature =
     and_then (map_err Serialization (cbor_settlement_policy env p)) (\<lambda>serialized.
       Ok (provider_settlement_signing_domain @ serialized @ [sig_v signature] @
           be_bytes 32 (sig_r signature) @ be_bytes 32 (sig_s signature)))"

definition verify_payout_wallet_signature ::
    "receipt_env \<Rightarrow> provider_settlement_policy \<Rightarrow> eth_signature \<Rightarrow> (unit, service_receipt_error) res" where
  "verify_payout_wallet_signature env p signature =
     (if sig_v signature > 1 \<or> sig_r signature = 0 \<or> sig_s signature = 0
          \<or> sig_s signature > secp256k1_half_order
        then Err InvalidWalletSignature
      else and_then (settlement_eip712_digest env p) (\<lambda>digest.
        wallet_signature_check env signature digest (psp_payout_wallet_address p)))"

definition authorize_with_wallet_signature ::
    "receipt_env \<Rightarrow> provider_settlement_policy \<Rightarrow> eth_signature \<Rightarrow> crypt_de \<Rightarrow>
     (authorized_provider_settlement, service_receipt_error) res" where
  "authorize_with_wallet_signature env p signature provider_cryptde =
     and_then (settlement_validate_structure p) (\<lambda>_.
       if cde_public_key provider_cryptde \<noteq> psp_provider_public_key p then Err ProviderPublicKeyMismatch
       else and_then (verify_payout_wallet_signature env p signature) (\<lambda>_.
         and_then (transport_signing_data env p signature) (\<lambda>data.
           and_then (map_err Signing (cde_sign provider_cryptde data)) (\<lambda>provider_signature.
             Ok \<lparr>aps_policy = p, aps_payout_wallet_signature = signature,
                 aps_provider_signature = provider_signature\<rparr>))))"

definition settlement_authorize ::
    "receipt_env \<Rightarrow> provider_settlement_policy \<Rightarrow> wallet_kind \<Rightarrow> crypt_de \<Rightarrow>
     (authorized_provider_settlement, service_receipt_error) res" where
  "settlement_authorize env p payout_wallet provider_cryptde =
     and_then (settlement_validate_structure p) (\<lambda>_.
       if wallet_address_opt env payout_wallet \<noteq> Some (psp_payout_wallet_address p) then Err WalletMismatch
       else if cde_public_key provider_cryptde \<noteq> psp_provider_public_key p then Err ProviderPublicKeyMismatch
       else and_then (settlement_eip712_digest env p) (\<lambda>digest.
         and_then (map_err WalletSigning (wallet_sign payout_wallet digest)) (\<lambda>signature.
           authorize_with_wallet_signature env p signature provider_cryptde)))"

definition settlement_verify ::
    "receipt_env \<Rightarrow> authorized_provider_settlement \<Rightarrow> u64 \<Rightarrow> address \<Rightarrow> public_key \<Rightarrow> u64 \<Rightarrow> crypt_de \<Rightarrow>
     (address, service_receipt_error) res" where
  "settlement_verify env a expected_chain_id expected_contract expected_provider now receipt_cryptde =
     (let p = aps_policy a in
      and_then (settlement_validate_structure p) (\<lambda>_.
        if psp_chain_id p \<noteq> expected_chain_id then Err WrongChain
        else if psp_settlement_contract p \<noteq> expected_contract then Err SettlementContractMismatch
        else if psp_provider_public_key p \<noteq> expected_provider then Err ProviderPublicKeyMismatch
        else if now < psp_valid_from_unix_s p then Err ProviderSettlementAuthorizationNotYetValid
        else if now > psp_expires_at_unix_s p then Err ProviderSettlementAuthorizationExpired
        else and_then (verify_payout_wallet_signature env p (aps_payout_wallet_signature a)) (\<lambda>_.
          and_then (transport_signing_data env p (aps_payout_wallet_signature a)) (\<lambda>data.
            and_then (signature_rejected receipt_cryptde data (aps_provider_signature a)
                (psp_provider_public_key p)) (\<lambda>rejected.
              if rejected then Err InvalidProviderSettlementSignature
              else Ok (psp_payout_wallet_address p))))))"

subsection \<open>Session requests and checkpoints\<close>

definition session_request_new ::
    "receipt_env \<Rightarrow> authorized_receipt_session \<Rightarrow> bytes32 \<Rightarrow> (receipt_session_request, service_receipt_error) res" where
  "session_request_new env authorization route_epoch =
     (if route_epoch = 0 then Err EmptyRouteEpoch
      else Ok \<lparr>rsr_authorization = authorization, rsr_route_epoch = route_epoch,
               rsr_accounting_commitment = make_accounting_commitment env route_epoch
                 (rsp_payer_session_public_key (ars_policy authorization))\<rparr>)"

definition session_request_verify ::
    "receipt_env \<Rightarrow> receipt_session_request \<Rightarrow> u64 \<Rightarrow> address \<Rightarrow> u64 \<Rightarrow> (unit, service_receipt_error) res" where
  "session_request_verify env q expected_chain_id expected_contract now =
     (let session_key = rsp_payer_session_public_key (ars_policy (rsr_authorization q)) in
      if rsr_route_epoch q = 0 then Err EmptyRouteEpoch
      else if make_accounting_commitment env (rsr_route_epoch q) session_key \<noteq> rsr_accounting_commitment q
        then Err AccountingCommitmentMismatch
      else session_verify env (rsr_authorization q) expected_chain_id expected_contract session_key now 0)"

definition begin_with_contiguity ::
    "receipt_env \<Rightarrow> acknowledged_service_receipt \<Rightarrow> crypt_de \<Rightarrow> bool \<Rightarrow>
     (receipt_sequence_checkpoint, service_receipt_error) res" where
  "begin_with_contiguity env ack cryptde require_contiguous =
     and_then (acknowledged_verify env ack cryptde) (\<lambda>receipt_charge.
       let receipt = ssr_receipt (asr_signed_receipt ack) in
       if (require_contiguous \<and> sr_cumulative_charge_wei receipt \<noteq> receipt_charge)
          \<or> sr_cumulative_charge_wei receipt < receipt_charge
         then Err CumulativeChargeMismatch
       else Ok \<lparr>ck_route_epoch = sr_route_epoch receipt,
                ck_provider_public_key = sr_provider_public_key receipt,
                ck_accounting_commitment = sr_accounting_commitment receipt,
                ck_payer_session_public_key = asr_payer_session_public_key ack,
                ck_last_sequence = sr_sequence receipt,
                ck_cumulative_charge_wei = sr_cumulative_charge_wei receipt\<rparr>)"

definition checkpoint_begin ::
    "receipt_env \<Rightarrow> acknowledged_service_receipt \<Rightarrow> crypt_de \<Rightarrow>
     (receipt_sequence_checkpoint, service_receipt_error) res" where
  "checkpoint_begin env ack cryptde = begin_with_contiguity env ack cryptde True"

definition begin_for_settlement ::
    "receipt_env \<Rightarrow> acknowledged_service_receipt \<Rightarrow> crypt_de \<Rightarrow>
     (receipt_sequence_checkpoint, service_receipt_error) res" where
  "begin_for_settlement env ack cryptde = begin_with_contiguity env ack cryptde False"

text \<open>
  \<open>advance\<close> mutates the checkpoint only on success, and then also returns the cumulative charge;
  the model returns the new checkpoint, whose charge is that value.
\<close>

definition advance_with_contiguity ::
    "receipt_env \<Rightarrow> receipt_sequence_checkpoint \<Rightarrow> acknowledged_service_receipt \<Rightarrow> crypt_de \<Rightarrow> bool \<Rightarrow>
     (receipt_sequence_checkpoint, service_receipt_error) res" where
  "advance_with_contiguity env ck ack cryptde require_contiguous =
     and_then (acknowledged_verify env ack cryptde) (\<lambda>receipt_charge.
       let receipt = ssr_receipt (asr_signed_receipt ack) in
       if sr_route_epoch receipt \<noteq> ck_route_epoch ck then Err RouteEpochMismatch
       else if sr_provider_public_key receipt \<noteq> ck_provider_public_key ck then Err ProviderPublicKeyMismatch
       else if sr_accounting_commitment receipt \<noteq> ck_accounting_commitment ck
         then Err AccountingCommitmentMismatch
       else if asr_payer_session_public_key ack \<noteq> ck_payer_session_public_key ck then Err SessionKeyMismatch
       else if sr_sequence receipt \<le> ck_last_sequence ck then Err NonMonotonicSequence
       else and_then (ok_or CumulativeChargeOverflow
           (checked_add (ck_cumulative_charge_wei ck) receipt_charge)) (\<lambda>expected.
         if (require_contiguous \<and> sr_cumulative_charge_wei receipt \<noteq> expected)
            \<or> sr_cumulative_charge_wei receipt < expected
           then Err CumulativeChargeMismatch
         else Ok (ck\<lparr>ck_last_sequence := sr_sequence receipt,
                     ck_cumulative_charge_wei := sr_cumulative_charge_wei receipt\<rparr>)))"

definition checkpoint_advance ::
    "receipt_env \<Rightarrow> receipt_sequence_checkpoint \<Rightarrow> acknowledged_service_receipt \<Rightarrow> crypt_de \<Rightarrow>
     (receipt_sequence_checkpoint, service_receipt_error) res" where
  "checkpoint_advance env ck ack cryptde = advance_with_contiguity env ck ack cryptde True"

definition advance_for_settlement ::
    "receipt_env \<Rightarrow> receipt_sequence_checkpoint \<Rightarrow> acknowledged_service_receipt \<Rightarrow> crypt_de \<Rightarrow>
     (receipt_sequence_checkpoint, service_receipt_error) res" where
  "advance_for_settlement env ck ack cryptde = advance_with_contiguity env ck ack cryptde False"

subsection \<open>Amounts on the wire\<close>

definition u128_be_serialize :: "u128 \<Rightarrow> bytes" where
  "u128_be_serialize v = be_bytes 16 v"

text \<open>The error of a wrong length carries the length.\<close>

definition u128_be_visit_bytes :: "bytes \<Rightarrow> (u128, nat) res" where
  "u128_be_visit_bytes bs = (if length bs = 16 then Ok (from_be_bytes bs) else Err (length bs))"

section \<open>Properties of receipts\<close>

subsection \<open>Charges\<close>

lemma unat_ucast_u64_u128 [simp]: "unat (ucast (w :: u64) :: u128) = unat w"
proof -
  have "unat w < 2 ^ 64"
    using unsigned_less [of w] by simp
  then show ?thesis
    by (simp add: unsigned_ucast_eq take_bit_nat_eq_self_iff)
qed

lemma unat_mult_u64: "unat (a :: u64) * unat (b :: u64) < 2 ^ 128"
proof -
  have "unat a * unat b < 2 ^ 64 * 2 ^ 64"
    using unsigned_less [of a, where 'a = nat] unsigned_less [of b, where 'a = nat]
    by (intro mult_strict_mono) simp_all
  then show ?thesis by simp
qed

definition charge_nat :: "u64 \<Rightarrow> u64 \<Rightarrow> u64 \<Rightarrow> u64 \<Rightarrow> nat" where
  "charge_nat service_rate service_units byte_rate payload_size =
     unat service_rate * unat service_units + unat byte_rate * unat payload_size"

lemma checked_charge_wei_eq:
  "checked_charge_wei a b c d =
     (if charge_nat a b c d < 2 ^ 128 then Ok (of_nat (charge_nat a b c d)) else Err CumulativeChargeOverflow)"
proof -
  let ?x = "ucast a * ucast b :: u128" and ?y = "ucast c * ucast d :: u128"
  have m: "checked_mul (ucast a) (ucast b) = Some ?x" "checked_mul (ucast c) (ucast d) = Some ?y"
    using unat_mult_u64 [of a b] unat_mult_u64 [of c d] by (simp_all add: checked_mul_def)
  then have "unat ?x = unat a * unat b" "unat ?y = unat c * unat d"
    by (simp_all add: checked_mul_eq_Some)
  moreover have "?x + ?y = of_nat (unat ?x + unat ?y)" by simp
  ultimately show ?thesis
    by (simp add: checked_charge_wei_def m checked_add_def charge_nat_def)
qed

lemma checked_charge_wei_eq_Ok:
  "checked_charge_wei a b c d = Ok w \<longleftrightarrow> unat w = charge_nat a b c d"
proof
  assume "unat w = charge_nat a b c d"
  moreover have "unat w < 2 ^ 128"
    using unsigned_less [of w] by simp
  moreover have "of_nat (unat w) = w" by simp
  ultimately show "checked_charge_wei a b c d = Ok w"
    by (simp add: checked_charge_wei_eq)
qed (auto simp: checked_charge_wei_eq unsigned_of_nat take_bit_nat_eq_self_iff split: if_splits)

lemma checked_charge_wei_not_Panic [simp]: "checked_charge_wei a b c d \<noteq> Panic"
  by (simp add: checked_charge_wei_eq)

definition receipt_charge :: "service_receipt \<Rightarrow> nat" where
  "receipt_charge r = charge_nat (sr_service_rate r) (sr_service_units r) (sr_byte_rate r) (sr_payload_size r)"

lemma checked_total_charge_wei_eq_Ok: "checked_total_charge_wei r = Ok w \<longleftrightarrow> unat w = receipt_charge r"
  by (simp add: checked_total_charge_wei_def checked_charge_wei_eq_Ok receipt_charge_def)

lemma receipt_validate_eq_Ok:
  "receipt_validate r = Ok () \<longleftrightarrow>
     sr_protocol_version r = 1 \<and> sr_route_epoch r \<noteq> 0 \<and> sr_accounting_commitment r \<noteq> 0 \<and>
     sr_provider_public_key r \<noteq> [] \<and> sr_service_units r \<noteq> 0 \<and>
     receipt_charge r \<le> unat (sr_cumulative_charge_wei r)"
proof -
  have "(\<exists>w. unat w = receipt_charge r \<and> \<not> sr_cumulative_charge_wei r < w) \<longleftrightarrow>
      receipt_charge r \<le> unat (sr_cumulative_charge_wei r)"
  proof
    assume "receipt_charge r \<le> unat (sr_cumulative_charge_wei r)"
    moreover from this have "receipt_charge r < 2 ^ 128"
      using unsigned_less [of "sr_cumulative_charge_wei r", where 'a = nat] by simp
    moreover from this have "unat (of_nat (receipt_charge r) :: u128) = receipt_charge r"
      by (intro unat_of_nat_less) simp
    ultimately show "\<exists>w. unat w = receipt_charge r \<and> \<not> sr_cumulative_charge_wei r < w"
      by (intro exI [of _ "of_nat (receipt_charge r)"]) (simp add: word_less_nat_alt)
  qed (auto simp: word_less_nat_alt)
  then show ?thesis
    by (auto simp: receipt_validate_def service_receipt_protocol_version_def res_simps
        checked_total_charge_wei_eq_Ok split: if_splits)
qed

lemma receipt_validate_not_Panic [simp]: "receipt_validate r \<noteq> Panic"
  by (auto simp: receipt_validate_def res_simps checked_total_charge_wei_def split: if_splits)

lemma next_with_service_units_eq_Ok:
  "next_with_service_units r q k n u sr br = Ok r' \<longleftrightarrow>
     receipt_validate r = Ok () \<and> sr_sequence r < q \<and> u \<noteq> 0 \<and>
     unat (sr_cumulative_charge_wei r') = unat (sr_cumulative_charge_wei r) + charge_nat sr u br n \<and>
     r' = \<lparr>sr_protocol_version = 1, sr_route_epoch = sr_route_epoch r, sr_sequence = q, sr_service_kind = k,
       sr_provider_public_key = sr_provider_public_key r, sr_accounting_commitment = sr_accounting_commitment r,
       sr_payload_size = n, sr_service_units = u, sr_service_rate = sr, sr_byte_rate = br,
       sr_cumulative_charge_wei = sr_cumulative_charge_wei r'\<rparr>"
proof -
  have "(\<exists>c. checked_charge_wei sr u br n = Ok c \<and> checked_add (sr_cumulative_charge_wei r) c = Some w) \<longleftrightarrow>
      unat w = unat (sr_cumulative_charge_wei r) + charge_nat sr u br n" for w
  proof
    assume w: "unat w = unat (sr_cumulative_charge_wei r) + charge_nat sr u br n"
    have "unat w < 2 ^ 128"
      using unsigned_less [of w] by simp
    with w have "charge_nat sr u br n < 2 ^ 128" by linarith
    moreover from this have "unat (of_nat (charge_nat sr u br n) :: u128) = charge_nat sr u br n"
      by (intro unat_of_nat_less) simp
    ultimately show "\<exists>c. checked_charge_wei sr u br n = Ok c \<and> checked_add (sr_cumulative_charge_wei r) c = Some w"
      using w by (intro exI [of _ "of_nat (charge_nat sr u br n)"])
        (simp add: checked_charge_wei_eq checked_add_eq_Some)
  qed (auto simp: checked_charge_wei_eq_Ok checked_add_eq_Some)
  then show ?thesis
    by (cases r') (auto simp: next_with_service_units_def res_simps service_receipt_protocol_version_def
        split: if_splits)
qed

text \<open>
  C36. The charge of a receipt is exact or refused: it is the service rate times the units plus
  the byte rate times the payload size, computed without wrap-around, and the overflow error is
  returned exactly when that amount does not fit 128 bits.
\<close>

theorem charge_exact_or_overflow:
  "checked_charge_wei service_rate service_units byte_rate payload_size =
     (if unat service_rate * unat service_units + unat byte_rate * unat payload_size < 2 ^ 128
      then Ok (of_nat (unat service_rate * unat service_units + unat byte_rate * unat payload_size))
      else Err CumulativeChargeOverflow)"
  using checked_charge_wei_eq by (simp add: charge_nat_def)

subsection \<open>Chains of receipts of one route\<close>

type_synonym service_step = "u64 \<times> service_kind \<times> u64 \<times> u64 \<times> u64 \<times> u64"

fun next_chain :: "service_receipt \<Rightarrow> service_step list \<Rightarrow> (service_receipt list, service_receipt_error) res" where
  "next_chain r [] = Ok [r]"
| "next_chain r ((q, k, n, u, sr, br) # steps) =
     and_then (next_with_service_units r q k n u sr br) (\<lambda>r'.
       and_then (next_chain r' steps) (\<lambda>rs. Ok (r # rs)))"

lemma next_chain_head: "next_chain r steps = Ok rs \<Longrightarrow> rs \<noteq> [] \<and> hd rs = r"
  by (cases steps) (auto simp: res_simps)

lemma next_valid:
  "next_with_service_units r q k n u sr br = Ok r' \<Longrightarrow>
     receipt_validate r' = Ok () \<and>
     unat (sr_cumulative_charge_wei r') = unat (sr_cumulative_charge_wei r) + receipt_charge r' \<and>
     sr_sequence r < sr_sequence r' \<and> sr_route_epoch r' = sr_route_epoch r \<and>
     sr_provider_public_key r' = sr_provider_public_key r \<and>
     sr_accounting_commitment r' = sr_accounting_commitment r"
  by (cases r') (auto simp: next_with_service_units_eq_Ok receipt_validate_eq_Ok receipt_charge_def)

lemma next_chain_sum:
  assumes "next_chain r steps = Ok rs" and "receipt_validate r = Ok ()"
  shows "unat (sr_cumulative_charge_wei (last rs)) =
      unat (sr_cumulative_charge_wei r) + sum_list (map receipt_charge (tl rs)) \<and>
    sorted_wrt (<) (map sr_sequence rs) \<and>
    list_all (\<lambda>x. receipt_validate x = Ok () \<and> sr_route_epoch x = sr_route_epoch r \<and>
      sr_provider_public_key x = sr_provider_public_key r \<and>
      sr_accounting_commitment x = sr_accounting_commitment r) rs"
  using assms
proof (induction r steps arbitrary: rs rule: next_chain.induct)
  case (1 r)
  then show ?case by auto
next
  case (2 r q k n u sr br steps)
  obtain r' rs' where n: "next_with_service_units r q k n u sr br = Ok r'"
    and c: "next_chain r' steps = Ok rs'" and rs: "rs = r # rs'"
    using "2.prems"(1) by (auto simp: res_simps)
  note v = next_valid [OF n]
  obtain rs'' where rs': "rs' = r' # rs''"
    using next_chain_head [OF c] by (cases rs') auto
  have IH: "unat (sr_cumulative_charge_wei (last rs')) =
      unat (sr_cumulative_charge_wei r') + sum_list (map receipt_charge (tl rs'))"
    "sorted_wrt (<) (map sr_sequence rs')"
    "list_all (\<lambda>x. receipt_validate x = Ok () \<and> sr_route_epoch x = sr_route_epoch r' \<and>
      sr_provider_public_key x = sr_provider_public_key r' \<and>
      sr_accounting_commitment x = sr_accounting_commitment r') rs'"
    using "2.IH" [OF c] v by simp_all
  have "sr_sequence r < sr_sequence x" if "x \<in> set rs'" for x
    using IH(2) v that rs' by (auto dest: less_trans)
  then show ?case
    using IH v "2.prems"(2) by (auto simp: rs rs' list_all_iff)
qed

text \<open>
  C33. Cumulative charges add up: extending a first receipt step by step, with any sequence
  numbers, payloads, units and rates that the code accepts, gives receipts of one route and one
  provider that all validate, with strictly increasing sequence numbers, and the cumulative
  charge of the last one is exactly the sum of the charges of all of them.
\<close>

theorem receipt_chain_accumulates:
  assumes "first = new_with_service_units epoch seq kind provider commitment payload units rate byte_rate"
    and "receipt_validate first = Ok ()" and "next_chain first steps = Ok rs"
  shows "unat (sr_cumulative_charge_wei (last rs)) = sum_list (map receipt_charge rs) \<and>
    sorted_wrt (<) (map sr_sequence rs) \<and>
    list_all (\<lambda>r. receipt_validate r = Ok () \<and> sr_route_epoch r = epoch \<and>
      sr_provider_public_key r = provider \<and> sr_accounting_commitment r = commitment) rs"
proof -
  have "receipt_charge first < 2 ^ 128"
    using assms(2) unsigned_less [of "sr_cumulative_charge_wei first", where 'a = nat]
    by (simp add: receipt_validate_eq_Ok)
  then have c: "unat (of_nat (receipt_charge first) :: u128) = receipt_charge first"
    by (intro unat_of_nat_less) simp
  have "checked_charge_wei rate units byte_rate payload = Ok (of_nat (receipt_charge first))"
    using \<open>receipt_charge first < 2 ^ 128\<close>
    by (simp add: checked_charge_wei_eq receipt_charge_def assms(1) new_with_service_units_def)
  moreover have "sr_cumulative_charge_wei first = unwrap_or (- 1) (checked_charge_wei rate units byte_rate payload)"
    by (simp add: assms(1) new_with_service_units_def)
  ultimately have "sr_cumulative_charge_wei first = of_nat (receipt_charge first)"
    by (simp add: unwrap_or_def)
  with c have "unat (sr_cumulative_charge_wei first) = receipt_charge first"
    by simp
  moreover have "rs = first # tl rs"
    using next_chain_head [OF assms(3)] by (cases rs) auto
  then have "sum_list (map receipt_charge rs) = receipt_charge first + sum_list (map receipt_charge (tl rs))"
    by (cases rs) simp_all
  moreover have "sr_route_epoch first = epoch" "sr_provider_public_key first = provider"
      "sr_accounting_commitment first = commitment"
    by (simp_all add: assms(1) new_with_service_units_def)
  ultimately show ?thesis
    using next_chain_sum [OF assms(3,2)] by simp
qed

theorem receipt_chain_accumulates_witness:
  "\<exists>rs. next_chain (new_with_service_units 1 1 Exit [7] 2 100 1 10 3) [(2, Exit, 50, 2, 10, 3), (5, Routing, 0, 1, 4, 4)] = Ok rs \<and>
    unat (sr_cumulative_charge_wei (last rs)) = sum_list (map receipt_charge rs) \<and>
    sum_list (map receipt_charge rs) = 484"
proof -
  let ?first = "new_with_service_units 1 1 Exit [7] 2 100 1 10 3"
  let ?steps = "[(2, Exit, 50, 2, 10, 3), (5, Routing, 0, 1, 4, 4)] :: service_step list"
  have v: "receipt_validate ?first = Ok ()"
    by (simp add: receipt_validate_eq_Ok new_with_service_units_def checked_charge_wei_eq charge_nat_def
        unwrap_or_def receipt_charge_def service_receipt_protocol_version_def)
  let ?r2 = "\<lparr>sr_protocol_version = 1, sr_route_epoch = 1, sr_sequence = 2, sr_service_kind = Exit,
      sr_provider_public_key = [7], sr_accounting_commitment = 2, sr_payload_size = 50, sr_service_units = 2,
      sr_service_rate = 10, sr_byte_rate = 3, sr_cumulative_charge_wei = 480\<rparr>"
  let ?r3 = "\<lparr>sr_protocol_version = 1, sr_route_epoch = 1, sr_sequence = 5, sr_service_kind = Routing,
      sr_provider_public_key = [7], sr_accounting_commitment = 2, sr_payload_size = 0, sr_service_units = 1,
      sr_service_rate = 4, sr_byte_rate = 4, sr_cumulative_charge_wei = 484\<rparr>"
  have first: "?first = \<lparr>sr_protocol_version = 1, sr_route_epoch = 1, sr_sequence = 1, sr_service_kind = Exit,
      sr_provider_public_key = [7], sr_accounting_commitment = 2, sr_payload_size = 100, sr_service_units = 1,
      sr_service_rate = 10, sr_byte_rate = 3, sr_cumulative_charge_wei = 310\<rparr>"
    by (simp add: new_with_service_units_def checked_charge_wei_eq charge_nat_def unwrap_or_def
        service_receipt_protocol_version_def)
  have "next_with_service_units ?first 2 Exit 50 2 10 3 = Ok ?r2"
    using v by (simp add: next_with_service_units_eq_Ok first charge_nat_def)
  moreover have "next_with_service_units ?r2 5 Routing 0 1 4 4 = Ok ?r3"
    by (simp add: next_with_service_units_eq_Ok receipt_validate_eq_Ok receipt_charge_def charge_nat_def)
  ultimately have rs: "next_chain ?first ?steps = Ok [?first, ?r2, ?r3]"
    by simp
  have "sum_list (map receipt_charge [?first, ?r2, ?r3]) = 484"
    by (simp add: first receipt_charge_def charge_nat_def)
  with rs show ?thesis
    using receipt_chain_accumulates [OF refl v rs] by blast
qed

subsection \<open>Signing, acknowledging and verifying\<close>

lemma receipt_signing_data_eq_Ok:
  "receipt_signing_data env r = Ok d \<longleftrightarrow> (\<exists>b. cbor_receipt env r = Ok b \<and> d = service_receipt_signing_domain @ b)"
  by (auto simp: receipt_signing_data_def res_simps)

lemma acknowledgement_data_eq_Ok:
  "acknowledgement_data env s k = Ok d \<longleftrightarrow>
     (\<exists>b. cbor_acknowledgement env (s, k) = Ok b \<and> d = payer_acknowledgement_domain @ b)"
  by (auto simp: acknowledgement_data_def res_simps)

lemma signature_rejected_eq_Ok:
  "signature_rejected c d sg pk = Ok False \<longleftrightarrow>
     length pk \<le> length sg \<and> cde_verify_signature c d sg pk = Some True"
  by (auto simp: signature_rejected_def res_simps)

lemma signed_verify_eq_Ok:
  "signed_verify env s c = Ok w \<longleftrightarrow>
     receipt_validate (ssr_receipt s) = Ok () \<and> unat w = receipt_charge (ssr_receipt s) \<and>
     (\<exists>d. receipt_signing_data env (ssr_receipt s) = Ok d \<and>
        signature_rejected c d (ssr_provider_signature s) (sr_provider_public_key (ssr_receipt s)) = Ok False)"
  by (auto simp: signed_verify_def res_simps checked_total_charge_wei_eq_Ok split: if_splits)

lemma acknowledged_verify_eq_Ok:
  "acknowledged_verify env a c = Ok w \<longleftrightarrow>
     signed_verify env (asr_signed_receipt a) c = Ok w \<and> asr_payer_session_public_key a \<noteq> [] \<and>
     make_accounting_commitment env (sr_route_epoch (ssr_receipt (asr_signed_receipt a)))
       (asr_payer_session_public_key a) = sr_accounting_commitment (ssr_receipt (asr_signed_receipt a)) \<and>
     (\<exists>d. acknowledgement_data env (asr_signed_receipt a) (asr_payer_session_public_key a) = Ok d \<and>
        signature_rejected c d (asr_payer_signature a) (asr_payer_session_public_key a) = Ok False)"
  by (auto simp: acknowledged_verify_def res_simps split: if_splits)

lemma receipt_sign_eq_Ok:
  "receipt_sign env r c = Ok s \<longleftrightarrow>
     receipt_validate r = Ok () \<and> cde_public_key c = sr_provider_public_key r \<and> ssr_receipt s = r \<and>
     (\<exists>d. receipt_signing_data env r = Ok d \<and> cde_sign c d = Ok (ssr_provider_signature s))"
  by (cases s) (auto simp: receipt_sign_def res_simps split: if_splits)

lemma signed_acknowledge_eq_Ok:
  "signed_acknowledge env s p = Ok a \<longleftrightarrow>
     (\<exists>w. signed_verify env s p = Ok w) \<and> cde_public_key p \<noteq> [] \<and>
     make_accounting_commitment env (sr_route_epoch (ssr_receipt s)) (cde_public_key p)
       = sr_accounting_commitment (ssr_receipt s) \<and>
     asr_signed_receipt a = s \<and> asr_payer_session_public_key a = cde_public_key p \<and>
     (\<exists>d. acknowledgement_data env s (cde_public_key p) = Ok d \<and> cde_sign p d = Ok (asr_payer_signature a))"
  by (cases a) (auto simp: signed_acknowledge_def Let_def res_simps split: if_splits)

context sig_family
begin

lemma accept_signed:
  "member c \<Longrightarrow> member v \<Longrightarrow> cde_sign c d = Ok s \<Longrightarrow> signature_rejected v d s (cde_public_key c) = Ok False"
  using guarded_verify_signed [of c v d s] by (simp add: signature_rejected_eq_Ok)

lemma signed_verify_sign:
  assumes "member c" "member v" "receipt_sign env r c = Ok s"
  shows "\<exists>w. signed_verify env s v = Ok w \<and> unat w = receipt_charge r"
proof -
  obtain d where s: "receipt_validate r = Ok ()" "cde_public_key c = sr_provider_public_key r" "ssr_receipt s = r"
      "receipt_signing_data env r = Ok d" "cde_sign c d = Ok (ssr_provider_signature s)"
    using assms(3) by (auto simp: receipt_sign_eq_Ok)
  have "receipt_charge r \<le> unat (sr_cumulative_charge_wei r)"
    using s(1) by (simp add: receipt_validate_eq_Ok)
  then have "receipt_charge r < 2 ^ LENGTH(128)"
    by (rule le_less_trans) (rule unat_less_2p)
  then have "unat (of_nat (receipt_charge r) :: u128) = receipt_charge r"
    by (rule unat_of_nat_less)
  then show ?thesis
    using s accept_signed [OF assms(1,2) s(5)] by (auto simp: signed_verify_eq_Ok)
qed

lemma acknowledged_verify_acknowledge:
  assumes "member p" "member v" "signed_verify env s v = Ok w" "signed_acknowledge env s p = Ok a"
  shows "acknowledged_verify env a v = Ok w"
  using assms(3,4) accept_signed [OF assms(1,2)]
  by (auto simp: signed_acknowledge_eq_Ok acknowledged_verify_eq_Ok)

end

context total_sig_family
begin

lemma signature_rejected_no_panic: "member v \<Longrightarrow> signature_rejected v d sg pk \<noteq> Panic"
  using verify_total [of v pk sg d]
  by (cases "cde_verify_signature v d sg pk") (auto simp: signature_rejected_def not_less)

lemma signed_verify_no_panic:
  "member v \<Longrightarrow> cbor_receipt env (ssr_receipt s) \<noteq> Panic \<Longrightarrow> signed_verify env s v \<noteq> Panic"
  using signature_rejected_no_panic [of v]
  by (auto simp: signed_verify_def res_simps receipt_signing_data_def checked_total_charge_wei_def split: if_splits)

lemma acknowledged_verify_no_panic:
  "member v \<Longrightarrow> cbor_receipt env (ssr_receipt (asr_signed_receipt a)) \<noteq> Panic \<Longrightarrow>
   cbor_acknowledgement env (asr_signed_receipt a, asr_payer_session_public_key a) \<noteq> Panic \<Longrightarrow>
   acknowledged_verify env a v \<noteq> Panic"
  using signature_rejected_no_panic [of v] signed_verify_no_panic [of v env "asr_signed_receipt a"]
  by (auto simp: acknowledged_verify_def res_simps acknowledgement_data_def split: if_splits)

end

text \<open>
  C34. The receipt exchange succeeds and verifies, for every family of \<open>CryptDE\<close> objects that sign and
  accept each other's signatures, as the null objects and the real objects of one chain do. Given a
  valid receipt of the provider whose commitment was made for the payer's session key, and data that
  CBOR can encode, the provider's signature and the payer's acknowledgement are produced, and every
  member of the family accepts both with the exact charge of the receipt.
\<close>

theorem receipt_exchange_verifies:
  assumes "sig_family member" and "signs_all member" and "member c" and "member p" and "member v"
    and "receipt_validate r = Ok ()" and "cde_public_key c = sr_provider_public_key r"
    and "cde_public_key p \<noteq> []"
    and "sr_accounting_commitment r = make_accounting_commitment env (sr_route_epoch r) (cde_public_key p)"
    and "cbor_receipt env r = Ok b" and "\<And>s. cbor_acknowledgement env (s, cde_public_key p) = Ok (f s)"
  shows "\<exists>s a w. receipt_sign env r c = Ok s \<and> signed_acknowledge env s p = Ok a \<and>
    signed_verify env s v = Ok w \<and> acknowledged_verify env a v = Ok w \<and> unat w = receipt_charge r"
proof -
  have sign: "\<exists>sg. cde_sign x d = Ok sg" if "member x" "cde_public_key x \<noteq> []" for x d
    using that assms(2) by (simp add: signs_all_def)
  have pk: "cde_public_key c \<noteq> []"
    using assms(6,7) by (simp add: receipt_validate_eq_Ok)
  obtain sg where sg: "cde_sign c (service_receipt_signing_domain @ b) = Ok sg"
    using sign [OF assms(3) pk] by blast
  let ?s = "\<lparr>ssr_receipt = r, ssr_provider_signature = sg\<rparr>"
  have s: "receipt_sign env r c = Ok ?s"
    using assms(6,7,10) sg by (simp add: receipt_sign_eq_Ok receipt_signing_data_eq_Ok)
  obtain w where w: "signed_verify env ?s v = Ok w" "unat w = receipt_charge r"
    using sig_family.signed_verify_sign [OF assms(1,3,5) s] by blast
  obtain w' where w': "signed_verify env ?s p = Ok w'"
    using sig_family.signed_verify_sign [OF assms(1,3,4) s] by blast
  obtain sp where "cde_sign p (payer_acknowledgement_domain @ f ?s) = Ok sp"
    using sign [OF assms(4,8)] by blast
  then have "signed_acknowledge env ?s p = Ok \<lparr>asr_signed_receipt = ?s,
      asr_payer_session_public_key = cde_public_key p, asr_payer_signature = sp\<rparr>"
    using w' assms(8,9,11) by (simp add: signed_acknowledge_eq_Ok acknowledgement_data_eq_Ok)
  with s w sig_family.acknowledged_verify_acknowledge [OF assms(1,4,5) w(1)] show ?thesis
    by blast
qed

theorem receipt_exchange_verifies_witness:
  "let env = \<lparr>keccak256 = (\<lambda>b. of_nat (length b)), cbor_receipt = (\<lambda>r. Ok [1]), cbor_acknowledgement = (\<lambda>z. Ok [2]),
      cbor_settlement_policy = (\<lambda>p. Ok [3]), ec_recover = (\<lambda>s d. None), ec_verify = (\<lambda>k s d. None), ec_address = (\<lambda>k. 0)\<rparr>;
      c = null_crypt_de (\<lambda>b. [9]) (\<lambda>b. []) (null_from (\<lambda>b. 0) [1] [7] []);
      p = null_crypt_de (\<lambda>b. [9]) (\<lambda>b. []) (null_from (\<lambda>b. 0) [1] [8, 8] [])
   in \<exists>s a w. receipt_sign env (new_with_service_units 1 1 Exit [7] 64 100 1 10 3) c = Ok s \<and>
     signed_acknowledge env s p = Ok a \<and> signed_verify env s p = Ok w \<and> acknowledged_verify env a p = Ok w \<and> unat w = 310"
proof -
  let ?env = "\<lparr>keccak256 = (\<lambda>b. of_nat (length b)), cbor_receipt = (\<lambda>r. Ok [1]), cbor_acknowledgement = (\<lambda>z. Ok [2]),
      cbor_settlement_policy = (\<lambda>p. Ok [3]), ec_recover = (\<lambda>s d. None), ec_verify = (\<lambda>k s d. None), ec_address = (\<lambda>k. 0)\<rparr>"
  let ?c = "null_crypt_de (\<lambda>b. [9]) (\<lambda>b. []) (null_from (\<lambda>b. 0) [1] [7] [])"
  let ?p = "null_crypt_de (\<lambda>b. [9]) (\<lambda>b. []) (null_from (\<lambda>b. 0) [1] [8, 8] [])"
  let ?r = "new_with_service_units 1 1 Exit [7] 64 100 1 10 3"
  have m: "null_member (\<lambda>b. [9]) (\<lambda>b. []) ?c" "null_member (\<lambda>b. [9]) (\<lambda>b. []) ?p"
    by simp_all
  have v: "receipt_validate ?r = Ok ()" and ch: "receipt_charge ?r = 310"
    by (simp_all add: receipt_validate_eq_Ok new_with_service_units_def checked_charge_wei_eq charge_nat_def
        unwrap_or_def receipt_charge_def service_receipt_protocol_version_def)
  have "sr_accounting_commitment ?r = make_accounting_commitment ?env (sr_route_epoch ?r) (cde_public_key ?p)"
    by (simp add: make_accounting_commitment_def accounting_commitment_domain_def ascii_def
        new_with_service_units_def)
  from receipt_exchange_verifies [OF null.sig_family_axioms null_signs_all m(1,2,2) v _ _ this, where b = "[1]" and f = "\<lambda>s. [2]"]
  show ?thesis
    unfolding Let_def by (simp add: ch) (simp add: new_with_service_units_def)
qed

end
