(* ===== verification/Receipt_Trust.thy ===== *)
theory Receipt_Trust
  imports Service_Receipt
begin

section \<open>What verified receipts, authorizations and checkpoints guarantee\<close>

text \<open>
  Properties of the definitions of \<open>Service_Receipt\<close> that span several of them: what an accepted
  session authorization implies, EIP-712 digests bind every field and separate the two kinds of policy, a settlement
  authorization verifies inside its window, and checkpoints only move forward. Collision
  resistance of Keccak-256 is assumed only between the byte strings that are hashed.
\<close>

subsection \<open>An environment for examples\<close>

text \<open>An environment for examples, and key pairs of the null implementation.\<close>

definition demo_env_with :: "(bytes \<Rightarrow> bytes32) \<Rightarrow> receipt_env" where
  "demo_env_with h = \<lparr>keccak256 = h, cbor_receipt = (\<lambda>r. Ok [1]), cbor_acknowledgement = (\<lambda>z. Ok [2]),
     cbor_settlement_policy = (\<lambda>p. Ok [3]), ec_recover = (\<lambda>s d. Some [ucast (sig_r s)]),
     ec_verify = (\<lambda>k s d. Some True), ec_address = (\<lambda>k. ucast (k ! 0))\<rparr>"

lemma demo_env_with_simps [simp]:
  "keccak256 (demo_env_with h) = h" "cbor_settlement_policy (demo_env_with h) = (\<lambda>p. Ok [3])"
  "ec_recover (demo_env_with h) = (\<lambda>s d. Some [ucast (sig_r s)])" "ec_verify (demo_env_with h) = (\<lambda>k s d. Some True)"
  "ec_address (demo_env_with h) = (\<lambda>k. ucast (k ! 0))"
  by (simp_all add: demo_env_with_def)

abbreviation demo_env :: receipt_env where
  "demo_env \<equiv> demo_env_with (\<lambda>b. of_nat (length b))"

abbreviation demo_crypt_de :: "public_key \<Rightarrow> crypt_de" where
  "demo_crypt_de pk \<equiv> null_crypt_de (\<lambda>b. [9]) (\<lambda>b. []) (null_from (\<lambda>b. 0) [1] pk [])"

subsection \<open>Session authorizations\<close>

definition session_policy_ok :: "receipt_session_policy \<Rightarrow> bool" where
  "session_policy_ok p \<longleftrightarrow>
     rsp_protocol_version p = 1 \<and> rsp_payer_wallet_address p \<noteq> 0 \<and> rsp_chain_id p \<noteq> 0 \<and>
     rsp_settlement_contract p \<noteq> 0 \<and> rsp_payer_session_public_key p \<noteq> [] \<and>
     0 < unat (rsp_max_total_charge_wei p) \<and> unat (rsp_max_total_charge_wei p) < 2 ^ 126 \<and>
     unat (rsp_valid_from_unix_s p) + 60 \<le> unat (rsp_expires_at_unix_s p) \<and>
     unat (rsp_expires_at_unix_s p) \<le> unat (rsp_valid_from_unix_s p) + 86400 \<and>
     rsp_authorization_nonce p \<noteq> 0"

lemma window_iff:
  fixes a b lo hi :: u64
  assumes "0 < unat lo"
  shows "\<not> b \<le> a \<and> lo \<le> b - a \<and> b - a \<le> hi \<longleftrightarrow>
    unat a + unat lo \<le> unat b \<and> unat b \<le> unat a + unat hi"
proof (cases "a \<le> b")
  case True
  then have "unat b = unat (b - a) + unat a"
    using checked_sub_eq_Some [of b a "b - a"] by (simp add: checked_sub_def)
  then show ?thesis
    using assms by (auto simp: word_le_nat_alt)
next
  case False
  then show ?thesis
    using assms by (auto simp: word_le_nat_alt)
qed

lemma session_validate_structure_eq_Ok:
  "session_validate_structure p = Ok () \<longleftrightarrow> session_policy_ok p"
proof -
  have "unat max_receipt_session_charge_wei = 2 ^ 126 - 1"
    by (simp add: max_receipt_session_charge_wei_def)
  then have "\<not> max_receipt_session_charge_wei < x \<longleftrightarrow> unat x < 2 ^ 126" for x
    by (auto simp: word_less_nat_alt)
  moreover have "x \<noteq> 0 \<longleftrightarrow> 0 < unat x" for x :: u128
    by (simp add: unat_gt_0)
  ultimately show ?thesis
    using window_iff [of 60 "rsp_expires_at_unix_s p" "rsp_valid_from_unix_s p" 86400]
    by (auto simp: session_validate_structure_def session_policy_ok_def Let_def
        service_receipt_protocol_version_def min_receipt_session_duration_seconds_def
        max_receipt_session_duration_seconds_def split: if_splits)
qed

lemma session_validate_structure_not_Panic [simp]: "session_validate_structure p \<noteq> Panic"
  by (simp add: session_validate_structure_def Let_def)

definition session_digest :: "receipt_env \<Rightarrow> receipt_session_policy \<Rightarrow> bytes32" where
  "session_digest env p = keccak256 env (eip712_final_preimage (keccak256 env (session_domain_preimage env p))
     (keccak256 env (session_struct_preimage env p)))"

lemma session_eip712_digest_eq_Ok:
  "session_eip712_digest env p = Ok d \<longleftrightarrow> session_policy_ok p \<and> d = session_digest env p"
  by (auto simp: session_eip712_digest_def res_simps session_validate_structure_eq_Ok session_digest_def)

lemma wallet_signature_check_eq_Ok:
  "wallet_signature_check env sg d a = Ok () \<longleftrightarrow>
     (\<exists>pk. ec_recover env sg d = Some pk \<and> ec_verify env pk sg d = Some True \<and> ec_address env pk = a)"
  by (auto simp: wallet_signature_check_def res_simps Let_def split: option.splits if_splits)

lemma session_verify_eq_Ok:
  "session_verify env a chain contract key now charge = Ok () \<longleftrightarrow>
     (let p = ars_policy a in
      session_policy_ok p \<and> rsp_chain_id p = chain \<and> rsp_settlement_contract p = contract \<and>
      rsp_payer_session_public_key p = key \<and>
      unat (rsp_valid_from_unix_s p) \<le> unat now \<and> unat now \<le> unat (rsp_expires_at_unix_s p) \<and>
      unat charge \<le> unat (rsp_max_total_charge_wei p) \<and>
      (\<exists>pk. ec_recover env (ars_wallet_signature a) (session_digest env p) = Some pk \<and>
         ec_verify env pk (ars_wallet_signature a) (session_digest env p) = Some True \<and>
         ec_address env pk = rsp_payer_wallet_address p))"
  by (auto simp: session_verify_def Let_def res_simps session_validate_structure_eq_Ok session_eip712_digest_eq_Ok
      wallet_signature_check_eq_Ok word_less_nat_alt not_less split: if_splits)

subsection \<open>Digests bind policies\<close>

lemma length_uint_word [simp]: "length (uint_word v) = 32"
  by (simp add: uint_word_def)

lemma length_address_word [simp]: "length (address_word a) = 32"
  by (simp add: address_word_def)

lemma uint_word_inj [simp]: "uint_word a = uint_word b \<longleftrightarrow> a = b"
  by (simp add: uint_word_def be_bytes_inj)

lemma address_word_inj [simp]: "address_word a = address_word b \<longleftrightarrow> a = b"
  by (simp add: address_word_def be_bytes_inj)

lemma be_bytes_32_inj [simp]: "be_bytes 32 (a :: bytes32) = be_bytes 32 b \<longleftrightarrow> a = b"
  by (simp add: be_bytes_inj)

lemma ucast_u64_u128_inj [simp]: "(ucast (a :: u64) :: u128) = ucast b \<longleftrightarrow> a = b"
  by (metis unat_ucast_u64_u128 word_unat_eq_iff)

lemma final_preimage_inj [simp]:
  "eip712_final_preimage a b = eip712_final_preimage c d \<longleftrightarrow> a = c \<and> b = d"
  by (simp add: eip712_final_preimage_def)

lemma session_domain_preimage_inj:
  "session_domain_preimage env p = session_domain_preimage env q \<longleftrightarrow>
     rsp_chain_id p = rsp_chain_id q \<and> rsp_settlement_contract p = rsp_settlement_contract q"
  by (simp add: session_domain_preimage_def)

lemma session_struct_preimage_inj:
  assumes "session_struct_preimage env p = session_struct_preimage env q"
    and "rsp_protocol_version p = rsp_protocol_version q"
  shows "rsp_payer_wallet_address p = rsp_payer_wallet_address q"
    and "keccak256 env (rsp_payer_session_public_key p) = keccak256 env (rsp_payer_session_public_key q)"
    and "rsp_max_total_charge_wei p = rsp_max_total_charge_wei q"
    and "rsp_valid_from_unix_s p = rsp_valid_from_unix_s q"
    and "rsp_expires_at_unix_s p = rsp_expires_at_unix_s q"
    and "rsp_authorization_nonce p = rsp_authorization_nonce q"
  using assms by (simp_all add: session_struct_preimage_def)

text \<open>The byte strings that the digest of a session policy hashes.\<close>

definition session_preimages :: "receipt_env \<Rightarrow> receipt_session_policy \<Rightarrow> bytes set" where
  "session_preimages env p =
     {eip712_final_preimage (keccak256 env (session_domain_preimage env p)) (keccak256 env (session_struct_preimage env p)),
      session_domain_preimage env p, session_struct_preimage env p, rsp_payer_session_public_key p}"

lemma session_digest_inj:
  assumes "inj_on (keccak256 env) (session_preimages env p \<union> session_preimages env q)"
    and "session_policy_ok p" and "session_policy_ok q" and eq: "session_digest env p = session_digest env q"
  shows "p = q"
proof -
  have inj: "x = y" if "keccak256 env x = keccak256 env y" "x \<in> session_preimages env p" "y \<in> session_preimages env q" for x y
    using inj_onD [OF assms(1) that(1)] that by simp
  have v: "rsp_protocol_version p = rsp_protocol_version q"
    using assms(2,3) by (simp add: session_policy_ok_def)
  have "eip712_final_preimage (keccak256 env (session_domain_preimage env p)) (keccak256 env (session_struct_preimage env p)) =
      eip712_final_preimage (keccak256 env (session_domain_preimage env q)) (keccak256 env (session_struct_preimage env q))"
    using eq by (intro inj) (simp_all add: session_digest_def session_preimages_def)
  then have "session_domain_preimage env p = session_domain_preimage env q"
    and st: "session_struct_preimage env p = session_struct_preimage env q"
    by (auto intro!: inj simp: session_preimages_def)
  then have "rsp_chain_id p = rsp_chain_id q" "rsp_settlement_contract p = rsp_settlement_contract q"
    by (simp_all add: session_domain_preimage_inj)
  moreover have "rsp_payer_session_public_key p = rsp_payer_session_public_key q"
    using session_struct_preimage_inj(2) [OF st v] by (intro inj) (simp_all add: session_preimages_def)
  ultimately show ?thesis
    using session_struct_preimage_inj [OF st v] v by (intro receipt_session_policy.equality) simp_all
qed

text \<open>
  C18. The EIP-712 digest that the payer's wallet signs binds every field of a session policy:
  two different valid policies have different digests, unless Keccak-256 collides on two of the
  byte strings hashed for them. A wallet signature given for one policy is not one for another.
\<close>

theorem session_digest_binds_policy:
  assumes "inj_on (keccak256 env) (session_preimages env p \<union> session_preimages env q)"
    and "session_eip712_digest env p = Ok d" and "session_eip712_digest env q = Ok d'" and "p \<noteq> q"
  shows "d \<noteq> d'"
  using session_digest_inj [OF assms(1)] assms(2-4) by (auto simp: session_eip712_digest_eq_Ok)

text \<open>
  For the examples, a hash that reads the length and one byte: the byte of a session policy's
  struct that depends on its key, and the byte of the final string that depends on the struct.
\<close>

definition demo_keccak :: "bytes \<Rightarrow> bytes32" where
  "demo_keccak b = of_nat (length b) + (if length b = 256 then 1000 * ucast (b ! 127)
     else if length b = 66 then 1000 * ucast (b ! 65) else 0)"

lemma demo_keccak_final [simp]:
  "demo_keccak (eip712_final_preimage a b) = 66 + 1000 * ucast (ucast b :: u8)"
  by (simp add: demo_keccak_def eip712_final_preimage_def nth_append be_bytes_def)

lemma demo_keccak_struct [simp]:
  "keccak256 env = demo_keccak \<Longrightarrow> demo_keccak (session_struct_preimage env p) =
     256 + 1000 * ucast (ucast (demo_keccak (rsp_payer_session_public_key p)) :: u8)"
  by (simp add: demo_keccak_def session_struct_preimage_def nth_append be_bytes_def)

lemma demo_keccak_domain [simp]: "demo_keccak (session_domain_preimage env p) = 160"
  by (simp add: demo_keccak_def session_domain_preimage_def)

lemma demo_keccak_short [simp]: "length b < 66 \<Longrightarrow> demo_keccak b = of_nat (length b)"
  by (simp add: demo_keccak_def)

definition demo_policy :: "public_key \<Rightarrow> receipt_session_policy" where
  "demo_policy key = session_policy_new 8453 0xC0 0xAB key 1000 100 200 5"

abbreviation keccak_env :: receipt_env where
  "keccak_env \<equiv> demo_env_with demo_keccak"

lemma demo_policy_key [simp]: "rsp_payer_session_public_key (demo_policy key) = key"
  by (simp add: demo_policy_def session_policy_new_def)

lemma demo_policy_ok: "key \<noteq> [] \<Longrightarrow> session_policy_ok (demo_policy key)"
  by (simp add: session_policy_ok_def demo_policy_def session_policy_new_def service_receipt_protocol_version_def)

theorem session_digest_binds_policy_witness:
  "session_eip712_digest keccak_env (demo_policy [1]) = Ok (session_digest keccak_env (demo_policy [1])) \<and>
   session_digest keccak_env (demo_policy [1]) \<noteq> session_digest keccak_env (demo_policy [1, 2])"
proof -
  let ?P = "\<lambda>k. session_preimages keccak_env (demo_policy k)"
  have "session_domain_preimage keccak_env (demo_policy [1]) = session_domain_preimage keccak_env (demo_policy [1, 2])"
    by (simp add: session_domain_preimage_def demo_policy_def session_policy_new_def)
  then have "inj_on (keccak256 keccak_env) (?P [1] \<union> ?P [1, 2])"
    by (simp add: session_preimages_def inj_on_def)
  then show ?thesis
    using session_digest_binds_policy [of keccak_env "demo_policy [1]" "demo_policy [1, 2]"]
    by (simp add: session_eip712_digest_eq_Ok demo_policy_ok) (simp add: demo_policy_def session_policy_new_def)
qed

subsection \<open>Checkpoints\<close>

abbreviation ack_receipt :: "acknowledged_service_receipt \<Rightarrow> service_receipt" where
  "ack_receipt a \<equiv> ssr_receipt (asr_signed_receipt a)"

definition same_stream :: "receipt_sequence_checkpoint \<Rightarrow> acknowledged_service_receipt \<Rightarrow> bool" where
  "same_stream ck a \<longleftrightarrow> sr_route_epoch (ack_receipt a) = ck_route_epoch ck \<and>
     sr_provider_public_key (ack_receipt a) = ck_provider_public_key ck \<and>
     sr_accounting_commitment (ack_receipt a) = ck_accounting_commitment ck \<and>
     asr_payer_session_public_key a = ck_payer_session_public_key ck"

lemma acknowledged_verify_charge: "acknowledged_verify env a c = Ok w \<Longrightarrow> unat w = receipt_charge (ack_receipt a)"
  by (simp add: acknowledged_verify_eq_Ok signed_verify_eq_Ok)

lemma begin_with_contiguity_eq_Ok:
  "begin_with_contiguity env a c b = Ok ck \<longleftrightarrow>
     (\<exists>w. acknowledged_verify env a c = Ok w) \<and> same_stream ck a \<and>
     ck_last_sequence ck = sr_sequence (ack_receipt a) \<and>
     ck_cumulative_charge_wei ck = sr_cumulative_charge_wei (ack_receipt a) \<and>
     receipt_charge (ack_receipt a) \<le> unat (ck_cumulative_charge_wei ck) \<and>
     (b \<longrightarrow> unat (ck_cumulative_charge_wei ck) = receipt_charge (ack_receipt a))"
proof (cases "acknowledged_verify env a c")
  case (Ok w)
  then have "x = w \<longleftrightarrow> unat x = receipt_charge (ack_receipt a)" "x < w \<longleftrightarrow> unat x < receipt_charge (ack_receipt a)" for x
    by (simp_all add: acknowledged_verify_charge word_unat_eq_iff word_less_nat_alt)
  then show ?thesis
    using Ok by (cases ck) (auto simp: begin_with_contiguity_def Let_def same_stream_def)
qed (simp_all add: begin_with_contiguity_def)

lemma advance_with_contiguity_eq_Ok:
  "advance_with_contiguity env ck a c b = Ok ck' \<longleftrightarrow>
     (\<exists>w. acknowledged_verify env a c = Ok w) \<and> same_stream ck a \<and>
     unat (ck_last_sequence ck) < unat (sr_sequence (ack_receipt a)) \<and>
     unat (ck_cumulative_charge_wei ck) + receipt_charge (ack_receipt a)
       \<le> unat (sr_cumulative_charge_wei (ack_receipt a)) \<and>
     (b \<longrightarrow> unat (sr_cumulative_charge_wei (ack_receipt a))
        = unat (ck_cumulative_charge_wei ck) + receipt_charge (ack_receipt a)) \<and>
     ck' = ck\<lparr>ck_last_sequence := sr_sequence (ack_receipt a),
              ck_cumulative_charge_wei := sr_cumulative_charge_wei (ack_receipt a)\<rparr>"
proof (cases "acknowledged_verify env a c")
  case (Ok w)
  note charge = acknowledged_verify_charge [OF Ok]
  show ?thesis
  proof (cases "checked_add (ck_cumulative_charge_wei ck) w")
    case None
    then have "2 ^ LENGTH(128) \<le> unat (ck_cumulative_charge_wei ck) + receipt_charge (ack_receipt a)"
      by (simp only: checked_add_eq_None charge)
    then have "\<not> unat (ck_cumulative_charge_wei ck) + receipt_charge (ack_receipt a)
        \<le> unat (sr_cumulative_charge_wei (ack_receipt a))"
      using unat_less_2p [of "sr_cumulative_charge_wei (ack_receipt a)"] by linarith
    then show ?thesis
      using Ok None by (simp add: advance_with_contiguity_def Let_def)
  next
    case (Some e)
    then have "unat e = unat (ck_cumulative_charge_wei ck) + receipt_charge (ack_receipt a)"
      by (simp only: checked_add_eq_Some charge)
    then have "x = e \<longleftrightarrow> unat x = unat (ck_cumulative_charge_wei ck) + receipt_charge (ack_receipt a)"
        "x < e \<longleftrightarrow> unat x < unat (ck_cumulative_charge_wei ck) + receipt_charge (ack_receipt a)" for x
      by (simp_all add: word_unat_eq_iff word_less_nat_alt)
    then show ?thesis
      using Ok Some by (auto simp: advance_with_contiguity_def Let_def same_stream_def word_le_nat_alt)
  qed
qed (simp_all add: advance_with_contiguity_def)

lemma advance_replayed:
  assumes "acknowledged_verify env a c = Ok w" and "same_stream ck a"
    and "unat (sr_sequence (ack_receipt a)) \<le> unat (ck_last_sequence ck)"
  shows "advance_with_contiguity env ck a c b = Err NonMonotonicSequence"
  using assms by (simp add: advance_with_contiguity_def Let_def same_stream_def word_le_nat_alt)

fun advance_all ::
    "receipt_env \<Rightarrow> crypt_de \<Rightarrow> bool \<Rightarrow> receipt_sequence_checkpoint \<Rightarrow> acknowledged_service_receipt list \<Rightarrow>
     (receipt_sequence_checkpoint, service_receipt_error) res" where
  "advance_all env c b ck [] = Ok ck"
| "advance_all env c b ck (a # as) = and_then (advance_with_contiguity env ck a c b) (\<lambda>ck'. advance_all env c b ck' as)"

lemma same_stream_update [simp]:
  "same_stream (ck\<lparr>ck_last_sequence := q, ck_cumulative_charge_wei := w\<rparr>) a \<longleftrightarrow> same_stream ck a"
  by (simp add: same_stream_def)

lemma advance_all_ConsE:
  assumes "advance_all env c b ck (a # as) = Ok ck'"
  obtains ck1 where "advance_all env c b ck1 as = Ok ck'" "same_stream ck a" "\<exists>w. acknowledged_verify env a c = Ok w"
    "unat (ck_last_sequence ck) < unat (sr_sequence (ack_receipt a))"
    "ck_last_sequence ck1 = sr_sequence (ack_receipt a)"
    "unat (ck_cumulative_charge_wei ck) + receipt_charge (ack_receipt a) \<le> unat (ck_cumulative_charge_wei ck1)"
    "b \<Longrightarrow> unat (ck_cumulative_charge_wei ck1) = unat (ck_cumulative_charge_wei ck) + receipt_charge (ack_receipt a)"
    "\<And>x. same_stream ck1 x \<longleftrightarrow> same_stream ck x"
proof -
  obtain ck1 where "advance_with_contiguity env ck a c b = Ok ck1" and "advance_all env c b ck1 as = Ok ck'"
    using assms by (auto simp: res_simps)
  then show thesis
    using that [of ck1] unfolding advance_with_contiguity_eq_Ok by simp
qed

lemma advance_all_charges:
  assumes "advance_all env c b ck as = Ok ck'"
  shows "unat (ck_cumulative_charge_wei ck) + (\<Sum>a\<leftarrow>as. receipt_charge (ack_receipt a)) \<le> unat (ck_cumulative_charge_wei ck') \<and>
    (b \<longrightarrow> unat (ck_cumulative_charge_wei ck') =
       unat (ck_cumulative_charge_wei ck) + (\<Sum>a\<leftarrow>as. receipt_charge (ack_receipt a)))"
  using assms
proof (induction as arbitrary: ck)
  case (Cons a as)
  from Cons.prems show ?case
    by (rule advance_all_ConsE) (use Cons.IH in fastforce)
qed simp

lemma advance_all_sequence:
  assumes "advance_all env c b ck as = Ok ck'"
  shows "sorted_wrt (<) (unat (ck_last_sequence ck) # map (\<lambda>a. unat (sr_sequence (ack_receipt a))) as) \<and>
    (\<forall>a \<in> set as. unat (sr_sequence (ack_receipt a)) \<le> unat (ck_last_sequence ck')) \<and>
    unat (ck_last_sequence ck) \<le> unat (ck_last_sequence ck')"
  using assms
proof (induction as arbitrary: ck)
  case (Cons a as)
  from Cons.prems obtain ck1 where ck1: "advance_all env c b ck1 as = Ok ck'"
      "unat (ck_last_sequence ck) < unat (sr_sequence (ack_receipt a))" "ck_last_sequence ck1 = sr_sequence (ack_receipt a)"
    by (rule advance_all_ConsE)
  show ?case
    using Cons.IH [OF ck1(1)] ck1(2) unfolding ck1(3) by auto
qed simp

lemma advance_all_stream:
  assumes "advance_all env c b ck as = Ok ck'"
  shows "(\<forall>x. same_stream ck' x \<longleftrightarrow> same_stream ck x) \<and>
    (\<forall>a \<in> set as. same_stream ck a \<and> (\<exists>w. acknowledged_verify env a c = Ok w))"
  using assms
proof (induction as arbitrary: ck)
  case (Cons a as)
  from Cons.prems obtain ck1 where ck1: "advance_all env c b ck1 as = Ok ck'" "same_stream ck a"
      "\<exists>w. acknowledged_verify env a c = Ok w" "\<And>x. same_stream ck1 x \<longleftrightarrow> same_stream ck x"
    by (rule advance_all_ConsE) blast
  show ?case
    using Cons.IH [OF ck1(1)] ck1(2,3) unfolding ck1(4) by auto
qed simp

text \<open>
  C17. A checkpoint counts every receipt once. Begun with one acknowledged receipt and advanced by
  others, its cumulative charge covers the charges of all of them, and is exactly their sum when
  contiguity is required; their sequence numbers strictly increase; and each of them, presented
  again, is refused as not monotonic in either mode.
\<close>

theorem checkpoint_counts_each_receipt_once:
  assumes "begin_with_contiguity env a c b = Ok ck0" and "advance_all env c b ck0 as = Ok ck"
  shows "(\<Sum>x\<leftarrow>a # as. receipt_charge (ack_receipt x)) \<le> unat (ck_cumulative_charge_wei ck) \<and>
    (b \<longrightarrow> unat (ck_cumulative_charge_wei ck) = (\<Sum>x\<leftarrow>a # as. receipt_charge (ack_receipt x))) \<and>
    sorted_wrt (<) (map (\<lambda>x. unat (sr_sequence (ack_receipt x))) (a # as)) \<and>
    (\<forall>x \<in> set (a # as). \<forall>b'. advance_with_contiguity env ck x c b' = Err NonMonotonicSequence)"
proof (intro conjI ballI allI)
  note ck0 = assms(1) [unfolded begin_with_contiguity_eq_Ok]
  note all = advance_all_charges [OF assms(2)] advance_all_sequence [OF assms(2)] advance_all_stream [OF assms(2)]
  show "(\<Sum>x\<leftarrow>a # as. receipt_charge (ack_receipt x)) \<le> unat (ck_cumulative_charge_wei ck)"
    and "b \<longrightarrow> unat (ck_cumulative_charge_wei ck) = (\<Sum>x\<leftarrow>a # as. receipt_charge (ack_receipt x))"
    using ck0 all(1) by auto
  show "sorted_wrt (<) (map (\<lambda>x. unat (sr_sequence (ack_receipt x))) (a # as))"
    using ck0 all(2) by simp
  fix x b' assume "x \<in> set (a # as)"
  then obtain w where "acknowledged_verify env x c = Ok w" "same_stream ck x"
      "unat (sr_sequence (ack_receipt x)) \<le> unat (ck_last_sequence ck)"
    using ck0 all(2,3) by auto
  then show "advance_with_contiguity env ck x c b' = Err NonMonotonicSequence"
    by (rule advance_replayed)
qed

text \<open>Acknowledgements by null key pairs whose hash is one fixed byte.\<close>

definition demo_ack :: "service_receipt \<Rightarrow> public_key \<Rightarrow> acknowledged_service_receipt" where
  "demo_ack r pk = \<lparr>asr_signed_receipt = \<lparr>ssr_receipt = r, ssr_provider_signature = sr_provider_public_key r @ [9]\<rparr>,
     asr_payer_session_public_key = pk, asr_payer_signature = pk @ [9]\<rparr>"

lemma demo_ack_verify [simp]:
  "(\<exists>w. acknowledged_verify (demo_env_with h) (demo_ack r pk) (demo_crypt_de k) = Ok w) \<longleftrightarrow>
     receipt_validate r = Ok () \<and> pk \<noteq> [] \<and>
     make_accounting_commitment (demo_env_with h) (sr_route_epoch r) pk = sr_accounting_commitment r"
proof -
  have "\<exists>w :: u128. unat w = receipt_charge r" if "receipt_validate r = Ok ()"
    using that unat_of_nat_less [of "receipt_charge r", where 'a = 128]
      le_less_trans [OF _ unat_less_2p [of "sr_cumulative_charge_wei r"], of "receipt_charge r"]
    by (auto simp: receipt_validate_eq_Ok)
  then show ?thesis
    by (auto simp: acknowledged_verify_eq_Ok signed_verify_eq_Ok demo_ack_def receipt_signing_data_eq_Ok
        acknowledgement_data_eq_Ok demo_env_with_def signature_rejected_eq_Ok null_crypt_de_def
        null_verify_signature_iff receipt_validate_eq_Ok)
qed

definition demo_receipt :: "(bytes \<Rightarrow> bytes32) \<Rightarrow> bytes32 \<Rightarrow> u64 \<Rightarrow> u128 \<Rightarrow> service_receipt" where
  "demo_receipt h e q w = \<lparr>sr_protocol_version = 1, sr_route_epoch = e, sr_sequence = q, sr_service_kind = Exit,
     sr_provider_public_key = [7], sr_accounting_commitment = make_accounting_commitment (demo_env_with h) e [8],
     sr_payload_size = 100, sr_service_units = 1, sr_service_rate = 10, sr_byte_rate = 3, sr_cumulative_charge_wei = w\<rparr>"

lemma demo_receipt_simps [simp]:
  "sr_route_epoch (demo_receipt h e q w) = e" "sr_sequence (demo_receipt h e q w) = q"
  "sr_provider_public_key (demo_receipt h e q w) = [7]" "sr_cumulative_charge_wei (demo_receipt h e q w) = w"
  "sr_accounting_commitment (demo_receipt h e q w) = make_accounting_commitment (demo_env_with h) e [8]"
  "receipt_charge (demo_receipt h e q w) = 310"
  by (simp_all add: demo_receipt_def receipt_charge_def charge_nat_def)

lemma demo_ack_simps [simp]:
  "ack_receipt (demo_ack r k) = r" "asr_payer_session_public_key (demo_ack r k) = k"
  by (simp_all add: demo_ack_def)

lemma demo_receipt_valid [simp]:
  "receipt_validate (demo_receipt h e q w) = Ok () \<longleftrightarrow>
     e \<noteq> 0 \<and> make_accounting_commitment (demo_env_with h) e [8] \<noteq> 0 \<and> 310 \<le> unat w"
  by (simp add: receipt_validate_eq_Ok) (simp add: demo_receipt_def)

theorem checkpoint_counts_each_receipt_once_witness:
  "\<exists>ck0 ck. begin_with_contiguity demo_env (demo_ack (demo_receipt (\<lambda>b. of_nat (length b)) 1 4 310) [8]) (demo_crypt_de [5]) True = Ok ck0 \<and>
    advance_all demo_env (demo_crypt_de [5]) True ck0 [demo_ack (demo_receipt (\<lambda>b. of_nat (length b)) 1 9 620) [8]] = Ok ck \<and>
    unat (ck_cumulative_charge_wei ck) = 620 \<and>
    advance_with_contiguity demo_env ck (demo_ack (demo_receipt (\<lambda>b. of_nat (length b)) 1 4 310) [8]) (demo_crypt_de [5]) False
      = Err NonMonotonicSequence"
proof -
  let ?ck = "\<lparr>ck_route_epoch = 1, ck_provider_public_key = [7], ck_accounting_commitment = make_accounting_commitment demo_env 1 [8],
       ck_payer_session_public_key = [8], ck_last_sequence = 4, ck_cumulative_charge_wei = 310\<rparr>"
  let ?r = "demo_receipt (\<lambda>b. of_nat (length b)) 1"
  have c: "make_accounting_commitment demo_env 1 [8] \<noteq> 0"
    by (simp add: make_accounting_commitment_def accounting_commitment_domain_def ascii_def)
  have b: "begin_with_contiguity demo_env (demo_ack (?r 4 310) [8]) (demo_crypt_de [5]) True = Ok ?ck"
    using c by (simp add: begin_with_contiguity_eq_Ok same_stream_def)
  have "advance_with_contiguity demo_env ?ck (demo_ack (?r 9 620) [8]) (demo_crypt_de [5]) True
      = Ok (?ck\<lparr>ck_last_sequence := 9, ck_cumulative_charge_wei := 620\<rparr>)"
    using c by (simp add: advance_with_contiguity_eq_Ok same_stream_def)
  then have a: "advance_all demo_env (demo_crypt_de [5]) True ?ck [demo_ack (?r 9 620) [8]]
      = Ok (?ck\<lparr>ck_last_sequence := 9, ck_cumulative_charge_wei := 620\<rparr>)"
    by simp
  show ?thesis
    using checkpoint_counts_each_receipt_once [OF b a] a b by simp
qed

subsection \<open>Settlement authorizations\<close>

lemma authorize_with_wallet_signature_eq_Ok:
  "authorize_with_wallet_signature env p sg c = Ok a \<longleftrightarrow>
     settlement_validate_structure p = Ok () \<and> cde_public_key c = psp_provider_public_key p \<and>
     verify_payout_wallet_signature env p sg = Ok () \<and> aps_policy a = p \<and> aps_payout_wallet_signature a = sg \<and>
     (\<exists>d. transport_signing_data env p sg = Ok d \<and> cde_sign c d = Ok (aps_provider_signature a))"
  by (cases a) (auto simp: authorize_with_wallet_signature_def res_simps split: if_splits)

lemma settlement_verify_eq_Ok:
  "settlement_verify env a chain contract provider now v = Ok w \<longleftrightarrow>
     (let p = aps_policy a in
      settlement_validate_structure p = Ok () \<and> psp_chain_id p = chain \<and> psp_settlement_contract p = contract \<and>
      psp_provider_public_key p = provider \<and> psp_valid_from_unix_s p \<le> now \<and> now \<le> psp_expires_at_unix_s p \<and>
      verify_payout_wallet_signature env p (aps_payout_wallet_signature a) = Ok () \<and>
      w = psp_payout_wallet_address p \<and>
      (\<exists>d. transport_signing_data env p (aps_payout_wallet_signature a) = Ok d \<and>
         signature_rejected v d (aps_provider_signature a) provider = Ok False))"
  by (auto simp: settlement_verify_def Let_def res_simps not_less split: if_splits)

context sig_family
begin

lemma settlement_verify_authorized:
  assumes "member c" "member v" "authorize_with_wallet_signature env p sg c = Ok a"
    and "psp_valid_from_unix_s p \<le> now" "now \<le> psp_expires_at_unix_s p"
  shows "settlement_verify env a (psp_chain_id p) (psp_settlement_contract p) (psp_provider_public_key p) now v
    = Ok (psp_payout_wallet_address p)"
  using assms(3-5) accept_signed [OF assms(1,2)]
  by (auto simp: authorize_with_wallet_signature_eq_Ok settlement_verify_eq_Ok Let_def)

end

text \<open>
  C35. A settlement authorization that the provider node hands out verifies, for every family of
  \<open>CryptDE\<close> objects that accept each other's signatures, as the null objects and the real objects of
  one chain do: what \<open>authorize\<close> returns is accepted by every member for the policy's own chain,
  contract and provider at every time of the policy's window, with the policy's payout wallet, and
  outside the window it is refused.
\<close>

theorem settlement_authorization_verifies:
  assumes "sig_family member" and "member c" and "member v" and "settlement_authorize env p wallet c = Ok a"
  shows "settlement_verify env a (psp_chain_id p) (psp_settlement_contract p) (psp_provider_public_key p) now v
    = (if now < psp_valid_from_unix_s p then Err ProviderSettlementAuthorizationNotYetValid
       else if psp_expires_at_unix_s p < now then Err ProviderSettlementAuthorizationExpired
       else Ok (psp_payout_wallet_address p))"
proof -
  obtain sg where a: "authorize_with_wallet_signature env p sg c = Ok a"
    using assms(4) by (auto simp: settlement_authorize_def res_simps split: if_splits)
  then have "aps_policy a = p" and "settlement_validate_structure p = Ok ()"
    by (simp_all add: authorize_with_wallet_signature_eq_Ok)
  then show ?thesis
    using sig_family.settlement_verify_authorized [OF assms(1-3) a, of now]
    by (auto simp: settlement_verify_def Let_def not_less)
qed

text \<open>A payout policy of the provider with key \<open>[7]\<close> and its authorization.\<close>

definition demo_settlement_policy :: "address \<Rightarrow> provider_settlement_policy" where
  "demo_settlement_policy w = settlement_policy_new 8453 0xC0 w [7] 1000 1060 9"

definition demo_settlement :: "address \<Rightarrow> authorized_provider_settlement" where
  "demo_settlement w = \<lparr>aps_policy = demo_settlement_policy w,
     aps_payout_wallet_signature = \<lparr>sig_v = 0, sig_r = ucast w, sig_s = 1\<rparr>, aps_provider_signature = [7, 9]\<rparr>"

lemma demo_settlement_policy_simps [simp]:
  "psp_payout_wallet_address (demo_settlement_policy w) = w" "psp_provider_public_key (demo_settlement_policy w) = [7]"
  "psp_chain_id (demo_settlement_policy w) = 8453" "psp_settlement_contract (demo_settlement_policy w) = 0xC0"
  "psp_valid_from_unix_s (demo_settlement_policy w) = 1000" "psp_expires_at_unix_s (demo_settlement_policy w) = 1060"
  by (simp_all add: demo_settlement_policy_def settlement_policy_new_def)

lemma demo_settlement_valid [simp]: "w \<noteq> 0 \<Longrightarrow> settlement_validate_structure (demo_settlement_policy w) = Ok ()"
  by (simp add: settlement_validate_structure_def demo_settlement_policy_def settlement_policy_new_def
      service_receipt_protocol_version_def min_provider_settlement_duration_seconds_def
      max_provider_settlement_duration_seconds_def)

lemma demo_settlement_authorized:
  assumes w0: "w \<noteq> 0" and r: "(ucast w :: bytes32) \<noteq> 0" "ucast (ucast (ucast w :: bytes32) :: u8) = w"
  shows "settlement_authorize (demo_env_with h) (demo_settlement_policy w)
      (WalletSecretKey w (\<lambda>d. Ok \<lparr>sig_v = 0, sig_r = ucast w, sig_s = 1\<rparr>)) (demo_crypt_de [7]) = Ok (demo_settlement w)"
proof -
  let ?p = "demo_settlement_policy w" and ?sg = "\<lparr>sig_v = 0, sig_r = ucast w, sig_s = 1\<rparr> :: eth_signature"
  obtain d where d: "settlement_eip712_digest (demo_env_with h) ?p = Ok d"
    using w0 by (simp add: settlement_eip712_digest_def)
  have "verify_payout_wallet_signature (demo_env_with h) ?p ?sg = Ok ()"
    by (simp add: verify_payout_wallet_signature_def d wallet_signature_check_def r secp256k1_half_order_def)
  moreover have "cde_sign (demo_crypt_de [7]) x = Ok [7, 9]" for x
    using null_key_pair_from by (simp add: null_crypt_de_def null_sign_eq null_from_def null_set_key_pair_def)
  ultimately have "authorize_with_wallet_signature (demo_env_with h) ?p ?sg (demo_crypt_de [7]) = Ok (demo_settlement w)"
    using w0 by (simp add: authorize_with_wallet_signature_eq_Ok transport_signing_data_def demo_settlement_def)
  then show ?thesis
    using w0 d by (simp add: settlement_authorize_def)
qed

theorem settlement_authorization_verifies_witness:
  "settlement_verify demo_env (demo_settlement 5) 8453 0xC0 [7] 1060 (demo_crypt_de [5]) = Ok 0x05 \<and>
   settlement_verify demo_env (demo_settlement 5) 8453 0xC0 [7] 1061 (demo_crypt_de [5])
     = Err ProviderSettlementAuthorizationExpired"
  using settlement_authorization_verifies [OF null.sig_family_axioms [of "\<lambda>b. [9]" "\<lambda>b. []"], where c = "demo_crypt_de [7]"
      and v = "demo_crypt_de [5]", OF _ _ demo_settlement_authorized [of 5]]
  by simp

end
