(* ===== verification/Receipt_Settlement.thy ===== *)
theory Receipt_Settlement
  imports Receipt_Trust "HOL-Library.Multiset"
begin

section \<open>Settlement claims and batches\<close>

text \<open>
  The model of \<open>node/src/sub_lib/receipt_settlement.rs\<close>: a claim is an acknowledged receipt with
  its payer's and its provider's authorizations; a batch collects verified claims, sorted by leaf
  hash, with payouts per wallet and two Merkle roots. A \<open>BTreeSet\<close> of identifiers is the list of
  the identifiers seen, a \<open>BTreeMap\<close> of payouts a list of pairs sorted by wallet, and
  \<open>sort_by_key\<close>, which is stable, is \<open>sort_key\<close>. Serialization by CBOR is a parameter.
\<close>

subsection \<open>Constants and data\<close>

definition settlement_claim_id_domain :: bytes where
  "settlement_claim_id_domain = ascii ''MASQ_SETTLEMENT_CLAIM_ID_V1'' @ [0]"

definition settlement_leaf_domain :: bytes where
  "settlement_leaf_domain = ascii ''MASQ_SETTLEMENT_LEAF_V1'' @ [0]"

definition settlement_node_domain :: bytes where
  "settlement_node_domain = ascii ''MASQ_SETTLEMENT_NODE_V1'' @ [0]"

definition contract_settlement_leaf_domain :: bytes where
  "contract_settlement_leaf_domain = ascii ''MASQ_ONCHAIN_SETTLEMENT_LEAF_V1'' @ [0]"

definition contract_settlement_node_domain :: bytes where
  "contract_settlement_node_domain = ascii ''MASQ_ONCHAIN_SETTLEMENT_NODE_V1'' @ [0]"

record service_receipt_payload =
  srp_authorization :: authorized_receipt_session
  srp_acknowledged_receipt :: acknowledged_service_receipt

record receipt_settlement_claim =
  rsc_receipt_payload :: service_receipt_payload
  rsc_provider_settlement :: authorized_provider_settlement

record verified_receipt_settlement_claim =
  vrc_claim :: receipt_settlement_claim
  vrc_claim_id :: bytes32
  vrc_leaf_hash :: bytes32
  vrc_payout_wallet_address :: address
  vrc_cumulative_charge_wei :: u128

record receipt_settlement_payout =
  pay_payout_wallet_address :: address
  pay_amount_wei :: u128

record receipt_settlement_contract_claim =
  rcc_claim_id :: bytes32
  rcc_session_id :: bytes32
  rcc_payer_wallet_address :: address
  rcc_payout_wallet_address :: address
  rcc_cumulative_charge_wei :: u128

record receipt_settlement_batch =
  rsb_chain_id :: u64
  rsb_settlement_contract :: address
  rsb_claims :: "receipt_settlement_claim list"
  rsb_claim_accepted_at_unix_s :: "u64 list"
  rsb_leaf_hashes :: "bytes32 list"
  rsb_merkle_root :: bytes32
  rsb_payouts :: "receipt_settlement_payout list"
  rsb_total_claimed_wei :: u128
  rsb_contract_claims :: "receipt_settlement_contract_claim list"
  rsb_contract_leaf_hashes :: "bytes32 list"
  rsb_contract_merkle_root :: bytes32

datatype receipt_settlement_error =
    AcceptanceTimeCountMismatch nat nat
  | AcceptanceTimeInFuture u64
  | AmountOverflow
  | ArtifactMismatch
  | DuplicateClaim bytes32
  | EmptyBatch
  | ReceiptError service_receipt_error
  | SettlementSerialization string

text \<open>
  The identity that a claim identifier hashes, and \<open>serde_cbor::to_vec\<close> of it and of a claim.
\<close>

type_synonym claim_identity = "u64 \<times> address \<times> address \<times> public_key \<times> bytes32 \<times> public_key \<times> bytes32"

record settlement_env =
  se_receipt_env :: receipt_env
  cbor_claim_identity :: "claim_identity \<Rightarrow> (bytes, string) res"
  cbor_settlement_claim :: "receipt_settlement_claim \<Rightarrow> (bytes, string) res"

abbreviation se_keccak :: "settlement_env \<Rightarrow> bytes \<Rightarrow> bytes32" where
  "se_keccak env \<equiv> keccak256 (se_receipt_env env)"

subsection \<open>Identities and claims\<close>

definition receipt_session_contract_id :: "settlement_env \<Rightarrow> address \<Rightarrow> bytes32 \<Rightarrow> bytes32" where
  "receipt_session_contract_id env payer_wallet nonce =
     se_keccak env (replicate 12 0 @ be_bytes 20 payer_wallet @ be_bytes 32 nonce)"

definition receipt_settlement_claim_id ::
    "settlement_env \<Rightarrow> service_receipt_payload \<Rightarrow> (bytes32, receipt_settlement_error) res" where
  "receipt_settlement_claim_id env payload =
     (let authorization = ars_policy (srp_authorization payload);
          ack = srp_acknowledged_receipt payload;
          receipt = ssr_receipt (asr_signed_receipt ack);
          identity = (rsp_chain_id authorization, rsp_settlement_contract authorization,
            rsp_payer_wallet_address authorization, asr_payer_session_public_key ack,
            sr_route_epoch receipt, sr_provider_public_key receipt, sr_accounting_commitment receipt) in
      and_then (map_err SettlementSerialization (cbor_claim_identity env identity)) (\<lambda>serialized.
        Ok (se_keccak env (settlement_claim_id_domain @ serialized))))"

definition settlement_claim_new ::
    "service_receipt_payload \<Rightarrow> authorized_provider_settlement \<Rightarrow> receipt_settlement_claim" where
  "settlement_claim_new payload settlement =
     \<lparr>rsc_receipt_payload = payload, rsc_provider_settlement = settlement\<rparr>"

definition claim_leaf_hash ::
    "settlement_env \<Rightarrow> receipt_settlement_claim \<Rightarrow> (bytes32, receipt_settlement_error) res" where
  "claim_leaf_hash env claim =
     and_then (map_err SettlementSerialization (cbor_settlement_claim env claim)) (\<lambda>serialized.
       Ok (se_keccak env (settlement_leaf_domain @ serialized)))"

definition claim_verify_at ::
    "settlement_env \<Rightarrow> receipt_settlement_claim \<Rightarrow> u64 \<Rightarrow> address \<Rightarrow> u64 \<Rightarrow> u64 \<Rightarrow> crypt_de \<Rightarrow>
     (verified_receipt_settlement_claim, receipt_settlement_error) res" where
  "claim_verify_at env claim chain_id contract accepted_at now cryptde =
     (let ack = srp_acknowledged_receipt (rsc_receipt_payload claim);
          receipt = ssr_receipt (asr_signed_receipt ack) in
      and_then (map_err ReceiptError (verify_for_receipt (se_receipt_env env)
          (srp_authorization (rsc_receipt_payload claim)) ack cryptde chain_id contract accepted_at)) (\<lambda>_.
        and_then (map_err ReceiptError (settlement_verify (se_receipt_env env) (rsc_provider_settlement claim)
            chain_id contract (sr_provider_public_key receipt) now cryptde)) (\<lambda>payout_wallet.
          and_then (receipt_settlement_claim_id env (rsc_receipt_payload claim)) (\<lambda>claim_id.
            and_then (claim_leaf_hash env claim) (\<lambda>leaf_hash.
              Ok \<lparr>vrc_claim = claim, vrc_claim_id = claim_id, vrc_leaf_hash = leaf_hash,
                  vrc_payout_wallet_address = payout_wallet,
                  vrc_cumulative_charge_wei = sr_cumulative_charge_wei receipt\<rparr>)))))"

definition claim_verify ::
    "settlement_env \<Rightarrow> receipt_settlement_claim \<Rightarrow> u64 \<Rightarrow> address \<Rightarrow> u64 \<Rightarrow> crypt_de \<Rightarrow>
     (verified_receipt_settlement_claim, receipt_settlement_error) res" where
  "claim_verify env claim chain_id contract now cryptde =
     claim_verify_at env claim chain_id contract now now cryptde"

definition to_contract_claim ::
    "settlement_env \<Rightarrow> verified_receipt_settlement_claim \<Rightarrow> receipt_settlement_contract_claim" where
  "to_contract_claim env v =
     (let authorization = ars_policy (srp_authorization (rsc_receipt_payload (vrc_claim v))) in
      \<lparr>rcc_claim_id = vrc_claim_id v,
       rcc_session_id = receipt_session_contract_id env (rsp_payer_wallet_address authorization)
         (rsp_authorization_nonce authorization),
       rcc_payer_wallet_address = rsp_payer_wallet_address authorization,
       rcc_payout_wallet_address = vrc_payout_wallet_address v,
       rcc_cumulative_charge_wei = vrc_cumulative_charge_wei v\<rparr>)"

definition contract_leaf_hash ::
    "settlement_env \<Rightarrow> receipt_settlement_contract_claim \<Rightarrow> u64 \<Rightarrow> address \<Rightarrow> bytes32" where
  "contract_leaf_hash env c chain_id contract =
     se_keccak env (contract_settlement_leaf_domain @ (replicate 24 0 @ be_bytes 8 chain_id) @ be_bytes 20 contract @
       be_bytes 32 (rcc_claim_id c) @ be_bytes 32 (rcc_session_id c) @ be_bytes 20 (rcc_payer_wallet_address c) @
       be_bytes 20 (rcc_payout_wallet_address c) @ be_bytes 16 (rcc_cumulative_charge_wei c))"

subsection \<open>Merkle roots\<close>

text \<open>
  One round of \<open>chunks(2)\<close>: the last node of an odd level is paired with itself. The loop ends
  because a round shortens every level of two or more nodes; \<open>level[0]\<close> panics on no leaves.
\<close>

fun hash_level :: "(bytes32 \<Rightarrow> bytes32 \<Rightarrow> bytes32) \<Rightarrow> bytes32 list \<Rightarrow> bytes32 list" where
  "hash_level h [] = []"
| "hash_level h [a] = [h a a]"
| "hash_level h (a # b # level) = h a b # hash_level h level"

lemma length_hash_level [simp]: "length (hash_level h level) = (length level + 1) div 2"
  by (induction h level rule: hash_level.induct) simp_all

function merkle_loop :: "(bytes32 \<Rightarrow> bytes32 \<Rightarrow> bytes32) \<Rightarrow> bytes32 list \<Rightarrow> bytes32 list" where
  "merkle_loop h level = (if length level > 1 then merkle_loop h (hash_level h level) else level)"
  by pat_completeness auto
termination by (relation "measure (\<lambda>(h, level). length level)") auto

declare merkle_loop.simps [simp del]

definition merkle_root_with :: "(bytes32 \<Rightarrow> bytes32 \<Rightarrow> bytes32) \<Rightarrow> bytes32 list \<Rightarrow> (bytes32, 'e) res" where
  "merkle_root_with h leaves = (case merkle_loop h leaves of [] \<Rightarrow> Panic | root # _ \<Rightarrow> Ok root)"

definition settlement_node :: "settlement_env \<Rightarrow> bytes32 \<Rightarrow> bytes32 \<Rightarrow> bytes32" where
  "settlement_node env left right = se_keccak env (settlement_node_domain @ be_bytes 32 left @ be_bytes 32 right)"

definition merkle_root :: "settlement_env \<Rightarrow> bytes32 list \<Rightarrow> (bytes32, 'e) res" where
  "merkle_root env leaves = merkle_root_with (settlement_node env) leaves"

definition contract_settlement_node :: "settlement_env \<Rightarrow> bytes32 \<Rightarrow> bytes32 \<Rightarrow> bytes32" where
  "contract_settlement_node env left right =
     se_keccak env (contract_settlement_node_domain @ be_bytes 32 left @ be_bytes 32 right)"

definition contract_merkle_root :: "settlement_env \<Rightarrow> bytes32 list \<Rightarrow> (bytes32, 'e) res" where
  "contract_merkle_root env leaves = merkle_root_with (contract_settlement_node env) leaves"

subsection \<open>Batches\<close>

fun check_claim_ids ::
    "bytes32 list \<Rightarrow> (verified_receipt_settlement_claim \<times> u64) list \<Rightarrow> (unit, receipt_settlement_error) res" where
  "check_claim_ids seen [] = Ok ()"
| "check_claim_ids seen ((claim, _) # rest) =
     (if vrc_claim_id claim \<in> set seen then Err (DuplicateClaim (vrc_claim_id claim))
      else check_claim_ids (vrc_claim_id claim # seen) rest)"

text \<open>\<open>BTreeMap::entry(k).or_insert(0)\<close> followed by a checked addition to the entry.\<close>

fun btree_checked_add :: "address \<Rightarrow> u128 \<Rightarrow> (address \<times> u128) list \<Rightarrow> (address \<times> u128) list option" where
  "btree_checked_add k v [] = map_option (\<lambda>t. [(k, t)]) (checked_add 0 v)"
| "btree_checked_add k v ((k', t') # rest) =
     (if k < k' then map_option (\<lambda>t. (k, t) # (k', t') # rest) (checked_add 0 v)
      else if k = k' then map_option (\<lambda>t. (k, t) # rest) (checked_add t' v)
      else map_option (\<lambda>rest'. (k', t') # rest') (btree_checked_add k v rest))"

fun payout_totals ::
    "(verified_receipt_settlement_claim \<times> u64) list \<Rightarrow> u128 \<Rightarrow> (address \<times> u128) list \<Rightarrow>
     (u128 \<times> (address \<times> u128) list, receipt_settlement_error) res" where
  "payout_totals [] claimed totals = Ok (claimed, totals)"
| "payout_totals ((claim, _) # rest) claimed totals =
     and_then (ok_or AmountOverflow (checked_add claimed (vrc_cumulative_charge_wei claim))) (\<lambda>claimed'.
       and_then (ok_or AmountOverflow (btree_checked_add (vrc_payout_wallet_address claim)
           (vrc_cumulative_charge_wei claim) totals)) (\<lambda>totals'.
         payout_totals rest claimed' totals'))"

definition from_verified ::
    "settlement_env \<Rightarrow> (verified_receipt_settlement_claim \<times> u64) list \<Rightarrow> u64 \<Rightarrow> address \<Rightarrow>
     (receipt_settlement_batch, receipt_settlement_error) res" where
  "from_verified env unsorted chain_id contract =
     and_then (check_claim_ids [] unsorted) (\<lambda>_.
       let verified = sort_key (\<lambda>(claim, _). vrc_leaf_hash claim) unsorted in
       and_then (payout_totals verified 0 []) (\<lambda>(claimed, totals).
         let leaf_hashes = map (\<lambda>(claim, _). vrc_leaf_hash claim) verified in
         and_then (merkle_root env leaf_hashes) (\<lambda>root.
           let contract_claims = sort_key (\<lambda>c. contract_leaf_hash env c chain_id contract)
                 (map (\<lambda>(claim, _). to_contract_claim env claim) verified);
               contract_leaf_hashes = map (\<lambda>c. contract_leaf_hash env c chain_id contract) contract_claims in
           and_then (contract_merkle_root env contract_leaf_hashes) (\<lambda>contract_root.
             Ok \<lparr>rsb_chain_id = chain_id, rsb_settlement_contract = contract,
                 rsb_claims = map (\<lambda>(claim, _). vrc_claim claim) verified,
                 rsb_claim_accepted_at_unix_s = map snd verified,
                 rsb_leaf_hashes = leaf_hashes, rsb_merkle_root = root,
                 rsb_payouts = map (\<lambda>(k, t). \<lparr>pay_payout_wallet_address = k, pay_amount_wei = t\<rparr>) totals,
                 rsb_total_claimed_wei = claimed, rsb_contract_claims = contract_claims,
                 rsb_contract_leaf_hashes = contract_leaf_hashes,
                 rsb_contract_merkle_root = contract_root\<rparr>))))"

definition batch_build ::
    "settlement_env \<Rightarrow> receipt_settlement_claim list \<Rightarrow> u64 \<Rightarrow> address \<Rightarrow> u64 \<Rightarrow> crypt_de \<Rightarrow>
     (receipt_settlement_batch, receipt_settlement_error) res" where
  "batch_build env claims chain_id contract now cryptde =
     (if claims = [] then Err EmptyBatch
      else and_then (traverse (\<lambda>claim. and_then (claim_verify env claim chain_id contract now cryptde)
               (\<lambda>verified. Ok (verified, now))) claims) (\<lambda>verified.
        from_verified env verified chain_id contract))"

definition build_from_accepted ::
    "settlement_env \<Rightarrow> (receipt_settlement_claim \<times> u64) list \<Rightarrow> u64 \<Rightarrow> address \<Rightarrow> u64 \<Rightarrow> crypt_de \<Rightarrow>
     (receipt_settlement_batch, receipt_settlement_error) res" where
  "build_from_accepted env claims chain_id contract now cryptde =
     (if claims = [] then Err EmptyBatch
      else case List.find (\<lambda>(_, accepted_at). accepted_at > now) claims of
        Some (_, accepted_at) \<Rightarrow> Err (AcceptanceTimeInFuture accepted_at)
      | None \<Rightarrow>
          and_then (traverse (\<lambda>(claim, accepted_at).
              and_then (claim_verify_at env claim chain_id contract accepted_at now cryptde)
                (\<lambda>verified. Ok (verified, accepted_at))) claims) (\<lambda>verified.
            from_verified env verified chain_id contract))"

definition verify_exported ::
    "settlement_env \<Rightarrow> receipt_settlement_batch \<Rightarrow> u64 \<Rightarrow> crypt_de \<Rightarrow> (unit, receipt_settlement_error) res" where
  "verify_exported env b now cryptde =
     (if length (rsb_claims b) \<noteq> length (rsb_claim_accepted_at_unix_s b)
        then Err (AcceptanceTimeCountMismatch (length (rsb_claims b)) (length (rsb_claim_accepted_at_unix_s b)))
      else and_then (build_from_accepted env (zip (rsb_claims b) (rsb_claim_accepted_at_unix_s b))
          (rsb_chain_id b) (rsb_settlement_contract b) now cryptde) (\<lambda>reconstructed.
        if reconstructed \<noteq> b then Err ArtifactMismatch else Ok ()))"

section \<open>Properties of batches\<close>

subsection \<open>Payouts\<close>

definition payout_of :: "address \<Rightarrow> (address \<times> u128) list \<Rightarrow> nat" where
  "payout_of k ts = (case map_of ts k of None \<Rightarrow> 0 | Some t \<Rightarrow> unat t)"

definition payout_sum :: "(address \<times> u128) list \<Rightarrow> nat" where
  "payout_sum ts = (\<Sum>(k, t)\<leftarrow>ts. unat t)"

lemma payout_of_simps [simp]:
  "payout_of k [] = 0" "payout_of k ((k', t) # ts) = (if k = k' then unat t else payout_of k ts)"
  "payout_sum [] = 0" "payout_sum ((k', t) # ts) = unat t + payout_sum ts"
  by (simp_all add: payout_of_def payout_sum_def)

lemma payout_of_le_sum: "payout_of k ts \<le> payout_sum ts"
  by (induction ts) (auto simp: trans_le_add2)

lemma payout_of_below: "(\<And>x. x \<in> fst ` set ts \<Longrightarrow> k < x) \<Longrightarrow> payout_of k ts = 0"
  by (induction ts) fastforce+

lemma checked_add_0 [simp]: "checked_add 0 v = Some v" for v :: u128
  by (simp add: checked_add_eq_Some)

lemma btree_checked_add_ConsE:
  assumes "btree_checked_add k v ((k', t') # rest) = Some ts'"
  obtains (new_key) "k < k'" "ts' = (k, v) # (k', t') # rest"
  | (same_key) t where "k = k'" "unat t = unat t' + unat v" "ts' = (k, t) # rest"
  | (later_key) r where "k' < k" "btree_checked_add k v rest = Some r" "ts' = (k', t') # r"
proof (cases k k' rule: linorder_cases)
  case less
  then show thesis using assms new_key by simp
next
  case equal
  then show thesis using assms same_key by (auto simp: checked_add_eq_Some)
next
  case greater
  then have "\<not> k < k'" "k \<noteq> k'" by auto
  then show thesis using assms greater later_key by auto
qed

lemma btree_checked_add_keys:
  "btree_checked_add k v ts = Some ts' \<Longrightarrow> fst ` set ts' = insert k (fst ` set ts)"
proof (induction ts arbitrary: ts')
  case (Cons p ts)
  obtain k' t' where p: "p = (k', t')" by force
  from Cons.prems show ?case
    unfolding p by (cases rule: btree_checked_add_ConsE) (use Cons.IH in auto)
qed auto

lemma btree_checked_add_sorted:
  "btree_checked_add k v ts = Some ts' \<Longrightarrow> sorted_wrt (<) (map fst ts) \<Longrightarrow> sorted_wrt (<) (map fst ts')"
proof (induction ts arbitrary: ts')
  case (Cons p ts)
  obtain k' t' where p: "p = (k', t')" by force
  from Cons.prems(1) [unfolded p] show ?case
  proof (cases rule: btree_checked_add_ConsE)
    case (later_key r)
    then show ?thesis
      using Cons.IH [of r] Cons.prems(2) btree_checked_add_keys [of k v ts r] p by auto
  qed (use Cons.prems(2) p in auto)
qed auto

lemma btree_checked_add_Some:
  "btree_checked_add k v ts = Some ts' \<Longrightarrow> sorted_wrt (<) (map fst ts) \<Longrightarrow>
     payout_of x ts' = payout_of x ts + (if x = k then unat v else 0) \<and> payout_sum ts' = payout_sum ts + unat v"
proof (induction ts arbitrary: ts')
  case (Cons p ts)
  obtain k' t' where p: "p = (k', t')" by force
  from Cons.prems(1) [unfolded p] show ?case
  proof (cases rule: btree_checked_add_ConsE)
    case new_key
    then have "payout_of k ((k', t') # ts) = 0"
      using Cons.prems(2) p by (intro payout_of_below) auto
    then show ?thesis using new_key by (auto simp: p)
  next
    case (later_key r)
    then show ?thesis using Cons.IH [of r] Cons.prems(2) p by auto
  qed (auto simp: p)
qed auto

lemma btree_checked_add_None:
  "btree_checked_add k v ts = None \<Longrightarrow> sorted_wrt (<) (map fst ts) \<Longrightarrow> 2 ^ 128 \<le> payout_of k ts + unat v"
  by (induction k v ts rule: btree_checked_add.induct) (auto simp: checked_simps split: if_splits)

abbreviation charged :: "(verified_receipt_settlement_claim \<times> u64) list \<Rightarrow> nat" where
  "charged vs \<equiv> (\<Sum>(v, t)\<leftarrow>vs. unat (vrc_cumulative_charge_wei v))"

abbreviation charged_to :: "address \<Rightarrow> (verified_receipt_settlement_claim \<times> u64) list \<Rightarrow> nat" where
  "charged_to w vs \<equiv> charged (filter (\<lambda>(v, t). vrc_payout_wallet_address v = w) vs)"

text \<open>The whole loop: it overflows exactly when the total does, and adds every claim once.\<close>

lemma payout_totals_Ok:
  "payout_totals vs n ts = Ok (n', ts') \<Longrightarrow> sorted_wrt (<) (map fst ts) \<Longrightarrow>
     unat n' = unat n + charged vs \<and> payout_sum ts' = payout_sum ts + charged vs \<and>
     payout_of w ts' = payout_of w ts + charged_to w vs \<and> sorted_wrt (<) (map fst ts')"
proof (induction vs arbitrary: n ts)
  case (Cons vt vs)
  obtain v t where vt: "vt = (v, t)" by force
  obtain n1 ts1 where s: "unat n1 = unat n + unat (vrc_cumulative_charge_wei v)"
      "btree_checked_add (vrc_payout_wallet_address v) (vrc_cumulative_charge_wei v) ts = Some ts1"
      "payout_totals vs n1 ts1 = Ok (n', ts')"
    using Cons.prems(1) by (auto simp: vt res_simps checked_simps)
  show ?case
    using Cons.IH [OF s(3) btree_checked_add_sorted [OF s(2) Cons.prems(2)]]
      btree_checked_add_Some [OF s(2) Cons.prems(2), of w] s(1)
    by (auto simp: vt)
qed simp

lemma payout_totals_Err:
  assumes "payout_sum ts = unat n" and "sorted_wrt (<) (map fst ts)"
  shows "(\<forall>e. payout_totals vs n ts = Err e \<longleftrightarrow> e = AmountOverflow \<and> 2 ^ 128 \<le> unat n + charged vs) \<and>
    payout_totals vs n ts \<noteq> Panic"
  using assms
proof (induction vs arbitrary: n ts)
  case Nil
  then show ?case using unat_less_2p [of n] by simp
next
  case (Cons vt vs)
  obtain v t where vt: "vt = (v, t)" by force
  let ?a = "vrc_cumulative_charge_wei v" and ?k = "vrc_payout_wallet_address v"
  show ?case
  proof (cases "checked_add n ?a")
    case None
    then have "2 ^ 128 \<le> unat n + unat ?a" by (simp add: checked_simps)
    with None show ?thesis by (auto simp: vt)
  next
    case (Some n1)
    then have n1: "unat n1 = unat n + unat ?a" by (simp add: checked_simps)
    then have "payout_of ?k ts + unat ?a < 2 ^ 128"
      using payout_of_le_sum [of ?k ts] Cons.prems(1) unat_less_2p [of n1] by simp
    then obtain ts1 where ts1: "btree_checked_add ?k ?a ts = Some ts1"
      using btree_checked_add_None [of ?k ?a ts] Cons.prems(2) by (cases "btree_checked_add ?k ?a ts") auto
    have "payout_sum ts1 = unat n1"
      using btree_checked_add_Some [OF ts1 Cons.prems(2)] Cons.prems(1) n1 by simp
    from Cons.IH [OF this btree_checked_add_sorted [OF ts1 Cons.prems(2)]] show ?thesis
      using Some ts1 n1 by (simp add: vt add.assoc)
  qed
qed

subsection \<open>Duplicates, sorting and verification\<close>

lemma check_claim_ids_Ok:
  "check_claim_ids seen vs = Ok () \<longleftrightarrow>
     distinct (map (\<lambda>(v, t). vrc_claim_id v) vs) \<and> set seen \<inter> (\<lambda>(v, t). vrc_claim_id v) ` set vs = {}"
  by (induction seen vs rule: check_claim_ids.induct) auto

lemma check_claim_ids_not_Panic [simp]: "check_claim_ids seen vs \<noteq> Panic"
  by (induction seen vs rule: check_claim_ids.induct) auto

lemma sort_key_sorted: "sorted (map f xs) \<Longrightarrow> sort_key f xs = xs"
  by (rule properties_for_sort_key) auto

lemma sort_key_Nil_iff [simp]: "sort_key f xs = [] \<longleftrightarrow> xs = []"
  by (metis length_0_conv length_sort)

lemma distinct_map_sort_key [simp]: "distinct (map g (sort_key f xs)) = distinct (map g xs)"
  by (rule mset_eq_imp_distinct_iff) simp

lemma merkle_loop_length: "leaves \<noteq> [] \<Longrightarrow> \<exists>root. merkle_loop h leaves = [root]"
proof (induction h leaves rule: merkle_loop.induct)
  case (1 h level)
  show ?case
  proof (cases "length level > 1")
    case True
    then have "hash_level h level \<noteq> []"
      by (cases "hash_level h level") (use length_hash_level [of h level] in auto)
    then show ?thesis
      using 1 True by (subst merkle_loop.simps) simp
  next
    case False
    then show ?thesis
      using 1(2) by (cases level) (auto simp: merkle_loop.simps)
  qed
qed

lemma merkle_root_with_Ok: "leaves \<noteq> [] \<Longrightarrow> merkle_root_with h leaves = Ok (hd (merkle_loop h leaves))"
  using merkle_loop_length [of leaves h] by (auto simp: merkle_root_with_def)

abbreviation leaf_key :: "verified_receipt_settlement_claim \<times> u64 \<Rightarrow> bytes32" where
  "leaf_key \<equiv> \<lambda>(v, t). vrc_leaf_hash v"

abbreviation id_key :: "verified_receipt_settlement_claim \<times> u64 \<Rightarrow> bytes32" where
  "id_key \<equiv> \<lambda>(v, t). vrc_claim_id v"

abbreviation accepted_claim :: "verified_receipt_settlement_claim \<times> u64 \<Rightarrow> receipt_settlement_claim \<times> u64" where
  "accepted_claim \<equiv> \<lambda>(v, t). (vrc_claim v, t)"

definition all_verified ::
    "settlement_env \<Rightarrow> u64 \<Rightarrow> address \<Rightarrow> u64 \<Rightarrow> crypt_de \<Rightarrow> (verified_receipt_settlement_claim \<times> u64) list \<Rightarrow> bool" where
  "all_verified env chain k now cd vs \<longleftrightarrow>
     (\<forall>(v, t) \<in> set vs. t \<le> now \<and> claim_verify_at env (vrc_claim v) chain k t now cd = Ok v)"

lemma claim_verify_at_Ok:
  assumes "claim_verify_at env c chain k t now cd = Ok v"
  shows "vrc_claim v = c"
    and "vrc_payout_wallet_address v = psp_payout_wallet_address (aps_policy (rsc_provider_settlement c))"
    and "vrc_cumulative_charge_wei v =
      sr_cumulative_charge_wei (ack_receipt (srp_acknowledged_receipt (rsc_receipt_payload c)))"
    and "receipt_settlement_claim_id env (rsc_receipt_payload c) = Ok (vrc_claim_id v)"
    and "claim_leaf_hash env c = Ok (vrc_leaf_hash v)"
  using assms by (auto simp: claim_verify_at_def Let_def res_simps settlement_verify_eq_Ok)

lemma verify_all_eq_Ok:
  "traverse (\<lambda>(c, t). and_then (claim_verify_at env c chain k t now cd) (\<lambda>v. Ok (v, t))) cs = Ok vs \<longleftrightarrow>
     cs = map accepted_claim vs \<and> (\<forall>(v, t) \<in> set vs. claim_verify_at env (vrc_claim v) chain k t now cd = Ok v)"
proof -
  have "(\<lambda>(c, t). and_then (claim_verify_at env c chain k t now cd) (\<lambda>v. Ok (v, t))) x = Ok y \<longleftrightarrow>
      x = accepted_claim y \<and> claim_verify_at env (vrc_claim (fst y)) chain k (snd y) now cd = Ok (fst y)" for x y
    using claim_verify_at_Ok(1) [of env "fst x" chain k "snd x" now cd "fst y"]
    by (cases x; cases y) (auto simp: res_simps)
  then show ?thesis
    unfolding traverse_eq_Ok by (induction vs arbitrary: cs) (auto simp: list_all2_Cons2)
qed

lemma build_from_accepted_eq_Ok:
  "build_from_accepted env cs chain k now cd = Ok b \<longleftrightarrow>
     (\<exists>vs. vs \<noteq> [] \<and> cs = map accepted_claim vs \<and> all_verified env chain k now cd vs \<and>
       from_verified env vs chain k = Ok b)"
proof (cases "List.find (\<lambda>(_, t). now < t) cs")
  case None
  then have "\<forall>(c, t) \<in> set cs. t \<le> now"
    by (fastforce simp: find_None_iff)
  then have "all_verified env chain k now cd vs \<longleftrightarrow>
      (\<forall>(v, t) \<in> set vs. claim_verify_at env (vrc_claim v) chain k t now cd = Ok v)"
    if "cs = map accepted_claim vs" for vs
    using that by (force simp: all_verified_def)
  then show ?thesis
    using None by (simp add: build_from_accepted_def res_simps verify_all_eq_Ok) blast
next
  case (Some ct)
  then have "ct \<in> set cs" "now < snd ct"
    by (auto simp: find_Some_iff in_set_conv_nth)
  then have "\<not> all_verified env chain k now cd vs" if "cs = map accepted_claim vs" for vs
    using that by (force simp: all_verified_def)
  then show ?thesis
    using Some by (auto simp: build_from_accepted_def split: prod.splits)
qed

lemma from_verified_cong:
  assumes "distinct (map id_key vs)" and "mset vs' = mset vs" and "sort_key leaf_key vs' = sort_key leaf_key vs"
  shows "from_verified env vs' chain k = from_verified env vs chain k"
proof -
  have "distinct (map id_key vs')"
    using assms(1,2) by (metis mset_eq_imp_distinct_iff mset_map)
  then have "check_claim_ids [] vs' = Ok ()" "check_claim_ids [] vs = Ok ()"
    using assms(1) by (simp_all add: check_claim_ids_Ok)
  then show ?thesis
    by (simp add: from_verified_def assms(3))
qed

lemma from_verified_Ok:
  assumes "from_verified env vs chain k = Ok b"
  shows "distinct (map id_key vs)" and "rsb_chain_id b = chain" and "rsb_settlement_contract b = k"
    and "rsb_claims b = map (\<lambda>(v, t). vrc_claim v) (sort_key leaf_key vs)"
    and "rsb_claim_accepted_at_unix_s b = map snd (sort_key leaf_key vs)"
    and "rsb_leaf_hashes b = map leaf_key (sort_key leaf_key vs)"
    and "merkle_root env (rsb_leaf_hashes b) = (Ok (rsb_merkle_root b) :: (bytes32, receipt_settlement_error) res)"
    and "\<exists>ts. payout_totals (sort_key leaf_key vs) 0 [] = Ok (rsb_total_claimed_wei b, ts) \<and>
      rsb_payouts b = map (\<lambda>(w, t). \<lparr>pay_payout_wallet_address = w, pay_amount_wei = t\<rparr>) ts"
  using assms by (auto simp: from_verified_def res_simps check_claim_ids_Ok Let_def)

subsection \<open>What a batch guarantees\<close>

abbreviation claim_charge :: "receipt_settlement_claim \<Rightarrow> nat" where
  "claim_charge c \<equiv> unat (sr_cumulative_charge_wei (ack_receipt (srp_acknowledged_receipt (rsc_receipt_payload c))))"

abbreviation claim_wallet :: "receipt_settlement_claim \<Rightarrow> address" where
  "claim_wallet c \<equiv> psp_payout_wallet_address (aps_policy (rsc_provider_settlement c))"

lemma all_verified_perm:
  assumes "mset vs' = mset vs"
  shows "all_verified env chain k now cd vs' = all_verified env chain k now cd vs"
  unfolding all_verified_def mset_eq_setD [OF assms] ..

lemma all_verified_member:
  assumes "all_verified env chain k now cd vs" and "(v, t) \<in> set vs"
  shows "t \<le> now" and "claim_verify_at env (vrc_claim v) chain k t now cd = Ok v"
  using assms by (auto simp: all_verified_def)

lemma all_verified_charges:
  assumes "all_verified env chain k now cd vs"
  shows "charged vs = (\<Sum>c\<leftarrow>map (\<lambda>(v, t). vrc_claim v) vs. claim_charge c)"
    and "charged_to w vs = (\<Sum>c\<leftarrow>filter (\<lambda>c. claim_wallet c = w) (map (\<lambda>(v, t). vrc_claim v) vs). claim_charge c)"
proof -
  have "vrc_cumulative_charge_wei (fst x) = sr_cumulative_charge_wei
        (ack_receipt (srp_acknowledged_receipt (rsc_receipt_payload (vrc_claim (fst x)))))"
      "vrc_payout_wallet_address (fst x) = claim_wallet (vrc_claim (fst x))" if "x \<in> set vs" for x
    using all_verified_member(2) [OF assms, of "fst x" "snd x"] that claim_verify_at_Ok(2,3) by auto
  then show "charged vs = (\<Sum>c\<leftarrow>map (\<lambda>(v, t). vrc_claim v) vs. claim_charge c)"
    and "charged_to w vs = (\<Sum>c\<leftarrow>filter (\<lambda>c. claim_wallet c = w) (map (\<lambda>(v, t). vrc_claim v) vs). claim_charge c)"
    by (induction vs) (auto simp: case_prod_unfold)
qed

lemma build_exports:
  assumes "build_from_accepted env cs chain k now cd = Ok b"
  shows "verify_exported env b now cd = Ok ()"
proof -
  obtain vs where vs: "vs \<noteq> []" "cs = map accepted_claim vs" "all_verified env chain k now cd vs"
      "from_verified env vs chain k = Ok b"
    using assms by (auto simp: build_from_accepted_eq_Ok)
  let ?s = "sort_key leaf_key vs"
  note b = from_verified_Ok [OF vs(4)]
  have "from_verified env ?s chain k = Ok b"
    using from_verified_cong [OF b(1), of ?s] vs(4) by (simp add: sort_key_sorted)
  moreover have "zip (rsb_claims b) (rsb_claim_accepted_at_unix_s b) = map accepted_claim ?s"
    by (simp add: b zip_map_map map_zip_map2) (simp add: zip_same_conv_map case_prod_unfold)
  moreover have "?s \<noteq> []" "all_verified env chain k now cd ?s"
    using vs(1,3) all_verified_perm [of ?s vs] by simp_all
  ultimately have "build_from_accepted env (zip (rsb_claims b) (rsb_claim_accepted_at_unix_s b)) chain k now cd = Ok b"
    unfolding build_from_accepted_eq_Ok by blast
  then show ?thesis
    by (simp add: verify_exported_def b)
qed

lemma from_verified_succeeds:
  assumes "vs \<noteq> []" and "distinct (map id_key vs)" and "charged vs < 2 ^ 128"
  shows "\<exists>b. from_verified env vs chain k = Ok b"
proof -
  let ?s = "sort_key leaf_key vs"
  have "charged ?s = charged vs"
    by (metis (no_types) mset_map mset_sort sum_mset_sum_list)
  then have "payout_totals ?s 0 [] \<noteq> Err e" "payout_totals ?s 0 [] \<noteq> Panic" for e
    using payout_totals_Err [of "[]" 0 ?s] assms(3) by auto
  then obtain n ts where "payout_totals ?s 0 [] = Ok (n, ts)"
    by (cases "payout_totals ?s 0 []") auto
  moreover have "check_claim_ids [] vs = Ok ()"
    using assms(2) by (simp add: check_claim_ids_Ok)
  ultimately show ?thesis
    using assms(1) by (simp add: from_verified_def Let_def merkle_root_def contract_merkle_root_def merkle_root_with_Ok)
qed

lemma payout_of_filter:
  "sorted_wrt (<) (map fst ts) \<Longrightarrow> (\<Sum>(k, t)\<leftarrow>filter (\<lambda>(k, t). k = w) ts. unat t) = payout_of w ts"
proof (induction ts)
  case (Cons p ts)
  obtain k t where p: "p = (k, t)" by force
  have "filter (\<lambda>(k', t). k' = k) ts = []"
    using Cons.prems by (auto simp: p filter_empty_conv)
  then show ?case
    using Cons by (auto simp: p)
qed simp

text \<open>
  C16. What an exported batch that verifies guarantees, whoever made it: it has claims, each
  accepted at a recorded time that is not in the future, when its receipt and payer authorization
  verified, and its provider's authorization verifies now; no two claims share an identity; the
  total is the sum of the claims' cumulative charges, without overflow; and the payouts go to
  pairwise different wallets in order, each wallet receiving exactly what its claims add up to.
\<close>

theorem exported_batch_sound:
  assumes "verify_exported env b now cd = Ok ()"
  shows "rsb_claims b \<noteq> [] \<and> length (rsb_claim_accepted_at_unix_s b) = length (rsb_claims b) \<and>
    (\<forall>(c, t) \<in> set (zip (rsb_claims b) (rsb_claim_accepted_at_unix_s b)). t \<le> now \<and>
       (\<exists>v. claim_verify_at env c (rsb_chain_id b) (rsb_settlement_contract b) t now cd = Ok v)) \<and>
    distinct (map (\<lambda>c. receipt_settlement_claim_id env (rsc_receipt_payload c)) (rsb_claims b)) \<and>
    unat (rsb_total_claimed_wei b) = (\<Sum>c\<leftarrow>rsb_claims b. claim_charge c) \<and>
    sorted_wrt (<) (map pay_payout_wallet_address (rsb_payouts b)) \<and>
    (\<Sum>p\<leftarrow>rsb_payouts b. unat (pay_amount_wei p)) = unat (rsb_total_claimed_wei b) \<and>
    (\<forall>w. (\<Sum>p\<leftarrow>filter (\<lambda>p. pay_payout_wallet_address p = w) (rsb_payouts b). unat (pay_amount_wei p)) =
       (\<Sum>c\<leftarrow>filter (\<lambda>c. claim_wallet c = w) (rsb_claims b). claim_charge c))"
proof -
  let ?chain = "rsb_chain_id b" and ?k = "rsb_settlement_contract b"
  obtain vs where len: "length (rsb_claims b) = length (rsb_claim_accepted_at_unix_s b)"
    and vs: "vs \<noteq> []" "zip (rsb_claims b) (rsb_claim_accepted_at_unix_s b) = map accepted_claim vs"
      "all_verified env ?chain ?k now cd vs" "from_verified env vs ?chain ?k = Ok b"
    using assms by (auto simp: verify_exported_def res_simps build_from_accepted_eq_Ok split: if_splits)
  note b = from_verified_Ok [OF vs(4)]
  let ?s = "sort_key leaf_key vs"
  have s: "all_verified env ?chain ?k now cd ?s" "distinct (map id_key ?s)" "?s \<noteq> []"
    using all_verified_perm [of ?s vs] vs(1,3) b(1) by simp_all
  obtain ts where ts: "payout_totals ?s 0 [] = Ok (rsb_total_claimed_wei b, ts)"
      "rsb_payouts b = map (\<lambda>(w, t). \<lparr>pay_payout_wallet_address = w, pay_amount_wei = t\<rparr>) ts"
    using b(8) by blast
  note tot = payout_totals_Ok [OF ts(1)]
  have ids: "map (\<lambda>c. receipt_settlement_claim_id env (rsc_receipt_payload c)) (rsb_claims b) = map Ok (map id_key ?s)"
    using all_verified_member(2) [OF s(1)] claim_verify_at_Ok(4)
    by (fastforce simp: b(4) case_prod_unfold)
  have "\<forall>(c, t) \<in> set (zip (rsb_claims b) (rsb_claim_accepted_at_unix_s b)). t \<le> now \<and>
      (\<exists>v. claim_verify_at env c ?chain ?k t now cd = Ok v)"
    using all_verified_member [OF vs(3)] unfolding vs(2) by auto
  moreover have "rsb_claims b \<noteq> []"
    using s(3) by (simp add: b(4))
  moreover have "distinct (map (\<lambda>c. receipt_settlement_claim_id env (rsc_receipt_payload c)) (rsb_claims b))"
    unfolding ids using s(2) by (simp add: distinct_map inj_on_def)
  moreover have "map pay_payout_wallet_address (rsb_payouts b) = map fst ts"
    by (simp add: ts(2) case_prod_unfold)
  moreover have "(\<Sum>p\<leftarrow>rsb_payouts b. unat (pay_amount_wei p)) = payout_sum ts"
    by (simp add: ts(2) case_prod_unfold payout_sum_def comp_def)
  moreover have "(\<Sum>p\<leftarrow>filter (\<lambda>p. pay_payout_wallet_address p = w) (rsb_payouts b). unat (pay_amount_wei p)) = payout_of w ts" for w
    using payout_of_filter [of ts w] tot by (simp add: ts(2) filter_map case_prod_unfold comp_def)
  ultimately show ?thesis
    using len tot all_verified_charges [OF s(1), folded b(4)] by simp
qed

text \<open>
  C40. A batch that the node builds from accepted claims verifies as exported, at the same time
  and with the same keys: sorting the claims again, recomputing every hash, root and total from
  the exported claims and times gives back the batch.
\<close>

theorem built_batch_exports:
  assumes "build_from_accepted env cs chain k now cd = Ok b"
  shows "verify_exported env b now cd = Ok ()"
  by (rule build_exports) fact

text \<open>
  C29. A batch is a function of the set of claims: built from the same accepted claims in any
  other order it is the same batch, roots and payouts included, when the claims' leaf hashes are
  pairwise different.
\<close>

theorem batch_independent_of_order:
  assumes "build_from_accepted env cs chain k now cd = Ok b" and perm: "mset cs' = mset cs"
    and inj: "inj_on (claim_leaf_hash env) (fst ` set cs)"
  shows "build_from_accepted env cs' chain k now cd = Ok b"
proof -
  obtain vs where vs: "vs \<noteq> []" "cs = map accepted_claim vs" "all_verified env chain k now cd vs"
      "from_verified env vs chain k = Ok b"
    using assms(1) by (auto simp: build_from_accepted_eq_Ok)
  note dist = from_verified_Ok(1) [OF vs(4)] and ver = all_verified_member(2) [OF vs(3)]
  define f where "f = (\<lambda>(c, t). case claim_verify_at env c chain k t now cd of Ok v \<Rightarrow> (v, t :: u64))"
  have f: "f (accepted_claim x) = x" if "x \<in> set vs" for x
    using ver [of "fst x" "snd x"] that by (simp add: f_def case_prod_unfold)
  let ?vs' = "map f cs'"
  have "map f cs = vs"
    using f by (simp add: vs(2) map_idI)
  then have m: "mset ?vs' = mset vs"
    by (metis mset_map perm)
  have "cs' = map accepted_claim ?vs'"
    using f mset_eq_setD [OF perm] by (auto simp: vs(2) intro!: map_idI [symmetric])
  moreover have "inj_on leaf_key (set vs)"
  proof (rule inj_onI)
    fix x y assume xy: "x \<in> set vs" "y \<in> set vs" "leaf_key x = leaf_key y"
    then have "claim_leaf_hash env (vrc_claim (fst x)) = claim_leaf_hash env (vrc_claim (fst y))"
      using claim_verify_at_Ok(5) [OF ver [of "fst x" "snd x"]] claim_verify_at_Ok(5) [OF ver [of "fst y" "snd y"]]
      by (simp add: case_prod_unfold)
    moreover have "vrc_claim (fst z) \<in> fst ` set cs" if "z \<in> set vs" for z
      using that by (auto simp: vs(2) image_image case_prod_unfold)
    ultimately have c: "vrc_claim (fst x) = vrc_claim (fst y)"
      using xy by (intro inj_onD [OF inj]) simp_all
    then have "id_key x = id_key y"
      using claim_verify_at_Ok(4) [OF ver [of "fst x" "snd x"]] claim_verify_at_Ok(4) [OF ver [of "fst y" "snd y"]] xy
      by (simp add: case_prod_unfold)
    then show "x = y"
      using dist xy by (auto simp: distinct_map dest: inj_onD)
  qed
  then have "sort_key leaf_key ?vs' = sort_key leaf_key vs"
    using m mset_eq_setD [OF m] by (intro sort_key_inj_key_eq) simp_all
  then have "from_verified env ?vs' chain k = Ok b"
    using from_verified_cong [OF dist m] vs(4) by simp
  moreover have "?vs' \<noteq> []" "all_verified env chain k now cd ?vs'"
    using vs(1,3) m all_verified_perm [OF m] by auto
  ultimately show ?thesis
    unfolding build_from_accepted_eq_Ok by blast
qed

subsection \<open>Examples\<close>

text \<open>
  Claims of the provider \<open>[7]\<close> on two routes, accepted at time 150 and settled at time 1000, in
  an environment whose hash is the last byte and whose encodings end in the route epoch.
\<close>

definition last_byte :: "bytes \<Rightarrow> bytes32" where
  "last_byte b = ucast (last b)"

definition demo_settlement_env :: settlement_env where
  "demo_settlement_env = \<lparr>se_receipt_env = demo_env_with last_byte,
     cbor_claim_identity = (\<lambda>(_, _, _, _, epoch, _, _). Ok [ucast epoch]),
     cbor_settlement_claim = (\<lambda>c. Ok [ucast (sr_route_epoch (ack_receipt (srp_acknowledged_receipt (rsc_receipt_payload c))))])\<rparr>"

definition demo_claim :: "bytes32 \<Rightarrow> address \<Rightarrow> receipt_settlement_claim" where
  "demo_claim e w = settlement_claim_new
     \<lparr>srp_authorization = \<lparr>ars_policy = demo_policy [8], ars_wallet_signature = \<lparr>sig_v = 0, sig_r = 0xAB, sig_s = 1\<rparr>\<rparr>,
      srp_acknowledged_receipt = demo_ack (demo_receipt last_byte e 4 310) [8]\<rparr> (demo_settlement w)"

definition demo_verified :: "bytes32 \<Rightarrow> address \<Rightarrow> verified_receipt_settlement_claim" where
  "demo_verified e w = \<lparr>vrc_claim = demo_claim e w, vrc_claim_id = ucast (ucast e :: u8), vrc_leaf_hash = ucast (ucast e :: u8),
     vrc_payout_wallet_address = w, vrc_cumulative_charge_wei = 310\<rparr>"

lemma demo_verified_simps [simp]:
  "vrc_claim (demo_verified e w) = demo_claim e w" "vrc_claim_id (demo_verified e w) = ucast (ucast e :: u8)"
  "vrc_cumulative_charge_wei (demo_verified e w) = 310"
  by (simp_all add: demo_verified_def)

lemma demo_receipt_verifies:
  assumes "e \<noteq> 0"
  shows "\<exists>n. verify_for_receipt (demo_env_with last_byte)
      \<lparr>ars_policy = demo_policy [8], ars_wallet_signature = \<lparr>sig_v = 0, sig_r = 0xAB, sig_s = 1\<rparr>\<rparr>
      (demo_ack (demo_receipt last_byte e 4 310) [8]) (demo_crypt_de k) 8453 0xC0 150 = Ok n"
proof -
  let ?env = "demo_env_with last_byte" and ?cd = "demo_crypt_de k"
  let ?ack = "demo_ack (demo_receipt last_byte e 4 310) [8]"
  let ?auth = "\<lparr>ars_policy = demo_policy [8], ars_wallet_signature = \<lparr>sig_v = 0, sig_r = 0xAB, sig_s = 1\<rparr>\<rparr>"
  have "make_accounting_commitment ?env e [8] \<noteq> 0"
    by (simp add: make_accounting_commitment_def last_byte_def)
  then have "\<exists>n. acknowledged_verify ?env ?ack ?cd = Ok n"
    using assms by simp
  then obtain n where "acknowledged_verify ?env ?ack ?cd = Ok n" ..
  moreover have "session_verify ?env ?auth 8453 0xC0 [8] 150 310 = Ok ()"
    by (simp add: session_verify_eq_Ok demo_policy_ok) (simp add: demo_policy_def session_policy_new_def)
  ultimately show ?thesis
    by (simp add: verify_for_receipt_def)
qed

lemma demo_claim_verifies:
  assumes "w \<noteq> 0" "(ucast w :: bytes32) \<noteq> 0" "ucast (ucast (ucast w :: bytes32) :: u8) = w" and "e \<noteq> 0"
  shows "claim_verify_at demo_settlement_env (demo_claim e w) 8453 0xC0 150 1000 (demo_crypt_de k) = Ok (demo_verified e w)"
proof -
  let ?env = "demo_env_with last_byte" and ?cd = "demo_crypt_de k"
  let ?ack = "demo_ack (demo_receipt last_byte e 4 310) [8]"
  let ?auth = "\<lparr>ars_policy = demo_policy [8], ars_wallet_signature = \<lparr>sig_v = 0, sig_r = 0xAB, sig_s = 1\<rparr>\<rparr>"
  obtain n where "verify_for_receipt ?env ?auth ?ack ?cd 8453 0xC0 150 = Ok n"
    using demo_receipt_verifies [OF assms(4)] by blast
  moreover have "settlement_verify ?env (demo_settlement w) 8453 0xC0 [7] 1000 ?cd = Ok w"
  proof -
    obtain sg where "authorize_with_wallet_signature ?env (demo_settlement_policy w) sg (demo_crypt_de [7]) = Ok (demo_settlement w)"
      using demo_settlement_authorized [OF assms(1-3), of last_byte]
      by (auto simp: settlement_authorize_def res_simps split: if_splits)
    then show ?thesis
      using null.settlement_verify_authorized [of "\<lambda>b. [9]" "\<lambda>b. []" "demo_crypt_de [7]" ?cd ?env "demo_settlement_policy w" sg
          "demo_settlement w" 1000]
      by simp
  qed
  ultimately show ?thesis
    by (simp add: claim_verify_at_def demo_claim_def settlement_claim_new_def demo_settlement_env_def Let_def
        receipt_settlement_claim_id_def claim_leaf_hash_def last_byte_def demo_verified_def)
qed

abbreviation demo_claims :: "(receipt_settlement_claim \<times> u64) list" where
  "demo_claims \<equiv> [(demo_claim 1 5, 150), (demo_claim 2 6, 150)]"

lemma demo_claims_build:
  "\<exists>b. build_from_accepted demo_settlement_env demo_claims 8453 0xC0 1000 (demo_crypt_de [5]) = Ok b"
proof -
  let ?vs = "[(demo_verified 1 5, 150), (demo_verified 2 6, 150)]"
  have "demo_claims = map accepted_claim ?vs"
    by simp
  moreover have "claim_verify_at demo_settlement_env (demo_claim 1 5) 8453 0xC0 150 1000 (demo_crypt_de [5]) = Ok (demo_verified 1 5)"
      "claim_verify_at demo_settlement_env (demo_claim 2 6) 8453 0xC0 150 1000 (demo_crypt_de [5]) = Ok (demo_verified 2 6)"
    by (rule demo_claim_verifies; simp)+
  then have "all_verified demo_settlement_env 8453 0xC0 1000 (demo_crypt_de [5]) ?vs"
    unfolding all_verified_def by simp
  moreover have "\<exists>b. from_verified demo_settlement_env ?vs 8453 0xC0 = Ok b"
    by (rule from_verified_succeeds) simp_all
  ultimately show ?thesis
    unfolding build_from_accepted_eq_Ok by (metis list.distinct(1))
qed

theorem exported_batch_sound_witness:
  "\<exists>b. verify_exported demo_settlement_env b 1000 (demo_crypt_de [5]) = Ok () \<and>
     (\<Sum>p\<leftarrow>rsb_payouts b. unat (pay_amount_wei p)) = (\<Sum>c\<leftarrow>rsb_claims b. claim_charge c)"
proof -
  obtain b where "build_from_accepted demo_settlement_env demo_claims 8453 0xC0 1000 (demo_crypt_de [5]) = Ok b"
    using demo_claims_build ..
  then have "verify_exported demo_settlement_env b 1000 (demo_crypt_de [5]) = Ok ()"
    by (rule build_exports)
  then show ?thesis
    using exported_batch_sound [of demo_settlement_env b 1000 "demo_crypt_de [5]"] by (intro exI [of _ b]) simp
qed

theorem built_batch_exports_witness:
  "\<exists>b. build_from_accepted demo_settlement_env demo_claims 8453 0xC0 1000 (demo_crypt_de [5]) = Ok b \<and>
     verify_exported demo_settlement_env b 1000 (demo_crypt_de [5]) = Ok ()"
proof -
  obtain b where b: "build_from_accepted demo_settlement_env demo_claims 8453 0xC0 1000 (demo_crypt_de [5]) = Ok b"
    using demo_claims_build ..
  with built_batch_exports [OF b] show ?thesis by (intro exI [of _ b] conjI)
qed

theorem batch_independent_of_order_witness:
  "\<exists>b. build_from_accepted demo_settlement_env demo_claims 8453 0xC0 1000 (demo_crypt_de [5]) = Ok b \<and>
     build_from_accepted demo_settlement_env (rev demo_claims) 8453 0xC0 1000 (demo_crypt_de [5]) = Ok b"
proof -
  obtain b where b: "build_from_accepted demo_settlement_env demo_claims 8453 0xC0 1000 (demo_crypt_de [5]) = Ok b"
    using demo_claims_build ..
  have "claim_leaf_hash demo_settlement_env (demo_claim e w) = Ok (ucast (ucast e :: u8))" for e w
    by (simp add: claim_leaf_hash_def demo_settlement_env_def demo_claim_def settlement_claim_new_def last_byte_def)
  then have "inj_on (claim_leaf_hash demo_settlement_env) (fst ` set demo_claims)"
    by (simp add: inj_on_def)
  from batch_independent_of_order [OF b mset_rev this] b show ?thesis
    by (intro exI [of _ b] conjI)
qed

subsection \<open>Merkle roots bind their leaves\<close>

fun level_pairs :: "bytes32 list \<Rightarrow> (bytes32 \<times> bytes32) list" where
  "level_pairs [] = []"
| "level_pairs [a] = [(a, a)]"
| "level_pairs (a # b # level) = (a, b) # level_pairs level"

text \<open>All pairs that are hashed below a root.\<close>

function merkle_pairs :: "(bytes32 \<Rightarrow> bytes32 \<Rightarrow> bytes32) \<Rightarrow> bytes32 list \<Rightarrow> (bytes32 \<times> bytes32) list" where
  "merkle_pairs h level =
     (if length level > 1 then level_pairs level @ merkle_pairs h (hash_level h level) else [])"
  by pat_completeness auto
termination by (relation "measure (\<lambda>(h, level). length level)") auto

declare merkle_pairs.simps [simp del]

lemma hash_level_inj:
  assumes "length xs = length ys" and "hash_level h xs = hash_level h ys"
    and "inj_on (\<lambda>(a, b). h a b) (set (level_pairs xs) \<union> set (level_pairs ys))"
  shows "xs = ys"
  using assms
proof (induction h xs arbitrary: ys rule: hash_level.induct)
  case (2 h a)
  from 2(1) obtain b where ys: "ys = [b]" by (cases ys) auto
  then show ?case
    using inj_onD [OF 2(3), of "(a, a)" "(b, b)"] 2(2) by simp
next
  case (3 h a b xs)
  from "3.prems"(1) obtain c d zs where ys: "ys = c # d # zs"
    by (cases ys rule: level_pairs.cases) auto
  have "inj_on (\<lambda>(a, b). h a b) (set (level_pairs xs) \<union> set (level_pairs zs))"
    by (rule inj_on_subset [OF "3.prems"(3)]) (auto simp: ys)
  then have "xs = zs"
    using "3.prems"(1,2) by (intro "3.IH") (simp_all add: ys)
  moreover have "(a, b) = (c, d)"
    using "3.prems"(2) by (intro inj_onD [OF "3.prems"(3)]) (simp_all add: ys)
  ultimately show ?case by (simp add: ys)
qed simp

lemma merkle_loop_inj:
  assumes "length xs = length ys" and "merkle_loop h xs = merkle_loop h ys"
    and "inj_on (\<lambda>(a, b). h a b) (set (merkle_pairs h xs) \<union> set (merkle_pairs h ys))"
  shows "xs = ys"
  using assms
proof (induction h xs arbitrary: ys rule: merkle_loop.induct)
  case (1 h xs)
  show ?case
  proof (cases "length xs > 1")
    case True
    then have len: "length ys > 1" using "1.prems"(1) by simp
    have pairs: "merkle_pairs h zs = level_pairs zs @ merkle_pairs h (hash_level h zs)" if "length zs > 1" for zs
      using that by (subst merkle_pairs.simps) simp
    have loop: "merkle_loop h zs = merkle_loop h (hash_level h zs)" if "length zs > 1" for zs
      using that by (subst merkle_loop.simps) simp
    note inj = "1.prems"(3) [unfolded pairs [OF True] pairs [OF len]]
    have "hash_level h xs = hash_level h ys"
    proof (rule "1.IH" [OF True])
      show "merkle_loop h (hash_level h xs) = merkle_loop h (hash_level h ys)"
        using "1.prems"(2) loop [OF True] loop [OF len] by simp
      show "inj_on (\<lambda>(a, b). h a b) (set (merkle_pairs h (hash_level h xs)) \<union> set (merkle_pairs h (hash_level h ys)))"
        by (rule inj_on_subset [OF inj]) auto
    qed (simp add: "1.prems"(1))
    then show ?thesis
      by (rule hash_level_inj [OF "1.prems"(1)]) (rule inj_on_subset [OF inj], auto)
  next
    case False
    then show ?thesis
      using 1(2,3) by (simp add: merkle_loop.simps [of h xs] merkle_loop.simps [of h ys])
  qed
qed

text \<open>The bytes hashed for a pair of nodes.\<close>

definition node_preimage :: "bytes32 \<times> bytes32 \<Rightarrow> bytes" where
  "node_preimage p = settlement_node_domain @ be_bytes 32 (fst p) @ be_bytes 32 (snd p)"

lemma node_preimage_inj: "inj node_preimage"
  by (rule injI) (simp add: node_preimage_def prod_eq_iff)

text \<open>
  C19. The Merkle root of a batch binds its leaf hashes: for non-empty lists of the same length
  the loop ends in a root, and different lists have different roots, unless Keccak-256 collides on
  two of the byte strings hashed for inner nodes.
\<close>

theorem merkle_root_binds_leaves:
  assumes "length xs = length ys" and "xs \<noteq> []" and "xs \<noteq> ys"
    and "inj_on (se_keccak env) (node_preimage ` (set (merkle_pairs (settlement_node env) xs) \<union>
           set (merkle_pairs (settlement_node env) ys)))"
  shows "\<exists>r s. merkle_root env xs = (Ok r :: (bytes32, receipt_settlement_error) res) \<and>
    merkle_root env ys = (Ok s :: (bytes32, receipt_settlement_error) res) \<and> r \<noteq> s"
proof -
  let ?h = "settlement_node env"
  have "(\<lambda>(a, b). ?h a b) = se_keccak env \<circ> node_preimage"
    by (auto simp: settlement_node_def node_preimage_def)
  then have inj: "inj_on (\<lambda>(a, b). ?h a b) (set (merkle_pairs ?h xs) \<union> set (merkle_pairs ?h ys))"
    using assms(4) comp_inj_on [OF inj_on_subset [OF node_preimage_inj subset_UNIV]] by simp
  have "ys \<noteq> []" using assms(1,2) by auto
  then obtain r s where rs: "merkle_loop ?h xs = [r]" "merkle_loop ?h ys = [s]"
    using merkle_loop_length assms(2) by metis
  moreover have "r \<noteq> s"
    using merkle_loop_inj [OF assms(1) _ inj] assms(3) rs by auto
  ultimately show ?thesis
    by (simp add: merkle_root_def merkle_root_with_def)
qed

text \<open>
  Lists of different lengths can share a root, since the last node of an odd level is paired with
  itself. The check for duplicate claims keeps the longer list from being a batch.
\<close>

lemma odd_leaf_collision: "merkle_root env [a, b, c, c] = merkle_root env [a, b, c]"
  by (simp add: merkle_root_def merkle_root_with_def merkle_loop.simps)

definition low_bytes :: "bytes \<Rightarrow> bytes32" where
  "low_bytes b = ucast (b ! 55) + 256 * ucast (b ! 87)"

theorem merkle_root_binds_leaves_witness:
  "\<exists>r s. merkle_root (demo_settlement_env\<lparr>se_receipt_env := demo_env_with low_bytes\<rparr>) [1, 2, 3]
      = (Ok r :: (bytes32, receipt_settlement_error) res) \<and>
    merkle_root (demo_settlement_env\<lparr>se_receipt_env := demo_env_with low_bytes\<rparr>) [1, 2, 4]
      = (Ok s :: (bytes32, receipt_settlement_error) res) \<and> r \<noteq> s"
proof -
  let ?env = "demo_settlement_env\<lparr>se_receipt_env := demo_env_with low_bytes\<rparr>"
  have pre: "low_bytes (node_preimage (a, b)) = ucast (ucast a :: u8) + 256 * ucast (ucast b :: u8)" for a b
    by (simp add: low_bytes_def node_preimage_def settlement_node_domain_def ascii_def nth_append be_bytes_def)
  then have node: "settlement_node ?env a b = ucast (ucast a :: u8) + 256 * ucast (ucast b :: u8)" for a b
    by (simp add: settlement_node_def node_preimage_def)
  have "inj_on (se_keccak ?env) (node_preimage ` (set (merkle_pairs (settlement_node ?env) [1, 2, 3]) \<union>
      set (merkle_pairs (settlement_node ?env) [1, 2, 4])))"
    by (simp add: merkle_pairs.simps node inj_on_def pre)
  from merkle_root_binds_leaves [OF _ _ _ this] show ?thesis by simp
qed

end
