(* ===== verification/Decimal.thy ===== *)
theory Decimal
  imports Masq_Prelude
begin

section \<open>Decimal integers\<close>

text \<open>
  How the sources write and read integers: \<open>decimal\<close> is \<open>to_string\<close> of an unsigned integer and
  \<open>parse_uint\<close> is \<open>str::parse\<close> at any of Rust's unsigned types: digits after an optional plus
  sign, an error for an empty string, for another character and on overflow.
\<close>

function decimal :: "nat \<Rightarrow> string" where
  "decimal n = (if n < 10 then [char_of (48 + n)] else decimal (n div 10) @ [char_of (48 + n mod 10)])"
  by pat_completeness auto
termination by (relation "measure id") auto

declare decimal.simps [simp del]

definition is_digit :: "char \<Rightarrow> bool" where
  "is_digit c \<longleftrightarrow> 48 \<le> (of_char c :: nat) \<and> (of_char c :: nat) \<le> 57"

definition digit_value :: "char \<Rightarrow> nat" where
  "digit_value c = of_char c - 48"

fun parse_digits :: "'a::len word \<Rightarrow> string \<Rightarrow> 'a word option" where
  "parse_digits acc [] = Some acc"
| "parse_digits acc (c # cs) =
     (if is_digit c
      then Option.bind (checked_mul acc 10) (\<lambda>tens.
             Option.bind (checked_add tens (of_nat (digit_value c))) (\<lambda>acc'. parse_digits acc' cs))
      else None)"

definition parse_uint :: "string \<Rightarrow> 'a::len word option" where
  "parse_uint s =
     (case s of
        [] \<Rightarrow> None
      | c # cs \<Rightarrow> if c = CHR ''+'' then (if cs = [] then None else parse_digits 0 cs) else parse_digits 0 s)"

subsection \<open>Decimal reads back\<close>

definition dec_value :: "nat \<Rightarrow> string \<Rightarrow> nat" where
  "dec_value a ds = foldl (\<lambda>a c. a * 10 + digit_value c) a ds"

lemma digit_char [simp]: "n < 10 \<Longrightarrow> is_digit (char_of (48 + n))" "n < 10 \<Longrightarrow> digit_value (char_of (48 + n)) = n"
  by (simp_all add: is_digit_def digit_value_def of_char_of)

lemma decimal_digits: "list_all is_digit (decimal n) \<and> decimal n \<noteq> [] \<and> dec_value 0 (decimal n) = n"
proof (induction n rule: decimal.induct)
  case (1 n)
  show ?case
  proof (cases "n < 10")
    case True
    then show ?thesis by (simp add: decimal.simps [of n] dec_value_def)
  next
    case False
    with 1 show ?thesis
      by (simp add: decimal.simps [of n] dec_value_def)
  qed
qed

lemma decimal_inj [simp]: "decimal m = decimal n \<longleftrightarrow> m = n"
  by (metis decimal_digits)

lemma dec_value_ge: "a \<le> dec_value a ds"
proof (induction ds arbitrary: a)
  case (Cons c ds)
  have "a \<le> a * 10 + digit_value c" by simp
  also have "\<dots> \<le> dec_value (a * 10 + digit_value c) ds" by (rule Cons.IH)
  finally show ?case by (simp add: dec_value_def)
qed (simp add: dec_value_def)

lemma parse_digits_Some:
  fixes w acc :: "'a::len word"
  assumes "4 \<le> LENGTH('a)"
  shows "list_all is_digit ds \<Longrightarrow> parse_digits acc ds = Some w \<longleftrightarrow> unat w = dec_value (unat acc) ds"
proof (induction ds arbitrary: acc)
  case Nil
  then show ?case by (auto simp: dec_value_def word_unat_eq_iff)
next
  case (Cons c ds)
  then have c: "digit_value c < 10" "is_digit c"
    by (auto simp: is_digit_def digit_value_def)
  let ?n = "unat acc * 10 + digit_value c"
  have ten: "10 < (2 :: nat) ^ LENGTH('a)"
    using power_increasing [OF assms, of "2 :: nat"] by simp
  then have u: "unat (10 :: 'a word) = 10"
    using unat_of_nat_less [of 10, where 'a = 'a] by simp
  have d: "unat (of_nat (digit_value c)  :: 'a word) = digit_value c"
    using c(1) ten by (intro unat_of_nat_less) linarith
  have v: "dec_value (unat acc) (c # ds) = dec_value ?n ds"
    by (simp add: dec_value_def)
  show ?case
  proof (cases "?n < 2 ^ LENGTH('a)")
    case True
    then have b: "unat acc * 10 < 2 ^ LENGTH('a)" "?n < 2 ^ LENGTH('a)"
      by simp_all
    note t = unat_of_nat_less [OF b(1)] and n = unat_of_nat_less [OF b(2)]
    have "checked_mul acc 10 = Some (of_nat (unat acc * 10))"
      unfolding checked_mul_eq_Some t u ..
    moreover have "checked_add (of_nat (unat acc * 10)) (of_nat (digit_value c)) = Some (of_nat ?n :: 'a word)"
      unfolding checked_add_eq_Some t n d ..
    ultimately have "parse_digits acc (c # ds) = parse_digits (of_nat ?n) ds"
      using c(2) by simp
    then show ?thesis
      using Cons.IH [of "of_nat ?n"] Cons.prems n v by simp
  next
    case False
    have "parse_digits acc (c # ds) \<noteq> Some w"
    proof
      assume "parse_digits acc (c # ds) = Some w"
      then obtain t a where "checked_mul acc 10 = Some t" "checked_add t (of_nat (digit_value c)) = Some a"
        by (auto split: if_splits simp: bind_eq_Some_conv)
      then have "unat a = ?n" unfolding checked_simps d u by simp
      then show False using False unat_less_2p [of a] by linarith
    qed
    moreover have "unat w \<noteq> dec_value (unat acc) (c # ds)"
      using False dec_value_ge [of ?n ds] unat_less_2p [of w] v by linarith
    ultimately show ?thesis by simp
  qed
qed

lemma parse_decimal:
  fixes w :: "'a::len word"
  assumes "4 \<le> LENGTH('a)"
  shows "parse_uint (decimal (unat w)) = Some w"
proof -
  have "hd (decimal (unat w)) \<noteq> CHR ''+''"
    using decimal_digits [of "unat w"] by (cases "decimal (unat w)") (auto simp: is_digit_def)
  then have "parse_uint (decimal (unat w)) = (parse_digits 0 (decimal (unat w)) :: 'a word option)"
    using decimal_digits [of "unat w"] by (auto simp: parse_uint_def split: list.split)
  then show ?thesis
    using decimal_digits [of "unat w"] parse_digits_Some [OF assms, of "decimal (unat w)" 0 w] by simp
qed

end
