(* ===== verification/Typed_Data.thy ===== *)
theory Typed_Data
  imports Service_Receipt Decimal
begin

section \<open>Typed-data requests\<close>

text \<open>
  The JSON that a wallet is shown before it signs a policy: the two functions
  \<open>eip712_typed_data\<close> of \<open>node/src/sub_lib/service_receipt.rs\<close>. Integers are written in decimal
  (\<open>to_string\<close>), byte strings in hexadecimal by the crate \<open>rustc_hex\<close>, which is a parameter.
  \<open>parse_u128\<close> is \<open>str::parse::<u128>\<close>, by which amounts come back from the user interface.
\<close>

abbreviation parse_u128 :: "string \<Rightarrow> u128 option" where
  "parse_u128 \<equiv> parse_uint"

subsection \<open>JSON\<close>

datatype json =
    JString string
  | JArray "json list"
  | JObject "(string \<times> json) list"

definition typed_field :: "string \<Rightarrow> string \<Rightarrow> json" where
  "typed_field name typ = JObject [(''name'', JString name), (''type'', JString typ)]"

definition eip712_domain_fields :: json where
  "eip712_domain_fields = JArray [typed_field ''name'' ''string'', typed_field ''version'' ''string'',
     typed_field ''chainId'' ''uint256'', typed_field ''verifyingContract'' ''address'']"

definition hex_0x :: "(bytes \<Rightarrow> string) \<Rightarrow> bytes \<Rightarrow> json" where
  "hex_0x to_hex bs = JString (''0x'' @ to_hex bs)"

definition decimal_json :: "'a::len word \<Rightarrow> json" where
  "decimal_json w = JString (decimal (unat w))"

definition session_typed_data ::
    "(bytes \<Rightarrow> string) \<Rightarrow> receipt_session_policy \<Rightarrow> (json, service_receipt_error) res" where
  "session_typed_data to_hex p =
     and_then (session_validate_structure p) (\<lambda>_. Ok (JObject
       [(''types'', JObject
          [(''EIP712Domain'', eip712_domain_fields),
           (''ReceiptSessionAuthorization'', JArray
              [typed_field ''protocolVersion'' ''uint16'',
               typed_field ''payerWallet'' ''address'',
               typed_field ''payerSessionPublicKey'' ''bytes'',
               typed_field ''maxTotalChargeWei'' ''uint256'',
               typed_field ''validFromUnixS'' ''uint64'',
               typed_field ''expiresAtUnixS'' ''uint64'',
               typed_field ''authorizationNonce'' ''bytes32''])]),
        (''primaryType'', JString ''ReceiptSessionAuthorization''),
        (''domain'', JObject
          [(''name'', JString ''MASQ Service Receipt''),
           (''version'', JString ''1''),
           (''chainId'', decimal_json (rsp_chain_id p)),
           (''verifyingContract'', hex_0x to_hex (be_bytes 20 (rsp_settlement_contract p)))]),
        (''message'', JObject
          [(''protocolVersion'', decimal_json (rsp_protocol_version p)),
           (''payerWallet'', hex_0x to_hex (be_bytes 20 (rsp_payer_wallet_address p))),
           (''payerSessionPublicKey'', hex_0x to_hex (rsp_payer_session_public_key p)),
           (''maxTotalChargeWei'', decimal_json (rsp_max_total_charge_wei p)),
           (''validFromUnixS'', decimal_json (rsp_valid_from_unix_s p)),
           (''expiresAtUnixS'', decimal_json (rsp_expires_at_unix_s p)),
           (''authorizationNonce'', hex_0x to_hex (be_bytes 32 (rsp_authorization_nonce p)))])]))"

definition settlement_typed_data ::
    "(bytes \<Rightarrow> string) \<Rightarrow> provider_settlement_policy \<Rightarrow> (json, service_receipt_error) res" where
  "settlement_typed_data to_hex p =
     and_then (settlement_validate_structure p) (\<lambda>_. Ok (JObject
       [(''types'', JObject
          [(''EIP712Domain'', eip712_domain_fields),
           (''ProviderSettlementAuthorization'', JArray
              [typed_field ''protocolVersion'' ''uint16'',
               typed_field ''payoutWallet'' ''address'',
               typed_field ''providerPublicKey'' ''bytes'',
               typed_field ''validFromUnixS'' ''uint64'',
               typed_field ''expiresAtUnixS'' ''uint64'',
               typed_field ''authorizationNonce'' ''bytes32''])]),
        (''primaryType'', JString ''ProviderSettlementAuthorization''),
        (''domain'', JObject
          [(''name'', JString ''MASQ Provider Settlement''),
           (''version'', JString ''1''),
           (''chainId'', decimal_json (psp_chain_id p)),
           (''verifyingContract'', hex_0x to_hex (be_bytes 20 (psp_settlement_contract p)))]),
        (''message'', JObject
          [(''protocolVersion'', decimal_json (psp_protocol_version p)),
           (''payoutWallet'', hex_0x to_hex (be_bytes 20 (psp_payout_wallet_address p))),
           (''providerPublicKey'', hex_0x to_hex (psp_provider_public_key p)),
           (''validFromUnixS'', decimal_json (psp_valid_from_unix_s p)),
           (''expiresAtUnixS'', decimal_json (psp_expires_at_unix_s p)),
           (''authorizationNonce'', hex_0x to_hex (be_bytes 32 (psp_authorization_nonce p)))])]))"

section \<open>Properties of typed data\<close>

lemma decimal_json_inj: "decimal_json a = decimal_json b \<longleftrightarrow> a = b"
  by (simp add: decimal_json_def word_unat_eq_iff)

text \<open>
  C30. Typed data shows the wallet what it signs: the request for a valid session policy has the
  limit in decimal, which parses back to the limit exactly, and two policies with the same request
  are equal when the hexadecimal encoding is injective.
\<close>

theorem typed_data_determines_policy:
  assumes "inj to_hex" and "session_typed_data to_hex p = Ok j" and "session_typed_data to_hex q = Ok j"
  shows "p = q \<and> (\<exists>types primary domain message.
    j = JObject [(''types'', types), (''primaryType'', primary), (''domain'', domain), (''message'', JObject message)] \<and>
    (\<exists>shown. map_of message ''maxTotalChargeWei'' = Some (JString shown) \<and>
       parse_u128 shown = Some (rsp_max_total_charge_wei p)))"
proof -
  have v: "session_validate_structure p = Ok ()" "session_validate_structure q = Ok ()"
    using assms(2,3) by (auto simp: session_typed_data_def res_simps)
  have "session_typed_data to_hex p = session_typed_data to_hex q"
    using assms(2,3) by simp
  then have "p = q"
    by (intro receipt_session_policy.equality)
      (simp_all add: session_typed_data_def v hex_0x_def decimal_json_inj inj_eq [OF assms(1)] be_bytes_inj)
  moreover have "j = (case session_typed_data to_hex p of Ok j \<Rightarrow> j)"
    using assms(2) by simp
  ultimately show ?thesis
    by (simp add: session_typed_data_def v decimal_json_def parse_decimal)
qed

theorem typed_data_determines_policy_witness:
  "\<exists>types primary domain message shown.
     session_typed_data (map (\<lambda>b. char_of (unat b))) (session_policy_new 8453 0xC0 0xAB [7] 1000 100 200 5)
       = Ok (JObject [(''types'', types), (''primaryType'', primary), (''domain'', domain), (''message'', JObject message)]) \<and>
     map_of message ''maxTotalChargeWei'' = Some (JString shown) \<and> parse_u128 shown = Some 1000"
proof -
  let ?h = "map (\<lambda>b :: u8. char_of (unat b) :: char)" and ?p = "session_policy_new 8453 0xC0 0xAB [7] 1000 100 200 5"
  have "inj ?h"
  proof (rule inj_mapI, rule injI)
    fix a b :: u8 assume "char_of (unat a) = (char_of (unat b) :: char)"
    then have "unat a mod 256 = unat b mod 256" by (simp add: char_of_eq_iff of_char_of take_bit_eq_mod)
    then show "a = b"
      using unat_less_2p [of a] unat_less_2p [of b] by (simp add: word_unat_eq_iff)
  qed
  moreover have "session_validate_structure ?p = Ok ()"
    by (simp add: session_validate_structure_def session_policy_new_def service_receipt_protocol_version_def
        max_receipt_session_charge_wei_def min_receipt_session_duration_seconds_def max_receipt_session_duration_seconds_def)
  then obtain j where j: "session_typed_data ?h ?p = Ok j"
    by (simp add: session_typed_data_def)
  ultimately show ?thesis
    using typed_data_determines_policy [OF _ j j] j by (auto simp: session_policy_new_def)
qed

end
