(* ===== verification/Receipt_Session.thy ===== *)
theory Receipt_Session
  imports Receipt_Settlement Typed_Data "HOL-Library.AList"
begin

section \<open>The receipt-session manager\<close>

text \<open>
  The model of \<open>node/src/proxy_server/receipt_session.rs\<close>: the consumer's side of paid sessions.
  \<open>ReceiptSessionManager\<close> is a record; a method takes the manager and returns its outcome with the
  manager afterwards, on errors too, because some methods change the manager before they fail.
  The recovery store behind the trait object is a state of any type with its four operations as
  arguments; random bytes and fresh key pairs are arguments; the map of routing providers is an
  association list.
\<close>

subsection \<open>Outcomes with state\<close>

type_synonym ('a, 'e, 's) outcome = "('a, 'e) res \<times> 's"

definition and_then_s ::
    "('a, 'e, 's) outcome \<Rightarrow> ('a \<Rightarrow> 's \<Rightarrow> ('b, 'e, 's) outcome) \<Rightarrow> ('b, 'e, 's) outcome" where
  "and_then_s m k = (case m of (Ok a, s) \<Rightarrow> k a s | (Err e, s) \<Rightarrow> (Err e, s) | (Panic, s) \<Rightarrow> (Panic, s))"

text \<open>\<open>iter_mut().find(p)\<close> and a change of what it finds.\<close>

fun update_first :: "('a \<Rightarrow> bool) \<Rightarrow> ('a \<Rightarrow> 'a) \<Rightarrow> 'a list \<Rightarrow> 'a list" where
  "update_first p f [] = []"
| "update_first p f (x # xs) = (if p x then f x # xs else x # update_first p f xs)"

subsection \<open>Constants and data\<close>

definition max_receipt_session_routes :: nat where
  "max_receipt_session_routes = 4096"

definition max_pending_receipt_responses_per_route :: nat where
  "max_pending_receipt_responses_per_route = 64"

text \<open>A stream key is a SHA-1 digest. Of a chain the manager uses its name and token contract.\<close>

type_synonym stream_key = "160 word"

record chain_rec =
  literal_identifier :: string
  chain_contract :: address

record receipt_session_config =
  cfg_chain :: chain_rec
  cfg_chain_id :: u64
  cfg_settlement_contract :: address
  cfg_payer_wallet_address :: address

record receipt_session_proposal =
  prop_proposal_id :: string
  prop_chain_name :: string
  prop_masq_token_contract :: address
  prop_authorization_id :: bytes32
  prop_policy :: receipt_session_policy
  prop_eip712_typed_data :: json

record receipt_session_status =
  st_protocol_version_opt :: "u16 option"
  st_chain_name_opt :: "string option"
  st_chain_id_opt :: "u64 option"
  st_masq_token_contract_opt :: "address option"
  st_settlement_contract_opt :: "address option"
  st_payer_wallet_address_opt :: "address option"
  st_payer_session_public_key_opt :: "public_key option"
  st_authorization_id_opt :: "bytes32 option"
  st_max_total_charge_wei_opt :: "u128 option"
  st_spent_charge_wei_opt :: "u128 option"
  st_valid_from_unix_s_opt :: "u64 option"
  st_expires_at_unix_s_opt :: "u64 option"

definition status_inactive :: receipt_session_status where
  "status_inactive =
     \<lparr>st_protocol_version_opt = None, st_chain_name_opt = None, st_chain_id_opt = None,
      st_masq_token_contract_opt = None, st_settlement_contract_opt = None,
      st_payer_wallet_address_opt = None, st_payer_session_public_key_opt = None,
      st_authorization_id_opt = None, st_max_total_charge_wei_opt = None,
      st_spent_charge_wei_opt = None, st_valid_from_unix_s_opt = None, st_expires_at_unix_s_opt = None\<rparr>"

definition is_active :: "receipt_session_status \<Rightarrow> bool" where
  "is_active st \<longleftrightarrow> st_payer_session_public_key_opt st \<noteq> None"

datatype receipt_session_manager_error =
    SessionAmount string
  | SessionDuration u64
  | SessionExpired
  | NoPendingProposal
  | NoActiveSession
  | ProposalMismatch
  | ReceiptObservationMismatch
  | ReceiptQuoteUnavailable
  | ReceiptRouteNotFound
  | SessionSignature string
  | SessionPersistence string
  | TimeOverflow
  | SessionVerification service_receipt_error

record pending_receipt_session =
  pnd_proposal_id :: string
  pnd_policy :: receipt_session_policy
  pnd_payer_cryptde :: crypt_de

record routing_provider_receipt_state =
  rps_service_rate :: u64
  rps_byte_rate :: u64
  rps_observed_payloads :: "u64 list"
  rps_checkpoint_opt :: "receipt_sequence_checkpoint option"
  rps_acknowledged_payload_opt :: "service_receipt_payload option"

record receipt_route_state =
  rt_stream_key :: stream_key
  rt_request :: receipt_session_request
  rt_expected_provider_public_key_opt :: "public_key option"
  rt_exit_service_rate_opt :: "u64 option"
  rt_exit_byte_rate_opt :: "u64 option"
  rt_observed_responses :: "(u64 \<times> u64 \<times> u64) list"
  rt_pending_request_payload_size :: u64
  rt_pending_request_service_units :: u64
  rt_checkpoint_opt :: "receipt_sequence_checkpoint option"
  rt_acknowledged_payload_opt :: "service_receipt_payload option"
  rt_routing_request_providers :: "public_key list"
  rt_routing_response_providers :: "public_key list"
  rt_routing_provider_states :: "(public_key \<times> routing_provider_receipt_state) list"

record active_receipt_session =
  act_authorization :: authorized_receipt_session
  act_payer_cryptde :: crypt_de
  act_routes :: "receipt_route_state list"
  act_spent_charge_wei :: u128

record persisted_receipt_session_header =
  hdr_authorization :: authorized_receipt_session
  hdr_payer_cryptde :: string
  hdr_spent_charge_wei :: u128

record routing_receipt_quote =
  rq_provider_public_key :: public_key
  rq_service_rate :: u64
  rq_byte_rate :: u64

text \<open>The trait \<open>ReceiptSessionRecoveryStore\<close>: an error is its text (\<open>Inl\<close>).\<close>

record 'st recovery_store =
  store_load :: "u64 \<Rightarrow> 'st \<Rightarrow> (string + (persisted_receipt_session_header \<times> receipt_route_state list) option) \<times> 'st"
  store_save_header :: "persisted_receipt_session_header \<Rightarrow> 'st \<Rightarrow> (string + unit) \<times> 'st"
  store_save_header_and_route ::
    "persisted_receipt_session_header \<Rightarrow> receipt_route_state \<Rightarrow> 'st \<Rightarrow> (string + unit) \<times> 'st"
  store_clear :: "'st \<Rightarrow> (string + unit) \<times> 'st"

record 'st receipt_session_manager =
  mgr_config :: receipt_session_config
  mgr_pending_opt :: "pending_receipt_session option"
  mgr_active_opt :: "active_receipt_session option"
  mgr_recovery_store_opt :: "'st option"
  mgr_recovery_required :: bool

text \<open>
  What the manager takes from elsewhere: the settlement environment, hexadecimal coding by
  \<open>rustc_hex\<close> with the debug text of its error, the textual form of a key pair
  (\<open>CryptDEReal::to_string\<close> and \<open>make_from_str\<close>), the CBOR decoding of an offer, and the debug
  text of a codex error.
\<close>

record session_env =
  sn_settlement_env :: settlement_env
  sn_to_hex :: "bytes \<Rightarrow> string"
  sn_from_hex :: "string \<Rightarrow> (bytes, string) res"
  sn_cryptde_to_string :: "crypt_de \<Rightarrow> string"
  sn_cryptde_from_str :: "string \<Rightarrow> (crypt_de, string) res"
  sn_offer_from_slice :: "bytes \<Rightarrow> (signed_service_receipt, string) res"
  sn_codex_error_debug :: "string codex_error \<Rightarrow> string"

abbreviation sn_receipt_env :: "session_env \<Rightarrow> receipt_env" where
  "sn_receipt_env env \<equiv> se_receipt_env (sn_settlement_env env)"

type_synonym ('a, 'st) session_outcome = "('a, receipt_session_manager_error, 'st receipt_session_manager) outcome"

subsection \<open>Routes and headers\<close>

definition find_route :: "stream_key \<Rightarrow> active_receipt_session \<Rightarrow> receipt_route_state option" where
  "find_route sk active = List.find (\<lambda>route. rt_stream_key route = sk) (act_routes active)"

definition find_epoch :: "bytes32 \<Rightarrow> active_receipt_session \<Rightarrow> receipt_route_state option" where
  "find_epoch e active = List.find (\<lambda>route. rsr_route_epoch (rt_request route) = e) (act_routes active)"

definition fresh_route_request ::
    "session_env \<Rightarrow> active_receipt_session \<Rightarrow> bytes32 \<Rightarrow> (receipt_session_request, receipt_session_manager_error) res" where
  "fresh_route_request env active random_epoch =
     (if random_epoch = 0 \<or> list_ex (\<lambda>route. rsr_route_epoch (rt_request route) = random_epoch) (act_routes active)
      then Err (SessionSignature ''secure route-epoch generation returned an invalid value'')
      else map_err SessionVerification (session_request_new (sn_receipt_env env) (act_authorization active) random_epoch))"

definition route_state :: "stream_key \<Rightarrow> receipt_session_request \<Rightarrow> receipt_route_state" where
  "route_state sk request =
     \<lparr>rt_stream_key = sk, rt_request = request, rt_expected_provider_public_key_opt = None,
      rt_exit_service_rate_opt = None, rt_exit_byte_rate_opt = None, rt_observed_responses = [],
      rt_pending_request_payload_size = 0, rt_pending_request_service_units = 0,
      rt_checkpoint_opt = None, rt_acknowledged_payload_opt = None,
      rt_routing_request_providers = [], rt_routing_response_providers = [],
      rt_routing_provider_states = []\<rparr>"

definition persisted_header :: "session_env \<Rightarrow> active_receipt_session \<Rightarrow> persisted_receipt_session_header" where
  "persisted_header env active =
     \<lparr>hdr_authorization = act_authorization active,
      hdr_payer_cryptde = sn_cryptde_to_string env (act_payer_cryptde active),
      hdr_spent_charge_wei = act_spent_charge_wei active\<rparr>"

definition checkpoint_matches ::
    "persisted_receipt_session_header \<Rightarrow> receipt_route_state \<Rightarrow> receipt_sequence_checkpoint \<Rightarrow> public_key \<Rightarrow> bool" where
  "checkpoint_matches header route checkpoint provider \<longleftrightarrow>
     ck_route_epoch checkpoint = rsr_route_epoch (rt_request route) \<and>
     ck_provider_public_key checkpoint = provider \<and>
     ck_accounting_commitment checkpoint = rsr_accounting_commitment (rt_request route) \<and>
     ck_payer_session_public_key checkpoint = rsp_payer_session_public_key (ars_policy (hdr_authorization header))"

fun check_recovered_routes ::
    "session_env \<Rightarrow> receipt_session_config \<Rightarrow> persisted_receipt_session_header \<Rightarrow> u64 \<Rightarrow> stream_key list \<Rightarrow> bytes32 list \<Rightarrow>
     receipt_route_state list \<Rightarrow> (unit, receipt_session_manager_error) res" where
  "check_recovered_routes env config header now stream_keys route_epochs [] = Ok ()"
| "check_recovered_routes env config header now stream_keys route_epochs (route # routes) =
     (if rt_stream_key route \<in> set stream_keys
         \<or> rsr_route_epoch (rt_request route) \<in> set route_epochs
         \<or> rsr_authorization (rt_request route) \<noteq> hdr_authorization header
         \<or> length (rt_observed_responses route) > max_pending_receipt_responses_per_route
         \<or> list_ex (\<lambda>(_, provider). length (rps_observed_payloads provider) > max_pending_receipt_responses_per_route)
             (rt_routing_provider_states route)
      then Err (SessionPersistence ''recovered receipt route is inconsistent'')
      else and_then (map_err SessionVerification (session_request_verify (sn_receipt_env env) (rt_request route)
               (cfg_chain_id config) (cfg_settlement_contract config) now)) (\<lambda>_.
        if (case rt_checkpoint_opt route of
              None \<Rightarrow> False
            | Some checkpoint \<Rightarrow> (case rt_expected_provider_public_key_opt route of
                None \<Rightarrow> True
              | Some provider \<Rightarrow> \<not> checkpoint_matches header route checkpoint provider))
           \<or> list_ex (\<lambda>(provider, state). case rps_checkpoint_opt state of
                None \<Rightarrow> False
              | Some checkpoint \<Rightarrow> \<not> checkpoint_matches header route checkpoint provider)
             (rt_routing_provider_states route)
        then Err (SessionPersistence ''recovered receipt checkpoint identity is inconsistent'')
        else check_recovered_routes env config header now (rt_stream_key route # stream_keys)
               (rsr_route_epoch (rt_request route) # route_epochs) routes))"

definition restore_active ::
    "session_env \<Rightarrow> receipt_session_config \<Rightarrow> persisted_receipt_session_header \<Rightarrow> receipt_route_state list \<Rightarrow> u64 \<Rightarrow>
     (active_receipt_session, receipt_session_manager_error) res" where
  "restore_active env config header routes now =
     (if length routes > max_receipt_session_routes
      then Err (SessionPersistence ''recovered route limit is invalid'')
      else and_then (map_err SessionPersistence (sn_cryptde_from_str env (hdr_payer_cryptde header))) (\<lambda>payer_cryptde.
        and_then (map_err SessionVerification (session_verify (sn_receipt_env env) (hdr_authorization header)
            (cfg_chain_id config) (cfg_settlement_contract config) (cde_public_key payer_cryptde) now
            (hdr_spent_charge_wei header))) (\<lambda>_.
          if rsp_payer_wallet_address (ars_policy (hdr_authorization header)) \<noteq> cfg_payer_wallet_address config
          then Err (SessionPersistence ''recovered payer wallet differs from Node configuration'')
          else and_then (check_recovered_routes env config header now [] [] routes) (\<lambda>_.
            Ok \<lparr>act_authorization = hdr_authorization header, act_payer_cryptde = payer_cryptde,
                act_routes = routes, act_spent_charge_wei = hdr_spent_charge_wei header\<rparr>))))"

subsection \<open>Persistence\<close>

abbreviation password_required :: string where
  "password_required \<equiv> ''a database password is required for recoverable sessions''"

text \<open>\<open>let _ = store.clear()\<close>: the store changes, its result is ignored.\<close>

definition clear_store :: "'st recovery_store \<Rightarrow> 'st receipt_session_manager \<Rightarrow> 'st receipt_session_manager" where
  "clear_store ops s =
     (case mgr_recovery_store_opt s of
        None \<Rightarrow> s
      | Some st \<Rightarrow> s\<lparr>mgr_recovery_store_opt := Some (snd (store_clear ops st))\<rparr>)"

definition revoke_after_persistence_error ::
    "'st recovery_store \<Rightarrow> string \<Rightarrow> 'st receipt_session_manager \<Rightarrow> ('a, 'st) session_outcome" where
  "revoke_after_persistence_error ops message s =
     (Err (SessionPersistence message), clear_store ops (s\<lparr>mgr_active_opt := None\<rparr>))"

text \<open>The common end of \<open>persist_header\<close> and \<open>persist_route\<close>: save with the store, or fail closed.\<close>

definition save_or_revoke ::
    "'st recovery_store \<Rightarrow> ('st \<Rightarrow> (string + unit) \<times> 'st) \<Rightarrow> 'st receipt_session_manager \<Rightarrow> (unit, 'st) session_outcome" where
  "save_or_revoke ops save s =
     (case mgr_recovery_store_opt s of
        Some st \<Rightarrow>
          (case save st of
             (Inr _, st') \<Rightarrow> (Ok (), s\<lparr>mgr_recovery_store_opt := Some st'\<rparr>)
           | (Inl message, st') \<Rightarrow>
               revoke_after_persistence_error ops message (s\<lparr>mgr_recovery_store_opt := Some st'\<rparr>))
      | None \<Rightarrow>
          if mgr_recovery_required s then revoke_after_persistence_error ops password_required s
          else (Ok (), s))"

definition persist_header ::
    "session_env \<Rightarrow> 'st recovery_store \<Rightarrow> 'st receipt_session_manager \<Rightarrow> (unit, 'st) session_outcome" where
  "persist_header env ops s =
     (case mgr_active_opt s of
        None \<Rightarrow> (Ok (), s)
      | Some active \<Rightarrow> save_or_revoke ops (store_save_header ops (persisted_header env active)) s)"

definition persist_route ::
    "session_env \<Rightarrow> 'st recovery_store \<Rightarrow> stream_key \<Rightarrow> 'st receipt_session_manager \<Rightarrow> (unit, 'st) session_outcome" where
  "persist_route env ops sk s =
     (case mgr_active_opt s of
        None \<Rightarrow> (Ok (), s)
      | Some active \<Rightarrow>
          (case find_route sk active of
             None \<Rightarrow> (Err ReceiptRouteNotFound, s)
           | Some route \<Rightarrow>
               save_or_revoke ops (store_save_header_and_route ops (persisted_header env active) route) s))"

definition manager_new :: "receipt_session_config \<Rightarrow> 'st receipt_session_manager" where
  "manager_new config =
     \<lparr>mgr_config = config, mgr_pending_opt = None, mgr_active_opt = None,
      mgr_recovery_store_opt = None, mgr_recovery_required = False\<rparr>"

definition new_recovery_required ::
    "session_env \<Rightarrow> 'st recovery_store \<Rightarrow> receipt_session_config \<Rightarrow> 'st option \<Rightarrow> u64 \<Rightarrow>
     ('st receipt_session_manager, receipt_session_manager_error) res" where
  "new_recovery_required env ops config store_opt now =
     (let manager = (\<lambda>active_opt store_opt'. Ok
            \<lparr>mgr_config = config, mgr_pending_opt = None, mgr_active_opt = active_opt,
             mgr_recovery_store_opt = store_opt', mgr_recovery_required = True\<rparr>) in
      case store_opt of
        None \<Rightarrow> manager None None
      | Some st \<Rightarrow>
          (case store_load ops now st of
             (Inl message, _) \<Rightarrow> Err (SessionPersistence message)
           | (Inr None, st') \<Rightarrow> manager None (Some st')
           | (Inr (Some (header, routes)), st') \<Rightarrow>
               and_then (restore_active env config header routes now) (\<lambda>active.
                 manager (Some active) (Some st'))))"

subsection \<open>Status, proposal and activation\<close>

definition session_status ::
    "session_env \<Rightarrow> 'st recovery_store \<Rightarrow> u64 \<Rightarrow> 'st receipt_session_manager \<Rightarrow>
     receipt_session_status \<times> 'st receipt_session_manager" where
  "session_status env ops now s =
     (let s' = (case mgr_active_opt s of
            Some active \<Rightarrow>
              if now > rsp_expires_at_unix_s (ars_policy (act_authorization active))
              then clear_store ops (s\<lparr>mgr_active_opt := None\<rparr>) else s
          | None \<Rightarrow> s) in
      (case mgr_active_opt s' of
         Some active \<Rightarrow>
           let policy = ars_policy (act_authorization active) in
           if now \<le> rsp_expires_at_unix_s policy
           then \<lparr>st_protocol_version_opt = Some (rsp_protocol_version policy),
                 st_chain_name_opt = Some (literal_identifier (cfg_chain (mgr_config s'))),
                 st_chain_id_opt = Some (rsp_chain_id policy),
                 st_masq_token_contract_opt = Some (chain_contract (cfg_chain (mgr_config s'))),
                 st_settlement_contract_opt = Some (rsp_settlement_contract policy),
                 st_payer_wallet_address_opt = Some (rsp_payer_wallet_address policy),
                 st_payer_session_public_key_opt = Some (cde_public_key (act_payer_cryptde active)),
                 st_authorization_id_opt = Some (receipt_session_contract_id (sn_settlement_env env)
                   (rsp_payer_wallet_address policy) (rsp_authorization_nonce policy)),
                 st_max_total_charge_wei_opt = Some (rsp_max_total_charge_wei policy),
                 st_spent_charge_wei_opt = Some (act_spent_charge_wei active),
                 st_valid_from_unix_s_opt = Some (rsp_valid_from_unix_s policy),
                 st_expires_at_unix_s_opt = Some (rsp_expires_at_unix_s policy)\<rparr>
           else status_inactive
       | None \<Rightarrow> status_inactive, s'))"

text \<open>The first line of every other method: \<open>self.status(now_unix_s);\<close>.\<close>

definition expire :: "session_env \<Rightarrow> 'st recovery_store \<Rightarrow> u64 \<Rightarrow> 'st receipt_session_manager \<Rightarrow> 'st receipt_session_manager" where
  "expire env ops now s = snd (session_status env ops now s)"

definition requires_service_receipt_capability ::
    "session_env \<Rightarrow> 'st recovery_store \<Rightarrow> u64 \<Rightarrow> 'st receipt_session_manager \<Rightarrow> bool \<times> 'st receipt_session_manager" where
  "requires_service_receipt_capability env ops now s =
     (let (st, s') = session_status env ops now s in (is_active st, s'))"

definition propose ::
    "session_env \<Rightarrow> string \<Rightarrow> u64 \<Rightarrow> u64 \<Rightarrow> crypt_de \<Rightarrow> bytes32 \<Rightarrow> 'st receipt_session_manager \<Rightarrow>
     (receipt_session_proposal, 'st) session_outcome" where
  "propose env max_total_text duration_seconds now new_cryptde random_nonce s =
     (case parse_u128 max_total_text of
        None \<Rightarrow> (Err (SessionAmount max_total_text), s)
      | Some max_total \<Rightarrow>
          if max_total = 0 \<or> max_total > max_receipt_session_charge_wei
          then (Err (SessionAmount (decimal (unat max_total))), s)
          else if \<not> (min_receipt_session_duration_seconds \<le> duration_seconds
                     \<and> duration_seconds \<le> max_receipt_session_duration_seconds)
          then (Err (SessionDuration duration_seconds), s)
          else (case checked_add now duration_seconds of
            None \<Rightarrow> (Err TimeOverflow, s)
          | Some expires_at \<Rightarrow>
              if random_nonce = 0
              then (Err (SessionSignature ''secure nonce generation returned an invalid value''), s)
              else
                let config = mgr_config s;
                    policy = session_policy_new (cfg_chain_id config) (cfg_settlement_contract config)
                      (cfg_payer_wallet_address config) (cde_public_key new_cryptde) max_total now expires_at random_nonce in
                (case session_typed_data (sn_to_hex env) policy of
                   Err e \<Rightarrow> (Err (SessionVerification e), s)
                 | Panic \<Rightarrow> (Panic, s)
                 | Ok typed_data \<Rightarrow>
                     let proposal_id = ''0x'' @ sn_to_hex env (be_bytes 32 random_nonce) in
                     (Ok \<lparr>prop_proposal_id = proposal_id,
                          prop_chain_name = literal_identifier (cfg_chain config),
                          prop_masq_token_contract = chain_contract (cfg_chain config),
                          prop_authorization_id = receipt_session_contract_id (sn_settlement_env env)
                            (rsp_payer_wallet_address policy) (rsp_authorization_nonce policy),
                          prop_policy = policy, prop_eip712_typed_data = typed_data\<rparr>,
                      s\<lparr>mgr_pending_opt := Some \<lparr>pnd_proposal_id = proposal_id, pnd_policy = policy,
                          pnd_payer_cryptde = new_cryptde\<rparr>\<rparr>))))"

definition strip_0x :: "string \<Rightarrow> string" where
  "strip_0x s = (if take 2 s = ''0x'' then drop 2 s else s)"

definition signature_from_hex :: "session_env \<Rightarrow> string \<Rightarrow> (eth_signature, receipt_session_manager_error) res" where
  "signature_from_hex env input =
     and_then (map_err SessionSignature (sn_from_hex env (strip_0x input))) (\<lambda>bs.
       if length bs \<noteq> 65
       then Err (SessionSignature (''expected 65 bytes, received '' @ decimal (length bs)))
       else
         let r = from_be_bytes (take 32 bs) :: bytes32; s = from_be_bytes (take 32 (drop 32 bs)) :: bytes32 in
         if r = 0 \<or> s = 0 \<or> s > secp256k1_half_order
         then Err (SessionSignature ''r and s must be non-zero and s must use canonical low-s form'')
         else
           let b = bs ! 64 in
           if b = 0 \<or> b = 1 then Ok \<lparr>sig_v = b, sig_r = r, sig_s = s\<rparr>
           else if b = 27 \<or> b = 28 then Ok \<lparr>sig_v = b - 27, sig_r = r, sig_s = s\<rparr>
           else Err (SessionSignature (''recovery ID '' @ decimal (unat b) @ '' is not 0, 1, 27 or 28'')))"

definition activate ::
    "session_env \<Rightarrow> 'st recovery_store \<Rightarrow> string \<Rightarrow> string \<Rightarrow> u64 \<Rightarrow> 'st receipt_session_manager \<Rightarrow>
     (receipt_session_status, 'st) session_outcome" where
  "activate env ops proposal_id wallet_signature now s =
     (case mgr_pending_opt s of
        None \<Rightarrow> (Err NoPendingProposal, s)
      | Some pending \<Rightarrow>
          if pnd_proposal_id pending \<noteq> proposal_id then (Err ProposalMismatch, s)
          else if now > rsp_expires_at_unix_s (pnd_policy pending)
          then (Err SessionExpired, s\<lparr>mgr_pending_opt := None\<rparr>)
          else and_then_s (signature_from_hex env wallet_signature, s) (\<lambda>signature s.
            let authorization = \<lparr>ars_policy = pnd_policy pending, ars_wallet_signature = signature\<rparr> in
            and_then_s (map_err SessionVerification (session_verify (sn_receipt_env env) authorization
                (cfg_chain_id (mgr_config s)) (cfg_settlement_contract (mgr_config s))
                (rsp_payer_session_public_key (pnd_policy pending)) now 0), s) (\<lambda>_ s.
              and_then_s
                (case mgr_recovery_store_opt s of
                   Some st \<Rightarrow>
                     (case store_clear ops st of
                        (Inr _, st') \<Rightarrow> (Ok (), s\<lparr>mgr_recovery_store_opt := Some st'\<rparr>)
                      | (Inl message, st') \<Rightarrow>
                          (Err (SessionPersistence message), s\<lparr>mgr_recovery_store_opt := Some st'\<rparr>))
                 | None \<Rightarrow>
                     if mgr_recovery_required s then (Err (SessionPersistence password_required), s)
                     else (Ok (), s))
                (\<lambda>_ s.
                  and_then_s (persist_header env ops
                    (s\<lparr>mgr_pending_opt := None,
                       mgr_active_opt := Some \<lparr>act_authorization = authorization,
                         act_payer_cryptde = pnd_payer_cryptde pending, act_routes = [],
                         act_spent_charge_wei = 0\<rparr>\<rparr>)) (\<lambda>_ s.
                    let (status, s') = session_status env ops now s in (Ok status, s'))))))"

definition session_stop :: "'st recovery_store \<Rightarrow> 'st receipt_session_manager \<Rightarrow> receipt_session_status \<times> 'st receipt_session_manager" where
  "session_stop ops s = (status_inactive, clear_store ops (s\<lparr>mgr_pending_opt := None, mgr_active_opt := None\<rparr>))"

subsection \<open>Routes of a session\<close>

definition set_routes ::
    "(receipt_route_state list \<Rightarrow> receipt_route_state list) \<Rightarrow> active_receipt_session \<Rightarrow>
     'st receipt_session_manager \<Rightarrow> 'st receipt_session_manager" where
  "set_routes f active s = s\<lparr>mgr_active_opt := Some (active\<lparr>act_routes := f (act_routes active)\<rparr>)\<rparr>"

definition request_for_stream ::
    "session_env \<Rightarrow> 'st recovery_store \<Rightarrow> stream_key \<Rightarrow> u64 \<Rightarrow> bytes32 \<Rightarrow> 'st receipt_session_manager \<Rightarrow>
     (receipt_session_request option, 'st) session_outcome" where
  "request_for_stream env ops sk now random_epoch s0 =
     (let s = expire env ops now s0 in
      case mgr_active_opt s of
        None \<Rightarrow> (Ok None, s)
      | Some active \<Rightarrow>
          (case find_route sk active of
             Some route \<Rightarrow> (Ok (Some (rt_request route)), s)
           | None \<Rightarrow>
               if length (act_routes active) \<ge> max_receipt_session_routes
               then (Err (SessionSignature ''receipt session reached its route limit''), s)
               else and_then_s (fresh_route_request env active random_epoch, s) (\<lambda>request s.
                 and_then_s (persist_route env ops sk (set_routes (\<lambda>rs. rs @ [route_state sk request]) active s))
                   (\<lambda>_ s. (Ok (Some request), s)))))"

definition rotate_route_for_stream ::
    "session_env \<Rightarrow> 'st recovery_store \<Rightarrow> stream_key \<Rightarrow> u64 \<Rightarrow> bytes32 \<Rightarrow> 'st receipt_session_manager \<Rightarrow>
     (receipt_session_request option, 'st) session_outcome" where
  "rotate_route_for_stream env ops sk now random_epoch s0 =
     (let s = expire env ops now s0 in
      case mgr_active_opt s of
        None \<Rightarrow> (Ok None, s)
      | Some active \<Rightarrow>
          and_then_s (fresh_route_request env active random_epoch, s) (\<lambda>replacement s.
            and_then_s
              (case find_route sk active of
                 Some _ \<Rightarrow> (Ok (), set_routes (update_first (\<lambda>r. rt_stream_key r = sk) (\<lambda>_. route_state sk replacement)) active s)
               | None \<Rightarrow>
                   if length (act_routes active) < max_receipt_session_routes
                   then (Ok (), set_routes (\<lambda>rs. rs @ [route_state sk replacement]) active s)
                   else (Err (SessionSignature ''receipt session reached its route limit''), s))
              (\<lambda>_ s. and_then_s (persist_route env ops sk s) (\<lambda>_ s. (Ok (Some replacement), s)))))"

definition route_epoch_for_stream :: "stream_key \<Rightarrow> 'st receipt_session_manager \<Rightarrow> bytes32 option" where
  "route_epoch_for_stream sk s =
     Option.bind (mgr_active_opt s) (\<lambda>active.
       map_option (\<lambda>route. rsr_route_epoch (rt_request route)) (find_route sk active))"

text \<open>
  The prefix of the methods that change one route: expire, take the active session, find the
  route of the stream. \<open>update_route\<close> is the assignment through the found reference.
\<close>

definition with_route ::
    "session_env \<Rightarrow> 'st recovery_store \<Rightarrow> stream_key \<Rightarrow> u64 \<Rightarrow> 'st receipt_session_manager \<Rightarrow>
     (active_receipt_session \<Rightarrow> receipt_route_state \<Rightarrow> 'st receipt_session_manager \<Rightarrow> ('a, 'st) session_outcome) \<Rightarrow>
     ('a, 'st) session_outcome" where
  "with_route env ops sk now s0 k =
     (let s = expire env ops now s0 in
      case mgr_active_opt s of
        None \<Rightarrow> (Err NoActiveSession, s)
      | Some active \<Rightarrow>
          (case find_route sk active of
             None \<Rightarrow> (Err ReceiptRouteNotFound, s)
           | Some route \<Rightarrow> k active route s))"

definition update_route ::
    "stream_key \<Rightarrow> receipt_route_state \<Rightarrow> active_receipt_session \<Rightarrow> 'st receipt_session_manager \<Rightarrow> 'st receipt_session_manager" where
  "update_route sk route active s = set_routes (update_first (\<lambda>r. rt_stream_key r = sk) (\<lambda>_. route)) active s"

definition bind_exit_quote ::
    "session_env \<Rightarrow> 'st recovery_store \<Rightarrow> stream_key \<Rightarrow> public_key \<Rightarrow> u64 \<Rightarrow> u64 \<Rightarrow> u64 \<Rightarrow> 'st receipt_session_manager \<Rightarrow>
     (unit, 'st) session_outcome" where
  "bind_exit_quote env ops sk provider service_rate byte_rate now s0 =
     with_route env ops sk now s0 (\<lambda>active route s.
       case (rt_expected_provider_public_key_opt route, rt_exit_service_rate_opt route, rt_exit_byte_rate_opt route) of
         (None, None, None) \<Rightarrow>
           persist_route env ops sk (update_route sk (route\<lparr>rt_expected_provider_public_key_opt := Some provider,
             rt_exit_service_rate_opt := Some service_rate, rt_exit_byte_rate_opt := Some byte_rate\<rparr>) active s)
       | (Some existing_provider, Some existing_service_rate, Some existing_byte_rate) \<Rightarrow>
           if existing_provider = provider \<and> existing_service_rate = service_rate \<and> existing_byte_rate = byte_rate
           then (Ok (), s)
           else (Err (SessionVerification ProviderPublicKeyMismatch), s)
       | _ \<Rightarrow> (Err (SessionVerification ProviderPublicKeyMismatch), s))"

fun collect_provider_states ::
    "routing_receipt_quote list \<Rightarrow> (public_key \<times> routing_provider_receipt_state) list \<Rightarrow>
     ((public_key \<times> routing_provider_receipt_state) list, receipt_session_manager_error) res" where
  "collect_provider_states [] states = Ok states"
| "collect_provider_states (quote # quotes) states =
     (case map_of states (rq_provider_public_key quote) of
        Some existing \<Rightarrow>
          if rps_service_rate existing \<noteq> rq_service_rate quote \<or> rps_byte_rate existing \<noteq> rq_byte_rate quote
          then Err ReceiptQuoteUnavailable
          else collect_provider_states quotes states
      | None \<Rightarrow> collect_provider_states quotes
          (AList.update (rq_provider_public_key quote)
            \<lparr>rps_service_rate = rq_service_rate quote, rps_byte_rate = rq_byte_rate quote,
             rps_observed_payloads = [], rps_checkpoint_opt = None, rps_acknowledged_payload_opt = None\<rparr> states))"

definition bind_routing_quotes ::
    "session_env \<Rightarrow> 'st recovery_store \<Rightarrow> stream_key \<Rightarrow> routing_receipt_quote list \<Rightarrow> routing_receipt_quote list \<Rightarrow> u64 \<Rightarrow>
     'st receipt_session_manager \<Rightarrow> (unit, 'st) session_outcome" where
  "bind_routing_quotes env ops sk request_quotes response_quotes now s0 =
     with_route env ops sk now s0 (\<lambda>active route s.
       let request_providers = map rq_provider_public_key request_quotes;
           response_providers = map rq_provider_public_key response_quotes in
       if rt_routing_provider_states route \<noteq> [] then
         (if rt_routing_request_providers route \<noteq> request_providers
             \<or> rt_routing_response_providers route \<noteq> response_providers
             \<or> list_ex (\<lambda>quote.
                 case map_of (rt_routing_provider_states route) (rq_provider_public_key quote) of
                   Some state \<Rightarrow> rps_service_rate state \<noteq> rq_service_rate quote \<or> rps_byte_rate state \<noteq> rq_byte_rate quote
                 | None \<Rightarrow> True) (request_quotes @ response_quotes)
          then (Err ReceiptQuoteUnavailable, s)
          else (Ok (), s))
       else and_then_s (collect_provider_states (request_quotes @ response_quotes) [], s) (\<lambda>provider_states s.
         persist_route env ops sk (update_route sk (route\<lparr>rt_routing_request_providers := request_providers,
           rt_routing_response_providers := response_providers, rt_routing_provider_states := provider_states\<rparr>) active s)))"

definition push_payload :: "u64 \<Rightarrow> routing_provider_receipt_state \<Rightarrow> routing_provider_receipt_state" where
  "push_payload payload_size state = state\<lparr>rps_observed_payloads := rps_observed_payloads state @ [payload_size]\<rparr>"

fun push_payloads ::
    "public_key list \<Rightarrow> u64 \<Rightarrow> (public_key \<times> routing_provider_receipt_state) list \<Rightarrow>
     ((public_key \<times> routing_provider_receipt_state) list, receipt_session_manager_error) res" where
  "push_payloads [] payload_size states = Ok states"
| "push_payloads (provider # providers) payload_size states =
     and_then (expect (map_of states provider)) (\<lambda>state.
       push_payloads providers payload_size (AList.update provider (push_payload payload_size state) states))"

definition record_routing_payload ::
    "receipt_route_state \<Rightarrow> public_key list \<Rightarrow> u64 \<Rightarrow> (receipt_route_state, receipt_session_manager_error) res" where
  "record_routing_payload route providers payload_size =
     (if list_ex (\<lambda>provider. case map_of (rt_routing_provider_states route) provider of
            Some state \<Rightarrow> length (rps_observed_payloads state) \<ge> max_pending_receipt_responses_per_route
          | None \<Rightarrow> True) providers
      then Err ReceiptObservationMismatch
      else and_then (push_payloads providers payload_size (rt_routing_provider_states route)) (\<lambda>states.
        Ok (route\<lparr>rt_routing_provider_states := states\<rparr>)))"

definition record_routing_request ::
    "session_env \<Rightarrow> 'st recovery_store \<Rightarrow> stream_key \<Rightarrow> u64 \<Rightarrow> u64 \<Rightarrow> 'st receipt_session_manager \<Rightarrow>
     (unit, 'st) session_outcome" where
  "record_routing_request env ops sk payload_size now s0 =
     with_route env ops sk now s0 (\<lambda>active route s.
       and_then_s (record_routing_payload route (rt_routing_request_providers route) payload_size, s) (\<lambda>route' s.
         persist_route env ops sk (update_route sk route' active s)))"

definition record_routing_response ::
    "session_env \<Rightarrow> 'st recovery_store \<Rightarrow> stream_key \<Rightarrow> u64 \<Rightarrow> u64 \<Rightarrow> 'st receipt_session_manager \<Rightarrow>
     (unit, 'st) session_outcome" where
  "record_routing_response env ops sk payload_size now s0 =
     with_route env ops sk now s0 (\<lambda>active route s.
       and_then_s (record_routing_payload route (rt_routing_response_providers route) payload_size, s) (\<lambda>route' s.
         persist_route env ops sk (update_route sk route' active s)))"

definition decrypt_routing_offer ::
    "session_env \<Rightarrow> 'st recovery_store \<Rightarrow> crypt_data \<Rightarrow> u64 \<Rightarrow> 'st receipt_session_manager \<Rightarrow>
     (signed_service_receipt, 'st) session_outcome" where
  "decrypt_routing_offer env ops encrypted_offer now s0 =
     (let s = expire env ops now s0 in
      case mgr_active_opt s of
        None \<Rightarrow> (Err NoActiveSession, s)
      | Some active \<Rightarrow>
          (map_err (\<lambda>e. SessionSignature (''cannot decrypt routing receipt: '' @ sn_codex_error_debug env e))
             (decodex (sn_offer_from_slice env) (act_payer_cryptde active) encrypted_offer), s))"

definition record_exit_response ::
    "session_env \<Rightarrow> 'st recovery_store \<Rightarrow> stream_key \<Rightarrow> u64 \<Rightarrow> u64 \<Rightarrow> u64 \<Rightarrow> 'st receipt_session_manager \<Rightarrow>
     (unit, 'st) session_outcome" where
  "record_exit_response env ops sk sequence payload_size now s0 =
     with_route env ops sk now s0 (\<lambda>active route s.
       if (case rt_checkpoint_opt route of Some checkpoint \<Rightarrow> sequence \<le> ck_last_sequence checkpoint | None \<Rightarrow> False)
          \<or> length (rt_observed_responses route) \<ge> max_pending_receipt_responses_per_route
       then (Err ReceiptObservationMismatch, s)
       else if list_ex (\<lambda>(observed, _, _). observed = sequence) (rt_observed_responses route)
       then (Err ReceiptObservationMismatch, s)
       else and_then_s (ok_or ReceiptObservationMismatch
           (checked_add (rt_pending_request_payload_size route) payload_size), s) (\<lambda>aggregate_payload_size s.
         and_then_s (ok_or ReceiptObservationMismatch
             (checked_add (rt_pending_request_service_units route) 1), s) (\<lambda>aggregate_service_units s.
           persist_route env ops sk (update_route sk
             (route\<lparr>rt_observed_responses := rt_observed_responses route
                       @ [(sequence, aggregate_payload_size, aggregate_service_units)],
                    rt_pending_request_payload_size := 0, rt_pending_request_service_units := 0\<rparr>) active s))))"

text \<open>The payload size is assigned before the number of service units is checked.\<close>

definition record_exit_request ::
    "session_env \<Rightarrow> 'st recovery_store \<Rightarrow> stream_key \<Rightarrow> u64 \<Rightarrow> u64 \<Rightarrow> 'st receipt_session_manager \<Rightarrow>
     (unit, 'st) session_outcome" where
  "record_exit_request env ops sk payload_size now s0 =
     with_route env ops sk now s0 (\<lambda>active route s.
       if payload_size = 0 then (Ok (), s)
       else and_then_s (ok_or ReceiptObservationMismatch
           (checked_add (rt_pending_request_payload_size route) payload_size), s) (\<lambda>pending_payload_size s.
         let route' = route\<lparr>rt_pending_request_payload_size := pending_payload_size\<rparr> in
         and_then_s (ok_or ReceiptObservationMismatch
             (checked_add (rt_pending_request_service_units route) 1), update_route sk route' active s)
           (\<lambda>pending_service_units s.
             persist_route env ops sk
               (update_route sk (route'\<lparr>rt_pending_request_service_units := pending_service_units\<rparr>) active s))))"

subsection \<open>Acknowledging offers\<close>

definition next_checkpoint ::
    "receipt_env \<Rightarrow> receipt_sequence_checkpoint option \<Rightarrow> acknowledged_service_receipt \<Rightarrow> crypt_de \<Rightarrow>
     (receipt_sequence_checkpoint \<times> u128, receipt_session_manager_error) res" where
  "next_checkpoint env checkpoint_opt ack cryptde =
     (case checkpoint_opt of
        Some existing \<Rightarrow>
          and_then (map_err SessionVerification (checkpoint_advance env existing ack cryptde)) (\<lambda>checkpoint.
            Ok (checkpoint, ck_cumulative_charge_wei existing))
      | None \<Rightarrow>
          and_then (map_err SessionVerification (checkpoint_begin env ack cryptde)) (\<lambda>checkpoint.
            Ok (checkpoint, 0)))"

definition charge_session ::
    "active_receipt_session \<Rightarrow> receipt_sequence_checkpoint \<Rightarrow> u128 \<Rightarrow> (u128, receipt_session_manager_error) res" where
  "charge_session active checkpoint previous_charge =
     and_then (ok_or (SessionVerification CumulativeChargeMismatch)
         (checked_sub (ck_cumulative_charge_wei checkpoint) previous_charge)) (\<lambda>delta.
       and_then (ok_or (SessionVerification AmountLimitExceeded)
           (checked_add (act_spent_charge_wei active) delta)) (\<lambda>spent.
         if spent > rsp_max_total_charge_wei (ars_policy (act_authorization active))
         then Err (SessionVerification AmountLimitExceeded)
         else Ok spent))"

text \<open>
  What both kinds of offer go through once they match an observation: acknowledge, verify the
  acknowledgement under the session, move the checkpoint, charge the session.
\<close>

definition admit_offer ::
    "session_env \<Rightarrow> receipt_session_config \<Rightarrow> active_receipt_session \<Rightarrow> receipt_sequence_checkpoint option \<Rightarrow>
     signed_service_receipt \<Rightarrow> u64 \<Rightarrow>
     (service_receipt_payload \<times> receipt_sequence_checkpoint \<times> u128, receipt_session_manager_error) res" where
  "admit_offer env config active checkpoint_opt offer now =
     (let renv = sn_receipt_env env; cryptde = act_payer_cryptde active in
      and_then (map_err SessionVerification (signed_acknowledge renv offer cryptde)) (\<lambda>ack.
        and_then (map_err SessionVerification (verify_for_receipt renv (act_authorization active) ack cryptde
            (cfg_chain_id config) (cfg_settlement_contract config) now)) (\<lambda>_.
          and_then (next_checkpoint renv checkpoint_opt ack cryptde) (\<lambda>(checkpoint, previous_charge).
            and_then (charge_session active checkpoint previous_charge) (\<lambda>spent.
              Ok (\<lparr>srp_authorization = act_authorization active, srp_acknowledged_receipt = ack\<rparr>, checkpoint, spent))))))"

definition update_epoch ::
    "bytes32 \<Rightarrow> receipt_route_state \<Rightarrow> u128 \<Rightarrow> active_receipt_session \<Rightarrow> 'st receipt_session_manager \<Rightarrow>
     'st receipt_session_manager" where
  "update_epoch e route spent active s = s\<lparr>mgr_active_opt := Some (active\<lparr>
     act_routes := update_first (\<lambda>r. rsr_route_epoch (rt_request r) = e) (\<lambda>_. route) (act_routes active),
     act_spent_charge_wei := spent\<rparr>)\<rparr>"

text \<open>The payload already returned for the same offer, which is returned again.\<close>

definition acknowledged_before ::
    "service_receipt_payload option \<Rightarrow> signed_service_receipt \<Rightarrow> service_receipt_payload option" where
  "acknowledged_before payload_opt offer =
     (case payload_opt of
        Some payload \<Rightarrow>
          if asr_signed_receipt (srp_acknowledged_receipt payload) = offer then Some payload else None
      | None \<Rightarrow> None)"

definition acknowledge_routing_offer ::
    "session_env \<Rightarrow> 'st recovery_store \<Rightarrow> signed_service_receipt \<Rightarrow> u64 \<Rightarrow> 'st receipt_session_manager \<Rightarrow>
     (service_receipt_payload, 'st) session_outcome" where
  "acknowledge_routing_offer env ops offer now s0 =
     (let s = expire env ops now s0; offered = ssr_receipt offer; epoch = sr_route_epoch offered;
          provider = sr_provider_public_key offered in
      case mgr_active_opt s of
        None \<Rightarrow> (Err NoActiveSession, s)
      | Some active \<Rightarrow>
          (case find_epoch epoch active of
             None \<Rightarrow> (Err ReceiptRouteNotFound, s)
           | Some route \<Rightarrow>
               (case map_of (rt_routing_provider_states route) provider of
                  None \<Rightarrow> (Err ReceiptQuoteUnavailable, s)
                | Some state \<Rightarrow>
                    (case acknowledged_before (rps_acknowledged_payload_opt state) offer of
                       Some payload \<Rightarrow> (Ok payload, s)
                     | None \<Rightarrow>
                         (case rps_observed_payloads state of
                            [] \<Rightarrow> (Err ReceiptObservationMismatch, s)
                          | expected_payload_size # later_payloads \<Rightarrow>
                              and_then_s (case rps_checkpoint_opt state of
                                  Some checkpoint \<Rightarrow> ok_or ReceiptObservationMismatch (checked_add (ck_last_sequence checkpoint) 1)
                                | None \<Rightarrow> Ok 1, s) (\<lambda>expected_sequence s.
                                if sr_service_kind offered \<noteq> Routing
                                   \<or> sr_service_rate offered \<noteq> rps_service_rate state
                                   \<or> sr_byte_rate offered \<noteq> rps_byte_rate state
                                   \<or> sr_sequence offered \<noteq> expected_sequence
                                   \<or> sr_payload_size offered \<noteq> expected_payload_size
                                   \<or> sr_service_units offered \<noteq> 1
                                then (Err ReceiptObservationMismatch, s)
                                else and_then_s (admit_offer env (mgr_config s) active (rps_checkpoint_opt state) offer now, s)
                                  (\<lambda>(payload, checkpoint, spent) s.
                                    let state' = state\<lparr>rps_checkpoint_opt := Some checkpoint,
                                          rps_acknowledged_payload_opt := Some payload,
                                          rps_observed_payloads := later_payloads\<rparr>;
                                        route' = route\<lparr>rt_routing_provider_states :=
                                          AList.update provider state' (rt_routing_provider_states route)\<rparr> in
                                    and_then_s (persist_route env ops (rt_stream_key route)
                                        (update_epoch epoch route' spent active s))
                                      (\<lambda>_ s. (Ok payload, s)))))))))"

definition acknowledge_offer ::
    "session_env \<Rightarrow> 'st recovery_store \<Rightarrow> signed_service_receipt \<Rightarrow> u64 \<Rightarrow> 'st receipt_session_manager \<Rightarrow>
     (service_receipt_payload, 'st) session_outcome" where
  "acknowledge_offer env ops offer now s0 =
     (if sr_service_kind (ssr_receipt offer) = Routing then acknowledge_routing_offer env ops offer now s0
      else
      let s = expire env ops now s0; offered = ssr_receipt offer; epoch = sr_route_epoch offered in
      case mgr_active_opt s of
        None \<Rightarrow> (Err NoActiveSession, s)
      | Some active \<Rightarrow>
          (case find_epoch epoch active of
             None \<Rightarrow> (Err ReceiptRouteNotFound, s)
           | Some route \<Rightarrow>
               (case acknowledged_before (rt_acknowledged_payload_opt route) offer of
                  Some payload \<Rightarrow> (Ok payload, s)
                | None \<Rightarrow>
                    and_then_s (ok_or ReceiptQuoteUnavailable (rt_expected_provider_public_key_opt route), s) (\<lambda>expected_provider s.
                    and_then_s (ok_or ReceiptQuoteUnavailable (rt_exit_service_rate_opt route), s) (\<lambda>expected_service_rate s.
                    and_then_s (ok_or ReceiptQuoteUnavailable (rt_exit_byte_rate_opt route), s) (\<lambda>expected_byte_rate s.
                      case rt_observed_responses route of
                        [] \<Rightarrow> (Err ReceiptObservationMismatch, s)
                      | expected_response # later_responses \<Rightarrow>
                          if sr_provider_public_key offered \<noteq> expected_provider
                          then (Err (SessionVerification ProviderPublicKeyMismatch), s)
                          else if sr_service_kind offered \<noteq> Exit
                             \<or> sr_service_rate offered \<noteq> expected_service_rate
                             \<or> sr_byte_rate offered \<noteq> expected_byte_rate
                             \<or> sr_sequence offered \<noteq> fst expected_response
                             \<or> sr_payload_size offered \<noteq> fst (snd expected_response)
                             \<or> sr_service_units offered \<noteq> snd (snd expected_response)
                          then (Err ReceiptObservationMismatch, s)
                          else and_then_s (admit_offer env (mgr_config s) active (rt_checkpoint_opt route) offer now, s)
                            (\<lambda>(payload, checkpoint, spent) s.
                              let route' = route\<lparr>rt_checkpoint_opt := Some checkpoint,
                                    rt_acknowledged_payload_opt := Some payload,
                                    rt_observed_responses := later_responses\<rparr> in
                              and_then_s (persist_route env ops (rt_stream_key route)
                                  (update_epoch epoch route' spent active s))
                                (\<lambda>_ s. (Ok payload, s)))))))))"

end
