(* ===== verification/Session_Safety.thy ===== *)
theory Session_Safety
  imports Receipt_Session
begin

section \<open>Safety of the receipt-session manager\<close>

text \<open>
  The invariant of \<open>ReceiptSessionManager\<close> and what follows from it: the wallet's limit bounds
  everything the manager acknowledges, a saved session is restored as it was, acknowledging an
  offer twice has no further effect, and the manager fails closed when it cannot save. The step
  relation has one rule per method; the ledger beside the manager is the list of payloads handed
  out in the current session.
\<close>

subsection \<open>The invariant\<close>

definition checkpoint_identity ::
    "authorized_receipt_session \<Rightarrow> receipt_session_request \<Rightarrow> receipt_sequence_checkpoint \<Rightarrow> public_key \<Rightarrow> bool" where
  "checkpoint_identity auth request ck provider \<longleftrightarrow>
     ck_route_epoch ck = rsr_route_epoch request \<and> ck_provider_public_key ck = provider \<and>
     ck_accounting_commitment ck = rsr_accounting_commitment request \<and>
     ck_payer_session_public_key ck = rsp_payer_session_public_key (ars_policy auth)"

definition request_ok :: "receipt_env \<Rightarrow> authorized_receipt_session \<Rightarrow> receipt_session_request \<Rightarrow> bool" where
  "request_ok env auth q \<longleftrightarrow> rsr_authorization q = auth \<and> rsr_route_epoch q \<noteq> 0 \<and>
     rsr_accounting_commitment q =
       make_accounting_commitment env (rsr_route_epoch q) (rsp_payer_session_public_key (ars_policy auth))"

definition provider_ok ::
    "authorized_receipt_session \<Rightarrow> receipt_session_request \<Rightarrow> public_key \<Rightarrow> routing_provider_receipt_state \<Rightarrow> bool" where
  "provider_ok auth q provider state \<longleftrightarrow>
     length (rps_observed_payloads state) \<le> max_pending_receipt_responses_per_route \<and>
     (\<forall>ck. rps_checkpoint_opt state = Some ck \<longrightarrow> checkpoint_identity auth q ck provider)"

definition route_ok :: "receipt_env \<Rightarrow> authorized_receipt_session \<Rightarrow> receipt_route_state \<Rightarrow> bool" where
  "route_ok env auth route \<longleftrightarrow>
     request_ok env auth (rt_request route) \<and>
     length (rt_observed_responses route) \<le> max_pending_receipt_responses_per_route \<and>
     (\<forall>ck. rt_checkpoint_opt route = Some ck \<longrightarrow> (\<exists>provider. rt_expected_provider_public_key_opt route = Some provider \<and>
        checkpoint_identity auth (rt_request route) ck provider)) \<and>
     distinct (map fst (rt_routing_provider_states route)) \<and>
     distinct (rt_routing_request_providers route) \<and> distinct (rt_routing_response_providers route) \<and>
     (\<forall>(provider, state) \<in> set (rt_routing_provider_states route). provider_ok auth (rt_request route) provider state)"

definition routes_ok :: "receipt_env \<Rightarrow> authorized_receipt_session \<Rightarrow> receipt_route_state list \<Rightarrow> bool" where
  "routes_ok env auth routes \<longleftrightarrow>
     distinct (map rt_stream_key routes) \<and> distinct (map (\<lambda>r. rsr_route_epoch (rt_request r)) routes) \<and>
     length routes \<le> max_receipt_session_routes \<and> (\<forall>route \<in> set routes. route_ok env auth route)"

definition session_ok :: "session_env \<Rightarrow> receipt_session_config \<Rightarrow> active_receipt_session \<Rightarrow> bool" where
  "session_ok env config a \<longleftrightarrow>
     (let auth = act_authorization a; p = ars_policy auth in
      routes_ok (sn_receipt_env env) auth (act_routes a) \<and>
      unat (act_spent_charge_wei a) \<le> unat (rsp_max_total_charge_wei p) \<and>
      cde_public_key (act_payer_cryptde a) = rsp_payer_session_public_key p \<and>
      rsp_payer_wallet_address p = cfg_payer_wallet_address config \<and>
      (\<exists>t. session_verify (sn_receipt_env env) auth (cfg_chain_id config) (cfg_settlement_contract config)
         (rsp_payer_session_public_key p) t 0 = Ok ()))"

definition pending_ok :: "receipt_session_config \<Rightarrow> pending_receipt_session \<Rightarrow> bool" where
  "pending_ok config p \<longleftrightarrow>
     cde_public_key (pnd_payer_cryptde p) = rsp_payer_session_public_key (pnd_policy p) \<and>
     rsp_payer_wallet_address (pnd_policy p) = cfg_payer_wallet_address config"

definition manager_ok :: "session_env \<Rightarrow> 'st receipt_session_manager \<Rightarrow> bool" where
  "manager_ok env s \<longleftrightarrow> (\<forall>a. mgr_active_opt s = Some a \<longrightarrow> session_ok env (mgr_config s) a) \<and>
     (\<forall>p. mgr_pending_opt s = Some p \<longrightarrow> pending_ok (mgr_config s) p)"

subsection \<open>Lists of routes\<close>

lemma update_first_split:
  "List.find p xs = Some x \<Longrightarrow>
     \<exists>ys zs. xs = ys @ x # zs \<and> p x \<and> (\<forall>y \<in> set ys. \<not> p y) \<and> update_first p f xs = ys @ f x # zs"
proof (induction xs)
  case (Cons a xs)
  show ?case
  proof (cases "p a")
    case True
    with Cons.prems show ?thesis by (intro exI [of _ "[]"] exI [of _ xs]) simp
  next
    case False
    with Cons obtain ys zs where "xs = ys @ x # zs" "p x" "\<forall>y \<in> set ys. \<not> p y" "update_first p f xs = ys @ f x # zs"
      by auto
    with False show ?thesis by (intro exI [of _ "a # ys"] exI [of _ zs]) simp
  qed
qed simp

lemma find_Some_mem: "List.find p xs = Some x \<Longrightarrow> x \<in> set xs \<and> p x"
  by (auto simp: find_Some_iff in_set_conv_nth)

lemma find_update_first: "List.find p xs = Some x \<Longrightarrow> q (f x) \<Longrightarrow> List.find q (update_first p f xs) \<noteq> None"
  using update_first_split [of p xs x f] by (auto simp: find_None_iff)

text \<open>Replacing one route by one with the same identity, and adding a fresh route.\<close>

lemma routes_ok_update:
  assumes "routes_ok env auth routes" and "List.find p routes = Some route" and "route_ok env auth route'"
    and "rt_stream_key route' = rt_stream_key route"
    and "rsr_route_epoch (rt_request route') = rsr_route_epoch (rt_request route)
      \<or> rsr_route_epoch (rt_request route') \<notin> (\<lambda>r. rsr_route_epoch (rt_request r)) ` set routes"
  shows "routes_ok env auth (update_first p (\<lambda>_. route') routes)"
proof -
  obtain ys zs where r: "routes = ys @ route # zs" "update_first p (\<lambda>_. route') routes = ys @ route' # zs"
    using update_first_split [OF assms(2), of "\<lambda>_. route'"] by auto
  have "rsr_route_epoch (rt_request route') \<notin> (\<lambda>r. rsr_route_epoch (rt_request r)) ` set (ys @ zs)"
    using assms(1,5) by (auto simp: r(1) routes_ok_def simp del: image_iff)
  then show ?thesis
    unfolding r(2) using assms(1,3,4) by (auto simp: routes_ok_def r(1) image_Un)
qed

lemma routes_ok_append:
  assumes "routes_ok env auth routes" and "route_ok env auth route" and "length routes < max_receipt_session_routes"
    and "rt_stream_key route \<notin> rt_stream_key ` set routes"
    and "rsr_route_epoch (rt_request route) \<notin> (\<lambda>r. rsr_route_epoch (rt_request r)) ` set routes"
  shows "routes_ok env auth (routes @ [route])"
  using assms by (auto simp: routes_ok_def)

lemma routes_ok_mem: "routes_ok env auth routes \<Longrightarrow> route \<in> set routes \<Longrightarrow> route_ok env auth route"
  by (simp add: routes_ok_def)

lemma fresh_route_request_Ok:
  assumes "fresh_route_request env a e = Ok q"
  shows "request_ok (sn_receipt_env env) (act_authorization a) q \<and> rsr_route_epoch q = e \<and>
    e \<notin> (\<lambda>r. rsr_route_epoch (rt_request r)) ` set (act_routes a)"
  using assms
  by (auto simp: fresh_route_request_def session_request_new_def res_simps request_ok_def list_ex_iff split: if_splits)

lemma route_ok_fresh: "request_ok env auth q \<Longrightarrow> route_ok env auth (route_state sk q)"
  by (simp add: route_ok_def route_state_def)

subsection \<open>Outcomes\<close>

lemma and_then_s_cases:
  "and_then_s (m, s) k = (case m of Ok a \<Rightarrow> k a s | Err e \<Rightarrow> (Err e, s) | Panic \<Rightarrow> (Panic, s))"
  by (simp add: and_then_s_def split: res.split)

lemma and_then_s_simps [simp]:
  "and_then_s (Ok a, s) k = k a s" "and_then_s (Err e, s) k = (Err e, s)" "and_then_s (Panic, s) k = (Panic, s)"
  by (simp_all add: and_then_s_def)

text \<open>
  What happens to the manager inside a method that does not change the session: the active session
  is kept or dropped, and nothing else that the invariant speaks of changes.
\<close>

definition keeps :: "'st receipt_session_manager \<Rightarrow> 'st receipt_session_manager \<Rightarrow> bool" where
  "keeps s s' \<longleftrightarrow> mgr_config s' = mgr_config s \<and> mgr_pending_opt s' = mgr_pending_opt s \<and>
     (mgr_active_opt s' = mgr_active_opt s \<or> mgr_active_opt s' = None)"

lemma keeps_refl [simp]: "keeps s s"
  by (simp add: keeps_def)

lemma keeps_trans: "keeps s s' \<Longrightarrow> keeps s' s'' \<Longrightarrow> keeps s s''"
  by (auto simp: keeps_def)

lemma keeps_clear_store [simp]: "keeps s (clear_store ops (s\<lparr>mgr_active_opt := None\<rparr>))"
  by (simp add: keeps_def clear_store_def split: option.split)

lemma keeps_revoke: "revoke_after_persistence_error ops m s = (r, s') \<Longrightarrow> keeps s s' \<and> mgr_active_opt s' = None"
  by (auto simp: revoke_after_persistence_error_def keeps_def clear_store_def split: option.splits)

lemma revoke_simps [simp]:
  "fst (revoke_after_persistence_error ops m s) = Err (SessionPersistence m)"
  "mgr_active_opt (snd (revoke_after_persistence_error ops m s)) = None"
  "mgr_config (snd (revoke_after_persistence_error ops m s)) = mgr_config s"
  "mgr_pending_opt (snd (revoke_after_persistence_error ops m s)) = mgr_pending_opt s"
  by (simp_all add: revoke_after_persistence_error_def clear_store_def split: option.split)

text \<open>Saving either succeeds and keeps the session, or fails with its text and drops it.\<close>

lemma save_or_revoke_result:
  "keeps s (snd (save_or_revoke ops save s)) \<and>
   (fst (save_or_revoke ops save s) = Ok () \<and> mgr_active_opt (snd (save_or_revoke ops save s)) = mgr_active_opt s \<or>
    (\<exists>m. fst (save_or_revoke ops save s) = Err (SessionPersistence m)) \<and> mgr_active_opt (snd (save_or_revoke ops save s)) = None)"
proof (cases "mgr_recovery_store_opt s")
  case None
  then show ?thesis by (simp add: save_or_revoke_def keeps_def)
next
  case (Some st)
  obtain x st' where "save st = (x, st')" by force
  with Some show ?thesis by (cases x) (simp_all add: save_or_revoke_def keeps_def)
qed

lemma persist_header_result:
  "keeps s (snd (persist_header env ops s)) \<and>
   (fst (persist_header env ops s) = Ok () \<and> mgr_active_opt (snd (persist_header env ops s)) = mgr_active_opt s \<or>
    (\<exists>m. fst (persist_header env ops s) = Err (SessionPersistence m)) \<and> mgr_active_opt (snd (persist_header env ops s)) = None)"
proof (cases "mgr_active_opt s")
  case (Some a)
  then show ?thesis
    using save_or_revoke_result [of s ops "store_save_header ops (persisted_header env a)"]
    by (simp add: persist_header_def)
qed (simp add: persist_header_def)

lemma persist_route_result:
  "keeps s (snd (persist_route env ops sk s)) \<and>
   (fst (persist_route env ops sk s) = Ok () \<and> mgr_active_opt (snd (persist_route env ops sk s)) = mgr_active_opt s \<or>
    (\<exists>m. fst (persist_route env ops sk s) = Err (SessionPersistence m)) \<and> mgr_active_opt (snd (persist_route env ops sk s)) = None \<or>
    (\<exists>a. mgr_active_opt s = Some a \<and> find_route sk a = None) \<and> persist_route env ops sk s = (Err ReceiptRouteNotFound, s))"
proof (cases "mgr_active_opt s")
  case (Some a)
  then show ?thesis
    using save_or_revoke_result [of s ops "store_save_header_and_route ops (persisted_header env a) (the (find_route sk a))"]
    by (cases "find_route sk a") (auto simp: persist_route_def)
qed (simp add: persist_route_def)

lemma expire_keeps: "keeps s (expire env ops now s)"
  by (cases "mgr_active_opt s") (simp_all add: expire_def session_status_def Let_def)

lemma expire_active:
  "mgr_active_opt (expire env ops now s) = Some a \<longleftrightarrow>
     mgr_active_opt s = Some a \<and> now \<le> rsp_expires_at_unix_s (ars_policy (act_authorization a))"
proof (cases "mgr_active_opt s")
  case (Some b)
  then show ?thesis
    by (cases "rsp_expires_at_unix_s (ars_policy (act_authorization b)) < now")
      (auto simp: expire_def session_status_def Let_def clear_store_def not_less split: option.splits)
qed (simp add: expire_def session_status_def Let_def)

lemma expire_live:
  assumes "mgr_active_opt (expire env ops now s) = Some a"
  shows "expire env ops now s = s"
proof -
  have "mgr_active_opt s = Some a" "\<not> rsp_expires_at_unix_s (ars_policy (act_authorization a)) < now"
    using assms by (auto simp: expire_active not_less)
  then show ?thesis by (simp add: expire_def session_status_def Let_def)
qed

lemma manager_ok_keeps: "manager_ok env s \<Longrightarrow> keeps s s' \<Longrightarrow> manager_ok env s'"
  by (auto simp: manager_ok_def keeps_def)

subsection \<open>Methods that change routes but charge nothing\<close>

definition route_payloads :: "receipt_route_state \<Rightarrow> service_receipt_payload set" where
  "route_payloads r = set_option (rt_acknowledged_payload_opt r) \<union>
     (\<Union>(k, st) \<in> set (rt_routing_provider_states r). set_option (rps_acknowledged_payload_opt st))"

definition stored_payloads :: "active_receipt_session \<Rightarrow> service_receipt_payload set" where
  "stored_payloads a = (\<Union>r \<in> set (act_routes a). route_payloads r)"

definition reroutes :: "session_env \<Rightarrow> active_receipt_session \<Rightarrow> active_receipt_session \<Rightarrow> bool" where
  "reroutes env a a' \<longleftrightarrow> act_authorization a' = act_authorization a \<and> act_payer_cryptde a' = act_payer_cryptde a \<and>
     act_spent_charge_wei a' = act_spent_charge_wei a \<and>
     (routes_ok (sn_receipt_env env) (act_authorization a) (act_routes a) \<longrightarrow>
      routes_ok (sn_receipt_env env) (act_authorization a) (act_routes a') \<and> stored_payloads a' \<subseteq> stored_payloads a)"

text \<open>The session after a method is none, the one before, or one that \<open>R\<close> relates to it.\<close>

definition evolves ::
    "(active_receipt_session \<Rightarrow> active_receipt_session \<Rightarrow> bool) \<Rightarrow> 'st receipt_session_manager \<Rightarrow> 'st receipt_session_manager \<Rightarrow> bool" where
  "evolves R s s' \<longleftrightarrow> mgr_config s' = mgr_config s \<and> mgr_pending_opt s' = mgr_pending_opt s \<and>
     (\<forall>a'. mgr_active_opt s' = Some a' \<longrightarrow> (\<exists>a. mgr_active_opt s = Some a \<and> (a' = a \<or> R a a')))"

lemma evolves_keeps: "keeps s s' \<Longrightarrow> evolves R s s'"
  by (auto simp: evolves_def keeps_def)

lemma evolves_persist:
  assumes "mgr_active_opt s = Some a" and "R a a'"
  shows "evolves R s (snd (persist_route env ops sk (s\<lparr>mgr_active_opt := Some a'\<rparr>)))"
  using assms persist_route_result [of "s\<lparr>mgr_active_opt := Some a'\<rparr>" env ops sk]
  by (auto simp: evolves_def keeps_def)

lemma evolves_bind:
  assumes "evolves R s (snd m)" and "\<And>x t. m = (Ok x, t) \<Longrightarrow> evolves R s (snd (k x t))"
  shows "evolves R s (snd (and_then_s m k))"
  using assms by (cases m) (auto simp: and_then_s_def split: res.split)

lemma evolves_persist_then:
  assumes "mgr_active_opt s = Some a" and "R a a'"
  shows "evolves R s (snd (and_then_s (persist_route env ops sk (s\<lparr>mgr_active_opt := Some a'\<rparr>)) (\<lambda>_ t. (Ok x, t))))"
  by (rule evolves_bind) (use evolves_persist [of s a R a' env ops sk] assms in auto)

lemma evolves_with_route:
  assumes "\<And>a route. mgr_active_opt s0 = Some a \<Longrightarrow> find_route sk a = Some route \<Longrightarrow> evolves R s0 (snd (k a route s0))"
  shows "evolves R s0 (snd (with_route env ops sk now s0 k))"
proof (cases "mgr_active_opt (expire env ops now s0)")
  case None
  then show ?thesis
    using evolves_keeps [OF expire_keeps] by (simp add: with_route_def Let_def)
next
  case (Some a)
  then show ?thesis
    using assms [of a] expire_live [OF Some] Some by (auto simp: with_route_def Let_def evolves_keeps split: option.splits)
qed

lemma stored_update:
  assumes "List.find p (act_routes a) = Some route"
  shows "stored_payloads (a\<lparr>act_routes := update_first p (\<lambda>_. route') (act_routes a)\<rparr>) \<subseteq> stored_payloads a \<union> route_payloads route'"
  using update_first_split [OF assms, of "\<lambda>_. route'"] by (auto simp: stored_payloads_def)

lemma reroutes_update:
  assumes "find_route sk a = Some route" and "rt_stream_key route' = rt_stream_key route"
    and "rt_request route' = rt_request route"
    and "route_ok (sn_receipt_env env) (act_authorization a) route \<Longrightarrow>
      route_ok (sn_receipt_env env) (act_authorization a) route' \<and> route_payloads route' \<subseteq> route_payloads route"
  shows "reroutes env a (a\<lparr>act_routes := update_first (\<lambda>r. rt_stream_key r = sk) (\<lambda>_. route') (act_routes a)\<rparr>)"
proof -
  note f = assms(1) [unfolded find_route_def]
  have "route_payloads route \<subseteq> stored_payloads a"
    using find_Some_mem [OF f] by (auto simp: stored_payloads_def)
  moreover have "routes_ok e auth (act_routes a) \<Longrightarrow> route_ok e auth route" for e auth
    using find_Some_mem [OF f] by (simp add: routes_ok_mem)
  ultimately show ?thesis
    using routes_ok_update [OF _ f, of "sn_receipt_env env" "act_authorization a" route'] assms(2-4) stored_update [OF f, of route']
    by (auto simp: reroutes_def) blast
qed

lemma evolves_update:
  assumes "mgr_active_opt s = Some a" and "find_route sk a = Some route" and "rt_stream_key route' = rt_stream_key route"
    and "rt_request route' = rt_request route"
    and "route_ok (sn_receipt_env env) (act_authorization a) route \<Longrightarrow>
      route_ok (sn_receipt_env env) (act_authorization a) route' \<and> route_payloads route' \<subseteq> route_payloads route"
  shows "evolves (reroutes env) s (snd (persist_route env' ops sk (update_route sk route' a s)))"
    and "evolves (reroutes env) s (update_route sk route' a s)"
  using evolves_persist [OF assms(1), of "reroutes env", OF reroutes_update [OF assms(2-5)]] reroutes_update [OF assms(2-5)] assms(1)
  by (auto simp: update_route_def set_routes_def evolves_def)

lemma bind_exit_quote_evolves:
  "evolves (reroutes env) s (snd (bind_exit_quote env ops sk provider rate byte_rate now s))"
  unfolding bind_exit_quote_def
proof (rule evolves_with_route, goal_cases)
  case (1 a route)
  then show ?case
    by (auto simp: evolves_keeps route_ok_def route_payloads_def intro!: evolves_update [OF 1] split: option.split)
qed

lemma set_AList_update:
  assumes "distinct (map fst xs)"
  shows "(k', v') \<in> set (AList.update k v xs) \<longleftrightarrow> (if k' = k then v' = v else (k', v') \<in> set xs)"
  unfolding map_of_eq_Some_iff [OF distinct_update [OF assms], symmetric] map_of_eq_Some_iff [OF assms, symmetric]
  by (auto simp: update_conv')

lemma collect_provider_states_Ok:
  assumes "collect_provider_states qs states = Ok states'" and "distinct (map fst states)"
    and "\<forall>(k, st) \<in> set states. rps_observed_payloads st = [] \<and> rps_checkpoint_opt st = None \<and> rps_acknowledged_payload_opt st = None"
  shows "distinct (map fst states') \<and>
    (\<forall>(k, st) \<in> set states'. rps_observed_payloads st = [] \<and> rps_checkpoint_opt st = None \<and> rps_acknowledged_payload_opt st = None)"
  using assms
proof (induction qs states rule: collect_provider_states.induct)
  case (2 q qs states)
  show ?case
  proof (cases "map_of states (rq_provider_public_key q)")
    case None
    then show ?thesis
      using "2.prems" by (intro "2.IH"(1)) (auto simp: distinct_update set_AList_update split: if_splits)
  next
    case (Some st)
    then show ?thesis
      using "2.prems" by (intro "2.IH"(2) [OF Some]) (auto split: if_splits)
  qed
qed simp

lemma bind_routing_quotes_evolves:
  assumes "distinct (map rq_provider_public_key request_quotes)" and "distinct (map rq_provider_public_key response_quotes)"
  shows "evolves (reroutes env) s (snd (bind_routing_quotes env ops sk request_quotes response_quotes now s))"
  unfolding bind_routing_quotes_def
proof (rule evolves_with_route, goal_cases)
  case (1 a route)
  show ?case
  proof (cases "rt_routing_provider_states route = []")
    case True
    show ?thesis
    proof (cases "collect_provider_states (request_quotes @ response_quotes) []")
      case (Ok states)
      have st: "distinct (map fst states)"
          "\<forall>(k, st) \<in> set states. rps_observed_payloads st = [] \<and> rps_checkpoint_opt st = None \<and> rps_acknowledged_payload_opt st = None"
        using collect_provider_states_Ok [OF Ok] by simp_all
      have "evolves (reroutes env) s (snd (persist_route env ops sk (update_route sk
          (route\<lparr>rt_routing_request_providers := map rq_provider_public_key request_quotes,
           rt_routing_response_providers := map rq_provider_public_key response_quotes,
           rt_routing_provider_states := states\<rparr>) a s)))"
        using st assms by (intro evolves_update [OF 1]) (fastforce simp: route_payloads_def route_ok_def provider_ok_def)+
      then show ?thesis
        using True Ok by (simp add: Let_def and_then_s_cases)
    qed (use True in \<open>simp_all add: Let_def and_then_s_cases evolves_keeps\<close>)
  qed (simp add: Let_def evolves_keeps)
qed

lemma push_payloads_Ok:
  assumes "push_payloads ps n states = Ok states'" and "distinct ps" and "distinct (map fst states)"
  shows "distinct (map fst states') \<and>
    (\<forall>(k, st') \<in> set states'. \<exists>st. (k, st) \<in> set states \<and> st' = (if k \<in> set ps then push_payload n st else st))"
  using assms
proof (induction ps n states rule: push_payloads.induct)
  case (2 p ps n states)
  obtain st where st: "map_of states p = Some st"
      "push_payloads ps n (AList.update p (push_payload n st) states) = Ok states'"
    using "2.prems"(1) by (auto simp: res_simps)
  let ?states1 = "AList.update p (push_payload n st) states"
  have d: "distinct (map fst ?states1)"
    using "2.prems"(3) by (rule distinct_update)
  have IH: "distinct (map fst states')"
      "\<forall>(k, st') \<in> set states'. \<exists>st1. (k, st1) \<in> set ?states1 \<and> st' = (if k \<in> set ps then push_payload n st1 else st1)"
    using "2.IH" [OF st(2) _ d] "2.prems"(2) by auto
  have m: "(k, st1) \<in> set ?states1 \<longleftrightarrow> (if k = p then st1 = push_payload n st else (k, st1) \<in> set states)" for k st1
    using "2.prems"(3) by (rule set_AList_update)
  show ?case
  proof (intro conjI ballI, rule IH(1))
    fix x assume x: "x \<in> set states'"
    obtain k st' where k: "x = (k, st')" by force
    then obtain st1 where "(k, st1) \<in> set ?states1" "st' = (if k \<in> set ps then push_payload n st1 else st1)"
      using IH(2) x by blast
    then show "case x of (k, st') \<Rightarrow> \<exists>st. (k, st) \<in> set states \<and> st' = (if k \<in> set (p # ps) then push_payload n st else st)"
      using map_of_SomeD [OF st(1)] "2.prems"(2) by (auto simp: m k split: if_splits)
  qed
qed auto

lemma push_payloads_not_Panic:
  "(\<And>p. p \<in> set ps \<Longrightarrow> map_of states p \<noteq> None) \<Longrightarrow> push_payloads ps n states \<noteq> Panic"
  by (induction ps n states rule: push_payloads.induct) (auto simp: res_simps update_conv')

lemma push_payload_simps [simp]:
  "rps_observed_payloads (push_payload n st) = rps_observed_payloads st @ [n]"
  "rps_checkpoint_opt (push_payload n st) = rps_checkpoint_opt st"
  "rps_acknowledged_payload_opt (push_payload n st) = rps_acknowledged_payload_opt st"
  by (simp_all add: push_payload_def)

lemma record_routing_payload_Ok:
  assumes "record_routing_payload route ps n = Ok route'" and "distinct ps" and "route_ok env auth route"
  shows "route_ok env auth route' \<and> route_payloads route' \<subseteq> route_payloads route"
proof -
  obtain states where st: "push_payloads ps n (rt_routing_provider_states route) = Ok states"
      "route' = route\<lparr>rt_routing_provider_states := states\<rparr>"
    and lim: "\<And>p st. p \<in> set ps \<Longrightarrow> map_of (rt_routing_provider_states route) p = Some st \<Longrightarrow>
        length (rps_observed_payloads st) < max_pending_receipt_responses_per_route"
    using assms(1) by (fastforce simp: record_routing_payload_def res_simps list_ex_iff not_le split: if_splits)
  have d: "distinct (map fst (rt_routing_provider_states route))"
    using assms(3) by (simp add: route_ok_def)
  note p = push_payloads_Ok [OF st(1) assms(2) d]
  have "provider_ok auth (rt_request route) k st'" if m: "(k, st') \<in> set states" for k st'
  proof -
    obtain st where s: "(k, st) \<in> set (rt_routing_provider_states route)" "st' = (if k \<in> set ps then push_payload n st else st)"
      using bspec [OF conjunct2 [OF p] m] by auto
    moreover have "provider_ok auth (rt_request route) k st"
      using assms(3) s(1) by (auto simp: route_ok_def)
    ultimately show ?thesis
      using lim [of k st] d by (auto simp: provider_ok_def map_of_eq_Some_iff Suc_le_eq)
  qed
  moreover have "\<exists>st. (k, st) \<in> set (rt_routing_provider_states route) \<and>
      rps_acknowledged_payload_opt st = rps_acknowledged_payload_opt st'" if "(k, st') \<in> set states" for k st'
    using bspec [OF conjunct2 [OF p] that] by auto
  then have "route_payloads route' \<subseteq> route_payloads route"
    by (fastforce simp: route_payloads_def st(2))
  ultimately show ?thesis
    using assms(3) p by (auto simp: route_ok_def st(2))
qed

lemma record_routing_payload_identity:
  "record_routing_payload route ps n = Ok route' \<Longrightarrow>
     rt_stream_key route' = rt_stream_key route \<and> rt_request route' = rt_request route"
  by (auto simp: record_routing_payload_def res_simps split: if_splits)

lemma evolves_routing_payload:
  assumes "mgr_active_opt s = Some a" "find_route sk a = Some route"
    and "route_ok (sn_receipt_env env) (act_authorization a) route \<Longrightarrow> distinct ps"
  shows "evolves (reroutes env) s (snd (and_then_s (record_routing_payload route ps n, s) (\<lambda>route' s.
    persist_route env ops sk (update_route sk route' a s))))"
proof (rule evolves_bind)
  fix route' t assume "(record_routing_payload route ps n, s) = (Ok route', t)"
  then have r: "record_routing_payload route ps n = Ok route'" and t: "t = s" by simp_all
  show "evolves (reroutes env) s (snd (persist_route env ops sk (update_route sk route' a t)))"
    unfolding t using record_routing_payload_identity [OF r] record_routing_payload_Ok [OF r] assms(3)
    by (intro evolves_update [OF assms(1,2)]) simp_all
qed (simp add: evolves_keeps)

lemma record_routing_request_evolves: "evolves (reroutes env) s (snd (record_routing_request env ops sk n now s))"
  unfolding record_routing_request_def
  by (rule evolves_with_route, rule evolves_routing_payload) (simp_all add: route_ok_def)

lemma record_routing_response_evolves: "evolves (reroutes env) s (snd (record_routing_response env ops sk n now s))"
  unfolding record_routing_response_def
  by (rule evolves_with_route, rule evolves_routing_payload) (simp_all add: route_ok_def)

lemma record_exit_response_evolves: "evolves (reroutes env) s (snd (record_exit_response env ops sk q n now s))"
  unfolding record_exit_response_def
proof (rule evolves_with_route, goal_cases)
  case (1 a route)
  show ?case
    by (auto simp: evolves_keeps route_ok_def route_payloads_def intro!: evolves_update [OF 1] evolves_bind)
qed

lemma record_exit_request_evolves: "evolves (reroutes env) s (snd (record_exit_request env ops sk n now s))"
  unfolding record_exit_request_def
proof (rule evolves_with_route, goal_cases)
  case (1 a route)
  have "update_route sk r a (update_route sk r' a s) = update_route sk r a s" for r r'
    by (simp add: update_route_def set_routes_def)
  then show ?case
    by (auto simp: evolves_keeps route_ok_def route_payloads_def Let_def intro!: evolves_update [OF 1] evolves_bind)
qed

lemma reroutes_append:
  assumes "find_route sk a = None" and "length (act_routes a) < max_receipt_session_routes"
    and "fresh_route_request env a e = Ok q"
  shows "reroutes env a (a\<lparr>act_routes := act_routes a @ [route_state sk q]\<rparr>)"
proof -
  note q = fresh_route_request_Ok [OF assms(3)]
  have "sk \<notin> rt_stream_key ` set (act_routes a)"
    using assms(1) by (auto simp: find_route_def find_None_iff)
  then have "routes_ok (sn_receipt_env env) (act_authorization a) (act_routes a) \<Longrightarrow>
      routes_ok (sn_receipt_env env) (act_authorization a) (act_routes a @ [route_state sk q])"
    using q assms(2) route_ok_fresh by (intro routes_ok_append) (auto simp: route_state_def)
  moreover have "route_payloads (route_state sk q) = {}"
    by (simp add: route_payloads_def route_state_def)
  ultimately show ?thesis
    by (auto simp: reroutes_def stored_payloads_def)
qed

lemma reroutes_replace:
  assumes "find_route sk a = Some route" and "fresh_route_request env a e = Ok q"
  shows "reroutes env a (a\<lparr>act_routes := update_first (\<lambda>r. rt_stream_key r = sk) (\<lambda>_. route_state sk q) (act_routes a)\<rparr>)"
proof -
  note f = assms(1) [unfolded find_route_def] and q = fresh_route_request_Ok [OF assms(2)]
  have "rt_stream_key route = sk" using find_Some_mem [OF f] by simp
  then have "routes_ok (sn_receipt_env env) (act_authorization a) (act_routes a) \<Longrightarrow>
      routes_ok (sn_receipt_env env) (act_authorization a) (update_first (\<lambda>r. rt_stream_key r = sk) (\<lambda>_. route_state sk q) (act_routes a))"
    using q route_ok_fresh by (intro routes_ok_update [OF _ f]) (auto simp: route_state_def)
  moreover have "route_payloads (route_state sk q) = {}"
    by (simp add: route_payloads_def route_state_def)
  ultimately show ?thesis
    using stored_update [OF f, of "route_state sk q"] by (auto simp: reroutes_def)
qed

lemma request_for_stream_evolves: "evolves (reroutes env) s (snd (request_for_stream env ops sk now e s))"
proof (cases "mgr_active_opt (expire env ops now s)")
  case None
  then show ?thesis
    using evolves_keeps [OF expire_keeps] by (simp add: request_for_stream_def Let_def)
next
  case (Some a)
  then have a: "mgr_active_opt s = Some a" by (simp add: expire_active)
  show ?thesis
    by (auto simp: request_for_stream_def Let_def expire_live [OF Some] a evolves_keeps set_routes_def not_le and_then_s_cases
        intro!: evolves_persist_then [OF a] reroutes_append split: option.split res.split)
qed

lemma rotate_route_for_stream_evolves: "evolves (reroutes env) s (snd (rotate_route_for_stream env ops sk now e s))"
proof (cases "mgr_active_opt (expire env ops now s)")
  case None
  then show ?thesis
    using evolves_keeps [OF expire_keeps] by (simp add: rotate_route_for_stream_def Let_def)
next
  case (Some a)
  then have a: "mgr_active_opt s = Some a" by (simp add: expire_active)
  show ?thesis
    by (auto simp: rotate_route_for_stream_def Let_def expire_live [OF Some] a evolves_keeps set_routes_def and_then_s_cases
        intro!: evolves_persist_then [OF a] reroutes_append reroutes_replace split: option.split res.split)
qed

subsection \<open>Acknowledging charges the session\<close>

definition charges :: "session_env \<Rightarrow> service_receipt_payload \<Rightarrow> active_receipt_session \<Rightarrow> active_receipt_session \<Rightarrow> bool" where
  "charges env p a a' \<longleftrightarrow> act_authorization a' = act_authorization a \<and> act_payer_cryptde a' = act_payer_cryptde a \<and>
     unat (act_spent_charge_wei a') = unat (act_spent_charge_wei a) + receipt_charge (ack_receipt (srp_acknowledged_receipt p)) \<and>
     unat (act_spent_charge_wei a') \<le> unat (rsp_max_total_charge_wei (ars_policy (act_authorization a))) \<and>
     (routes_ok (sn_receipt_env env) (act_authorization a) (act_routes a) \<and>
        cde_public_key (act_payer_cryptde a) = rsp_payer_session_public_key (ars_policy (act_authorization a)) \<longrightarrow>
      routes_ok (sn_receipt_env env) (act_authorization a) (act_routes a') \<and> stored_payloads a' \<subseteq> insert p (stored_payloads a))"

lemma charge_session_Ok:
  "charge_session a ck prev = Ok spent \<longleftrightarrow>
     unat prev \<le> unat (ck_cumulative_charge_wei ck) \<and>
     unat spent + unat prev = unat (act_spent_charge_wei a) + unat (ck_cumulative_charge_wei ck) \<and>
     unat spent \<le> unat (rsp_max_total_charge_wei (ars_policy (act_authorization a)))"
  (is "?L \<longleftrightarrow> ?R")
proof
  assume ?L
  then show ?R by (auto simp: charge_session_def res_simps checked_simps word_less_nat_alt not_less split: if_splits)
next
  assume R: ?R
  then have "prev \<le> ck_cumulative_charge_wei ck" by (simp add: word_le_nat_alt)
  then have d: "checked_sub (ck_cumulative_charge_wei ck) prev = Some (ck_cumulative_charge_wei ck - prev)"
    by (simp add: checked_sub_def)
  then have "unat (ck_cumulative_charge_wei ck) = unat (ck_cumulative_charge_wei ck - prev) + unat prev"
    by (simp add: checked_simps)
  then have "checked_add (act_spent_charge_wei a) (ck_cumulative_charge_wei ck - prev) = Some spent"
    using R by (simp add: checked_simps)
  then show ?L
    using R d by (simp add: charge_session_def word_less_nat_alt not_less)
qed

lemma next_checkpoint_Ok:
  assumes "next_checkpoint env ck_opt ack c = Ok (ck, prev)"
  shows "same_stream ck ack \<and> unat (ck_cumulative_charge_wei ck) = unat prev + receipt_charge (ack_receipt ack)"
proof (cases ck_opt)
  case None
  then show ?thesis
    using assms by (auto simp: next_checkpoint_def res_simps checkpoint_begin_def begin_with_contiguity_eq_Ok)
next
  case (Some ck0)
  then show ?thesis
    using assms by (auto simp: next_checkpoint_def res_simps checkpoint_advance_def advance_with_contiguity_eq_Ok)
qed

lemma admit_offer_Ok:
  assumes "admit_offer env config a ck_opt offer now = Ok (p, ck, spent)"
  shows "asr_signed_receipt (srp_acknowledged_receipt p) = offer" and "srp_authorization p = act_authorization a"
    and "same_stream ck (srp_acknowledged_receipt p)"
    and "unat spent = unat (act_spent_charge_wei a) + receipt_charge (ssr_receipt offer)"
    and "unat spent \<le> unat (rsp_max_total_charge_wei (ars_policy (act_authorization a)))"
    and "asr_payer_session_public_key (srp_acknowledged_receipt p) = cde_public_key (act_payer_cryptde a)"
    and "make_accounting_commitment (sn_receipt_env env) (sr_route_epoch (ssr_receipt offer)) (cde_public_key (act_payer_cryptde a))
      = sr_accounting_commitment (ssr_receipt offer)"
proof -
  obtain ack prev where ack: "signed_acknowledge (sn_receipt_env env) offer (act_payer_cryptde a) = Ok ack"
      "next_checkpoint (sn_receipt_env env) ck_opt ack (act_payer_cryptde a) = Ok (ck, prev)"
      "charge_session a ck prev = Ok spent"
      "p = \<lparr>srp_authorization = act_authorization a, srp_acknowledged_receipt = ack\<rparr>"
    using assms by (auto simp: admit_offer_def Let_def res_simps split: prod.splits)
  show "asr_signed_receipt (srp_acknowledged_receipt p) = offer"
    "asr_payer_session_public_key (srp_acknowledged_receipt p) = cde_public_key (act_payer_cryptde a)"
    "make_accounting_commitment (sn_receipt_env env) (sr_route_epoch (ssr_receipt offer)) (cde_public_key (act_payer_cryptde a))
      = sr_accounting_commitment (ssr_receipt offer)" "srp_authorization p = act_authorization a"
    using ack(1) by (auto simp: signed_acknowledge_eq_Ok ack(4))
  then show "same_stream ck (srp_acknowledged_receipt p)"
    "unat spent = unat (act_spent_charge_wei a) + receipt_charge (ssr_receipt offer)"
    "unat spent \<le> unat (rsp_max_total_charge_wei (ars_policy (act_authorization a)))"
    using next_checkpoint_Ok [OF ack(2)] ack(3) by (auto simp: charge_session_Ok ack(4))
qed

lemma admit_identity:
  assumes "admit_offer env config a ck_opt offer now = Ok (p, ck, spent)"
    and "rsr_route_epoch q = sr_route_epoch (ssr_receipt offer)" and "request_ok (sn_receipt_env env) (act_authorization a) q"
    and "cde_public_key (act_payer_cryptde a) = rsp_payer_session_public_key (ars_policy (act_authorization a))"
  shows "checkpoint_identity (act_authorization a) q ck (sr_provider_public_key (ssr_receipt offer))"
  using admit_offer_Ok [OF assms(1)] assms(2-4) by (auto simp: checkpoint_identity_def same_stream_def request_ok_def)

text \<open>Putting the admitted offer into its route.\<close>

lemma charges_update:
  assumes adm: "admit_offer env config a ck_opt offer now = Ok (p, ck, spent)"
    and f: "find_epoch (sr_route_epoch (ssr_receipt offer)) a = Some route"
    and "rt_stream_key route' = rt_stream_key route" and "rt_request route' = rt_request route"
    and "route_payloads route' \<subseteq> insert p (route_payloads route) \<or> \<not> route_ok (sn_receipt_env env) (act_authorization a) route"
    and "route_ok (sn_receipt_env env) (act_authorization a) route \<Longrightarrow>
      checkpoint_identity (act_authorization a) (rt_request route) ck (sr_provider_public_key (ssr_receipt offer)) \<Longrightarrow>
      route_ok (sn_receipt_env env) (act_authorization a) route'"
  shows "charges env p a (a\<lparr>act_routes := update_first (\<lambda>r. rsr_route_epoch (rt_request r) = sr_route_epoch (ssr_receipt offer))
    (\<lambda>_. route') (act_routes a), act_spent_charge_wei := spent\<rparr>)"
proof -
  note fe = f [unfolded find_epoch_def]
  let ?a' = "a\<lparr>act_routes := update_first (\<lambda>r. rsr_route_epoch (rt_request r) = sr_route_epoch (ssr_receipt offer))
    (\<lambda>_. route') (act_routes a), act_spent_charge_wei := spent\<rparr>"
  have mem: "route \<in> set (act_routes a)" "rsr_route_epoch (rt_request route) = sr_route_epoch (ssr_receipt offer)"
    using find_Some_mem [OF fe] by auto
  have "routes_ok (sn_receipt_env env) (act_authorization a) (act_routes ?a') \<and> stored_payloads ?a' \<subseteq> insert p (stored_payloads a)"
    if r: "routes_ok (sn_receipt_env env) (act_authorization a) (act_routes a)"
      and k: "cde_public_key (act_payer_cryptde a) = rsp_payer_session_public_key (ars_policy (act_authorization a))"
  proof
    have ro: "route_ok (sn_receipt_env env) (act_authorization a) route"
      using r mem(1) by (rule routes_ok_mem)
    then have "route_ok (sn_receipt_env env) (act_authorization a) route'"
      using admit_identity [OF adm mem(2) _ k] assms(6) by (simp add: route_ok_def)
    then show "routes_ok (sn_receipt_env env) (act_authorization a) (act_routes ?a')"
      using routes_ok_update [OF r fe] assms(3,4) by simp
    have "route_payloads route \<subseteq> stored_payloads a"
      using mem(1) by (auto simp: stored_payloads_def)
    moreover have "route_payloads route' \<subseteq> insert p (route_payloads route)"
      using assms(5) ro by blast
    moreover have "stored_payloads ?a' \<subseteq> stored_payloads a \<union> route_payloads route'"
      using stored_update [OF fe, of route'] by (simp add: stored_payloads_def)
    ultimately show "stored_payloads ?a' \<subseteq> insert p (stored_payloads a)" by blast
  qed
  then show ?thesis
    using admit_offer_Ok [OF adm] by (simp add: charges_def)
qed

text \<open>
  What acknowledging does: the session is dropped, or kept while the payload is one stored before,
  or charged for the payload that is returned.
\<close>

definition acknowledges ::
    "session_env \<Rightarrow> 'st receipt_session_manager \<Rightarrow> (service_receipt_payload, 'st) session_outcome \<Rightarrow> bool" where
  "acknowledges env s out \<longleftrightarrow> mgr_config (snd out) = mgr_config s \<and> mgr_pending_opt (snd out) = mgr_pending_opt s \<and>
     (\<forall>a'. mgr_active_opt (snd out) = Some a' \<longrightarrow> (\<exists>a. mgr_active_opt s = Some a \<and>
        (a' = a \<and> (\<forall>p. fst out = Ok p \<longrightarrow> p \<in> stored_payloads a) \<or> (\<exists>p. charges env p a a' \<and> fst out = Ok p))))"

lemma acknowledges_error: "keeps s s' \<Longrightarrow> (\<And>p. r \<noteq> Ok p) \<Longrightarrow> acknowledges env s (r, s')"
  by (auto simp: acknowledges_def keeps_def)

lemma acknowledges_again:
  "mgr_active_opt s = Some a \<Longrightarrow> p \<in> stored_payloads a \<Longrightarrow> acknowledges env s (Ok p, s)"
  by (auto simp: acknowledges_def)

lemma acknowledges_charged:
  assumes "mgr_active_opt s = Some a" and "charges env p a a'" and "find_route sk a' \<noteq> None"
  shows "acknowledges env s (and_then_s (persist_route env ops sk (s\<lparr>mgr_active_opt := Some a'\<rparr>)) (\<lambda>_ t. (Ok p, t)))"
proof -
  let ?s = "s\<lparr>mgr_active_opt := Some a'\<rparr>"
  obtain r t where p: "persist_route env ops sk ?s = (r, t)" by force
  have t: "mgr_config t = mgr_config s" "mgr_pending_opt t = mgr_pending_opt s"
      "r = Ok () \<and> mgr_active_opt t = Some a' \<or> mgr_active_opt t = None"
    using persist_route_result [of ?s env ops sk] assms(3) by (auto simp: p keeps_def)
  show ?thesis
    using assms(1,2) t by (cases r) (auto simp: acknowledges_def p)
qed

lemma acknowledges_bind:
  assumes "\<And>x. m = Ok x \<Longrightarrow> acknowledges env s (k x s)"
  shows "acknowledges env s (and_then_s (m, s) k)"
  using assms by (cases m) (auto simp: and_then_s_def intro: acknowledges_error)

lemma acknowledged_before_Some: "acknowledged_before po offer = Some p \<Longrightarrow> po = Some p \<and> asr_signed_receipt (srp_acknowledged_receipt p) = offer"
  by (auto simp: acknowledged_before_def split: option.splits if_splits)

lemma acknowledge_routing_offer_acknowledges: "acknowledges env s (acknowledge_routing_offer env ops offer now s)"
proof (cases "mgr_active_opt (expire env ops now s)")
  case None
  then show ?thesis
    using expire_keeps [of s env ops now] by (simp add: acknowledge_routing_offer_def Let_def acknowledges_error)
next
  case (Some a)
  then have a: "mgr_active_opt s = Some a" by (simp add: expire_active)
  let ?r = "ssr_receipt offer"
  show ?thesis
  proof (cases "find_epoch (sr_route_epoch ?r) a")
    case None
    then show ?thesis by (simp add: acknowledge_routing_offer_def Let_def expire_live [OF Some] a acknowledges_error)
  next
    case (Some route)
    note f = Some
    have stored: "route_payloads route \<subseteq> stored_payloads a"
      using find_Some_mem [OF f [unfolded find_epoch_def]] by (auto simp: stored_payloads_def)
    have stay: "find_route (rt_stream_key route) (a\<lparr>act_routes := update_first (\<lambda>r. rsr_route_epoch (rt_request r) = sr_route_epoch ?r)
        (\<lambda>_. route') (act_routes a), act_spent_charge_wei := spent\<rparr>) \<noteq> None"
      if "rt_stream_key route' = rt_stream_key route" for route' spent
      using find_update_first [OF f [unfolded find_epoch_def]] that by (simp add: find_route_def)
    have again: "p \<in> stored_payloads a" if "map_of (rt_routing_provider_states route) k = Some st"
        "acknowledged_before (rps_acknowledged_payload_opt st) offer = Some p" for k st p
      using map_of_SomeD [OF that(1)] acknowledged_before_Some [OF that(2)] stored by (force simp: route_payloads_def)
    have new: "charges env p a (a\<lparr>act_routes := update_first (\<lambda>r. rsr_route_epoch (rt_request r) = sr_route_epoch ?r)
        (\<lambda>_. route\<lparr>rt_routing_provider_states := AList.update (sr_provider_public_key ?r)
           (st\<lparr>rps_checkpoint_opt := Some ck, rps_acknowledged_payload_opt := Some p, rps_observed_payloads := later\<rparr>)
           (rt_routing_provider_states route)\<rparr>) (act_routes a), act_spent_charge_wei := spent\<rparr>)"
      if "admit_offer env (mgr_config s) a (rps_checkpoint_opt st) offer now = Ok (p, ck, spent)"
        "map_of (rt_routing_provider_states route) (sr_provider_public_key ?r) = Some st"
        "rps_observed_payloads st = n # later" for p ck spent st n later
    proof (rule charges_update [OF that(1) f])
      let ?st' = "st\<lparr>rps_checkpoint_opt := Some ck, rps_acknowledged_payload_opt := Some p, rps_observed_payloads := later\<rparr>"
      let ?route' = "route\<lparr>rt_routing_provider_states :=
        AList.update (sr_provider_public_key ?r) ?st' (rt_routing_provider_states route)\<rparr>"
      show "route_payloads ?route' \<subseteq> insert p (route_payloads route) \<or> \<not> route_ok (sn_receipt_env env) (act_authorization a) route"
        by (auto simp: route_payloads_def route_ok_def set_AList_update split: if_splits)
      assume ro: "route_ok (sn_receipt_env env) (act_authorization a) route"
        and ci: "checkpoint_identity (act_authorization a) (rt_request route) ck (sr_provider_public_key ?r)"
      then have "provider_ok (act_authorization a) (rt_request route) (sr_provider_public_key ?r) ?st'"
        using map_of_SomeD [OF that(2)] that(3) by (fastforce simp: route_ok_def provider_ok_def)
      then show "route_ok (sn_receipt_env env) (act_authorization a) ?route'"
        using ro by (auto simp: route_ok_def set_AList_update distinct_update split: if_splits)
    qed simp_all
    show ?thesis
      by (auto simp: acknowledge_routing_offer_def Let_def expire_live [OF \<open>mgr_active_opt (expire env ops now s) = Some a\<close>] a f
          update_epoch_def intro!: acknowledges_error acknowledges_again [OF a] again acknowledges_bind
            acknowledges_charged [OF a new stay] split: option.split list.split)
  qed
qed

lemma acknowledge_offer_acknowledges: "acknowledges env s (acknowledge_offer env ops offer now s)"
proof (cases "sr_service_kind (ssr_receipt offer) = Routing")
  case True
  then show ?thesis
    by (simp add: acknowledge_offer_def acknowledge_routing_offer_acknowledges)
next
  case kind: False
  show ?thesis
  proof (cases "mgr_active_opt (expire env ops now s)")
    case None
    then show ?thesis
      using expire_keeps [of s env ops now] kind by (simp add: acknowledge_offer_def Let_def acknowledges_error)
  next
    case (Some a)
    note live = expire_live [OF Some]
    from Some have a: "mgr_active_opt s = Some a" by (simp add: expire_active)
    let ?r = "ssr_receipt offer"
    show ?thesis
    proof (cases "find_epoch (sr_route_epoch ?r) a")
      case None
      then show ?thesis using kind by (simp add: acknowledge_offer_def Let_def live a acknowledges_error)
    next
      case f: (Some route)
      have stay: "find_route (rt_stream_key route) (a\<lparr>act_routes := update_first (\<lambda>r. rsr_route_epoch (rt_request r) = sr_route_epoch ?r)
          (\<lambda>_. route') (act_routes a), act_spent_charge_wei := spent\<rparr>) \<noteq> None"
        if "rt_stream_key route' = rt_stream_key route" for route' spent
        using find_update_first [OF f [unfolded find_epoch_def]] that by (simp add: find_route_def)
      have again: "p \<in> stored_payloads a" if "acknowledged_before (rt_acknowledged_payload_opt route) offer = Some p" for p
        using find_Some_mem [OF f [unfolded find_epoch_def]] acknowledged_before_Some [OF that]
        by (auto simp: stored_payloads_def route_payloads_def)
      have new: "charges env p a (a\<lparr>act_routes := update_first (\<lambda>r. rsr_route_epoch (rt_request r) = sr_route_epoch ?r)
          (\<lambda>_. route\<lparr>rt_checkpoint_opt := Some ck, rt_acknowledged_payload_opt := Some p, rt_observed_responses := later\<rparr>)
          (act_routes a), act_spent_charge_wei := spent\<rparr>)"
        if "admit_offer env (mgr_config s) a (rt_checkpoint_opt route) offer now = Ok (p, ck, spent)"
          "rt_expected_provider_public_key_opt route = Some (sr_provider_public_key ?r)"
          "rt_observed_responses route = n # later" for p ck spent n later
        by (rule charges_update [OF that(1) f]) (use that(2,3) in \<open>auto simp: route_ok_def route_payloads_def\<close>)
      show ?thesis
        using kind
        by (auto simp: acknowledge_offer_def Let_def live a f update_epoch_def res_simps
            intro!: acknowledges_error acknowledges_again [OF a] again acknowledges_bind acknowledges_charged [OF a new stay]
            split: option.split list.split)
    qed
  qed
qed

subsection \<open>Activation and recovery\<close>

lemma propose_effect:
  "mgr_config (snd (propose env m d now c nonce s)) = mgr_config s \<and>
   mgr_active_opt (snd (propose env m d now c nonce s)) = mgr_active_opt s \<and>
   (\<forall>p. mgr_pending_opt (snd (propose env m d now c nonce s)) = Some p \<longrightarrow>
      mgr_pending_opt s = Some p \<or> pending_ok (mgr_config s) p)"
  by (auto simp: propose_def Let_def pending_ok_def session_policy_new_def split: option.splits res.splits)

text \<open>
  A failed activation keeps or drops the session before; after a successful one it is the new one,
  with nothing spent and no routes, or none.
\<close>

definition new_session :: "authorized_receipt_session \<Rightarrow> pending_receipt_session \<Rightarrow> active_receipt_session" where
  "new_session auth pending = \<lparr>act_authorization = auth, act_payer_cryptde = pnd_payer_cryptde pending,
     act_routes = [], act_spent_charge_wei = 0\<rparr>"

definition activates :: "session_env \<Rightarrow> 'st receipt_session_manager \<Rightarrow> ('a, 'st) session_outcome \<Rightarrow> bool" where
  "activates env s out \<longleftrightarrow> mgr_config (snd out) = mgr_config s \<and>
     (mgr_pending_opt (snd out) = mgr_pending_opt s \<or> mgr_pending_opt (snd out) = None) \<and>
     (mgr_active_opt (snd out) = None \<or>
      (\<nexists>x. fst out = Ok x) \<and> mgr_active_opt (snd out) = mgr_active_opt s \<or>
      (\<exists>x pending auth t. fst out = Ok x \<and> mgr_pending_opt s = Some pending \<and> ars_policy auth = pnd_policy pending \<and>
         session_verify (sn_receipt_env env) auth (cfg_chain_id (mgr_config s)) (cfg_settlement_contract (mgr_config s))
           (rsp_payer_session_public_key (pnd_policy pending)) t 0 = Ok () \<and>
         mgr_active_opt (snd out) = Some (new_session auth pending)))"

lemma activates_error: "(\<And>x. r \<noteq> Ok x) \<Longrightarrow> keeps s s' \<Longrightarrow> activates env s (r, s')"
  by (auto simp: activates_def keeps_def)

lemma status_keeps: "session_status env ops now s = (st, s') \<Longrightarrow> keeps s s'"
  using expire_keeps [of s env ops now] by (simp add: expire_def)

lemma activated:
  assumes "mgr_config s1 = mgr_config s" and "mgr_pending_opt s = Some pending" and "ars_policy auth = pnd_policy pending"
    and "session_verify (sn_receipt_env env) auth (cfg_chain_id (mgr_config s)) (cfg_settlement_contract (mgr_config s))
      (rsp_payer_session_public_key (pnd_policy pending)) now 0 = Ok ()"
  shows "activates env s (and_then_s (persist_header env ops (s1\<lparr>mgr_pending_opt := None,
      mgr_active_opt := Some \<lparr>act_authorization = auth, act_payer_cryptde = pnd_payer_cryptde pending,
        act_routes = [], act_spent_charge_wei = 0\<rparr>\<rparr>)) (\<lambda>_ s. let (status, s') = session_status env ops now s in (Ok status, s')))"
proof -
  let ?s2 = "s1\<lparr>mgr_pending_opt := None, mgr_active_opt := Some (new_session auth pending)\<rparr>"
  obtain r t where p: "persist_header env ops ?s2 = (r, t)" by force
  obtain st t' where q: "session_status env ops now t = (st, t')" by force
  have k: "keeps ?s2 t" "r = Ok () \<or> mgr_active_opt t = None"
    using persist_header_result [of ?s2 env ops] by (auto simp: p)
  note q' = status_keeps [OF q]
  show ?thesis
  proof (cases r)
    case (Ok x)
    have "mgr_config t' = mgr_config s" "mgr_pending_opt t' = None"
        "mgr_active_opt t' = None \<or> mgr_active_opt t' = Some (new_session auth pending)"
      using k(1) q' assms(1) by (auto simp: keeps_def)
    then show ?thesis
      using assms(2-4) by (auto simp: activates_def p q Ok simp flip: new_session_def)
  qed (use k assms(1) in \<open>auto simp: activates_def keeps_def p simp flip: new_session_def\<close>)
qed

lemma activates_bind:
  assumes "\<And>x. m = Ok x \<Longrightarrow> activates env s (k x s)"
  shows "activates env s (and_then_s (m, s) k)"
  using assms by (cases m) (auto intro: activates_error)

lemma activate_activates: "activates env s (activate env ops pid sg now s)"
proof (cases "mgr_pending_opt s")
  case None
  then show ?thesis by (simp add: activate_def activates_error)
next
  case (Some pending)
  show ?thesis
  proof (cases "pnd_proposal_id pending \<noteq> pid \<or> rsp_expires_at_unix_s (pnd_policy pending) < now")
    case True
    then show ?thesis
      using Some by (auto simp: activate_def activates_def)
  next
    case False
    have st: "keeps s (s\<lparr>mgr_recovery_store_opt := x\<rparr>)" for x
      by (simp add: keeps_def)
    show ?thesis
      unfolding activate_def Some
      using False activated [OF _ Some, of _ _ env now ops]
      by (auto simp: Let_def res_simps st activates_error intro!: activates_bind split: option.split sum.split prod.split)
  qed
qed

subsection \<open>The step relation\<close>

text \<open>
  One rule per method. The ledger is the list of payloads returned since the last activation; the
  payload of a repeated acknowledgement is not entered twice. Routing quotes name a provider at
  most once in each direction, as routes do. A restart makes a new manager from a store that gives
  back, in any order, what the manager has persisted of its session, or nothing, or fails.
\<close>

definition enter :: "(service_receipt_payload, 'e) res \<Rightarrow> service_receipt_payload list \<Rightarrow> service_receipt_payload list" where
  "enter r ledger = (case r of Ok p \<Rightarrow> if p \<in> set ledger then ledger else p # ledger | _ \<Rightarrow> ledger)"

definition loads_saved ::
    "session_env \<Rightarrow> 'st recovery_store \<Rightarrow> u64 \<Rightarrow> 'st \<Rightarrow> active_receipt_session option \<Rightarrow> bool" where
  "loads_saved env ops now st active_opt \<longleftrightarrow>
     (case fst (store_load ops now st) of
        Inr (Some (header, routes)) \<Rightarrow>
          (case active_opt of
             None \<Rightarrow> False
           | Some a \<Rightarrow> header = persisted_header env a \<and> mset routes = mset (act_routes a))
      | _ \<Rightarrow> True)"

inductive session_step ::
    "session_env \<Rightarrow> 'st recovery_store \<Rightarrow> 'st receipt_session_manager \<times> service_receipt_payload list \<Rightarrow>
     'st receipt_session_manager \<times> service_receipt_payload list \<Rightarrow> bool"
  for env :: session_env and ops :: "'st recovery_store" where
  status: "session_step env ops (s, l) (snd (session_status env ops now s), l)"
| stop: "session_step env ops (s, l) (snd (session_stop ops s), l)"
| propose: "session_step env ops (s, l) (snd (propose env m d now c nonce s), l)"
| activate: "activate env ops pid sg now s = (r, s') \<Longrightarrow>
    session_step env ops (s, l) (s', if \<exists>st. r = Ok st then [] else l)"
| request: "session_step env ops (s, l) (snd (request_for_stream env ops sk now e s), l)"
| rotate: "session_step env ops (s, l) (snd (rotate_route_for_stream env ops sk now e s), l)"
| bind_exit: "session_step env ops (s, l) (snd (bind_exit_quote env ops sk provider rate byte_rate now s), l)"
| bind_routing: "distinct (map rq_provider_public_key request_quotes) \<Longrightarrow>
    distinct (map rq_provider_public_key response_quotes) \<Longrightarrow>
    session_step env ops (s, l) (snd (bind_routing_quotes env ops sk request_quotes response_quotes now s), l)"
| routing_request: "session_step env ops (s, l) (snd (record_routing_request env ops sk n now s), l)"
| routing_response: "session_step env ops (s, l) (snd (record_routing_response env ops sk n now s), l)"
| decrypt: "session_step env ops (s, l) (snd (decrypt_routing_offer env ops data now s), l)"
| exit_response: "session_step env ops (s, l) (snd (record_exit_response env ops sk q n now s), l)"
| exit_request: "session_step env ops (s, l) (snd (record_exit_request env ops sk n now s), l)"
| acknowledge: "acknowledge_offer env ops offer now s = (r, s') \<Longrightarrow>
    session_step env ops (s, l) (s', enter r l)"
| restart: "new_recovery_required env ops (mgr_config s) (Some st) now = Ok s' \<Longrightarrow> loads_saved env ops now st (mgr_active_opt s) \<Longrightarrow>
    session_step env ops (s, l) (s', l)"

inductive session_reachable ::
    "session_env \<Rightarrow> 'st recovery_store \<Rightarrow> receipt_session_config \<Rightarrow> 'st receipt_session_manager \<times> service_receipt_payload list \<Rightarrow> bool"
  for env :: session_env and ops :: "'st recovery_store" and config :: receipt_session_config where
  start: "mgr_active_opt s = None \<Longrightarrow> mgr_pending_opt s = None \<Longrightarrow> mgr_config s = config \<Longrightarrow>
    session_reachable env ops config (s, [])"
| step: "session_reachable env ops config x \<Longrightarrow> session_step env ops x y \<Longrightarrow> session_reachable env ops config y"

inductive_cases session_stepE: "session_step env ops x y"

subsection \<open>The invariant holds\<close>

abbreviation payload_charge :: "service_receipt_payload \<Rightarrow> nat" where
  "payload_charge p \<equiv> receipt_charge (ack_receipt (srp_acknowledged_receipt p))"

definition ledger_ok :: "'st receipt_session_manager \<Rightarrow> service_receipt_payload list \<Rightarrow> bool" where
  "ledger_ok s l \<longleftrightarrow> distinct l \<and> (\<forall>a. mgr_active_opt s = Some a \<longrightarrow>
     (\<Sum>p\<leftarrow>l. payload_charge p) \<le> unat (act_spent_charge_wei a) \<and> stored_payloads a \<subseteq> set l)"

definition step_inv :: "session_env \<Rightarrow> receipt_session_config \<Rightarrow> 'st receipt_session_manager \<times> service_receipt_payload list \<Rightarrow> bool" where
  "step_inv env config x \<longleftrightarrow> mgr_config (fst x) = config \<and> manager_ok env (fst x) \<and> ledger_ok (fst x) (snd x)"

lemma session_ok_reroutes: "session_ok env config a \<Longrightarrow> reroutes env a a' \<Longrightarrow> session_ok env config a'"
  by (simp add: session_ok_def reroutes_def Let_def)

lemma session_ok_charges: "session_ok env config a \<Longrightarrow> charges env p a a' \<Longrightarrow> session_ok env config a'"
  by (simp add: session_ok_def charges_def Let_def)

lemma session_ok_routes: "session_ok env config a \<Longrightarrow> routes_ok (sn_receipt_env env) (act_authorization a) (act_routes a) \<and>
    cde_public_key (act_payer_cryptde a) = rsp_payer_session_public_key (ars_policy (act_authorization a))"
  by (simp add: session_ok_def Let_def)

lemma step_inv_evolves:
  assumes "step_inv env config (s, l)" and "evolves (reroutes env) s s'"
  shows "step_inv env config (s', l)"
proof -
  have "session_ok env config a' \<and> (\<Sum>p\<leftarrow>l. payload_charge p) \<le> unat (act_spent_charge_wei a') \<and> stored_payloads a' \<subseteq> set l"
    if a': "mgr_active_opt s' = Some a'" for a'
  proof -
    obtain a where a: "mgr_active_opt s = Some a" "a' = a \<or> reroutes env a a'"
      using assms(2) a' by (auto simp: evolves_def)
    have ok: "session_ok env config a" "(\<Sum>p\<leftarrow>l. payload_charge p) \<le> unat (act_spent_charge_wei a)" "stored_payloads a \<subseteq> set l"
      using assms(1) a(1) by (auto simp: step_inv_def manager_ok_def ledger_ok_def)
    from a(2) show ?thesis
    proof
      assume r: "reroutes env a a'"
      then show ?thesis
        using ok session_ok_reroutes [OF ok(1) r] session_ok_routes [OF ok(1)] by (auto simp: reroutes_def)
    qed (use ok in simp)
  qed
  then show ?thesis
    using assms by (auto simp: step_inv_def manager_ok_def ledger_ok_def evolves_def)
qed

lemma step_inv_keeps: "step_inv env config (s, l) \<Longrightarrow> keeps s s' \<Longrightarrow> step_inv env config (s', l)"
  by (rule step_inv_evolves) (auto intro: evolves_keeps)

lemma step_inv_acknowledges:
  assumes "step_inv env config (s, l)" and "acknowledges env s (r, s')"
  shows "step_inv env config (s', enter r l)"
proof -
  have l: "distinct l" using assms(1) by (simp add: step_inv_def ledger_ok_def)
  have "session_ok env config a' \<and> (\<Sum>p\<leftarrow>enter r l. payload_charge p) \<le> unat (act_spent_charge_wei a') \<and>
      stored_payloads a' \<subseteq> set (enter r l)"
    if a': "mgr_active_opt s' = Some a'" for a'
  proof -
    obtain a where a: "mgr_active_opt s = Some a"
        "a' = a \<and> (\<forall>p. r = Ok p \<longrightarrow> p \<in> stored_payloads a) \<or> (\<exists>p. charges env p a a' \<and> r = Ok p)"
      using assms(2) a' by (auto simp: acknowledges_def)
    have ok: "session_ok env config a" "(\<Sum>p\<leftarrow>l. payload_charge p) \<le> unat (act_spent_charge_wei a)" "stored_payloads a \<subseteq> set l"
      using assms(1) a(1) by (auto simp: step_inv_def manager_ok_def ledger_ok_def)
    from a(2) show ?thesis
    proof (elim disjE conjE exE)
      assume "a' = a" "\<forall>p. r = Ok p \<longrightarrow> p \<in> stored_payloads a"
      then have "enter r l = l" using ok(3) by (auto simp: enter_def split: res.split)
      then show ?thesis using ok \<open>a' = a\<close> by simp
    next
      fix p assume p: "charges env p a a'" "r = Ok p"
      have "stored_payloads a' \<subseteq> insert p (stored_payloads a)"
          "unat (act_spent_charge_wei a') = unat (act_spent_charge_wei a) + payload_charge p"
        using p(1) session_ok_routes [OF ok(1)] by (auto simp: charges_def)
      then show ?thesis
        using ok session_ok_charges [OF ok(1) p(1)] by (auto simp: enter_def p(2))
    qed
  qed
  then show ?thesis
    using assms l by (auto simp: step_inv_def manager_ok_def ledger_ok_def acknowledges_def enter_def split: res.split)
qed

lemma step_inv_activates:
  assumes "step_inv env config (s, l)" and act: "activates env s (r, s')"
  shows "step_inv env config (s', if \<exists>x. r = Ok x then [] else l)"
proof -
  have c: "mgr_config s' = config" and "mgr_config s = config"
    using assms by (auto simp: step_inv_def activates_def)
  have pend: "pending_ok config p" if "mgr_pending_opt s' = Some p" for p
    using assms that c by (auto simp: step_inv_def activates_def manager_ok_def)
  consider "mgr_active_opt s' = None" | "\<nexists>x. r = Ok x" "mgr_active_opt s' = mgr_active_opt s"
    | x pending auth t where "r = Ok x" "mgr_pending_opt s = Some pending" "ars_policy auth = pnd_policy pending"
      "session_verify (sn_receipt_env env) auth (cfg_chain_id config) (cfg_settlement_contract config)
         (rsp_payer_session_public_key (pnd_policy pending)) t 0 = Ok ()"
      "mgr_active_opt s' = Some (new_session auth pending)"
    using act \<open>mgr_config s = config\<close> by (auto simp: activates_def)
  then show ?thesis
  proof cases
    case 3
    have "pending_ok config pending"
      using assms(1) 3(2) by (auto simp: step_inv_def manager_ok_def)
    then have "session_ok env config (new_session auth pending)"
      using 3(3,4) by (auto simp: session_ok_def new_session_def pending_ok_def routes_ok_def)
    moreover have "stored_payloads (new_session auth pending) = {}"
      by (simp add: stored_payloads_def new_session_def)
    ultimately show ?thesis
      using 3 c pend by (simp add: step_inv_def manager_ok_def ledger_ok_def)
  qed (use assms c pend in \<open>auto simp: step_inv_def manager_ok_def ledger_ok_def\<close>)
qed

lemma routes_ok_reordered: "routes_ok env auth routes \<Longrightarrow> mset routes' = mset routes \<Longrightarrow> routes_ok env auth routes'"
  using mset_eq_setD [of routes' routes] mset_eq_length [of routes' routes]
    mset_eq_imp_distinct_iff [of "map rt_stream_key routes'" "map rt_stream_key routes"]
    mset_eq_imp_distinct_iff [of "map (\<lambda>r. rsr_route_epoch (rt_request r)) routes'" "map (\<lambda>r. rsr_route_epoch (rt_request r)) routes"]
  by (simp add: routes_ok_def)

lemma restarted:
  assumes "new_recovery_required env ops (mgr_config s) (Some st) now = Ok s'" and "loads_saved env ops now st (mgr_active_opt s)"
  shows "mgr_config s' = mgr_config s \<and> mgr_pending_opt s' = None \<and>
    (\<forall>a'. mgr_active_opt s' = Some a' \<longrightarrow> (\<exists>a. mgr_active_opt s = Some a \<and> act_authorization a' = act_authorization a \<and>
       act_spent_charge_wei a' = act_spent_charge_wei a \<and> mset (act_routes a') = mset (act_routes a) \<and>
       cde_public_key (act_payer_cryptde a') = rsp_payer_session_public_key (ars_policy (act_authorization a))))"
  using assms
  by (auto simp: new_recovery_required_def loads_saved_def restore_active_def persisted_header_def session_verify_eq_Ok Let_def res_simps
      split: prod.splits sum.splits option.splits if_splits)

lemma step_inv_restarted:
  assumes inv: "step_inv env config (s, l)" and new: "new_recovery_required env ops (mgr_config s) (Some st) now = Ok s'"
    and load: "loads_saved env ops now st (mgr_active_opt s)"
  shows "step_inv env config (s', l)"
proof -
  note re = restarted [OF new load]
  have "session_ok env config a' \<and> (\<Sum>p\<leftarrow>l. payload_charge p) \<le> unat (act_spent_charge_wei a') \<and> stored_payloads a' \<subseteq> set l"
    if a': "mgr_active_opt s' = Some a'" for a'
  proof -
    obtain a where a: "mgr_active_opt s = Some a" "act_authorization a' = act_authorization a"
      "act_spent_charge_wei a' = act_spent_charge_wei a" "mset (act_routes a') = mset (act_routes a)"
      "cde_public_key (act_payer_cryptde a') = rsp_payer_session_public_key (ars_policy (act_authorization a))"
      using re a' by blast
    have "session_ok env config a" "(\<Sum>p\<leftarrow>l. payload_charge p) \<le> unat (act_spent_charge_wei a)" "stored_payloads a \<subseteq> set l"
      using inv a(1) by (auto simp: step_inv_def manager_ok_def ledger_ok_def)
    then show ?thesis
      using a(2-5) routes_ok_reordered [OF _ a(4)] mset_eq_setD [OF a(4)] by (simp add: session_ok_def stored_payloads_def Let_def)
  qed
  then show ?thesis using inv re by (auto simp: step_inv_def manager_ok_def ledger_ok_def)
qed

lemma step_inv_step:
  assumes "session_step env ops x y" and "step_inv env config x"
  shows "step_inv env config y"
  using assms
proof (induction rule: session_step.induct)
  case (status s l now)
  then show ?case
    using expire_keeps [of s env ops now] by (simp add: expire_def step_inv_keeps)
next
  case (stop s l)
  then show ?case
    by (auto simp: session_stop_def step_inv_def manager_ok_def ledger_ok_def clear_store_def split: option.split)
next
  case (propose s l m d now c nonce)
  then show ?case
    using propose_effect [of env m d now c nonce s] by (auto simp: step_inv_def manager_ok_def ledger_ok_def)
next
  case (activate pid sg now s r s' l)
  then show ?case
    using step_inv_activates activate_activates [of env s ops pid sg now] by metis
next
  case (request s l sk now e)
  then show ?case by (rule step_inv_evolves [OF _ request_for_stream_evolves])
next
  case (rotate s l sk now e)
  then show ?case by (rule step_inv_evolves [OF _ rotate_route_for_stream_evolves])
next
  case (bind_exit s l sk provider rate byte_rate now)
  then show ?case by (rule step_inv_evolves [OF _ bind_exit_quote_evolves])
next
  case (bind_routing request_quotes response_quotes s l sk now)
  then show ?case by (metis step_inv_evolves bind_routing_quotes_evolves)
next
  case (routing_request s l sk n now)
  then show ?case by (rule step_inv_evolves [OF _ record_routing_request_evolves])
next
  case (routing_response s l sk n now)
  then show ?case by (rule step_inv_evolves [OF _ record_routing_response_evolves])
next
  case (decrypt s l data now)
  then show ?case
    using expire_keeps [of s env ops now] by (auto simp: decrypt_routing_offer_def Let_def step_inv_keeps split: option.split)
next
  case (exit_response s l sk q n now)
  then show ?case by (rule step_inv_evolves [OF _ record_exit_response_evolves])
next
  case (exit_request s l sk n now)
  then show ?case by (rule step_inv_evolves [OF _ record_exit_request_evolves])
next
  case (acknowledge offer now s r s' l)
  then show ?case
    using step_inv_acknowledges acknowledge_offer_acknowledges [of env s ops offer now] by metis
next
  case (restart s st now s' l)
  then show ?case by (blast intro: step_inv_restarted)
qed

lemma reachable_inv: "session_reachable env ops config x \<Longrightarrow> step_inv env config x"
proof (induction rule: session_reachable.induct)
  case (start s)
  then show ?case by (simp add: step_inv_def manager_ok_def ledger_ok_def)
next
  case (step x y)
  then show ?case by (blast intro: step_inv_step)
qed

text \<open>
  C5. The wallet's limit holds. Whatever sequence of proposals, activations, route changes,
  observations, offers and restarts the manager goes through, the charges of the pairwise different receipts
  it has acknowledged in the active session add up to at most what it counts as spent, and that
  is at most the limit the wallet signed; the session has at most 4096 routes with pairwise different
  streams and epochs, and at most 64 responses wait on each.
\<close>

theorem session_never_overspends:
  assumes "session_reachable env ops config (s, ledger)" and "mgr_active_opt s = Some a"
  shows "distinct ledger \<and> (\<Sum>p\<leftarrow>ledger. payload_charge p) \<le> unat (act_spent_charge_wei a) \<and>
    unat (act_spent_charge_wei a) \<le> unat (rsp_max_total_charge_wei (ars_policy (act_authorization a))) \<and>
    length (act_routes a) \<le> 4096 \<and> distinct (map rt_stream_key (act_routes a)) \<and>
    distinct (map (\<lambda>r. rsr_route_epoch (rt_request r)) (act_routes a)) \<and>
    (\<forall>r \<in> set (act_routes a). length (rt_observed_responses r) \<le> 64)"
  using reachable_inv [OF assms(1)] assms(2)
  by (auto simp: step_inv_def manager_ok_def ledger_ok_def session_ok_def Let_def routes_ok_def route_ok_def
      max_receipt_session_routes_def max_pending_receipt_responses_per_route_def)

lemma session_verify_later:
  assumes "session_verify env auth chain contract key t c = Ok ()"
    and "rsp_valid_from_unix_s (ars_policy auth) \<le> now" and "now \<le> rsp_expires_at_unix_s (ars_policy auth)"
    and "unat c' \<le> unat (rsp_max_total_charge_wei (ars_policy auth))"
  shows "session_verify env auth chain contract key now c' = Ok ()"
  using assms by (simp add: session_verify_eq_Ok Let_def word_le_nat_alt)

lemma check_recovered_routes_ok:
  assumes "routes_ok (sn_receipt_env env) (hdr_authorization h) routes"
    and "\<And>q. request_ok (sn_receipt_env env) (hdr_authorization h) q \<Longrightarrow>
      session_request_verify (sn_receipt_env env) q (cfg_chain_id config) (cfg_settlement_contract config) now = Ok ()"
    and "set keys \<inter> rt_stream_key ` set routes = {}"
    and "set epochs \<inter> (\<lambda>r. rsr_route_epoch (rt_request r)) ` set routes = {}"
  shows "check_recovered_routes env config h now keys epochs routes = Ok ()"
  using assms
proof (induction routes arbitrary: keys epochs)
  case (Cons route routes)
  have ro: "route_ok (sn_receipt_env env) (hdr_authorization h) route"
    and rs: "routes_ok (sn_receipt_env env) (hdr_authorization h) routes"
    using Cons.prems(1) by (auto simp: routes_ok_def)
  have v: "session_request_verify (sn_receipt_env env) (rt_request route) (cfg_chain_id config) (cfg_settlement_contract config) now = Ok ()"
    using Cons.prems(2) ro by (simp add: route_ok_def)
  have rest: "check_recovered_routes env config h now (rt_stream_key route # keys) (rsr_route_epoch (rt_request route) # epochs) routes = Ok ()"
    using Cons.prems by (intro Cons.IH [OF rs]) (auto simp: routes_ok_def)
  have m: "checkpoint_matches h route ck k = checkpoint_identity (hdr_authorization h) (rt_request route) ck k" for ck k
    by (auto simp: checkpoint_matches_def checkpoint_identity_def)
  have "\<not> list_ex (\<lambda>(_, p). length (rps_observed_payloads p) > max_pending_receipt_responses_per_route) (rt_routing_provider_states route)"
    "\<not> list_ex (\<lambda>(k, st). case rps_checkpoint_opt st of None \<Rightarrow> False | Some ck \<Rightarrow> \<not> checkpoint_matches h route ck k)
        (rt_routing_provider_states route)"
    using ro by (fastforce simp: list_ex_iff route_ok_def provider_ok_def m not_less split: option.splits)+
  moreover have "\<not> (case rt_checkpoint_opt route of None \<Rightarrow> False | Some ck \<Rightarrow> (case rt_expected_provider_public_key_opt route of
      None \<Rightarrow> True | Some k \<Rightarrow> \<not> checkpoint_matches h route ck k))"
    using ro by (auto simp: route_ok_def m split: option.splits)
  ultimately show ?case
    using Cons.prems(3,4) ro v rest by (simp add: route_ok_def request_ok_def not_less)
qed simp

text \<open>
  C22. A saved session is restored as it was: for every session the manager can reach, the header
  and the routes that it persists pass every check of recovery at any time of the session's window,
  and recovery gives back the same session, when the key pair's text reads back as the key pair.
\<close>

theorem saved_session_restores:
  assumes "session_reachable env ops config (s, ledger)" and "mgr_active_opt s = Some a"
    and "sn_cryptde_from_str env (sn_cryptde_to_string env (act_payer_cryptde a)) = Ok (act_payer_cryptde a)"
    and "rsp_valid_from_unix_s (ars_policy (act_authorization a)) \<le> now"
    and "now \<le> rsp_expires_at_unix_s (ars_policy (act_authorization a))"
  shows "restore_active env config (persisted_header env a) (act_routes a) now = Ok a"
proof -
  let ?auth = "act_authorization a" and ?renv = "sn_receipt_env env"
  let ?p = "ars_policy ?auth"
  have ok: "session_ok env config a"
    using reachable_inv [OF assms(1)] assms(2) by (auto simp: step_inv_def manager_ok_def)
  then obtain t where t: "session_verify ?renv ?auth (cfg_chain_id config) (cfg_settlement_contract config)
      (rsp_payer_session_public_key ?p) t 0 = Ok ()"
    by (auto simp: session_ok_def Let_def)
  note v = session_verify_later [OF t assms(4,5)]
  have "check_recovered_routes env config (persisted_header env a) now [] [] (act_routes a) = Ok ()"
  proof (rule check_recovered_routes_ok)
    show "routes_ok ?renv (hdr_authorization (persisted_header env a)) (act_routes a)"
      using ok by (simp add: session_ok_def Let_def persisted_header_def)
    fix q assume "request_ok ?renv (hdr_authorization (persisted_header env a)) q"
    then show "session_request_verify ?renv q (cfg_chain_id config) (cfg_settlement_contract config) now = Ok ()"
      using v [of 0] by (simp add: request_ok_def persisted_header_def session_request_verify_def Let_def)
  qed simp_all
  then show ?thesis
    using ok assms(3) v [of "act_spent_charge_wei a"]
    by (simp add: restore_active_def session_ok_def Let_def routes_ok_def persisted_header_def not_less)
qed

subsection \<open>Acknowledging the same offer again\<close>

text \<open>Where a session keeps the payload of an offer.\<close>

definition kept_payload :: "active_receipt_session \<Rightarrow> signed_service_receipt \<Rightarrow> service_receipt_payload option" where
  "kept_payload a offer = Option.bind (find_epoch (sr_route_epoch (ssr_receipt offer)) a) (\<lambda>route.
     if sr_service_kind (ssr_receipt offer) = Routing
     then Option.bind (map_of (rt_routing_provider_states route) (sr_provider_public_key (ssr_receipt offer))) (\<lambda>st.
            acknowledged_before (rps_acknowledged_payload_opt st) offer)
     else acknowledged_before (rt_acknowledged_payload_opt route) offer)"

lemma acknowledge_kept:
  assumes "mgr_active_opt s = Some a" and "now \<le> rsp_expires_at_unix_s (ars_policy (act_authorization a))"
    and "kept_payload a offer = Some p"
  shows "acknowledge_offer env ops offer now s = (Ok p, s)"
proof -
  have e: "mgr_active_opt (expire env ops now s) = Some a" "expire env ops now s = s"
    using assms(1,2) expire_live [of env ops now s a] by (simp_all add: expire_active)
  show ?thesis
    using assms(3) e by (auto simp: acknowledge_offer_def acknowledge_routing_offer_def Let_def kept_payload_def
        bind_eq_Some_conv split: if_splits)
qed

definition keeps_payload :: "signed_service_receipt \<Rightarrow> (service_receipt_payload, 'st) session_outcome \<Rightarrow> bool" where
  "keeps_payload offer out \<longleftrightarrow>
     (\<forall>p a. fst out = Ok p \<longrightarrow> mgr_active_opt (snd out) = Some a \<longrightarrow> kept_payload a offer = Some p)"

lemma keeps_payload_error [simp]: "keeps_payload offer (Err e, s)" "keeps_payload offer (Panic, s)"
  by (simp_all add: keeps_payload_def)

lemma keeps_payload_bind:
  "(\<And>x. m = Ok x \<Longrightarrow> keeps_payload offer (k x s)) \<Longrightarrow> keeps_payload offer (and_then_s (m, s) k)"
  by (cases m) simp_all

lemma keeps_payload_again: "mgr_active_opt s = Some a \<Longrightarrow> kept_payload a offer = Some p \<Longrightarrow> keeps_payload offer (Ok p, s)"
  by (simp add: keeps_payload_def)

lemma keeps_payload_new:
  assumes "kept_payload a' offer = Some p"
  shows "keeps_payload offer (and_then_s (persist_route env ops sk (s\<lparr>mgr_active_opt := Some a'\<rparr>)) (\<lambda>_ t. (Ok p, t)))"
proof -
  let ?s = "s\<lparr>mgr_active_opt := Some a'\<rparr>"
  obtain r t where p: "persist_route env ops sk ?s = (r, t)" by force
  have "mgr_active_opt t = Some a' \<or> mgr_active_opt t = None"
    using persist_route_result [of ?s env ops sk] by (auto simp: p keeps_def)
  then show ?thesis
    using assms by (cases r) (auto simp: p keeps_payload_def)
qed

lemma find_update_first_same: "List.find p xs = Some x \<Longrightarrow> p (f x) \<Longrightarrow> List.find p (update_first p f xs) = Some (f x)"
  by (induction xs) auto

lemma find_epoch_update:
  assumes "find_epoch e a = Some route" and "rt_request route' = rt_request route"
  shows "find_epoch e (a\<lparr>act_routes := update_first (\<lambda>r. rsr_route_epoch (rt_request r) = e) (\<lambda>_. route') (act_routes a),
    act_spent_charge_wei := spent\<rparr>) = Some route'"
  using find_update_first_same [OF assms(1) [unfolded find_epoch_def], of "\<lambda>_. route'"]
    find_Some_mem [OF assms(1) [unfolded find_epoch_def]] assms(2)
  by (simp add: find_epoch_def)

lemma acknowledged_before_self:
  "asr_signed_receipt (srp_acknowledged_receipt p) = offer \<Longrightarrow> acknowledged_before (Some p) offer = Some p"
  by (simp add: acknowledged_before_def)

lemma acknowledge_keeps_payload: "keeps_payload offer (acknowledge_offer env ops offer now s)"
proof (cases "mgr_active_opt (expire env ops now s)")
  case None
  then show ?thesis
    by (simp add: acknowledge_offer_def acknowledge_routing_offer_def Let_def)
next
  case (Some a)
  let ?e = "sr_route_epoch (ssr_receipt offer)" and ?r = "ssr_receipt offer"
  show ?thesis
  proof (cases "sr_service_kind ?r = Routing")
    case True
    have "kept_payload (a\<lparr>act_routes := update_first (\<lambda>r. rsr_route_epoch (rt_request r) = ?e) (\<lambda>_. route\<lparr>rt_routing_provider_states :=
        AList.update (sr_provider_public_key ?r) (st\<lparr>rps_checkpoint_opt := Some ck, rps_acknowledged_payload_opt := Some p,
          rps_observed_payloads := later\<rparr>) (rt_routing_provider_states route)\<rparr>) (act_routes a), act_spent_charge_wei := spent\<rparr>) offer = Some p"
      if "find_epoch ?e a = Some route" "admit_offer env config a ck_opt offer now = Ok (p, ck, spent)" for route st ck p later spent config ck_opt
      using find_epoch_update [OF that(1)] admit_offer_Ok(1) [OF that(2)] True
      by (simp add: kept_payload_def update_conv' acknowledged_before_self)
    then show ?thesis
      using True Some
      by (auto simp: acknowledge_offer_def acknowledge_routing_offer_def Let_def update_epoch_def
          intro!: keeps_payload_bind keeps_payload_new keeps_payload_again [of _ a] split: option.split list.split)
        (simp_all add: kept_payload_def)
  next
    case False
    have "kept_payload (a\<lparr>act_routes := update_first (\<lambda>r. rsr_route_epoch (rt_request r) = ?e) (\<lambda>_. route\<lparr>rt_checkpoint_opt := Some ck,
          rt_acknowledged_payload_opt := Some p, rt_observed_responses := later\<rparr>) (act_routes a), act_spent_charge_wei := spent\<rparr>) offer = Some p"
      if "find_epoch ?e a = Some route" "admit_offer env config a ck_opt offer now = Ok (p, ck, spent)" for route ck p later spent config ck_opt
      using find_epoch_update [OF that(1)] admit_offer_Ok(1) [OF that(2)] False
      by (simp add: kept_payload_def acknowledged_before_self)
    then show ?thesis
      using False Some
      by (auto simp: acknowledge_offer_def Let_def update_epoch_def
          intro!: keeps_payload_bind keeps_payload_new keeps_payload_again [of _ a] split: option.split list.split)
        (simp_all add: kept_payload_def)
  qed
qed

text \<open>
  C28. Acknowledging an offer is idempotent: when an offer has been acknowledged and the session is
  still active, the same offer gives the same payload again at any time before the session
  expires, and the manager does not change, so nothing is charged or saved twice.
\<close>

theorem acknowledge_offer_idempotent:
  assumes "acknowledge_offer env ops offer now s = (Ok p, s')" and "mgr_active_opt s' = Some a"
    and "later \<le> rsp_expires_at_unix_s (ars_policy (act_authorization a))"
  shows "acknowledge_offer env ops offer later s' = (Ok p, s')"
  using acknowledge_keeps_payload [of offer env ops now s] assms
  by (intro acknowledge_kept [OF assms(2,3)]) (simp add: keeps_payload_def)

end
