(* ===== verification/Session_Outcomes.thy ===== *)
theory Session_Outcomes
  imports Session_Safety
begin

section \<open>Failures, rotation, and a worked session\<close>

text \<open>
  The manager fails closed when it cannot save, a rotated route is dead for late offers, and one
  session is run from proposal to acknowledgement, as the example of the safety properties.
\<close>

subsection \<open>Failing closed\<close>

definition fails_closed :: "('a, 'st) session_outcome \<Rightarrow> bool" where
  "fails_closed out \<longleftrightarrow> (\<forall>m. fst out = Err (SessionPersistence m) \<longrightarrow> mgr_active_opt (snd out) = None)"

lemma fails_closed_simps [simp]:
  "fails_closed (Ok x, s)" "fails_closed (Panic, s)"
  "fails_closed (Err e, s) \<longleftrightarrow> (\<forall>m. e = SessionPersistence m \<longrightarrow> mgr_active_opt s = None)"
  by (auto simp: fails_closed_def)

lemma fails_closed_bind:
  "fails_closed (m, s) \<Longrightarrow> (\<And>x. m = Ok x \<Longrightarrow> fails_closed (k x s)) \<Longrightarrow> fails_closed (and_then_s (m, s) k)"
  by (cases m) auto

lemma fails_closed_persist: "fails_closed (persist_route env ops sk s)"
  using persist_route_result [of s env ops sk] by (cases "persist_route env ops sk s") (auto simp: fails_closed_def)

lemma fails_closed_persist_then: "fails_closed (and_then_s (persist_route env ops sk s) (\<lambda>_ t. (Ok x, t)))"
  using fails_closed_persist [of env ops sk s]
  by (cases "persist_route env ops sk s"; cases "fst (persist_route env ops sk s)") auto

lemma fails_closed_with_route:
  "(\<And>a r. fails_closed (k a r (expire env ops now s))) \<Longrightarrow> fails_closed (with_route env ops sk now s k)"
  by (auto simp: with_route_def Let_def split: option.split)

lemma admit_offer_error: "admit_offer env config a ck offer now \<noteq> Err (SessionPersistence m)"
  by (auto simp: admit_offer_def Let_def res_simps next_checkpoint_def charge_session_def split: option.splits prod.splits if_splits)

lemma record_routing_payload_error: "record_routing_payload r ps n \<noteq> Err (SessionPersistence m)"
proof -
  have "push_payloads ps n sts \<noteq> Err e" for sts e
    by (induction ps n sts rule: push_payloads.induct) (auto simp: res_simps)
  then show ?thesis
    by (auto simp: record_routing_payload_def res_simps split: if_splits)
qed

lemma collect_provider_states_error: "collect_provider_states qs sts \<noteq> Err (SessionPersistence m)"
  by (induction qs sts rule: collect_provider_states.induct) (auto split: option.splits)

lemmas fails_closed_intros = fails_closed_bind fails_closed_with_route fails_closed_persist fails_closed_persist_then

text \<open>
  C21. The manager fails closed: whenever a method that changes routes or acknowledges an offer
  reports that it could not save, no session is active any more.
\<close>

theorem persistence_errors_revoke:
  "fails_closed (request_for_stream env ops sk now e s) \<and> fails_closed (rotate_route_for_stream env ops sk now e s) \<and>
   fails_closed (bind_exit_quote env ops sk provider rate byte_rate now s) \<and>
   fails_closed (bind_routing_quotes env ops sk request_quotes response_quotes now s) \<and>
   fails_closed (record_routing_request env ops sk n now s) \<and> fails_closed (record_routing_response env ops sk n now s) \<and>
   fails_closed (record_exit_response env ops sk q n now s) \<and> fails_closed (record_exit_request env ops sk n now s) \<and>
   fails_closed (acknowledge_offer env ops offer now s)"
proof (intro conjI)
  have fresh: "fresh_route_request env a e \<noteq> Err (SessionPersistence m)" for a m
    by (auto simp: fresh_route_request_def res_simps)
  show "fails_closed (request_for_stream env ops sk now e s)"
    using fresh by (auto simp: request_for_stream_def Let_def fails_closed_def [of "(fresh_route_request _ _ _, _)"]
        intro!: fails_closed_intros split: option.split)
  show "fails_closed (rotate_route_for_stream env ops sk now e s)"
    using fresh by (auto simp: rotate_route_for_stream_def Let_def fails_closed_def [of "(fresh_route_request _ _ _, _)"]
        intro!: fails_closed_intros split: option.split)
  show "fails_closed (bind_exit_quote env ops sk provider rate byte_rate now s)"
    by (auto simp: bind_exit_quote_def intro!: fails_closed_intros split: option.split)
  show "fails_closed (bind_routing_quotes env ops sk request_quotes response_quotes now s)"
    using collect_provider_states_error
    by (auto simp: bind_routing_quotes_def Let_def fails_closed_def [of "(collect_provider_states _ _, _)"] intro!: fails_closed_intros)
  show "fails_closed (record_routing_request env ops sk n now s)" "fails_closed (record_routing_response env ops sk n now s)"
    using record_routing_payload_error
    by (auto simp: record_routing_request_def record_routing_response_def fails_closed_def [of "(record_routing_payload _ _ _, _)"]
        intro!: fails_closed_intros)
  show "fails_closed (record_exit_response env ops sk q n now s)" "fails_closed (record_exit_request env ops sk n now s)"
    by (auto simp: record_exit_response_def record_exit_request_def Let_def fails_closed_def [of "(ok_or _ _, _)"] res_simps
        intro!: fails_closed_intros)
  show "fails_closed (acknowledge_offer env ops offer now s)"
    using admit_offer_error
    by (auto simp: acknowledge_offer_def acknowledge_routing_offer_def Let_def fails_closed_def [of "(ok_or _ _, _)"] res_simps
        fails_closed_def [of "(admit_offer _ _ _ _ _ _, _)"] intro!: fails_closed_intros split: option.split list.split)
qed

subsection \<open>Rotation\<close>

lemma rotate_drops_epoch:
  assumes "routes_ok (sn_receipt_env env) (act_authorization a) (act_routes a)" and "mgr_active_opt s = Some a"
    and "find_route sk a = Some route" and "rotate_route_for_stream env ops sk now e s = (Ok (Some q), s')"
    and "mgr_active_opt s' = Some a'"
  shows "find_epoch (rsr_route_epoch (rt_request route)) a' = None"
proof -
  have live: "mgr_active_opt (expire env ops now s) = Some a" "expire env ops now s = s"
  proof -
    have "mgr_active_opt (expire env ops now s) \<noteq> None"
      using assms(4) by (cases "mgr_active_opt (expire env ops now s)") (simp_all add: rotate_route_for_stream_def Let_def)
    then show "mgr_active_opt (expire env ops now s) = Some a"
      using assms(2) expire_active [of env ops now s] by auto
    then show "expire env ops now s = s" by (rule expire_live)
  qed
  let ?routes = "update_first (\<lambda>r. rt_stream_key r = sk) (\<lambda>_. route_state sk q) (act_routes a)"
  have fresh: "fresh_route_request env a e = Ok q"
    and per: "persist_route env ops sk (s\<lparr>mgr_active_opt := Some (a\<lparr>act_routes := ?routes\<rparr>)\<rparr>) = (Ok (), s')"
    using assms(3,4) live
    by (auto simp: rotate_route_for_stream_def Let_def set_routes_def and_then_s_def split: res.splits prod.splits)
  have a': "a' = a\<lparr>act_routes := ?routes\<rparr>"
    using persist_route_result [of "s\<lparr>mgr_active_opt := Some (a\<lparr>act_routes := ?routes\<rparr>)\<rparr>" env ops sk] assms(5)
    by (auto simp: per)
  obtain ys zs where r: "act_routes a = ys @ route # zs" "?routes = ys @ route_state sk q # zs"
    using update_first_split [OF assms(3) [unfolded find_route_def], of "\<lambda>_. route_state sk q"] by auto
  have "rsr_route_epoch q \<noteq> rsr_route_epoch (rt_request route)"
    using fresh_route_request_Ok [OF fresh] by (auto simp: r(1))
  moreover have "rsr_route_epoch (rt_request x) \<noteq> rsr_route_epoch (rt_request route)" if "x \<in> set ys \<union> set zs" for x
    using assms(1) that by (auto simp: routes_ok_def r(1) rev_image_eqI)
  moreover have "act_routes a' = ys @ route_state sk q # zs"
    by (simp add: a' r(2))
  moreover have "rt_request (route_state sk q) = q"
    by (simp add: route_state_def)
  ultimately show ?thesis
    unfolding find_epoch_def find_None_iff by auto
qed

text \<open>
  C20. A rotated route is dead: after the manager has replaced the route of a stream, any
  offer for the old route's epoch is refused as belonging to no active request, so a late offer
  of the failed exit cannot be charged.
\<close>

theorem rotated_route_refuses_late_offers:
  assumes "session_reachable env ops config (s, ledger)" and "mgr_active_opt s = Some a"
    and "find_route sk a = Some route" and "rotate_route_for_stream env ops sk now e s = (Ok (Some q), s')"
    and "mgr_active_opt s' = Some a'" and "later \<le> rsp_expires_at_unix_s (ars_policy (act_authorization a'))"
    and "sr_route_epoch (ssr_receipt offer) = rsr_route_epoch (rt_request route)"
  shows "acknowledge_offer env ops offer later s' = (Err ReceiptRouteNotFound, s')"
proof -
  have "session_ok env config a"
    using reachable_inv [OF assms(1)] assms(2) by (auto simp: step_inv_def manager_ok_def)
  then have "find_epoch (rsr_route_epoch (rt_request route)) a' = None"
    using rotate_drops_epoch [OF _ assms(2-5)] session_ok_routes by blast
  moreover have "mgr_active_opt (expire env ops later s') = Some a'" "expire env ops later s' = s'"
    using assms(5,6) expire_live [of env ops later s' a'] by (simp_all add: expire_active)
  ultimately show ?thesis
    by (simp add: acknowledge_offer_def acknowledge_routing_offer_def Let_def assms(7))
qed

subsection \<open>A worked session\<close>

text \<open>
  A wallet authorizes 1000 wei for a minute; one stream gets a route, an exit quote and an observed
  response; the exit's offer for it, 310 wei, is acknowledged. There is no recovery store.
\<close>

definition demo_session_env :: session_env where
  "demo_session_env = \<lparr>sn_settlement_env = demo_settlement_env, sn_to_hex = (\<lambda>_. []),
     sn_from_hex = (\<lambda>_. Ok (be_bytes 32 (0xAB :: bytes32) @ be_bytes 32 (1 :: bytes32) @ [0])),
     sn_cryptde_to_string = (\<lambda>_. []), sn_cryptde_from_str = (\<lambda>_. Ok (demo_crypt_de [8])),
     sn_offer_from_slice = (\<lambda>_. Err []), sn_codex_error_debug = (\<lambda>_. [])\<rparr>"

definition demo_store :: "unit recovery_store" where
  "demo_store = \<lparr>store_load = (\<lambda>_ st. (Inr None, st)), store_save_header = (\<lambda>_ st. (Inr (), st)),
     store_save_header_and_route = (\<lambda>_ _ st. (Inr (), st)), store_clear = (\<lambda>st. (Inr (), st))\<rparr>"

definition demo_config :: receipt_session_config where
  "demo_config = \<lparr>cfg_chain = \<lparr>literal_identifier = ''base'', chain_contract = 0x70\<rparr>, cfg_chain_id = 8453,
     cfg_settlement_contract = 0xC0, cfg_payer_wallet_address = 0xAB\<rparr>"

definition demo_session_policy :: receipt_session_policy where
  "demo_session_policy = session_policy_new 8453 0xC0 0xAB [8] 1000 1000 1060 5"

definition demo_authorization :: authorized_receipt_session where
  "demo_authorization = \<lparr>ars_policy = demo_session_policy, ars_wallet_signature = \<lparr>sig_v = 0, sig_r = 0xAB, sig_s = 1\<rparr>\<rparr>"

definition demo_active :: "receipt_route_state list \<Rightarrow> u128 \<Rightarrow> active_receipt_session" where
  "demo_active routes spent = \<lparr>act_authorization = demo_authorization, act_payer_cryptde = demo_crypt_de [8],
     act_routes = routes, act_spent_charge_wei = spent\<rparr>"

definition demo_manager :: "pending_receipt_session option \<Rightarrow> active_receipt_session option \<Rightarrow> unit receipt_session_manager" where
  "demo_manager pending active = \<lparr>mgr_config = demo_config, mgr_pending_opt = pending, mgr_active_opt = active,
     mgr_recovery_store_opt = None, mgr_recovery_required = False\<rparr>"

definition demo_pending :: pending_receipt_session where
  "demo_pending = \<lparr>pnd_proposal_id = ''0x'', pnd_policy = demo_session_policy, pnd_payer_cryptde = demo_crypt_de [8]\<rparr>"

definition demo_request :: "bytes32 \<Rightarrow> receipt_session_request" where
  "demo_request e = \<lparr>rsr_authorization = demo_authorization, rsr_route_epoch = e,
     rsr_accounting_commitment = make_accounting_commitment (demo_env_with last_byte) e [8]\<rparr>"

definition demo_quoted :: "(u64 \<times> u64 \<times> u64) list \<Rightarrow> receipt_route_state" where
  "demo_quoted responses = (route_state 1 (demo_request 1))\<lparr>rt_expected_provider_public_key_opt := Some [7],
     rt_exit_service_rate_opt := Some 10, rt_exit_byte_rate_opt := Some 3, rt_observed_responses := responses\<rparr>"

definition demo_payload :: service_receipt_payload where
  "demo_payload = \<lparr>srp_authorization = demo_authorization,
     srp_acknowledged_receipt = demo_ack (demo_receipt last_byte 1 4 310) [8]\<rparr>"

abbreviation demo_offer :: signed_service_receipt where
  "demo_offer \<equiv> asr_signed_receipt (demo_ack (demo_receipt last_byte 1 4 310) [8])"

lemma demo_session_policy_simps [simp]:
  "rsp_chain_id demo_session_policy = 8453" "rsp_settlement_contract demo_session_policy = 0xC0"
  "rsp_payer_wallet_address demo_session_policy = 0xAB" "rsp_payer_session_public_key demo_session_policy = [8]"
  "rsp_max_total_charge_wei demo_session_policy = 1000" "rsp_valid_from_unix_s demo_session_policy = 1000"
  "rsp_expires_at_unix_s demo_session_policy = 1060"
  by (simp_all add: demo_session_policy_def session_policy_new_def)

lemma demo_session_simps [simp]:
  "sn_settlement_env demo_session_env = demo_settlement_env" "se_receipt_env demo_settlement_env = demo_env_with last_byte"
  "mgr_config (demo_manager p a) = demo_config" "mgr_pending_opt (demo_manager p a) = p" "mgr_active_opt (demo_manager p a) = a"
  "(demo_manager p a)\<lparr>mgr_active_opt := b\<rparr> = demo_manager p b"
  "(demo_manager p a)\<lparr>mgr_pending_opt := q\<rparr> = demo_manager q a"
  "cfg_payer_wallet_address demo_config = 0xAB" "cfg_chain_id demo_config = 8453" "cfg_settlement_contract demo_config = 0xC0"
  "act_routes (demo_active rs w) = rs" "act_authorization (demo_active rs w) = demo_authorization"
  "act_spent_charge_wei (demo_active rs w) = w" "act_payer_cryptde (demo_active rs w) = demo_crypt_de [8]"
  "(demo_active rs w)\<lparr>act_routes := rs'\<rparr> = demo_active rs' w"
  "(demo_active rs w)\<lparr>act_spent_charge_wei := w'\<rparr> = demo_active rs w'"
  "ars_policy demo_authorization = demo_session_policy"
  by (simp_all add: demo_session_env_def demo_settlement_env_def demo_manager_def demo_config_def demo_active_def demo_authorization_def)

lemma demo_persist [simp]:
  "find_route sk a \<noteq> None \<Longrightarrow> persist_route env ops sk (demo_manager p (Some a)) = (Ok (), demo_manager p (Some a))"
  "persist_header env ops (demo_manager p (Some a)) = (Ok (), demo_manager p (Some a))"
  by (auto simp: persist_route_def persist_header_def save_or_revoke_def demo_manager_def)

lemma demo_live [simp]: "now \<le> 1060 \<Longrightarrow> expire env ops now (demo_manager p (Some (demo_active rs w))) = demo_manager p (Some (demo_active rs w))"
  by (simp add: expire_def session_status_def Let_def)

lemma demo_verifies: "session_verify (demo_env_with last_byte) demo_authorization 8453 0xC0 [8] 1000 w = Ok () \<longleftrightarrow> unat w \<le> 1000"
  by (auto simp: session_verify_eq_Ok Let_def session_policy_ok_def)
    (simp_all add: demo_authorization_def demo_session_policy_def session_policy_new_def service_receipt_protocol_version_def)

lemma demo_requests:
  "request_for_stream demo_session_env demo_store 1 1000 1 (demo_manager None (Some (demo_active [] 0)))
     = (Ok (Some (demo_request 1)), demo_manager None (Some (demo_active [route_state 1 (demo_request 1)] 0)))"
  by (simp add: request_for_stream_def Let_def find_route_def max_receipt_session_routes_def fresh_route_request_def
      session_request_new_def set_routes_def demo_request_def route_state_def)

lemma demo_binds:
  "bind_exit_quote demo_session_env demo_store 1 [7] 10 3 1000 (demo_manager None (Some (demo_active [route_state 1 (demo_request 1)] 0)))
     = (Ok (), demo_manager None (Some (demo_active [demo_quoted []] 0)))"
  by (simp add: bind_exit_quote_def with_route_def Let_def find_route_def update_route_def set_routes_def demo_quoted_def route_state_def)

lemma demo_observes:
  "record_exit_response demo_session_env demo_store 1 4 100 1000 (demo_manager None (Some (demo_active [demo_quoted []] 0)))
     = (Ok (), demo_manager None (Some (demo_active [demo_quoted [(4, 100, 1)]] 0)))"
  by (simp add: record_exit_response_def with_route_def Let_def find_route_def update_route_def set_routes_def demo_quoted_def
      route_state_def max_pending_receipt_responses_per_route_def checked_add_def)

lemma demo_policy_valid: "session_validate_structure demo_session_policy = Ok ()"
  by (simp add: session_validate_structure_eq_Ok session_policy_ok_def)
    (simp add: demo_session_policy_def session_policy_new_def service_receipt_protocol_version_def)

lemma demo_proposes:
  "snd (propose demo_session_env (decimal 1000) 60 1000 (demo_crypt_de [8]) 5 (demo_manager None None))
     = demo_manager (Some demo_pending) None"
proof -
  have p: "parse_u128 (decimal 1000) = Some 1000"
    using parse_decimal [of "1000 :: u128"] by simp
  have pol: "session_policy_new 8453 0xC0 0xAB [8] 1000 1000 1060 5 = demo_session_policy"
    by (simp add: demo_session_policy_def)
  obtain j where j: "session_typed_data (sn_to_hex demo_session_env) demo_session_policy = Ok j"
    by (simp add: session_typed_data_def demo_policy_valid)
  show ?thesis
    by (simp add: propose_def p max_receipt_session_charge_wei_def min_receipt_session_duration_seconds_def
        max_receipt_session_duration_seconds_def checked_add_def Let_def pol j demo_pending_def)
      (simp add: demo_session_env_def)
qed

lemma demo_activates:
  "\<exists>x. activate demo_session_env demo_store ''0x'' '''' 1000 (demo_manager (Some demo_pending) None)
     = (Ok x, demo_manager None (Some (demo_active [] 0)))"
proof -
  have sg: "signature_from_hex demo_session_env '''' = Ok \<lparr>sig_v = 0, sig_r = 0xAB, sig_s = 1\<rparr>"
    by (simp add: signature_from_hex_def demo_session_env_def from_be_bytes_be_bytes nth_append secp256k1_half_order_def)
  have auth: "\<lparr>ars_policy = demo_session_policy, ars_wallet_signature = \<lparr>sig_v = 0, sig_r = 0xAB, sig_s = 1\<rparr>\<rparr> = demo_authorization"
    by (simp add: demo_authorization_def)
  have pend: "pnd_proposal_id demo_pending = ''0x''" "pnd_policy demo_pending = demo_session_policy"
      "pnd_payer_cryptde demo_pending = demo_crypt_de [8]"
    by (simp_all add: demo_pending_def)
  have act: "\<lparr>act_authorization = demo_authorization, act_payer_cryptde = demo_crypt_de [8], act_routes = [],
      act_spent_charge_wei = 0\<rparr> = demo_active [] 0"
    by (simp add: demo_active_def)
  have store: "mgr_recovery_store_opt (demo_manager p a) = None" "\<not> mgr_recovery_required (demo_manager p a)" for p a
    by (simp_all add: demo_manager_def)
  have "session_status env ops 1000 (demo_manager None (Some (demo_active [] 0)))
      = (fst (session_status env ops 1000 (demo_manager None (Some (demo_active [] 0)))), demo_manager None (Some (demo_active [] 0)))"
    for env and ops :: "unit recovery_store"
    using demo_live [of 1000 env ops None "[]" 0] by (simp add: expire_def prod_eq_iff)
  then obtain st where "session_status demo_session_env demo_store 1000 (demo_manager None (Some (demo_active [] 0)))
      = (st, demo_manager None (Some (demo_active [] 0)))" by blast
  then show ?thesis
    using demo_verifies [of 0]
    by (simp add: activate_def pend sg Let_def auth store act)
qed

lemma demo_acknowledges:
  "acknowledge_offer demo_session_env demo_store demo_offer 1000 (demo_manager None (Some (demo_active [demo_quoted [(4, 100, 1)]] 0)))
     = (Ok demo_payload, demo_manager None (Some (demo_active [(demo_quoted [])\<lparr>
         rt_checkpoint_opt := Some \<lparr>ck_route_epoch = 1, ck_provider_public_key = [7],
           ck_accounting_commitment = make_accounting_commitment (demo_env_with last_byte) 1 [8],
           ck_payer_session_public_key = [8], ck_last_sequence = 4, ck_cumulative_charge_wei = 310\<rparr>,
         rt_acknowledged_payload_opt := Some demo_payload\<rparr>] 310)))"
proof -
  let ?env = "demo_env_with last_byte" and ?cd = "demo_crypt_de [8]"
  let ?r = "demo_receipt last_byte 1 4 310"
  let ?ack = "demo_ack ?r [8]"
  let ?ck = "\<lparr>ck_route_epoch = 1, ck_provider_public_key = [7],
           ck_accounting_commitment = make_accounting_commitment ?env 1 [8],
           ck_payer_session_public_key = [8], ck_last_sequence = 4, ck_cumulative_charge_wei = 310\<rparr>"
  have c: "make_accounting_commitment ?env 1 [8] \<noteq> 0"
    by (simp add: make_accounting_commitment_def last_byte_def)
  then have "\<exists>w. acknowledged_verify ?env ?ack ?cd = Ok w"
    by simp
  then obtain w where w: "acknowledged_verify ?env ?ack ?cd = Ok w" ..
  have "cde_sign ?cd x = Ok [8, 9]" for x
    using null_key_pair_from by (simp add: null_crypt_de_def null_sign_eq null_from_def null_set_key_pair_def)
  moreover have "\<exists>w. signed_verify ?env demo_offer ?cd = Ok w"
    using w by (auto simp: acknowledged_verify_eq_Ok)
  ultimately have ack: "signed_acknowledge ?env demo_offer ?cd = Ok ?ack"
    by (simp add: signed_acknowledge_eq_Ok acknowledgement_data_eq_Ok) (simp add: demo_ack_def demo_env_with_def)
  have ck: "checkpoint_begin ?env ?ack ?cd = Ok ?ck"
    using w by (simp add: checkpoint_begin_def begin_with_contiguity_eq_Ok same_stream_def)
  have "verify_for_receipt ?env demo_authorization ?ack ?cd 8453 0xC0 1000 = Ok w"
    using w demo_verifies [of 310] by (simp add: verify_for_receipt_def)
  then have admit: "admit_offer demo_session_env demo_config (demo_active rs 0) None demo_offer 1000 = Ok (demo_payload, ?ck, 310)" for rs
    using ack ck by (simp add: admit_offer_def Let_def next_checkpoint_def charge_session_def checked_sub_def checked_add_def demo_payload_def)
  have route: "rt_request (demo_quoted xs) = demo_request 1" "rsr_route_epoch (demo_request 1) = 1" "rt_stream_key (demo_quoted xs) = 1"
      "rt_acknowledged_payload_opt (demo_quoted xs) = None" "rt_expected_provider_public_key_opt (demo_quoted xs) = Some [7]"
      "rt_exit_service_rate_opt (demo_quoted xs) = Some 10" "rt_exit_byte_rate_opt (demo_quoted xs) = Some 3"
      "rt_observed_responses (demo_quoted xs) = xs" "rt_checkpoint_opt (demo_quoted xs) = None" for xs
    by (simp_all add: demo_quoted_def route_state_def demo_request_def)
  have rec: "sr_service_kind ?r = Exit" "sr_service_rate ?r = 10" "sr_byte_rate ?r = 3" "sr_payload_size ?r = 100" "sr_service_units ?r = 1"
    by (simp_all add: demo_receipt_def)
  show ?thesis
    by (simp add: acknowledge_offer_def Let_def find_epoch_def route acknowledged_before_def rec admit update_epoch_def find_route_def)
      (simp add: demo_quoted_def route_state_def)
qed

definition demo_charged :: receipt_route_state where
  "demo_charged = (demo_quoted [])\<lparr>
     rt_checkpoint_opt := Some \<lparr>ck_route_epoch = 1, ck_provider_public_key = [7],
       ck_accounting_commitment = make_accounting_commitment (demo_env_with last_byte) 1 [8],
       ck_payer_session_public_key = [8], ck_last_sequence = 4, ck_cumulative_charge_wei = 310\<rparr>,
     rt_acknowledged_payload_opt := Some demo_payload\<rparr>"

abbreviation demo_final :: "unit receipt_session_manager" where
  "demo_final \<equiv> demo_manager None (Some (demo_active [demo_charged] 310))"

lemma demo_reachable: "session_reachable demo_session_env demo_store demo_config (demo_final, [demo_payload])"
proof -
  let ?R = "session_reachable demo_session_env demo_store demo_config"
  obtain x where x: "activate demo_session_env demo_store ''0x'' '''' 1000 (demo_manager (Some demo_pending) None)
      = (Ok x, demo_manager None (Some (demo_active [] 0)))"
    using demo_activates by blast
  have "?R (demo_manager None None, [])"
    by (rule session_reachable.start) simp_all
  from session_reachable.step [OF this session_step.propose] have "?R (demo_manager (Some demo_pending) None, [])"
    using demo_proposes by metis
  from session_reachable.step [OF this session_step.activate [OF x]] have "?R (demo_manager None (Some (demo_active [] 0)), [])"
    by simp
  from session_reachable.step [OF this session_step.request [of _ _ _ _ 1 1000 1]]
  have "?R (demo_manager None (Some (demo_active [route_state 1 (demo_request 1)] 0)), [])"
    by (simp add: demo_requests)
  from session_reachable.step [OF this session_step.bind_exit [of _ _ _ _ 1 "[7]" 10 3 1000]]
  have "?R (demo_manager None (Some (demo_active [demo_quoted []] 0)), [])"
    by (simp add: demo_binds)
  from session_reachable.step [OF this session_step.exit_response [of _ _ _ _ 1 4 100 1000]]
  have "?R (demo_manager None (Some (demo_active [demo_quoted [(4, 100, 1)]] 0)), [])"
    by (simp add: demo_observes)
  from session_reachable.step [OF this session_step.acknowledge [OF demo_acknowledges]] show ?thesis
    by (simp add: enter_def demo_charged_def)
qed

theorem session_never_overspends_witness:
  "session_reachable demo_session_env demo_store demo_config (demo_final, [demo_payload]) \<and>
   payload_charge demo_payload \<le> unat (310 :: u128) \<and> payload_charge demo_payload = 310"
  using session_never_overspends [OF demo_reachable] demo_reachable by (simp add: demo_payload_def)

theorem saved_session_restores_witness:
  "restore_active demo_session_env demo_config (persisted_header demo_session_env (demo_active [demo_charged] 310)) [demo_charged] 1030
     = Ok (demo_active [demo_charged] 310)"
  using saved_session_restores [OF demo_reachable, of "demo_active [demo_charged] 310" 1030]
  by (simp add: demo_session_env_def)

theorem acknowledge_offer_idempotent_witness:
  "acknowledge_offer demo_session_env demo_store demo_offer 1050 demo_final = (Ok demo_payload, demo_final)"
  using acknowledge_offer_idempotent [OF demo_acknowledges, of _ 1050] by (simp add: demo_charged_def)

theorem rotated_route_refuses_late_offers_witness:
  "\<exists>s. rotate_route_for_stream demo_session_env demo_store 1 1010 2 demo_final = (Ok (Some (demo_request 2)), s) \<and>
     acknowledge_offer demo_session_env demo_store demo_offer 1020 s = (Err ReceiptRouteNotFound, s)"
proof -
  let ?s = "demo_manager None (Some (demo_active [route_state 1 (demo_request 2)] 310))"
  have f: "find_route 1 (demo_active [demo_charged] 310) = Some demo_charged" "rsr_route_epoch (rt_request demo_charged) = 1"
    by (simp_all add: find_route_def demo_charged_def demo_quoted_def route_state_def demo_request_def)
  have "rotate_route_for_stream demo_session_env demo_store 1 1010 2 demo_final = (Ok (Some (demo_request 2)), ?s)"
    by (simp add: rotate_route_for_stream_def Let_def f fresh_route_request_def session_request_new_def set_routes_def)
      (simp add: find_route_def demo_charged_def demo_quoted_def route_state_def demo_request_def)
  with rotated_route_refuses_late_offers [OF demo_reachable _ f(1) this, of _ 1020 demo_offer] f(2) show ?thesis
    by (intro exI [of _ ?s] conjI) simp_all
qed

end
