(* ===== verification/Table_Codec.thy ===== *)
theory Table_Codec
  imports Masq_Prelude
begin

section \<open>Table codecs\<close>

text \<open>
  CBOR is a parameter of the model. The codecs here are concrete ones for worked examples: they know
  the values of a table and write the position of a value.
\<close>

fun table_index :: "'a list \<Rightarrow> 'a \<Rightarrow> nat option" where
  "table_index [] x = None"
| "table_index (y # ys) x = (if x = y then Some 0 else map_option Suc (table_index ys x))"

definition table_to_vec :: "'a list \<Rightarrow> 'a \<Rightarrow> (bytes, string) res" where
  "table_to_vec table x =
     (case table_index table x of
        Some i \<Rightarrow> if i < 256 then Ok [of_nat i] else Err ''table'' | None \<Rightarrow> Err ''unknown value'')"

definition table_from_slice :: "'a list \<Rightarrow> bytes \<Rightarrow> ('a, string) res" where
  "table_from_slice table bs =
     (case bs of [b] \<Rightarrow> if unat b < length table then Ok (table ! unat b) else Err ''table'' | _ \<Rightarrow> Err ''syntax'')"

lemma table_index_Some: "table_index table x = Some i \<Longrightarrow> i < length table \<and> table ! i = x"
  by (induction table arbitrary: i) (auto split: if_splits)

lemma table_codec: "table_to_vec table x = Ok bs \<Longrightarrow> table_from_slice table bs = Ok x"
  using table_index_Some [of table x] unat_of_nat_less [where 'a = 8]
  by (auto simp: table_to_vec_def table_from_slice_def split: option.splits if_splits)

end
