(* ===== verification/Onion_Route.thy ===== *)
theory Onion_Route
  imports Receipt_Trust Table_Codec
begin

section \<open>Payers, hops and onion routes\<close>

text \<open>
  \<open>node/src/blockchain/payer.rs\<close>, \<open>node/src/sub_lib/hop.rs\<close>, \<open>node/src/sub_lib/route.rs\<close>, and of
  \<open>node/src/sub_lib/wallet.rs\<close> and \<open>node/src/sub_lib/dispatcher.rs\<close> what they use. A route is a list
  of hops, each sealed for the node that has to read it: a node opens the top hop, learns the
  next node, the component to hand the payload to and the wallet that pays it, and puts random
  bytes of the same length at the bottom. The CBOR codec of a hop is a parameter, and so is the
  random generator, a function on the buffer it fills.
\<close>

subsection \<open>Components\<close>

datatype component = Neighborhood | Hopper | ProxyServer | ProxyClient

fun component_index :: "component \<Rightarrow> u8" where
  "component_index Neighborhood = 0"
| "component_index Hopper = 1"
| "component_index ProxyServer = 2"
| "component_index ProxyClient = 3"

definition component_visit_u8 :: "u8 \<Rightarrow> component option" where
  "component_visit_u8 v =
     (if v = 0 then Some Neighborhood else if v = 1 then Some Hopper
      else if v = 2 then Some ProxyServer else if v = 3 then Some ProxyClient else None)"

definition component_values :: "component list" where
  "component_values = [Neighborhood, Hopper, ProxyServer, ProxyClient]"

subsection \<open>Payers\<close>

definition wallet_address :: "receipt_env \<Rightarrow> wallet_kind \<Rightarrow> (address, 'e) res" where
  "wallet_address env w = expect (wallet_address_opt env w)"

definition as_address_wallet :: "receipt_env \<Rightarrow> wallet_kind \<Rightarrow> (wallet_kind, 'e) res" where
  "as_address_wallet env w = and_then (wallet_address env w) (\<lambda>a. Ok (WalletAddress a))"

record payer =
  payer_wallet :: wallet_kind
  payer_proof :: eth_signature

definition payer_new :: "receipt_env \<Rightarrow> wallet_kind \<Rightarrow> eth_signature \<Rightarrow> (payer, 'e) res" where
  "payer_new env wallet proof =
     and_then (as_address_wallet env wallet) (\<lambda>w. Ok \<lparr>payer_wallet = w, payer_proof = proof\<rparr>)"

text \<open>The signature covers the node's key and the contract: it proves payment to that node only.\<close>

definition as_payer :: "receipt_env \<Rightarrow> wallet_kind \<Rightarrow> public_key \<Rightarrow> address \<Rightarrow> (payer, 'e) res" where
  "as_payer env wallet public_key contract_address =
     (case wallet_sign wallet (create_digest (keccak256 env) public_key (be_bytes 20 contract_address)) of
        Ok proof \<Rightarrow> payer_new env wallet proof
      | _ \<Rightarrow> Panic)"

definition owns_secret_key :: "receipt_env \<Rightarrow> payer \<Rightarrow> bytes32 \<Rightarrow> (bool, 'e) res" where
  "owns_secret_key env p digest =
     (case ec_recover env (payer_proof p) digest of
        Some payer_public_key \<Rightarrow>
          (case ec_verify env payer_public_key (payer_proof p) digest of
             Some verified \<Rightarrow>
               if verified
               then and_then (wallet_address env (payer_wallet p)) (\<lambda>a. Ok (ec_address env payer_public_key = a))
               else Ok False
           | None \<Rightarrow> Ok False)
      | None \<Rightarrow> Ok False)"

text \<open>\<open>BAN_CACHE\<close> is a global set of address wallets.\<close>

definition is_delinquent :: "receipt_env \<Rightarrow> wallet_kind set \<Rightarrow> payer \<Rightarrow> (bool, 'e) res" where
  "is_delinquent env ban_cache p = and_then (as_address_wallet env (payer_wallet p)) (\<lambda>w. Ok (w \<in> ban_cache))"

subsection \<open>Hops\<close>

record live_hop =
  hop_public_key :: public_key
  hop_payer :: "payer option"
  hop_routing_receipt_request_opt :: "receipt_session_request option"
  hop_component :: component

record hop_env =
  he_receipt_env :: receipt_env
  he_to_vec_hop :: "live_hop \<Rightarrow> (bytes, string) res"
  he_from_slice_hop :: "bytes \<Rightarrow> (live_hop, string) res"

type_synonym codec_error = "string codex_error"

definition live_hop_new :: "public_key \<Rightarrow> payer option \<Rightarrow> component \<Rightarrow> live_hop" where
  "live_hop_new key payer component =
     \<lparr>hop_public_key = key, hop_payer = payer, hop_routing_receipt_request_opt = None, hop_component = component\<rparr>"

definition with_routing_receipt_request :: "live_hop \<Rightarrow> receipt_session_request option \<Rightarrow> live_hop" where
  "with_routing_receipt_request hop request = hop\<lparr>hop_routing_receipt_request_opt := request\<rparr>"

definition hop_decode :: "'m hop_env_scheme \<Rightarrow> crypt_de \<Rightarrow> crypt_data \<Rightarrow> (live_hop, codec_error) res" where
  "hop_decode env cryptde data = decodex (he_from_slice_hop env) cryptde data"

definition hop_encode :: "'m hop_env_scheme \<Rightarrow> live_hop \<Rightarrow> public_key \<Rightarrow> crypt_de \<Rightarrow> (crypt_data, codec_error) res" where
  "hop_encode env hop public_key cryptde = encodex (he_to_vec_hop env) cryptde public_key hop"

definition payer_owns_secret_key :: "'m hop_env_scheme \<Rightarrow> live_hop \<Rightarrow> bytes32 \<Rightarrow> (bool, 'e) res" where
  "payer_owns_secret_key env hop digest =
     (case hop_payer hop of Some p \<Rightarrow> owns_secret_key (he_receipt_env env) p digest | None \<Rightarrow> Ok False)"

subsection \<open>Routes\<close>

record route =
  route_hops :: "crypt_data list"

record route_segment =
  seg_keys :: "public_key list"
  seg_recipient :: component

definition route_segment_new :: "public_key list \<Rightarrow> component \<Rightarrow> route_segment" where
  "route_segment_new keys recipient = \<lparr>seg_keys = keys, seg_recipient = recipient\<rparr>"

text \<open>\<open>tuple_windows\<close> of \<open>itertools\<close> for pairs.\<close>

definition tuple_windows :: "'a list \<Rightarrow> ('a \<times> 'a) list" where
  "tuple_windows xs = zip xs (tl xs)"

definition payer_for ::
    "'m hop_env_scheme \<Rightarrow> wallet_kind option \<Rightarrow> address option \<Rightarrow> public_key \<Rightarrow> (payer option, 'e) res" where
  "payer_for env wallet_opt contract_opt key =
     (case wallet_opt of
        None \<Rightarrow> Ok None
      | Some w \<Rightarrow>
          and_then (as_payer (he_receipt_env env) w key (case contract_opt of Some c \<Rightarrow> c | None \<Rightarrow> 0)) (\<lambda>p. Ok (Some p)))"

definition make_hop ::
    "'m hop_env_scheme \<Rightarrow> wallet_kind option \<Rightarrow> address option \<Rightarrow> receipt_session_request option \<Rightarrow>
     public_key \<Rightarrow> public_key \<Rightarrow> component \<Rightarrow> (live_hop, 'e) res" where
  "make_hop env wallet_opt contract_opt request_opt current_key next_key component =
     and_then (payer_for env wallet_opt contract_opt current_key) (\<lambda>p.
       Ok (with_routing_receipt_request (live_hop_new next_key p component) request_opt))"

definition over_segment ::
    "'m hop_env_scheme \<Rightarrow> bool \<Rightarrow> wallet_kind option \<Rightarrow> public_key list \<Rightarrow> component \<Rightarrow> address option \<Rightarrow>
     receipt_session_request option \<Rightarrow> (live_hop list, codec_error) res" where
  "over_segment env one_way wallet_opt over_keys over_component contract_opt request_opt =
     and_then (traverse (\<lambda>(current_key, next_key).
         make_hop env wallet_opt contract_opt request_opt current_key next_key Hopper) (tuple_windows over_keys)) (\<lambda>hops.
       let last_key = (if tuple_windows over_keys = [] then None else Some (snd (last (tuple_windows over_keys)))) in
       if one_way then
         (case last_key of
            Some last_hop_key \<Rightarrow>
              and_then (make_hop env wallet_opt contract_opt request_opt last_hop_key [] over_component) (\<lambda>hop. Ok (hops @ [hop]))
          | None \<Rightarrow> Ok (hops @ [live_hop_new [] None over_component]))
       else Ok hops)"

definition back_segment ::
    "'m hop_env_scheme \<Rightarrow> route_segment option \<Rightarrow> wallet_kind option \<Rightarrow> component \<Rightarrow> live_hop list \<Rightarrow> address option \<Rightarrow>
     receipt_session_request option \<Rightarrow> (live_hop list, codec_error) res" where
  "back_segment env back_option wallet_opt over_component hops contract_opt request_opt =
     (case back_option of
        None \<Rightarrow> Ok hops
      | Some back \<Rightarrow>
          (let back_keys = seg_keys back in
           and_then (traverse (\<lambda>(key_index, current_key, next_key).
               make_hop env wallet_opt contract_opt request_opt current_key next_key
                 (if key_index = 0 then over_component else Hopper))
               (enumerate 0 (tuple_windows back_keys))) (\<lambda>back_hops.
             if back_keys = [] then Ok (hops @ back_hops @ [live_hop_new [] None (seg_recipient back)])
             else and_then (make_hop env wallet_opt contract_opt request_opt (last back_keys) [] (seg_recipient back))
                    (\<lambda>hop. Ok (hops @ back_hops @ [hop])))))"

definition validate_route_segments :: "route_segment \<Rightarrow> route_segment option \<Rightarrow> route_error option" where
  "validate_route_segments over back =
     (if seg_keys over = [] then Some TooFewKeysInRouteSegment
      else (case back of
              Some b \<Rightarrow>
                if seg_keys b = [] then Some TooFewKeysInRouteSegment
                else if hd (seg_keys b) \<noteq> last (seg_keys over) then Some DisjointRouteSegments
                else None
            | None \<Rightarrow> None))"

fun hops_enc_from :: "'m hop_env_scheme \<Rightarrow> live_hop list \<Rightarrow> public_key \<Rightarrow> crypt_de \<Rightarrow> (crypt_data list, codec_error) res" where
  "hops_enc_from env [] hop_key cryptde = Ok []"
| "hops_enc_from env (data_hop # hops) hop_key cryptde =
     and_then (hop_encode env data_hop hop_key cryptde) (\<lambda>crypt_data.
       and_then (hops_enc_from env hops (hop_public_key data_hop) cryptde) (\<lambda>rest. Ok (crypt_data # rest)))"

definition hops_to_route :: "'m hop_env_scheme \<Rightarrow> live_hop list \<Rightarrow> public_key \<Rightarrow> crypt_de \<Rightarrow> (route, codec_error) res" where
  "hops_to_route env hops top_hop_key cryptde =
     and_then (hops_enc_from env hops top_hop_key cryptde) (\<lambda>hops_enc. Ok \<lparr>route_hops = hops_enc\<rparr>)"

definition route_construct ::
    "'m hop_env_scheme \<Rightarrow> route_segment \<Rightarrow> route_segment option \<Rightarrow> crypt_de \<Rightarrow> wallet_kind option \<Rightarrow> address option \<Rightarrow>
     receipt_session_request option \<Rightarrow> (route, codec_error) res" where
  "route_construct env over back cryptde wallet_opt contract_opt request_opt =
     (case validate_route_segments over back of
        Some e \<Rightarrow> Err (RoutingError e)
      | None \<Rightarrow>
          and_then (over_segment env (back = None) wallet_opt (seg_keys over) (seg_recipient over) contract_opt request_opt) (\<lambda>hops.
            and_then (back_segment env back wallet_opt (seg_recipient over) hops contract_opt request_opt) (\<lambda>hops.
              hops_to_route env hops (hd (seg_keys over)) cryptde)))"

definition single_hop :: "'m hop_env_scheme \<Rightarrow> public_key \<Rightarrow> crypt_de \<Rightarrow> (route, codec_error) res" where
  "single_hop env destination cryptde =
     route_construct env (route_segment_new [cde_public_key cryptde, destination] Neighborhood) None cryptde None None None"

definition one_way ::
    "'m hop_env_scheme \<Rightarrow> route_segment \<Rightarrow> crypt_de \<Rightarrow> wallet_kind option \<Rightarrow> address option \<Rightarrow> (route, codec_error) res" where
  "one_way env segment cryptde wallet_opt contract_opt =
     route_construct env segment None cryptde wallet_opt contract_opt None"

definition round_trip ::
    "'m hop_env_scheme \<Rightarrow> route_segment \<Rightarrow> route_segment \<Rightarrow> crypt_de \<Rightarrow> wallet_kind option \<Rightarrow> address option \<Rightarrow>
     (route, codec_error) res" where
  "round_trip env over back cryptde wallet_opt contract_opt =
     route_construct env over (Some back) cryptde wallet_opt contract_opt None"

definition round_trip_with_receipts ::
    "'m hop_env_scheme \<Rightarrow> route_segment \<Rightarrow> route_segment \<Rightarrow> crypt_de \<Rightarrow> wallet_kind option \<Rightarrow> address option \<Rightarrow>
     receipt_session_request option \<Rightarrow> (route, codec_error) res" where
  "round_trip_with_receipts env over back cryptde wallet_opt contract_opt request_opt =
     route_construct env over (Some back) cryptde wallet_opt contract_opt request_opt"

definition next_hop :: "'m hop_env_scheme \<Rightarrow> route \<Rightarrow> crypt_de \<Rightarrow> (live_hop, codec_error) res" where
  "next_hop env r cryptde =
     (case route_hops r of
        [] \<Rightarrow> Err (RoutingError EmptyRoute)
      | first # _ \<Rightarrow> hop_decode env cryptde first)"

text \<open>
  \<open>shift\<close> changes the route in place: a hop that cannot be decoded has already been removed. The
  random generator is a function on the zeroed buffer.
\<close>

definition route_shift ::
    "'m hop_env_scheme \<Rightarrow> (bytes \<Rightarrow> bytes) \<Rightarrow> crypt_de \<Rightarrow> route \<Rightarrow> (live_hop, codec_error) res \<times> route" where
  "route_shift env random cryptde r =
     (case route_hops r of
        [] \<Rightarrow> (Err (RoutingError EmptyRoute), r)
      | top_hop # rest \<Rightarrow>
          (case hop_decode env cryptde top_hop of
             Ok hop \<Rightarrow>
               (let garbage_can = random (replicate (length top_hop) 0) in
                (Ok hop, \<lparr>route_hops = rest @ [garbage_can]\<rparr>))
           | Err e \<Rightarrow> (Err e, \<lparr>route_hops = rest\<rparr>)
           | Panic \<Rightarrow> (Panic, \<lparr>route_hops = rest\<rparr>)))"

section \<open>Properties of routes\<close>

lemma component_round_trip [simp]: "component_visit_u8 (component_index c) = Some c"
  by (cases c) (simp_all add: component_visit_u8_def)

lemma component_visit_u8_values: "component_visit_u8 v = Some c \<Longrightarrow> c \<in> set component_values \<and> component_index c = v"
  by (auto simp: component_visit_u8_def component_values_def split: if_splits)

subsection \<open>The plan of a route\<close>

text \<open>
  The plan lists, for every node that will open a hop, its key, the key of the next node and the
  component; a hop follows an entry of the plan when it names them and its payer is made out to
  the node.
\<close>

definition over_plan :: "public_key list \<Rightarrow> (public_key \<times> public_key \<times> component) list" where
  "over_plan keys = map (\<lambda>(current, following). (current, following, Hopper)) (tuple_windows keys)"

definition back_plan :: "component \<Rightarrow> public_key list \<Rightarrow> component \<Rightarrow> (public_key \<times> public_key \<times> component) list" where
  "back_plan over_component keys back_component =
     map (\<lambda>(i, current, following). (current, following, if i = 0 then over_component else Hopper))
       (enumerate 0 (tuple_windows keys)) @ [(last keys, [], back_component)]"

definition follows_plan ::
    "'m hop_env_scheme \<Rightarrow> wallet_kind option \<Rightarrow> address option \<Rightarrow> receipt_session_request option \<Rightarrow>
     public_key \<times> public_key \<times> component \<Rightarrow> live_hop \<Rightarrow> bool" where
  "follows_plan env wallet_opt contract_opt request_opt = (\<lambda>(current, following, component) hop.
     payer_for env wallet_opt contract_opt current = (Ok (hop_payer hop) :: (payer option, codec_error) res) \<and>
     hop_public_key hop = following \<and> hop_component hop = component \<and> hop_routing_receipt_request_opt hop = request_opt)"

text \<open>
  A wallet is written as its address and read back as an address wallet, so a codec gives a hop back
  only when its payer, if any, has an address wallet. The hops of a plan are of that kind.
\<close>

definition address_payer :: "live_hop \<Rightarrow> bool" where
  "address_payer hop \<longleftrightarrow> (case hop_payer hop of None \<Rightarrow> True | Some p \<Rightarrow> (case payer_wallet p of WalletAddress a \<Rightarrow> True | _ \<Rightarrow> False))"

definition hop_codec :: "'m hop_env_scheme \<Rightarrow> bool" where
  "hop_codec env \<longleftrightarrow> (\<forall>hop bs. address_payer hop \<longrightarrow> he_to_vec_hop env hop = Ok bs \<longrightarrow> he_from_slice_hop env bs = Ok hop)"

lemma payer_for_address: "payer_for env w k key = Ok (hop_payer hop) \<Longrightarrow> address_payer hop"
  by (auto simp: payer_for_def as_payer_def payer_new_def as_address_wallet_def address_payer_def res_simps
      split: option.splits res.splits)

lemma make_hop_eq_Ok:
  "make_hop env w k rq current following component = (Ok hop :: (live_hop, codec_error) res) \<longleftrightarrow>
     follows_plan env w k rq (current, following, component) hop"
  by (cases hop) (auto simp: make_hop_def follows_plan_def res_simps with_routing_receipt_request_def live_hop_new_def)

lemma fst_tuple_windows: "map fst (tuple_windows xs) = butlast xs"
  by (simp add: tuple_windows_def butlast_conv_take map_fst_zip_take)

lemma snd_tuple_windows: "map snd (tuple_windows xs) = tl xs"
  by (simp add: tuple_windows_def map_snd_zip_take min_def)

lemma length_tuple_windows [simp]: "length (tuple_windows xs) = length xs - 1"
  by (simp add: tuple_windows_def)

lemma map_snd_enumerate: "map (\<lambda>(i, p). f p) (enumerate n xs) = map f xs"
  by (induction xs arbitrary: n) (simp_all add: enumerate_simps)

lemma over_plan_keys: "map fst (over_plan keys) = butlast keys" "map (fst \<circ> snd) (over_plan keys) = tl keys"
  "map (snd \<circ> snd) (over_plan keys) = replicate (length keys - 1) Hopper"
  by (simp_all add: over_plan_def comp_def case_prod_unfold fst_tuple_windows snd_tuple_windows map_replicate_const)

lemma back_plan_keys:
  assumes "keys \<noteq> []"
  shows "map fst (back_plan oc keys bc) = keys" and "map (fst \<circ> snd) (back_plan oc keys bc) = tl keys @ [[]]"
  using assms fst_tuple_windows [of keys] snd_tuple_windows [of keys]
    map_snd_enumerate [of fst 0 "tuple_windows keys"] map_snd_enumerate [of snd 0 "tuple_windows keys"]
  by (simp_all add: back_plan_def comp_def case_prod_unfold)

lemma enumerate_Suc_components:
  "map (\<lambda>(i, p). if i = 0 then a else b) (enumerate (Suc n) xs) = replicate (length xs) b"
  by (induction xs arbitrary: n) (simp_all add: enumerate_simps)

lemma back_plan_components:
  assumes "keys \<noteq> []"
  shows "map (snd \<circ> snd) (back_plan oc keys bc) =
    (if length keys = 1 then [bc] else oc # replicate (length keys - 2) Hopper @ [bc])"
proof (cases "tuple_windows keys")
  case Nil
  then have "length keys - 1 = 0" by (metis length_tuple_windows list.size(3))
  with assms have "length keys = 1" by (cases keys) auto
  then show ?thesis
    using Nil by (simp add: back_plan_def)
next
  case (Cons p ps)
  then have "length keys - 1 = Suc (length ps)" by (metis length_tuple_windows length_Cons)
  then have "length keys = Suc (Suc (length ps))" by simp
  then show ?thesis
    using Cons enumerate_Suc_components [of oc Hopper 0 ps]
    by (simp add: back_plan_def enumerate_simps comp_def case_prod_unfold)
qed

lemma traverse_follows_plan:
  "traverse (\<lambda>x. make_hop env w k rq (fst (g x)) (fst (snd (g x))) (snd (snd (g x)))) xs =
     (Ok hops :: (live_hop list, codec_error) res) \<longleftrightarrow> list_all2 (follows_plan env w k rq) (map g xs) hops"
  by (simp add: traverse_eq_Ok make_hop_eq_Ok list.rel_map)

lemma over_segment_round_trip:
  assumes "over_segment env False w keys oc k rq = Ok hops"
  shows "list_all2 (follows_plan env w k rq) (over_plan keys) hops"
  using assms traverse_follows_plan [of env w k rq "\<lambda>(c, n). (c, n, Hopper)" "tuple_windows keys" hops]
  by (auto simp: over_segment_def over_plan_def case_prod_unfold res_simps)

lemma back_segment_plan:
  assumes "back_segment env (Some back) w oc hops k rq = Ok all_hops" and "seg_keys back \<noteq> []"
  shows "\<exists>back_hops. all_hops = hops @ back_hops \<and>
    list_all2 (follows_plan env w k rq) (back_plan oc (seg_keys back) (seg_recipient back)) back_hops"
proof -
  let ?g = "\<lambda>(i :: nat, c :: public_key, n :: public_key). (c, n, if i = 0 then oc else Hopper)"
  obtain bh h where "traverse (\<lambda>x. make_hop env w k rq (fst (?g x)) (fst (snd (?g x))) (snd (snd (?g x))))
        (enumerate 0 (tuple_windows (seg_keys back))) = (Ok bh :: (live_hop list, codec_error) res)"
    and "make_hop env w k rq (last (seg_keys back)) [] (seg_recipient back) = (Ok h :: (live_hop, codec_error) res)"
    and "all_hops = hops @ bh @ [h]"
    using assms by (auto simp: back_segment_def Let_def case_prod_unfold res_simps)
  then show ?thesis
    by (auto simp: traverse_follows_plan back_plan_def make_hop_eq_Ok list_all2_appendI)
qed

text \<open>What a round trip consists of: hops that follow the plan, sealed one after the other.\<close>

lemma round_trip_hops:
  assumes "route_construct env over (Some back) v w k rq = Ok r"
  shows "seg_keys over \<noteq> []" "seg_keys back \<noteq> []" "hd (seg_keys back) = last (seg_keys over)"
    and "\<exists>hops. hops_enc_from env hops (hd (seg_keys over)) v = Ok (route_hops r) \<and>
      list_all2 (follows_plan env w k rq)
        (over_plan (seg_keys over) @ back_plan (seg_recipient over) (seg_keys back) (seg_recipient back)) hops"
proof -
  have v: "validate_route_segments over (Some back) = None"
    using assms by (auto simp: route_construct_def split: option.splits)
  then show ne: "seg_keys over \<noteq> []" "seg_keys back \<noteq> []" "hd (seg_keys back) = last (seg_keys over)"
    by (auto simp: validate_route_segments_def split: if_splits)
  obtain oh hops where oh: "over_segment env False w (seg_keys over) (seg_recipient over) k rq = Ok oh"
    and hops: "back_segment env (Some back) w (seg_recipient over) oh k rq = Ok hops"
    and r: "hops_to_route env hops (hd (seg_keys over)) v = Ok r"
    using assms v by (auto simp: route_construct_def res_simps)
  obtain bh where "hops = oh @ bh"
    "list_all2 (follows_plan env w k rq) (back_plan (seg_recipient over) (seg_keys back) (seg_recipient back)) bh"
    using back_segment_plan [OF hops ne(2)] by blast
  with over_segment_round_trip [OF oh] r
  show "\<exists>hops. hops_enc_from env hops (hd (seg_keys over)) v = Ok (route_hops r) \<and>
      list_all2 (follows_plan env w k rq)
        (over_plan (seg_keys over) @ back_plan (seg_recipient over) (seg_keys back) (seg_recipient back)) hops"
    by (auto simp: hops_to_route_def res_simps intro!: list_all2_appendI)
qed

lemma round_trip_plan_keys:
  assumes "ks \<noteq> []" "bs \<noteq> []" "hd bs = last ks"
  shows "map fst (over_plan ks @ back_plan oc bs bc) = ks @ tl bs"
    and "map (fst \<circ> snd) (over_plan ks @ back_plan oc bs bc) = tl ks @ tl bs @ [[]]"
proof -
  have "butlast ks @ bs = butlast ks @ [last ks] @ tl bs"
    using assms(2,3) by (metis append_Cons append_Nil list.collapse)
  also have "\<dots> = ks @ tl bs"
    by (simp only: append_assoc [symmetric] append_butlast_last_id [OF assms(1)])
  finally show "map fst (over_plan ks @ back_plan oc bs bc) = ks @ tl bs"
    using assms by (simp add: over_plan_keys back_plan_keys)
  show "map (fst \<circ> snd) (over_plan ks @ back_plan oc bs bc) = tl ks @ tl bs @ [[]]"
    by (simp only: map_append over_plan_keys(2) back_plan_keys(2) [OF assms(2)])
qed

lemma plan_fields:
  assumes "list_all2 (follows_plan env w k rq) plan hops"
  shows "map hop_public_key hops = map (fst \<circ> snd) plan" "map hop_component hops = map (snd \<circ> snd) plan"
    "map hop_routing_receipt_request_opt hops = replicate (length hops) rq"
    "list_all2 (\<lambda>key hop. payer_for env w k key = (Ok (hop_payer hop) :: (payer option, codec_error) res)) (map fst plan) hops"
  using assms by (induction rule: list_all2_induct) (auto simp: follows_plan_def)

subsection \<open>Travelling\<close>

text \<open>The nodes on the way shift the route one after the other, each with its own random bytes.\<close>

fun travel ::
    "'m hop_env_scheme \<Rightarrow> (crypt_de \<times> (bytes \<Rightarrow> bytes)) list \<Rightarrow> route \<Rightarrow> (live_hop list \<times> route, codec_error) res" where
  "travel env [] r = Ok ([], r)"
| "travel env ((cryptde, random) # nodes) r =
     (case route_shift env random cryptde r of
        (Ok hop, r') \<Rightarrow> and_then (travel env nodes r') (\<lambda>(hops, r''). Ok (hop # hops, r''))
      | (Err e, r') \<Rightarrow> Err e
      | (Panic, r') \<Rightarrow> Panic)"

context seal_family
begin

lemma shift_sealed_hop:
  assumes "member c" "member v" and "hop_encode env hop (cde_public_key c) v = Ok e"
    and "\<And>bs. he_to_vec_hop env hop = Ok bs \<Longrightarrow> he_from_slice_hop env bs = Ok hop"
  shows "route_shift env random c \<lparr>route_hops = e # rest\<rparr> =
    (Ok hop, \<lparr>route_hops = rest @ [random (replicate (length e) 0)]\<rparr>)"
  using decodex_encodex [OF assms(1,2), of "he_to_vec_hop env" hop e "he_from_slice_hop env"] assms(3,4)
  by (simp add: route_shift_def hop_decode_def hop_encode_def)

lemma travel_sealed_hops:
  assumes "hop_codec env" and "member v"
  shows "hops_enc_from env hops key v = Ok es \<Longrightarrow> list_all address_payer hops \<Longrightarrow> length nodes = length hops \<Longrightarrow>
    (\<forall>(c, random)\<in>set nodes. member c \<and> (\<forall>d. length (random d) = length d)) \<Longrightarrow>
    map (cde_public_key \<circ> fst) nodes = butlast (key # map hop_public_key hops) \<Longrightarrow>
    \<exists>gs. travel env nodes \<lparr>route_hops = es @ rest\<rparr> = Ok (hops, \<lparr>route_hops = rest @ gs\<rparr>) \<and> map length gs = map length es"
proof (induction hops arbitrary: key es nodes rest)
  case Nil
  then show ?case by simp
next
  case (Cons hop hops)
  obtain c random nodes' where n: "nodes = (c, random) # nodes'"
    using Cons.prems(3) by (cases nodes) auto
  have codec: "he_from_slice_hop env bs = Ok hop" if "he_to_vec_hop env hop = Ok bs" for bs
    using assms(1) that Cons.prems(2) by (simp add: hop_codec_def)
  obtain e es' where e: "hop_encode env hop key v = Ok e" and es: "hops_enc_from env hops (hop_public_key hop) v = Ok es'"
    and eq: "es = e # es'"
    using Cons.prems(1) by (auto simp: res_simps)
  have key: "cde_public_key c = key"
    using Cons.prems(5) n by simp
  have m: "member c" "\<And>d. length (random d) = length d"
    using Cons.prems(4) n by auto
  let ?g = "random (replicate (length e) 0)"
  have "\<exists>gs. travel env nodes' \<lparr>route_hops = es' @ rest @ [?g]\<rparr> = Ok (hops, \<lparr>route_hops = (rest @ [?g]) @ gs\<rparr>) \<and>
      map length gs = map length es'"
    using Cons.prems n by (intro Cons.IH [OF es]) (auto split: if_splits)
  then obtain gs where "travel env nodes' \<lparr>route_hops = es' @ rest @ [?g]\<rparr> = Ok (hops, \<lparr>route_hops = (rest @ [?g]) @ gs\<rparr>)"
    and "map length gs = map length es'"
    by blast
  then show ?case
    using shift_sealed_hop [OF m(1) assms(2), of env hop e random "es' @ rest"] e key codec m(2) n eq
    by (auto intro!: exI [of _ "?g # gs"])
qed

end

text \<open>
  C7. An onion route delivers. Suppose the keys of a round trip belong to nodes that can open
  what was sealed for them, that hops without a payer or with the address wallet of one are read back
  as they were written, and that the route could be built. Then the nodes of the way out and of
  the way back, opening it in turn, each find their own hop: it names the next node (none at the
  end), the component (the recipient of the way out at the turning point, the recipient of the
  way back at the end, the hopper elsewhere), a payer made out to that very node, and the receipt
  request. All the while the route keeps its shape: at the end it has hops of the same lengths.
\<close>

theorem onion_route_delivers:
  assumes "seal_family member" and "hop_codec env"
    and "\<forall>c\<in>set (over @ back). member c" and "member v"
    and "round_trip_with_receipts env (route_segment_new (map cde_public_key over) oc)
           (route_segment_new (map cde_public_key back) bc) v w k rq = Ok r"
    and "length randoms = length (over @ tl back)" and "\<forall>random\<in>set randoms. \<forall>d. length (random d) = length d"
  shows "\<exists>hops r'. travel env (zip (over @ tl back) randoms) r = Ok (hops, r') \<and>
    map hop_public_key hops = map cde_public_key (tl over @ tl back) @ [[]] \<and>
    map hop_component hops = replicate (length over - 1) Hopper @
      (if length back = 1 then [bc] else oc # replicate (length back - 2) Hopper @ [bc]) \<and>
    map hop_routing_receipt_request_opt hops = replicate (length hops) rq \<and>
    list_all2 (\<lambda>c hop. payer_for env w k (cde_public_key c) = (Ok (hop_payer hop) :: (payer option, codec_error) res))
      (over @ tl back) hops \<and>
    map length (route_hops r') = map length (route_hops r)"
proof -
  let ?ks = "map cde_public_key over" and ?bs = "map cde_public_key back"
  let ?plan = "over_plan ?ks @ back_plan oc ?bs bc"
  note built = assms(5) [unfolded round_trip_with_receipts_def]
  have ne: "?ks \<noteq> []" "?bs \<noteq> []" "hd ?bs = last ?ks"
    using round_trip_hops(1-3) [OF built] by (simp_all add: route_segment_new_def)
  obtain hops where enc: "hops_enc_from env hops (hd ?ks) v = Ok (route_hops r)"
    and plan: "list_all2 (follows_plan env w k rq) ?plan hops"
    using round_trip_hops(4) [OF built] by (auto simp: route_segment_new_def)
  have keys: "map fst ?plan = map cde_public_key (over @ tl back)"
    using round_trip_plan_keys(1) [OF ne] by (simp add: map_tl)
  have nexts: "map (fst \<circ> snd) ?plan = map cde_public_key (tl over @ tl back) @ [[]]"
    using round_trip_plan_keys(2) [OF ne] by (simp add: map_tl)
  have len: "length hops = length (over @ tl back)"
    using list_all2_lengthD [OF plan] arg_cong [OF keys, of length] by simp
  note fields = plan_fields [OF plan]
  have own: "map (cde_public_key \<circ> fst) (zip (over @ tl back) randoms) = butlast (hd ?ks # map hop_public_key hops)"
    using ne(1) assms(6) unfolding fields(1) nexts by (cases over) (simp_all add: butlast_append flip: map_map)
  have nodes: "\<forall>(c, random)\<in>set (zip (over @ tl back) randoms). member c \<and> (\<forall>d. length (random d) = length d)"
    using assms(3,7) ne(2) by (cases "back") (auto dest: set_zip_leftD set_zip_rightD)
  have payers: "list_all address_payer hops"
    using plan by (induction rule: list_all2_induct) (auto simp: follows_plan_def dest: payer_for_address)
  have "length (zip (over @ tl back) randoms) = length hops"
    by (simp add: assms(6) len)
  then obtain gs where gs: "travel env (zip (over @ tl back) randoms) \<lparr>route_hops = route_hops r\<rparr> = Ok (hops, \<lparr>route_hops = gs\<rparr>)"
    and "map length gs = map length (route_hops r)"
    using seal_family.travel_sealed_hops [OF assms(1,2,4) enc payers _ nodes own, of "[]"] by auto
  moreover have "\<lparr>route_hops = route_hops r\<rparr> = r"
    by (cases r) simp
  moreover have "map hop_component hops = replicate (length over - 1) Hopper @
      (if length back = 1 then [bc] else oc # replicate (length back - 2) Hopper @ [bc])"
    using fields(2) over_plan_keys(3) [of ?ks] back_plan_components [OF ne(2)] by (simp only: map_append length_map)
  moreover have "list_all2 (\<lambda>c hop. payer_for env w k (cde_public_key c) = (Ok (hop_payer hop) :: (payer option, codec_error) res))
      (over @ tl back) hops"
    using fields(4) unfolding keys by (simp only: list.rel_map)
  ultimately show ?thesis
    using fields(1,3) nexts by (intro exI [of _ hops] exI [of _ "\<lparr>route_hops = gs\<rparr>"]) simp
qed

subsection \<open>Worked route\<close>

definition demo_payer_wallet :: wallet_kind where
  "demo_payer_wallet = WalletSecretKey 0xAB (\<lambda>d. Ok \<lparr>sig_v = 0, sig_r = 0xAB, sig_s = 1\<rparr>)"

definition demo_payer :: payer where
  "demo_payer = \<lparr>payer_wallet = WalletAddress 0xAB, payer_proof = \<lparr>sig_v = 0, sig_r = 0xAB, sig_s = 1\<rparr>\<rparr>"

definition demo_hop :: "public_key \<Rightarrow> component \<Rightarrow> live_hop" where
  "demo_hop key component =
     \<lparr>hop_public_key = key, hop_payer = Some demo_payer, hop_routing_receipt_request_opt = None, hop_component = component\<rparr>"

definition demo_hops :: "live_hop list" where
  "demo_hops = [demo_hop [2] Hopper, demo_hop [3] Hopper, demo_hop [2] ProxyClient, demo_hop [1] Hopper, demo_hop [] ProxyServer]"

definition demo_hop_env :: hop_env where
  "demo_hop_env = \<lparr>he_receipt_env = demo_env, he_to_vec_hop = table_to_vec demo_hops, he_from_slice_hop = table_from_slice demo_hops\<rparr>"

lemma demo_as_payer: "as_payer env demo_payer_wallet key contract = Ok demo_payer"
  by (simp add: as_payer_def demo_payer_wallet_def payer_new_def as_address_wallet_def wallet_address_def demo_payer_def)

lemma demo_make_hop: "make_hop env (Some demo_payer_wallet) k None current following component = Ok (demo_hop following component)"
  by (simp add: make_hop_def payer_for_def demo_as_payer with_routing_receipt_request_def live_hop_new_def demo_hop_def)

lemma demo_crypt_de_member [simp]: "null_member (\<lambda>b. [9]) (\<lambda>b. []) (demo_crypt_de k)"
  by simp

lemma demo_round_trip:
  assumes "he_to_vec_hop env = table_to_vec demo_hops"
  shows "\<exists>r. round_trip_with_receipts env (route_segment_new [[1], [2], [3]] ProxyClient)
     (route_segment_new [[3], [2], [1]] ProxyServer) (null_crypt_de sha1_digest to_hex (null_from h rnd [1] contract))
     (Some demo_payer_wallet) (Some 0xC0) None = Ok r"
proof -
  let ?c = "null_crypt_de sha1_digest to_hex (null_from h rnd [1] contract)"
  have "over_segment env False (Some demo_payer_wallet) [[1], [2], [3]] ProxyClient (Some 0xC0) None =
      Ok [demo_hop [2] Hopper, demo_hop [3] Hopper]"
    by (simp add: over_segment_def tuple_windows_def demo_make_hop)
  moreover have "back_segment env (Some (route_segment_new [[3], [2], [1]] ProxyServer)) (Some demo_payer_wallet) ProxyClient
      [demo_hop [2] Hopper, demo_hop [3] Hopper] (Some 0xC0) None = Ok demo_hops"
    by (simp add: back_segment_def tuple_windows_def route_segment_new_def demo_make_hop enumerate_simps demo_hops_def)
  moreover have "\<exists>es. hops_enc_from env demo_hops [1] ?c = Ok es"
    unfolding demo_hops_def by (simp add: assms demo_hops_def demo_hop_def hop_encode_def encodex_def table_to_vec_def
        null_crypt_de_def encode_with_key_data_def)
  ultimately show ?thesis
    by (auto simp: round_trip_with_receipts_def route_construct_def validate_route_segments_def route_segment_new_def
        hops_to_route_def)
qed

theorem onion_route_delivers_witness:
  "\<exists>r hops r'. round_trip_with_receipts demo_hop_env (route_segment_new [[1], [2], [3]] ProxyClient)
       (route_segment_new [[3], [2], [1]] ProxyServer) (demo_crypt_de [1]) (Some demo_payer_wallet) (Some 0xC0) None = Ok r \<and>
     travel demo_hop_env (zip (map demo_crypt_de [[1], [2], [3], [2], [1]]) (replicate 5 null_random)) r = Ok (hops, r') \<and>
     map hop_public_key hops = [[2], [3], [2], [1], []] \<and>
     map hop_component hops = [Hopper, Hopper, ProxyClient, Hopper, ProxyServer] \<and>
     map length (route_hops r') = map length (route_hops r)"
proof -
  let ?over = "map demo_crypt_de [[1], [2], [3]]" and ?return = "map demo_crypt_de [[3], [2], [1]]"
  obtain r where r: "round_trip_with_receipts demo_hop_env (route_segment_new (map cde_public_key ?over) ProxyClient)
      (route_segment_new (map cde_public_key ?return) ProxyServer) (demo_crypt_de [1]) (Some demo_payer_wallet) (Some 0xC0) None = Ok r"
    using demo_round_trip [of demo_hop_env "\<lambda>b. [9]" "\<lambda>b. []" "\<lambda>b. 0" "[1]" "[]"] by (auto simp: demo_hop_env_def)
  have c: "hop_codec demo_hop_env"
    using table_codec [of demo_hops] by (simp add: hop_codec_def demo_hop_env_def)
  show ?thesis
    using onion_route_delivers [OF sealed.seal_family_axioms c _ demo_crypt_de_member r, of "replicate 5 null_random"] r
    by (auto simp: null_random_def)
qed

end
