(* ===== verification/Versioned_Data.thy ===== *)
theory Versioned_Data
  imports Decimal "HOL-Library.AList"
begin

section \<open>Data versions and migrations\<close>

text \<open>
  \<open>masq_lib/src/data_version.rs\<close> and \<open>node/src/sub_lib/versioned_data.rs\<close>. Every payload that
  nodes exchange is stamped with the version of its format; a receiver whose current version
  differs looks for a chain of migration steps in its table. The table is a map of maps, kept
  here as association lists in iteration order; a migration step is a function on bytes. The
  search caches a chain it has found, so it returns the table as well. Locks are left out, and
  the CBOR codec of the payload is a parameter.
\<close>

subsection \<open>Versions\<close>

datatype data_version = DataVersion (dv_major: u16) (dv_minor: u16)

definition future_version :: data_version where
  "future_version = DataVersion 0xFFFF 0xFFFF"

definition dv_lt :: "data_version \<Rightarrow> data_version \<Rightarrow> bool" where
  "dv_lt a b \<longleftrightarrow> (if dv_major a = dv_major b then dv_minor a < dv_minor b else dv_major a < dv_major b)"

instantiation data_version :: linorder
begin

definition less_data_version :: "data_version \<Rightarrow> data_version \<Rightarrow> bool" where
  "less_data_version = dv_lt"

definition less_eq_data_version :: "data_version \<Rightarrow> data_version \<Rightarrow> bool" where
  "less_eq_data_version a b \<longleftrightarrow> a = b \<or> dv_lt a b"

instance
  by intro_classes
    (auto simp: less_eq_data_version_def less_data_version_def dv_lt_def data_version.expand split: if_splits)

end

lemmas dv_less_def = less_data_version_def dv_lt_def

text \<open>\<open>DataVersion::new\<close> panics on a component above 4095.\<close>

definition dv_new :: "u16 \<Rightarrow> u16 \<Rightarrow> (data_version, 'e) res" where
  "dv_new major minor = (if major > 4095 \<or> minor > 4095 then Panic else Ok (DataVersion major minor))"

definition dv_display :: "data_version \<Rightarrow> string" where
  "dv_display v =
     (if v = future_version then ''?.?''
      else decimal (unat (dv_major v)) @ ''.'' @ decimal (unat (dv_minor v)))"

text \<open>\<open>str::split\<close> with a character.\<close>

fun split_char :: "char \<Rightarrow> string \<Rightarrow> string list" where
  "split_char c [] = [[]]"
| "split_char c (x # xs) =
     (if x = c then [] # split_char c xs
      else (case split_char c xs of p # ps \<Rightarrow> (x # p) # ps | [] \<Rightarrow> [[x]]))"

definition parse_part :: "u16 list option \<Rightarrow> string \<Rightarrow> u16 list option" where
  "parse_part sofar part =
     (case (sofar, parse_uint part) of
        (None, _) \<Rightarrow> None
      | (Some _, None) \<Rightarrow> None
      | (Some prefix, Some n) \<Rightarrow> Some (prefix @ [n]))"

definition dv_from_str :: "string \<Rightarrow> (data_version, string) res" where
  "dv_from_str s =
     (let message = ''DataVersion syntax is <major>.<minor>, not '' @ [char_of (39 :: nat)] @ s @ [char_of (39 :: nat)] in
      case foldl parse_part (Some []) (split_char (CHR ''.'') s) of
        None \<Rightarrow> Err message
      | Some numbers \<Rightarrow>
          if length numbers \<noteq> 2 then Err message else dv_new (numbers ! 0) (numbers ! 1))"

subsection \<open>Migrations\<close>

datatype step_error =
    StepDeserializationError data_version data_version string
  | SemanticError string

datatype migration_error =
    MigrationNotFound data_version data_version
  | MigrationFailed step_error

type_synonym migration_step = "bytes \<Rightarrow> (bytes, step_error) res"
type_synonym migration_table = "(data_version \<times> (data_version \<times> migration_step) list) list"

record migrations =
  mig_current_version :: data_version
  mig_table :: migration_table

definition combo_step :: "migration_step list \<Rightarrow> migration_step" where
  "combo_step substeps data =
     foldl (\<lambda>sofar substep. case sofar of Err e \<Rightarrow> Err e | Ok input \<Rightarrow> substep input | Panic \<Rightarrow> Panic)
       (Ok data) substeps"

definition migrations_new :: "data_version \<Rightarrow> migrations" where
  "migrations_new current = \<lparr>mig_current_version = current, mig_table = []\<rparr>"

text \<open>Each branch of \<open>validate_step\<close> that refuses a step panics.\<close>

definition validate_step :: "migrations \<Rightarrow> data_version \<Rightarrow> data_version \<Rightarrow> (unit, 'e) res" where
  "validate_step m from to =
     (if to = future_version then Panic
      else if from = to then Panic
      else if to > mig_current_version m then Panic
      else if from \<noteq> future_version then
        (if from > to then Panic
         else if dv_major from \<noteq> dv_major to then Panic
         else if dv_major from \<noteq> dv_major (mig_current_version m)
                 \<or> dv_major to \<noteq> dv_major (mig_current_version m) then Panic
         else Ok ())
      else Ok ())"

definition insert_step :: "data_version \<Rightarrow> data_version \<Rightarrow> migration_step \<Rightarrow> migration_table \<Rightarrow> migration_table" where
  "insert_step from to step table =
     (case map_of table from of
        None \<Rightarrow> AList.update from (AList.update to step []) table
      | Some from_map \<Rightarrow> AList.update from (AList.update to step from_map) table)"

definition add_step :: "migrations \<Rightarrow> data_version \<Rightarrow> data_version \<Rightarrow> migration_step \<Rightarrow> (migrations, 'e) res" where
  "add_step m from to step =
     and_then (validate_step m from to) (\<lambda>_. Ok (m\<lparr>mig_table := insert_step from to step (mig_table m)\<rparr>))"

text \<open>
  The recursive search with fuel: \<open>None\<close> when the fuel is used up, which stands for a recursion
  that does not end. \<open>best_chain\<close> is the loop over the steps that leave one version; a chain is
  a non-empty list, and the first of the shortest ones is kept.
\<close>

definition shorter_chain :: "'a list \<Rightarrow> 'a list \<Rightarrow> 'a list" where
  "shorter_chain sofar elem =
     (if elem = [] then sofar
      else if sofar = [] \<or> length elem < length sofar then elem else sofar)"

fun best_chain ::
    "(data_version \<Rightarrow> ('s list, unit) res option) \<Rightarrow> data_version \<Rightarrow> (data_version \<times> 's) list \<Rightarrow>
     's list \<Rightarrow> ('s list, unit) res option" where
  "best_chain search to [] sofar = Some (Ok sofar)"
| "best_chain search to ((next_key, step) # rest) sofar =
     (if next_key = to then best_chain search to rest (shorter_chain sofar [step])
      else (case search next_key of
              None \<Rightarrow> None
            | Some (Ok chain) \<Rightarrow>
                best_chain search to rest (shorter_chain sofar (if chain = [] then [] else step # chain))
            | Some (Err e) \<Rightarrow> Some (Err e)
            | Some Panic \<Rightarrow> Some Panic))"

fun find_migration_chain ::
    "nat \<Rightarrow> (data_version \<times> (data_version \<times> 's) list) list \<Rightarrow> data_version \<Rightarrow> data_version \<Rightarrow>
     ('s list, unit) res option" where
  "find_migration_chain 0 table from to = None"
| "find_migration_chain (Suc fuel) table from to =
     (case map_of table from of
        None \<Rightarrow> Some Panic
      | Some from_map \<Rightarrow> best_chain (\<lambda>next_key. find_migration_chain fuel table next_key to) to from_map [])"

definition migration :: "migrations \<Rightarrow> data_version \<Rightarrow> (migration_step option \<times> migrations, unit) res option" where
  "migration m from_version =
     (let table = mig_table m; current = mig_current_version m in
      case map_of table from_version of
        None \<Rightarrow> Some (Ok (None, m))
      | Some from_map \<Rightarrow>
          (case map_of from_map current of
             Some step \<Rightarrow> Some (Ok (Some step, m))
           | None \<Rightarrow>
               (case find_migration_chain (Suc (length table)) table from_version current of
                  None \<Rightarrow> None
                | Some (Ok elements) \<Rightarrow>
                    if elements = [] then Some (Ok (None, m))
                    else Some (Ok (Some (combo_step elements),
                           m\<lparr>mig_table := insert_step from_version current (combo_step elements) table\<rparr>))
                | Some (Err e) \<Rightarrow> Some (Err e)
                | Some Panic \<Rightarrow> Some Panic)))"

subsection \<open>Versioned data\<close>

record versioned_data =
  vd_version :: data_version
  vd_bytes :: bytes

text \<open>\<open>VersionedData::new\<close> panics when the payload cannot be serialized.\<close>

definition versioned_data_new ::
    "('t \<Rightarrow> (bytes, string) res) \<Rightarrow> migrations \<Rightarrow> 't \<Rightarrow> (versioned_data, 'e) res" where
  "versioned_data_new to_vec m data =
     (case to_vec data of
        Ok bs \<Rightarrow> Ok \<lparr>vd_version = mig_current_version m, vd_bytes = bs\<rparr>
      | _ \<Rightarrow> Panic)"

definition effective_version :: "migrations \<Rightarrow> data_version \<Rightarrow> data_version" where
  "effective_version m v = (if v > mig_current_version m then future_version else v)"

definition decode_current ::
    "(bytes \<Rightarrow> ('t, string) res) \<Rightarrow> migrations \<Rightarrow> bytes \<Rightarrow> ('t, migration_error) res" where
  "decode_current from_slice m bs =
     map_err (\<lambda>e. MigrationFailed (StepDeserializationError (mig_current_version m) (mig_current_version m) e))
       (from_slice bs)"

text \<open>The result, and the table with a chain that the search may have cached.\<close>

definition vd_extract ::
    "(bytes \<Rightarrow> ('t, string) res) \<Rightarrow> migrations \<Rightarrow> versioned_data \<Rightarrow> (('t, migration_error) res \<times> migrations) option" where
  "vd_extract from_slice m vd =
     (let from_version = effective_version m (vd_version vd) in
      if from_version = mig_current_version m then Some (decode_current from_slice m (vd_bytes vd), m)
      else (case migration m from_version of
              None \<Rightarrow> None
            | Some (Ok (None, m')) \<Rightarrow> Some (Err (MigrationNotFound from_version (mig_current_version m)), m')
            | Some (Ok (Some step, m')) \<Rightarrow>
                Some (and_then (map_err MigrationFailed (step (vd_bytes vd))) (decode_current from_slice m), m')
            | Some _ \<Rightarrow> Some (Panic, m)))"

subsection \<open>The tables of the payloads\<close>

text \<open>
  \<open>node/src/sub_lib/migrations\<close>: the financial payloads have no step at all; each other payload
  has one step, from any future version to the current one, whose body is a parameter.
\<close>

definition service_receipt_payload_migrations :: migrations where
  "service_receipt_payload_migrations = migrations_new (DataVersion 0 1)"

definition client_request_payload_migrations :: "migration_step \<Rightarrow> (migrations, 'e) res" where
  "client_request_payload_migrations mf_0v1 =
     add_step (migrations_new (DataVersion 0 1)) future_version (DataVersion 0 1) mf_0v1"

section \<open>Properties of migrations\<close>

subsection \<open>Versions read back\<close>

lemma split_char_append:
  "c \<notin> set xs \<Longrightarrow> split_char c (xs @ c # ys) = xs # split_char c ys"
  by (induction xs) auto

lemma split_char_single: "c \<notin> set xs \<Longrightarrow> split_char c xs = [xs]"
  by (induction xs) auto

lemma dot_not_in_decimal [simp]: "CHR ''.'' \<notin> set (decimal n)"
  using decimal_digits [of n] by (auto simp: list_all_iff is_digit_def)

lemma dv_from_str_display:
  assumes "dv_major v \<le> 4095" "dv_minor v \<le> 4095"
  shows "dv_from_str (dv_display v) = Ok v"
proof -
  have "v \<noteq> future_version"
    using assms(1) by (auto simp: future_version_def)
  moreover have "split_char (CHR ''.'') (decimal a @ CHR ''.'' # decimal b) = [decimal a, decimal b]" for a b
    by (simp add: split_char_append split_char_single)
  ultimately show ?thesis
    using assms by (simp add: dv_display_def dv_from_str_def parse_part_def parse_decimal dv_new_def not_less)
qed

text \<open>
  A text with a component out of range is not reported as an error: \<open>DataVersion::from_str\<close>
  calls \<open>DataVersion::new\<close>, which panics.
\<close>

lemma dv_from_str_out_of_range:
  assumes "dv_major v > 4095" and "v \<noteq> future_version"
  shows "dv_from_str (dv_display v) = Panic"
proof -
  have "split_char (CHR ''.'') (decimal a @ CHR ''.'' # decimal b) = [decimal a, decimal b]" for a b
    by (simp add: split_char_append split_char_single)
  then show ?thesis
    using assms by (simp add: dv_display_def dv_from_str_def parse_part_def parse_decimal dv_new_def)
qed

subsection \<open>Steps lead upwards\<close>

text \<open>
  The order that \<open>validate_step\<close> enforces: from the future version to a real one, or from a
  version to a later one.
\<close>

definition step_order :: "data_version \<Rightarrow> data_version \<Rightarrow> bool" where
  "step_order from to \<longleftrightarrow> to \<noteq> future_version \<and> (from = future_version \<or> from < to)"

lemma step_order_trans: "step_order a b \<Longrightarrow> step_order b c \<Longrightarrow> step_order a c"
  by (auto simp: step_order_def)

lemma step_order_asym: "step_order a b \<Longrightarrow> \<not> step_order b a"
  by (auto simp: step_order_def)

lemma step_order_irrefl [simp]: "\<not> step_order a a"
  by (auto simp: step_order_def)

lemma validate_step_order: "validate_step m from to = Ok () \<Longrightarrow> step_order from to"
  by (auto simp: validate_step_def step_order_def split: if_splits)

definition table_ordered :: "(data_version \<times> (data_version \<times> 's) list) list \<Rightarrow> bool" where
  "table_ordered table \<longleftrightarrow>
     (\<forall>from from_map to step. map_of table from = Some from_map \<longrightarrow> (to, step) \<in> set from_map \<longrightarrow> step_order from to)"

lemma table_orderedD:
  "table_ordered table \<Longrightarrow> map_of table from = Some from_map \<Longrightarrow> (to, step) \<in> set from_map \<Longrightarrow> step_order from to"
  unfolding table_ordered_def by blast

inductive migrations_built :: "migrations \<Rightarrow> bool" where
  built_new: "migrations_built (migrations_new current)"
| built_add: "migrations_built m \<Longrightarrow> add_step m from to step = (Ok m' :: (migrations, unit) res) \<Longrightarrow> migrations_built m'"
| built_migration: "migrations_built m \<Longrightarrow> migration m from = Some (Ok (found, m')) \<Longrightarrow> migrations_built m'"

lemma set_AList_update_subset: "p \<in> set (AList.update k v al) \<Longrightarrow> p = (k, v) \<or> p \<in> set al"
  by (induction al) (auto split: if_splits)

lemma map_of_insert_step:
  "map_of (insert_step from to step table) =
     (map_of table)(from \<mapsto> AList.update to step (case map_of table from of None \<Rightarrow> [] | Some m \<Rightarrow> m))"
  by (simp add: insert_step_def update_conv' split: option.split)

lemma insert_step_ordered:
  "table_ordered table \<Longrightarrow> step_order from to \<Longrightarrow> table_ordered (insert_step from to step table)"
  by (fastforce simp: table_ordered_def map_of_insert_step dest: set_AList_update_subset split: if_splits option.splits)

subsection \<open>Chains\<close>

inductive migration_chain :: "(data_version \<times> (data_version \<times> 's) list) list \<Rightarrow> data_version \<Rightarrow> data_version \<Rightarrow> 's list \<Rightarrow> bool"
  for table to where
  chain_last: "map_of table from = Some from_map \<Longrightarrow> (to, step) \<in> set from_map \<Longrightarrow> migration_chain table to from [step]"
| chain_step: "map_of table from = Some from_map \<Longrightarrow> (mid, step) \<in> set from_map \<Longrightarrow> mid \<noteq> to \<Longrightarrow>
     migration_chain table to mid steps \<Longrightarrow> migration_chain table to from (step # steps)"

inductive dead_end :: "(data_version \<times> (data_version \<times> 's) list) list \<Rightarrow> data_version \<Rightarrow> data_version \<Rightarrow> bool"
  for table to where
  dead_here: "map_of table from = None \<Longrightarrow> dead_end table to from"
| dead_next: "map_of table from = Some from_map \<Longrightarrow> (mid, step) \<in> set from_map \<Longrightarrow> mid \<noteq> to \<Longrightarrow>
     dead_end table to mid \<Longrightarrow> dead_end table to from"

inductive_cases migration_chainE: "migration_chain table to from steps"

lemma migration_chain_nonempty: "migration_chain table to from steps \<Longrightarrow> steps \<noteq> []"
  by (induction rule: migration_chain.induct) auto

lemma migration_chain_order:
  "migration_chain table to from steps \<Longrightarrow> table_ordered table \<Longrightarrow> step_order from to"
  by (induction rule: migration_chain.induct) (blast intro: step_order_trans dest: table_orderedD)+

text \<open>What the loop over the steps of one version returns, when no search below it fails.\<close>

definition candidates ::
    "(data_version \<Rightarrow> ('s list, unit) res option) \<Rightarrow> data_version \<Rightarrow> (data_version \<times> 's) list \<Rightarrow> 's list set" where
  "candidates search to entries =
     {[step] |step. (to, step) \<in> set entries} \<union>
     {step # chain |mid step chain. (mid, step) \<in> set entries \<and> mid \<noteq> to \<and> search mid = Some (Ok chain) \<and> chain \<noteq> []}"

lemma candidates_Nil [simp]: "candidates search to [] = {}"
  by (simp add: candidates_def)

lemma candidates_Cons:
  "candidates search to ((mid, step) # rest) =
     (if mid = to then {[step]}
      else (case search mid of Some (Ok chain) \<Rightarrow> if chain = [] then {} else {step # chain} | _ \<Rightarrow> {}))
     \<union> candidates search to rest"
  by (auto simp: candidates_def split: option.splits res.splits)

definition shortest_of :: "'s list set \<Rightarrow> 's list \<Rightarrow> bool" where
  "shortest_of cs c \<longleftrightarrow>
     (if c = [] then cs \<subseteq> {[]} else c \<in> cs \<and> (\<forall>d\<in>cs. d \<noteq> [] \<longrightarrow> length c \<le> length d))"

lemma shortest_of_insert_Nil [simp]: "shortest_of (insert [] cs) c = shortest_of cs c"
  by (auto simp: shortest_of_def)

lemma shortest_of_transfer:
  assumes "shortest_of as c" and "as \<subseteq> bs"
    and "\<And>b. b \<in> bs \<Longrightarrow> b \<noteq> [] \<Longrightarrow> \<exists>a\<in>as. a \<noteq> [] \<and> length a \<le> length b"
  shows "shortest_of bs c"
proof (cases "c = []")
  case True
  then have "as \<subseteq> {[]}"
    using assms(1) by (simp add: shortest_of_def)
  then have "bs \<subseteq> {[]}"
    using assms(3) by blast
  then show ?thesis
    using True by (simp add: shortest_of_def)
next
  case False
  then have c: "c \<in> as" "\<And>a. a \<in> as \<Longrightarrow> a \<noteq> [] \<Longrightarrow> length c \<le> length a"
    using assms(1) by (simp_all add: shortest_of_def)
  have "length c \<le> length b" if "b \<in> bs" "b \<noteq> []" for b
    using assms(3) [OF that] c(2) le_trans by blast
  then show ?thesis
    using False c(1) assms(2) by (auto simp: shortest_of_def)
qed

lemma shortest_of_shorter:
  assumes "shortest_of (insert (shorter_chain a b) cs) c"
  shows "shortest_of (insert a (insert b cs)) c"
  by (rule shortest_of_transfer [OF assms]) (auto simp: shorter_chain_def)

lemma best_chain_Ok:
  "best_chain search to entries sofar = Some (Ok c) \<Longrightarrow> shortest_of (insert sofar (candidates search to entries)) c"
proof (induction search to entries sofar rule: best_chain.induct)
  case (1 search to sofar)
  then show ?case by (auto simp: shortest_of_def)
next
  case (2 search to mid step rest sofar)
  show ?case
  proof (cases "mid = to")
    case True
    then show ?thesis
      using 2 shortest_of_shorter [of sofar "[step]"] by (simp add: candidates_Cons)
  next
    case False
    then obtain chain where "search mid = Some (Ok chain)"
      and "best_chain search to rest (shorter_chain sofar (if chain = [] then [] else step # chain)) = Some (Ok c)"
      using 2(3) by (auto split: option.splits res.splits)
    with 2(2) False have "shortest_of (insert sofar (insert (if chain = [] then [] else step # chain) (candidates search to rest))) c"
      by (intro shortest_of_shorter) auto
    then show ?thesis
      using False \<open>search mid = _\<close> by (auto simp: candidates_Cons insert_commute [of sofar "[]"] split: if_splits)
  qed
qed

lemma best_chain_not_None:
  "\<forall>(mid, step)\<in>set entries. mid \<noteq> to \<longrightarrow> search mid \<noteq> None \<Longrightarrow> best_chain search to entries sofar \<noteq> None"
  by (induction search to entries sofar rule: best_chain.induct) (auto split: option.splits res.splits)

lemma best_chain_not_Err:
  "(\<And>mid. search mid \<noteq> Some (Err e)) \<Longrightarrow> best_chain search to entries sofar \<noteq> Some (Err e)"
  by (induction search to entries sofar rule: best_chain.induct) (auto split: option.splits res.splits)

lemma best_chain_Panic:
  "best_chain search to entries sofar = Some Panic \<Longrightarrow>
   \<exists>mid step. (mid, step) \<in> set entries \<and> mid \<noteq> to \<and> search mid = Some Panic"
  by (induction search to entries sofar rule: best_chain.induct) (auto split: if_splits option.splits res.splits)

lemma best_chain_Ok_below:
  "best_chain search to entries sofar = Some (Ok c) \<Longrightarrow> (mid, step) \<in> set entries \<Longrightarrow> mid \<noteq> to \<Longrightarrow>
   \<exists>chain. search mid = Some (Ok chain)"
  by (induction search to entries sofar rule: best_chain.induct) (auto split: if_splits option.splits res.splits)

subsection \<open>The search ends\<close>

definition later_keys :: "(data_version \<times> 'm) list \<Rightarrow> data_version \<Rightarrow> data_version set" where
  "later_keys table from = {k \<in> fst ` set table. k = from \<or> step_order from k}"

lemma later_keys_psubset:
  assumes "map_of table from = Some from_map" and "step_order from mid"
  shows "later_keys table mid \<subset> later_keys table from"
proof -
  have "from \<in> fst ` set table"
    using assms(1) by (metis map_of_SomeD fst_conv image_eqI)
  then have "from \<in> later_keys table from - later_keys table mid"
    using assms(2) by (auto simp: later_keys_def dest: step_order_asym)
  moreover have "later_keys table mid \<subseteq> later_keys table from"
    using assms(2) by (auto simp: later_keys_def intro: step_order_trans)
  ultimately show ?thesis by blast
qed

lemma card_later_keys: "card (later_keys table from) \<le> length table"
proof -
  have "card (later_keys table from) \<le> card (fst ` set table)"
    by (rule card_mono) (auto simp: later_keys_def)
  also have "\<dots> \<le> card (set table)"
    by (rule card_image_le) simp
  also have "\<dots> \<le> length table"
    by (rule card_length)
  finally show ?thesis .
qed

lemma find_migration_chain_not_Err: "find_migration_chain fuel table v to \<noteq> Some (Err e)"
proof (induction fuel arbitrary: v)
  case (Suc fuel)
  then show ?case
    using best_chain_not_Err [of "\<lambda>mid. find_migration_chain fuel table mid to"] by (auto split: option.split)
qed simp

lemma find_migration_chain_ends:
  "table_ordered table \<Longrightarrow> card (later_keys table v) < fuel \<Longrightarrow> find_migration_chain fuel table v to \<noteq> None"
proof (induction fuel arbitrary: v)
  case (Suc fuel)
  show ?case
  proof (cases "map_of table v")
    case (Some from_map)
    have "find_migration_chain fuel table mid to \<noteq> None" if "(mid, step) \<in> set from_map" for mid step
    proof (rule Suc.IH [OF Suc.prems(1)])
      have "card (later_keys table mid) < card (later_keys table v)"
        by (intro psubset_card_mono later_keys_psubset [OF Some] table_orderedD [OF Suc.prems(1) Some that])
          (simp add: later_keys_def)
      then show "card (later_keys table mid) < fuel"
        using Suc.prems(2) by simp
    qed
    then have "\<forall>(mid, step)\<in>set from_map. mid \<noteq> to \<longrightarrow> find_migration_chain fuel table mid to \<noteq> None"
      by blast
    then show ?thesis
      using best_chain_not_None [of from_map to "\<lambda>mid. find_migration_chain fuel table mid to" "[]"] Some by simp
  qed simp
qed simp

lemma find_migration_chain_Panic:
  "find_migration_chain fuel table v to = Some Panic \<Longrightarrow> dead_end table to v"
proof (induction fuel arbitrary: v)
  case (Suc fuel)
  show ?case
  proof (cases "map_of table v")
    case None
    then show ?thesis by (rule dead_here)
  next
    case (Some from_map)
    with Suc.prems have "best_chain (\<lambda>mid. find_migration_chain fuel table mid to) to from_map [] = Some Panic"
      by simp
    from best_chain_Panic [OF this] obtain mid step where "(mid, step) \<in> set from_map" "mid \<noteq> to"
      and "find_migration_chain fuel table mid to = Some Panic"
      by blast
    then show ?thesis
      using dead_next [OF Some] Suc.IH by blast
  qed
qed simp

lemma dead_end_no_chain_found:
  "dead_end table to v \<Longrightarrow> find_migration_chain fuel table v to \<noteq> Some (Ok c)"
proof (induction arbitrary: fuel c rule: dead_end.induct)
  case (dead_here v)
  then show ?case by (cases fuel) auto
next
  case (dead_next v from_map mid step)
  then show ?case by (cases fuel) (auto dest: best_chain_Ok_below)
qed

subsection \<open>The search is right\<close>

lemma shortest_of_chains:
  assumes "find_migration_chain fuel table v to = Some (Ok c)"
  shows "shortest_of (Collect (migration_chain table to v)) c"
  using assms
proof (induction fuel arbitrary: v c)
  case (Suc fuel)
  let ?search = "\<lambda>mid. find_migration_chain fuel table mid to"
  obtain from_map where Some: "map_of table v = Some from_map"
    and b: "best_chain ?search to from_map [] = Some (Ok c)"
    using Suc.prems by (auto split: option.splits)
  then have c: "shortest_of (candidates ?search to from_map) c"
    using best_chain_Ok [OF b] by simp
  have below: "\<exists>chain. ?search mid = Some (Ok chain) \<and> shortest_of (Collect (migration_chain table to mid)) chain"
    if "(mid, step) \<in> set from_map" "mid \<noteq> to" for mid step
    using best_chain_Ok_below [OF b that] Suc.IH by blast
  show ?case
  proof (rule shortest_of_transfer [OF c])
    show "candidates ?search to from_map \<subseteq> Collect (migration_chain table to v)"
    proof
      fix d assume "d \<in> candidates ?search to from_map"
      then consider step where "d = [step]" "(to, step) \<in> set from_map"
        | mid step chain where "d = step # chain" "(mid, step) \<in> set from_map" "mid \<noteq> to"
            "?search mid = Some (Ok chain)" "chain \<noteq> []"
        by (auto simp: candidates_def)
      then show "d \<in> Collect (migration_chain table to v)"
      proof cases
        case 1
        then show ?thesis using Some by (auto intro: chain_last)
      next
        case 2
        then have "migration_chain table to mid chain"
          using below [OF 2(2,3)] by (auto simp: shortest_of_def)
        then show ?thesis
          using 2 Some by (auto intro: chain_step)
      qed
    qed
  next
    fix d assume "d \<in> Collect (migration_chain table to v)"
    then have "migration_chain table to v d" by simp
    then show "\<exists>a\<in>candidates ?search to from_map. a \<noteq> [] \<and> length a \<le> length d"
    proof cases
      case (chain_last fm step)
      then have "[step] \<in> candidates ?search to from_map"
        using Some by (auto simp: candidates_def)
      then show ?thesis using chain_last by force
    next
      case (chain_step fm mid step steps)
      then have fm: "(mid, step) \<in> set from_map" using Some by simp
      obtain chain where chain: "?search mid = Some (Ok chain)"
        and sh: "shortest_of (Collect (migration_chain table to mid)) chain"
        using below [OF fm chain_step(4)] by blast
      then have ne: "chain \<noteq> []" "length chain \<le> length steps"
        using chain_step(5) migration_chain_nonempty [OF chain_step(5)] by (auto simp: shortest_of_def split: if_splits)
      then have "step # chain \<in> candidates ?search to from_map"
        using fm chain chain_step(4) by (auto simp: candidates_def)
      then show ?thesis using ne chain_step by force
    qed
  qed
qed simp

declare find_migration_chain.simps [simp del]

lemma combo_step_single [simp]: "combo_step [step] = step"
  by (auto simp: combo_step_def)

lemma found_chain_order:
  assumes "table_ordered table" and "find_migration_chain fuel table v to = Some (Ok c)" and "c \<noteq> []"
  shows "step_order v to"
proof -
  have "migration_chain table to v c"
    using shortest_of_chains [OF assms(2)] assms(3) by (simp add: shortest_of_def)
  then show ?thesis using assms(1) by (rule migration_chain_order)
qed

lemma migrations_built_ordered: "migrations_built m \<Longrightarrow> table_ordered (mig_table m)"
proof (induction rule: migrations_built.induct)
  case (built_new current)
  show ?case by (simp add: migrations_new_def table_ordered_def)
next
  case (built_add m v to step m')
  then show ?case
    by (auto simp: add_step_def res_simps intro!: insert_step_ordered dest!: validate_step_order)
next
  case (built_migration m v found m')
  then show ?case
    by (auto simp: migration_def Let_def split: option.splits res.splits if_splits)
      (blast intro: insert_step_ordered found_chain_order)
qed

lemma dead_end_search:
  assumes "table_ordered table"
  shows "find_migration_chain (Suc (length table)) table v to = Some Panic \<longleftrightarrow> dead_end table to v"
proof
  assume "dead_end table to v"
  moreover have "find_migration_chain (Suc (length table)) table v to \<noteq> None"
    using card_later_keys [of table v] by (intro find_migration_chain_ends [OF assms]) simp
  moreover have "find_migration_chain (Suc (length table)) table v to \<noteq> Some (Err e)" for e
    by (rule find_migration_chain_not_Err)
  ultimately show "find_migration_chain (Suc (length table)) table v to = Some Panic"
    using dead_end_no_chain_found by (metis option.exhaust res.exhaust)
qed (rule find_migration_chain_Panic)

lemma shortest_of_cases:
  "shortest_of (Collect (migration_chain table to v)) c \<longleftrightarrow>
     (if c = [] then \<not> (\<exists>c'. migration_chain table to v c')
      else migration_chain table to v c \<and> (\<forall>c'. migration_chain table to v c' \<longrightarrow> length c \<le> length c'))"
  using migration_chain_nonempty [of table to v] by (cases "c = []") (auto simp: shortest_of_def)

lemma direct_step_chain:
  assumes "map_of table v = Some from_map" and "map_of from_map to = Some step"
  shows "migration_chain table to v [step]"
  using assms by (intro chain_last) (auto dest: map_of_SomeD)

lemma migration_chain_length: "migration_chain table to v c \<Longrightarrow> Suc 0 \<le> length c"
  using migration_chain_nonempty by (cases c) auto

text \<open>
  C25. In every table that \<open>new\<close>, \<open>add_step\<close> and earlier searches can build, the search for a
  migration ends. It panics exactly when the version has steps but none to the current version
  and some chain of its steps runs into a version without an entry; otherwise it returns a
  shortest chain of steps from the version to the current one, or nothing when there is no such
  chain; and a search repeated on the table it returns gives the same step.
\<close>

theorem migration_search_correct:
  assumes "migrations_built m"
  shows "\<exists>r. migration m v = Some r \<and> (\<forall>e. r \<noteq> Err e) \<and>
    (r = Panic \<longleftrightarrow> (\<exists>from_map. map_of (mig_table m) v = Some from_map \<and> map_of from_map (mig_current_version m) = None)
       \<and> dead_end (mig_table m) (mig_current_version m) v) \<and>
    (\<forall>m'. r = Ok (None, m') \<longrightarrow> m' = m \<and> \<not> (\<exists>c. migration_chain (mig_table m) (mig_current_version m) v c)) \<and>
    (\<forall>step m'. r = Ok (Some step, m') \<longrightarrow>
       (\<exists>c. migration_chain (mig_table m) (mig_current_version m) v c \<and> step = combo_step c \<and>
         (\<forall>c'. migration_chain (mig_table m) (mig_current_version m) v c' \<longrightarrow> length c \<le> length c')) \<and>
       migration m' v = Some (Ok (Some step, m')))"
proof (cases "map_of (mig_table m) v")
  case None
  then have "\<not> migration_chain (mig_table m) (mig_current_version m) v c" for c
    by (auto elim: migration_chainE)
  then show ?thesis
    using None by (simp add: migration_def)
next
  case (Some from_map)
  let ?t = "mig_table m" and ?c = "mig_current_version m"
  note ordered = migrations_built_ordered [OF assms]
  show ?thesis
  proof (cases "map_of from_map ?c")
    case (Some step)
    have "migration m v = Some (Ok (Some step, m))"
      using \<open>map_of ?t v = Some from_map\<close> Some by (simp add: migration_def)
    moreover have "migration_chain ?t ?c v [step]"
      using \<open>map_of ?t v = Some from_map\<close> Some by (rule direct_step_chain)
    ultimately show ?thesis
      using migration_chain_length [of ?t ?c v] \<open>map_of ?t v = Some from_map\<close> Some
      by (auto intro!: exI [of _ "[step]"])
  next
    case None
    let ?r = "find_migration_chain (Suc (length ?t)) ?t v ?c"
    have "?r \<noteq> None"
      using card_later_keys [of ?t v] by (intro find_migration_chain_ends [OF ordered]) simp
    then consider "?r = Some Panic" | c where "?r = Some (Ok c)"
      using find_migration_chain_not_Err [of "Suc (length ?t)" ?t v ?c] by (metis option.exhaust res.exhaust)
    then show ?thesis
    proof cases
      case 1
      then have "dead_end ?t ?c v" by (rule find_migration_chain_Panic)
      then show ?thesis
        using 1 None Some by (simp add: migration_def)
    next
      case (2 c)
      have dead: "\<not> dead_end ?t ?c v"
        using dead_end_no_chain_found 2 by blast
      note sh = shortest_of_chains [OF 2, unfolded shortest_of_cases]
      show ?thesis
      proof (cases "c = []")
        case True
        then show ?thesis
          using 2 None Some dead sh by (simp add: migration_def)
      next
        case False
        let ?m = "m\<lparr>mig_table := insert_step v ?c (combo_step c) ?t\<rparr>"
        have "migration m v = Some (Ok (Some (combo_step c), ?m))"
          using 2 None Some False by (simp add: migration_def)
        moreover have "migration ?m v = Some (Ok (Some (combo_step c), ?m))"
          by (simp add: migration_def map_of_insert_step update_conv')
        ultimately show ?thesis
          using dead sh False by auto
      qed
    qed
  qed
qed

text \<open>
  Two steps that lead from 0.1 to the current version 0.3, and the same table without the second
  step, where the search runs into 0.2.
\<close>

definition demo_append :: "u8 \<Rightarrow> migration_step" where
  "demo_append b bs = Ok (bs @ [b])"

abbreviation v0 :: "u16 \<Rightarrow> data_version" where
  "v0 minor \<equiv> DataVersion 0 minor"

definition demo_half :: migrations where
  "demo_half = (case add_step (migrations_new (v0 3)) (v0 1) (v0 2) (demo_append 2) :: (migrations, unit) res of Ok m \<Rightarrow> m)"

definition demo_migrations :: migrations where
  "demo_migrations = (case add_step demo_half (v0 2) (v0 3) (demo_append 3) :: (migrations, unit) res of Ok m \<Rightarrow> m)"

lemmas demo_migrations_simps = add_step_def validate_step_def migrations_new_def insert_step_def
  future_version_def dv_less_def

lemma demo_half_eq: "demo_half = \<lparr>mig_current_version = v0 3, mig_table = [(v0 1, [(v0 2, demo_append 2)])]\<rparr>"
  by (simp add: demo_half_def demo_migrations_simps)

lemma demo_migrations_eq:
  "demo_migrations = \<lparr>mig_current_version = v0 3,
     mig_table = [(v0 1, [(v0 2, demo_append 2)]), (v0 2, [(v0 3, demo_append 3)])]\<rparr>"
  by (simp add: demo_migrations_def demo_half_eq demo_migrations_simps)

lemma demo_half_built: "migrations_built demo_half"
  by (rule built_add [OF built_new [of "v0 3"], of "v0 1" "v0 2" "demo_append 2"])
    (simp add: demo_half_def demo_migrations_simps)

lemma demo_migrations_built: "migrations_built demo_migrations"
  by (rule built_add [OF demo_half_built, of "v0 2" "v0 3" "demo_append 3"])
    (simp add: demo_migrations_def demo_half_eq demo_migrations_simps)

text \<open>
  A step table without a way on from an intermediate version: data of version 0.1 makes the
  search panic instead of reporting \<open>MigrationNotFound\<close>.
\<close>

lemma missing_step_panics: "migration demo_half (v0 1) = Some Panic"
  by (simp add: migration_def demo_half_eq find_migration_chain.simps)

theorem migration_search_correct_witness:
  "\<exists>step m'. migration demo_migrations (v0 1) = Some (Ok (Some step, m')) \<and>
     step [1] = Ok [1, 2, 3] \<and> migration m' (v0 1) = Some (Ok (Some step, m'))"
proof -
  let ?c = "[demo_append 2, demo_append 3]"
  have "migration demo_migrations (v0 1) = Some (Ok (Some (combo_step ?c),
      demo_migrations\<lparr>mig_table := insert_step (v0 1) (v0 3) (combo_step ?c) (mig_table demo_migrations)\<rparr>))"
    by (simp add: migration_def demo_migrations_eq find_migration_chain.simps shorter_chain_def Let_def)
  moreover have "combo_step ?c [1] = Ok [1, 2, 3]"
    by (simp add: combo_step_def demo_append_def)
  ultimately show ?thesis
    using migration_search_correct [OF demo_migrations_built, of "v0 1"] by auto
qed

subsection \<open>Extraction\<close>

text \<open>
  C31. Whatever version a peer puts on its data, extraction with the tables of the payloads
  does not panic by itself: data of the current version is decoded as it is, so a payload that
  \<open>new\<close> has wrapped comes back; a financial payload of any other version is refused; another
  payload of a later version goes through the one step for future versions, and one of an
  earlier version is refused.
\<close>

theorem extract_payloads:
  assumes "client_request_payload_migrations mf_0v1 = (Ok m :: (migrations, unit) res)"
  shows "vd_extract from_slice service_receipt_payload_migrations vd =
      Some (if vd_version vd = v0 1 then decode_current from_slice service_receipt_payload_migrations (vd_bytes vd)
            else Err (MigrationNotFound (if vd_version vd > v0 1 then future_version else vd_version vd) (v0 1)),
            service_receipt_payload_migrations) \<and>
    vd_extract from_slice m vd =
      Some (if vd_version vd = v0 1 then decode_current from_slice m (vd_bytes vd)
            else if vd_version vd > v0 1 then
              and_then (map_err MigrationFailed (mf_0v1 (vd_bytes vd))) (decode_current from_slice m)
            else Err (MigrationNotFound (vd_version vd) (v0 1)), m) \<and>
    (to_vec x = Ok bs \<and> from_slice bs = Ok x \<and> versioned_data_new to_vec m x = (Ok vd :: (versioned_data, unit) res)
       \<longrightarrow> vd_extract from_slice m vd = Some (Ok x, m))"
proof -
  have m: "m = \<lparr>mig_current_version = v0 1, mig_table = [(future_version, [(v0 1, mf_0v1)])]\<rparr>"
    using assms by (auto simp: client_request_payload_migrations_def demo_migrations_simps)
  have f: "future_version \<noteq> v0 1" "v0 1 < future_version"
    by (simp_all add: future_version_def dv_less_def)
  have "vd_extract from_slice service_receipt_payload_migrations vd =
      Some (if vd_version vd = v0 1 then decode_current from_slice service_receipt_payload_migrations (vd_bytes vd)
            else Err (MigrationNotFound (if vd_version vd > v0 1 then future_version else vd_version vd) (v0 1)),
            service_receipt_payload_migrations)"
    using f by (auto simp: vd_extract_def effective_version_def migration_def
        service_receipt_payload_migrations_def migrations_new_def Let_def)
  moreover have "vd_extract from_slice m vd =
      Some (if vd_version vd = v0 1 then decode_current from_slice m (vd_bytes vd)
            else if vd_version vd > v0 1 then
              and_then (map_err MigrationFailed (mf_0v1 (vd_bytes vd))) (decode_current from_slice m)
            else Err (MigrationNotFound (vd_version vd) (v0 1)), m)"
    using f by (auto simp: vd_extract_def effective_version_def migration_def m Let_def)
  ultimately show ?thesis
    by (auto simp: vd_extract_def versioned_data_new_def effective_version_def decode_current_def)
qed

theorem extract_payloads_witness:
  "\<exists>m :: migrations. client_request_payload_migrations (demo_append 9) = (Ok m :: (migrations, unit) res) \<and>
     vd_extract (\<lambda>bs. Ok (length bs)) m \<lparr>vd_version = v0 7, vd_bytes = [1, 2]\<rparr> = Some (Ok 3, m) \<and>
     vd_extract (\<lambda>bs. Ok (hd bs)) m \<lparr>vd_version = v0 1, vd_bytes = [5]\<rparr> = Some (Ok 5, m)"
proof -
  obtain m where m: "client_request_payload_migrations (demo_append 9) = (Ok m :: (migrations, unit) res)"
    by (simp add: client_request_payload_migrations_def demo_migrations_simps)
  have c: "mig_current_version m = v0 1"
    using m by (auto simp: client_request_payload_migrations_def demo_migrations_simps)
  have "vd_extract (\<lambda>bs. Ok (length bs)) m \<lparr>vd_version = v0 7, vd_bytes = [1, 2]\<rparr> = Some (Ok 3, m)"
    using extract_payloads [OF m, of "\<lambda>bs. Ok (length bs)" "\<lparr>vd_version = v0 7, vd_bytes = [1, 2]\<rparr>"]
    by (simp add: dv_less_def demo_append_def decode_current_def)
  moreover have "vd_extract (\<lambda>bs. Ok (hd bs)) m \<lparr>vd_version = v0 1, vd_bytes = [5]\<rparr> = Some (Ok 5, m)"
    using extract_payloads [OF m, of "\<lambda>bs. Ok (hd bs)" "\<lparr>vd_version = v0 1, vd_bytes = [5]\<rparr>" "\<lambda>x :: u8. Ok [x]" 5 "[5]"]
    by (simp add: versioned_data_new_def c decode_current_def)
  ultimately show ?thesis using m by blast
qed

end
