(* ===== verification/Packed_Version.thy ===== *)
theory Packed_Version
  imports Versioned_Data
begin

unbundle bit_operations_syntax

section \<open>Versions in three bytes\<close>

text \<open>
  \<open>node/src/sub_lib/data_version.rs\<close>: the version in the packages of the hopper. It is another type
  than the version of the payloads, \<open>masq_lib/src/data_version.rs\<close> in \<open>Versioned_Data\<close>: its two
  numbers of twelve bits share three bytes, and a number out of range is an error and not a panic.
\<close>

datatype packed_version = PackedVersion u8 u8 u8

definition packed_new :: "u16 \<Rightarrow> u16 \<Rightarrow> (packed_version, string) res" where
  "packed_new major minor =
     (if major \<ge> 4096 then Err ''Major version out of bounds''
      else if minor \<ge> 4096 then Err ''Minor version out of bounds''
      else let a = drop_bit 4 (major AND 0xFF0);
               b = push_bit 4 (major AND 0x0F) OR drop_bit 8 (minor AND 0xF00);
               c = minor AND 0xFF
           in Ok (PackedVersion (ucast a) (ucast b) (ucast c)))"

fun packed_major :: "packed_version \<Rightarrow> u16" where
  "packed_major (PackedVersion a b c) = push_bit 4 (ucast a) OR drop_bit 4 (ucast b AND 0xF0)"

fun packed_minor :: "packed_version \<Rightarrow> u16" where
  "packed_minor (PackedVersion a b c) = push_bit 8 (ucast b AND 0x0F) OR ucast c"

definition packed_display :: "packed_version \<Rightarrow> string" where
  "packed_display v = decimal (unat (packed_major v)) @ ''.'' @ decimal (unat (packed_minor v))"

definition packed_from_str :: "string \<Rightarrow> (packed_version, string) res" where
  "packed_from_str value =
     (let parts = split_char (CHR ''.'') value in
      if length parts = 2
      then case parse_uint (parts ! 0) of None \<Rightarrow> Err ''Unable to parse DataVersion'' | Some major \<Rightarrow>
        (case parse_uint (parts ! 1) of None \<Rightarrow> Err ''Unable to parse DataVersion'' | Some minor \<Rightarrow>
          packed_new major minor)
      else Err ''Unable to parse DataVersion'')"

lemma nibble_masks:
  "(0xFF0 :: u16) = push_bit 4 (mask 8)" "(0x0F :: u16) = mask 4" "(0xF00 :: u16) = push_bit 8 (mask 4)"
  "(0xFF :: u16) = mask 8" "(0xF0 :: u16) = push_bit 4 (mask 4)"
  by (simp_all add: mask_eq_exp_minus_1 push_bit_eq_mult)

lemma less_4096_iff: "(w :: u16) < 4096 \<longleftrightarrow> take_bit 12 w = w"
proof
  assume "w < 4096"
  then have "take_bit 12 (unat w) = unat w" by (simp add: take_bit_eq_mod word_less_nat_alt)
  then have "unat (take_bit 12 w) = unat w" by (simp only: unsigned_take_bit_eq)
  then show "take_bit 12 w = w" by (simp only: unsigned_word_eqI)
next
  assume "take_bit 12 w = w"
  then have "unat w = take_bit 12 (unat w)" by (metis unsigned_take_bit_eq)
  also have "\<dots> < 4096" by (simp add: take_bit_eq_mod)
  finally show "w < 4096" by (simp add: word_less_nat_alt)
qed

lemma less_4096_bit: "(w :: u16) < 4096 \<Longrightarrow> bit w n \<Longrightarrow> n < 12"
  by (metis less_4096_iff bit_take_bit_iff)

lemma byte_bit: "bit (a :: u8) n \<Longrightarrow> n < 8"
  using bit_imp_le_length [of a n] by simp

lemma packed_bounds: "packed_major v < 4096" "packed_minor v < 4096"
proof -
  obtain a b c where v: "v = PackedVersion a b c" by (cases v)
  have "take_bit 12 (packed_major v) = packed_major v"
    by (rule bit_word_eqI) (auto simp: v nibble_masks bit_simps dest: byte_bit)
  moreover have "take_bit 12 (packed_minor v) = packed_minor v"
    by (rule bit_word_eqI) (auto simp: v nibble_masks bit_simps dest: byte_bit)
  ultimately show "packed_major v < 4096" "packed_minor v < 4096"
    by (simp_all only: less_4096_iff)
qed

lemma packed_parts: "packed_new (packed_major v) (packed_minor v) = Ok v"
proof -
  obtain a b c where v: "v = PackedVersion a b c" by (cases v)
  let ?j = "packed_major v" and ?n = "packed_minor v"
  have "ucast (drop_bit 4 (?j AND 0xFF0)) = a" 
    by (rule bit_word_eqI) (auto simp: v nibble_masks bit_simps dest: byte_bit)
  moreover have "ucast (push_bit 4 (?j AND 0x0F) OR drop_bit 8 (?n AND 0xF00)) = b"
    by (rule bit_word_eqI) (auto simp: v nibble_masks bit_simps dest: byte_bit)
  moreover have "ucast (?n AND 0xFF) = c"
    by (rule bit_word_eqI) (auto simp: v nibble_masks bit_simps dest: byte_bit)
  ultimately show ?thesis
    using packed_bounds [of v] by (simp add: packed_new_def v not_le Let_def del: packed_major.simps packed_minor.simps)
qed

lemma packed_new_parts:
  assumes "packed_new major minor = Ok v"
  shows "packed_major v = major" "packed_minor v = minor"
proof -
  have b: "major < 4096" "minor < 4096" and v: "v = PackedVersion (ucast (drop_bit 4 (major AND 0xFF0)))
      (ucast (push_bit 4 (major AND 0x0F) OR drop_bit 8 (minor AND 0xF00))) (ucast (minor AND 0xFF))"
    using assms by (auto simp: packed_new_def Let_def not_le split: if_splits)
  show "packed_major v = major"
  proof (rule bit_word_eqI)
    show "bit (packed_major v) n = bit major n" for n
      by (cases "n < 4") (auto simp: v nibble_masks bit_simps dest: less_4096_bit [OF b(1)])
  qed
  show "packed_minor v = minor"
  proof (rule bit_word_eqI)
    show "bit (packed_minor v) n = bit minor n" for n
      by (cases "n < 8") (auto simp: v nibble_masks bit_simps dest: less_4096_bit [OF b(2)])
  qed
qed

text \<open>
  C38. The version of a package loses nothing in its three bytes. Any three bytes are the version of the
  two numbers read from them, and the version that its text is parsed to. A version is made of two
  numbers just when both are below 4096, and then they are what is read back; otherwise making or
  parsing it is an error. Neither panics, unlike the version of the payloads.
\<close>

theorem packed_version_roundtrip:
  "packed_new (packed_major v) (packed_minor v) = Ok v \<and> packed_from_str (packed_display v) = Ok v \<and>
   (packed_new major minor = Ok w \<longleftrightarrow> major < 4096 \<and> minor < 4096 \<and> packed_major w = major \<and> packed_minor w = minor) \<and>
   packed_new major minor \<noteq> Panic \<and> packed_from_str s \<noteq> Panic"
proof (intro conjI)
  show "packed_new (packed_major v) (packed_minor v) = Ok v" by (rule packed_parts)
  have "split_char (CHR ''.'') (decimal a @ CHR ''.'' # decimal b) = [decimal a, decimal b]" for a b
    by (simp add: split_char_append split_char_single)
  then show "packed_from_str (packed_display v) = Ok v"
    by (simp add: packed_from_str_def packed_display_def parse_decimal packed_parts)
  show "packed_new major minor = Ok w \<longleftrightarrow> major < 4096 \<and> minor < 4096 \<and> packed_major w = major \<and> packed_minor w = minor"
    using packed_new_parts [of major minor w] packed_parts [of w] packed_bounds [of w] by auto
  have p: "packed_new a b \<noteq> Panic" for a b by (simp add: packed_new_def Let_def)
  then show "packed_new major minor \<noteq> Panic" "packed_from_str s \<noteq> Panic"
    by (auto simp: packed_from_str_def Let_def split: option.splits)
qed

end
