(* ===== verification/Sequence_Buffer.thy ===== *)
theory Sequence_Buffer
  imports Masq_Prelude "HOL-Library.Multiset"
begin

unbundle bit_operations_syntax

section \<open>Sequenced packets and the reordering buffer\<close>

text \<open>
  \<open>node/src/sub_lib/sequence_buffer.rs\<close>, with \<open>index_of\<close> of \<open>masq_lib/src/utils.rs\<close>. Packets
  arrive in any order and leave in the order of their sequence numbers. The standard library's
  \<open>BinaryHeap\<close> is used through \<open>push\<close>, \<open>peek\<close>, \<open>pop\<close> and \<open>len\<close> only; it is modelled by the list of its
  elements in the order in which \<open>pop\<close> returns them, and the locale \<open>min_heap\<close> holds what the
  buffer relies on. Log messages are left out.
\<close>

record sequenced_packet =
  pkt_data :: bytes
  sequence_number :: u64
  last_data :: bool

definition sequenced_packet_new :: "bytes \<Rightarrow> u64 \<Rightarrow> bool \<Rightarrow> sequenced_packet" where
  "sequenced_packet_new d n l = \<lparr>pkt_data = d, sequence_number = n, last_data = l\<rparr>"

text \<open>\<open>TransmitDataMsg\<close> of \<open>node/src/sub_lib/stream_handler_pool.rs\<close>.\<close>

record 'e transmit_data_msg =
  tdm_endpoint :: 'e
  tdm_last_data :: bool
  tdm_sequence_number_opt :: "u64 option"
  tdm_data :: bytes

definition packet_from_tdm :: "'e transmit_data_msg \<Rightarrow> sequenced_packet" where
  "packet_from_tdm tdm = sequenced_packet_new (tdm_data tdm)
     (case tdm_sequence_number_opt tdm of None \<Rightarrow> 0 | Some n \<Rightarrow> n) (tdm_last_data tdm)"

subsection \<open>Encoding\<close>

datatype packet_error = Not_A_Bool u8 | U64_From nat | U64_To nat

function u64_to_loop :: "nat \<Rightarrow> u64 \<Rightarrow> bytes \<Rightarrow> bytes" where
  "u64_to_loop idx remaining buf =
     (if idx < 8
      then u64_to_loop (idx + 1) (drop_bit 8 remaining) (buf[7 - idx := ucast (remaining AND 0xFF)])
      else buf)"
  by pat_completeness auto
termination
  by (relation "measure (\<lambda>(idx, _). 8 - idx)") auto

declare u64_to_loop.simps [simp del]

definition u64_to :: "u64 \<Rightarrow> bytes \<Rightarrow> (bytes, packet_error) res" where
  "u64_to n buf = (if length buf \<noteq> 8 then Err (U64_To (length buf)) else Ok (u64_to_loop 0 n buf))"

definition u64_from :: "bytes \<Rightarrow> (u64, packet_error) res" where
  "u64_from bs =
     (if length bs \<noteq> 8 then Err (U64_From (length bs))
      else Ok (foldl (\<lambda>result byte. push_bit 8 result + ucast byte) 0 bs))"

definition packet_serialize :: "sequenced_packet \<Rightarrow> (bytes, packet_error) res" where
  "packet_serialize p =
     (let buf = replicate (length (pkt_data p) + 9) 0;
          buf = buf[0 := if last_data p then 1 else 0]
      in and_then (u64_to (sequence_number p) (take 8 (drop 1 buf)))
           (\<lambda>num. let buf = take 1 buf @ num @ drop 9 buf in Ok (take 9 buf @ pkt_data p)))"

text \<open>Indexing \<open>v[0]\<close> and slicing \<open>v[1..9]\<close> and \<open>v[9..]\<close> panic on a slice that is too short.\<close>

definition visit_bytes :: "bytes \<Rightarrow> (sequenced_packet, packet_error) res" where
  "visit_bytes v =
     (if v = [] then Panic
      else and_then (if v ! 0 = 0 then Ok False else if v ! 0 = 1 then Ok True else Err (Not_A_Bool (v ! 0)))
        (\<lambda>last. if length v < 9 then Panic
           else and_then (u64_from (take 8 (drop 1 v)))
             (\<lambda>n. Ok (sequenced_packet_new (drop 9 v) n last))))"

subsection \<open>The buffer\<close>

definition heap_push :: "sequenced_packet \<Rightarrow> sequenced_packet list \<Rightarrow> sequenced_packet list" where
  "heap_push p h = insort_key sequence_number p h"

fun heap_peek :: "sequenced_packet list \<Rightarrow> sequenced_packet option" where
  "heap_peek [] = None"
| "heap_peek (p # h) = Some p"

fun heap_pop :: "sequenced_packet list \<Rightarrow> sequenced_packet option \<times> sequenced_packet list" where
  "heap_pop [] = (None, [])"
| "heap_pop (p # h) = (Some p, h)"

definition max_sequence_reorder_window :: u64 where
  "max_sequence_reorder_window = 4096"

record sequence_buffer =
  sb_buffer :: "sequenced_packet list"
  next_expected_sequence_number :: u64
  sequence_space_exhausted :: bool
  seen_sequence_numbers :: "u64 list"

definition sb_new :: sequence_buffer where
  "sb_new = \<lparr>sb_buffer = [], next_expected_sequence_number = 0, sequence_space_exhausted = False,
             seen_sequence_numbers = []\<rparr>"

definition sb_push :: "sequence_buffer \<Rightarrow> sequenced_packet \<Rightarrow> sequence_buffer" where
  "sb_push b packet =
     (if sequence_space_exhausted b then b
      else if sequence_number packet < next_expected_sequence_number b
           \<or> sequence_number packet \<in> set (seen_sequence_numbers b) then b
      else (let sequence_gap = sequence_number packet - next_expected_sequence_number b in
        if sequence_gap \<ge> max_sequence_reorder_window then b
        else b\<lparr>seen_sequence_numbers := seen_sequence_numbers b @ [sequence_number packet],
               sb_buffer := heap_push packet (sb_buffer b)\<rparr>))"

definition matches_at :: "'a list \<Rightarrow> 'a list \<Rightarrow> nat \<Rightarrow> bool" where
  "matches_at haystack needles h =
     list_all (\<lambda>n. h + n < length haystack \<and> haystack ! (h + n) = needles ! n) [0..<length needles]"

definition index_of :: "'a list \<Rightarrow> 'a list \<Rightarrow> nat option" where
  "index_of haystack needles =
     (if needles = [] then None else find (matches_at haystack needles) [0..<length haystack])"

definition sb_poll :: "sequence_buffer \<Rightarrow> sequenced_packet option \<times> sequence_buffer" where
  "sb_poll b =
     (case heap_peek (sb_buffer b) of
        None \<Rightarrow> (None, b)
      | Some first \<Rightarrow>
          (let sequence_number_to_pop = sequence_number first in
           if sequence_number_to_pop = next_expected_sequence_number b then
             (let (packet, heap) = heap_pop (sb_buffer b);
                  b = b\<lparr>sb_buffer := heap\<rparr>;
                  b = (case checked_add (next_expected_sequence_number b) 1 of
                         Some next \<Rightarrow> b\<lparr>next_expected_sequence_number := next\<rparr>
                       | None \<Rightarrow> b\<lparr>sequence_space_exhausted := True\<rparr>);
                  b = (case index_of (seen_sequence_numbers b) [sequence_number_to_pop] of
                         Some index \<Rightarrow> b\<lparr>seen_sequence_numbers := remove_nth index (seen_sequence_numbers b)\<rparr>
                       | None \<Rightarrow> b)
              in (packet, b))
           else (None, b)))"

text \<open>\<open>None\<close> is the panic on an improper use.\<close>

definition sb_repush :: "sequence_buffer \<Rightarrow> sequenced_packet \<Rightarrow> sequence_buffer option" where
  "sb_repush b packet =
     (let follows_last_poll =
            (if sequence_space_exhausted b then sequence_number packet = - 1
             else checked_sub (next_expected_sequence_number b) 1 = Some (sequence_number packet))
      in if \<not> follows_last_poll then None
         else Some (b\<lparr>sequence_space_exhausted := False,
                     next_expected_sequence_number := sequence_number packet,
                     seen_sequence_numbers := seen_sequence_numbers b @ [sequence_number packet],
                     sb_buffer := heap_push packet (sb_buffer b)\<rparr>))"

definition sb_next_expected :: "sequence_buffer \<Rightarrow> u64" where
  "sb_next_expected b = next_expected_sequence_number b"

definition sb_len :: "sequence_buffer \<Rightarrow> nat" where
  "sb_len b = length (sb_buffer b)"

definition sb_is_empty :: "sequence_buffer \<Rightarrow> bool" where
  "sb_is_empty b \<longleftrightarrow> sb_len b = 0"

subsection \<open>Encoding round trip\<close>

lemma u64_to_loop_eq:
  assumes "length buf = 8"
  shows "u64_to_loop 0 n buf = map (\<lambda>i. ucast (drop_bit (8 * (7 - i)) n)) [0..<8]"
proof -
  obtain a b c d e f g h where buf: "buf = [a, b, c, d, e, f, g, h]"
    using assms by (auto simp: eval_nat_numeral length_Suc_conv)
  have byte: "(ucast (x AND 0xFF :: u64) :: u8) = ucast x" for x
    by (rule bit_eqI) (auto simp: bit_simps bit_numeral_rec(1,2) nth_Cons' split: nat.splits dest: bit_imp_le_length)
  have "u64_to_loop 0 n buf = [ucast (drop_bit 56 n), ucast (drop_bit 48 n), ucast (drop_bit 40 n),
      ucast (drop_bit 32 n), ucast (drop_bit 24 n), ucast (drop_bit 16 n), ucast (drop_bit 8 n), ucast n]"
    unfolding buf by (simp add: u64_to_loop.simps byte drop_bit_drop_bit)
  then show ?thesis
    by (simp add: upt_rec)
qed

lemma ucast_u8_u64: "(ucast (ucast x :: u8) :: u64) = take_bit 8 x"
  by (rule bit_eqI) (auto simp: bit_simps)

lemma u64_from_to:
  assumes "length buf = 8"
  shows "u64_from (u64_to_loop 0 n buf) = Ok n"
proof -
  have step: "push_bit 8 (drop_bit (m + 8) n) + ucast (ucast (drop_bit m n) :: u8) = drop_bit m n" for m
    using bits_ident [of 8 "drop_bit m n"] by (simp add: ucast_u8_u64 drop_bit_drop_bit add.commute)
  have "k \<le> 8 \<Longrightarrow> foldl (\<lambda>result byte. push_bit 8 result + ucast byte) 0
      (map (\<lambda>i. ucast (drop_bit (8 * (7 - i)) n) :: u8) [0..<k]) = drop_bit (64 - 8 * k) n" for k
  proof (induction k)
    case 0
    show ?case by (rule bit_eqI) (auto simp: bit_simps dest: bit_imp_le_length)
  next
    case (Suc k)
    then have "64 - 8 * k = 8 * (7 - k) + 8" "64 - 8 * Suc k = 8 * (7 - k)" by auto
    with Suc step [of "8 * (7 - k)"] show ?case by simp
  qed
  from this [of 8] show ?thesis
    by (simp add: u64_from_def u64_to_loop_eq [OF assms])
qed

lemma u64_to_loop_length [simp]: "length buf = 8 \<Longrightarrow> length (u64_to_loop 0 n buf) = 8"
  by (simp add: u64_to_loop_eq)

lemma packet_serialize_eq:
  "packet_serialize p = Ok ((if last_data p then 1 else 0) # u64_to_loop 0 (sequence_number p) (replicate 8 0)
     @ pkt_data p)"
proof -
  have buf: "(replicate (length (pkt_data p) + 9) 0 :: bytes)[0 := x] = x # replicate (length (pkt_data p) + 8) 0" for x
    by (simp add: eval_nat_numeral)
  show ?thesis
    by (simp add: packet_serialize_def Let_def buf u64_to_def)
qed

text \<open>The decoder on every input: what it accepts, the one error it reports, and when it panics.\<close>

lemma visit_bytes_cases:
  "visit_bytes v =
    (case v of [] \<Rightarrow> Panic
     | b # rest \<Rightarrow> if 1 < b then Err (Not_A_Bool b)
         else if length rest < 8 then Panic
         else Ok \<lparr>pkt_data = drop 8 rest,
                  sequence_number = foldl (\<lambda>result byte. push_bit 8 result + ucast byte) 0 (take 8 rest),
                  last_data = (b = 1)\<rparr>)"
proof (cases v)
  case (Cons b rest)
  have "1 < b \<longleftrightarrow> b \<noteq> 0 \<and> b \<noteq> 1"
    by (auto simp: word_less_nat_alt word_unat_eq_iff)
  then show ?thesis
    by (auto simp: Cons visit_bytes_def u64_from_def sequenced_packet_new_def)
qed (simp add: visit_bytes_def)

text \<open>
  C37. Sequenced packets survive the wire: serialization always succeeds, decoding the result
  gives the packet back, and the encoding is one flag byte, eight big-endian bytes of the
  sequence number and the data.
\<close>

theorem packet_encoding_round_trip:
  "\<exists>v. packet_serialize p = Ok v \<and> visit_bytes v = Ok p \<and> length v = length (pkt_data p) + 9"
proof -
  have "\<not> (1 :: u8) < 0" "\<not> (1 :: u8) < 1" by simp_all
  then show ?thesis
    using u64_from_to [of "replicate 8 0" "sequence_number p"]
    by (cases p) (auto simp: packet_serialize_eq visit_bytes_cases u64_from_def)
qed

text \<open>
  When decoding panics: exactly on an empty input and on an input of fewer than nine bytes
  whose first byte is a valid flag. The length check inside \<open>u64_from\<close> is never reached with a
  wrong length, so a short input is a panic and not an error value.
\<close>

lemma visit_bytes_panics_iff:
  "visit_bytes v = Panic \<longleftrightarrow> v = [] \<or> (length v < 9 \<and> hd v \<le> 1)"
  by (auto simp: visit_bytes_cases not_less split: list.splits)

subsection \<open>The heap as an interface\<close>

locale min_heap =
  fixes key :: "'p \<Rightarrow> 'k::linorder"
    and push :: "'p \<Rightarrow> 'h \<Rightarrow> 'h"
    and peek :: "'h \<Rightarrow> 'p option"
    and pop :: "'h \<Rightarrow> 'p option \<times> 'h"
    and elems :: "'h \<Rightarrow> 'p multiset"
    and ok :: "'h \<Rightarrow> bool"
  assumes push_law: "ok h \<Longrightarrow> ok (push p h) \<and> elems (push p h) = add_mset p (elems h)"
    and peek_empty: "ok h \<Longrightarrow> peek h = None \<longleftrightarrow> elems h = {#}"
    and peek_min: "ok h \<Longrightarrow> peek h = Some p \<Longrightarrow> p \<in># elems h \<and> (\<forall>q \<in># elems h. key p \<le> key q)"
    and pop_law: "ok h \<Longrightarrow> peek h = Some p \<Longrightarrow> \<exists>h'. pop h = (Some p, h') \<and> ok h' \<and> elems h = add_mset p (elems h')"
begin

text \<open>An element whose key is a lower bound of all keys and belongs to no other element is on top.\<close>

lemma peek_unique:
  assumes "ok h" and "p \<in># elems h" and "\<And>q. q \<in># elems h \<Longrightarrow> key p \<le> key q"
    and "\<And>q. q \<in># elems h \<Longrightarrow> key q = key p \<Longrightarrow> q = p"
  shows "peek h = Some p"
proof (cases "peek h")
  case None
  then show ?thesis using peek_empty [OF assms(1)] assms(2) by auto
next
  case (Some q)
  then show ?thesis using peek_min [OF assms(1) Some] assms(2-4) by (metis antisym)
qed

end

interpretation ph: min_heap sequence_number heap_push heap_peek heap_pop mset "\<lambda>h. sorted (map sequence_number h)"
proof
  fix h :: "sequenced_packet list" and p
  assume "sorted (map sequence_number h)"
  then show "sorted (map sequence_number (heap_push p h)) \<and> mset (heap_push p h) = add_mset p (mset h)"
    by (simp add: heap_push_def sorted_insort_key)
next
  fix h :: "sequenced_packet list" and p
  assume "sorted (map sequence_number h)" "heap_peek h = Some p"
  then show "p \<in># mset h \<and> (\<forall>q \<in># mset h. sequence_number p \<le> sequence_number q)"
    and "\<exists>h'. heap_pop h = (Some p, h') \<and> sorted (map sequence_number h') \<and> mset h = add_mset p (mset h')"
    by (cases h; auto)+
next
  fix h :: "sequenced_packet list"
  show "heap_peek h = None \<longleftrightarrow> mset h = {#}"
    by (cases h) auto
qed

subsection \<open>Searching and removing\<close>

lemma find_map: "find P (map f xs) = map_option f (find (P \<circ> f) xs)"
  by (induction xs) auto

lemma matches_at_single: "matches_at xs [x] h \<longleftrightarrow> h < length xs \<and> xs ! h = x"
  by (simp add: matches_at_def)

lemma index_of_Cons:
  "index_of (y # ys) [x] = (if y = x then Some 0 else map_option Suc (index_of ys [x]))"
proof -
  have "[0..<Suc (length ys)] = 0 # map Suc [0..<length ys]"
    by (simp add: upt_conv_Cons map_Suc_upt del: upt_Suc)
  moreover have "matches_at (y # ys) [x] \<circ> Suc = matches_at ys [x]"
    by (auto simp: matches_at_single fun_eq_iff)
  ultimately show ?thesis
    by (simp add: index_of_def find_map matches_at_single [of _ _ 0] del: upt_Suc)
qed

lemma index_of_single: "case index_of xs [x] of None \<Rightarrow> x \<notin> set xs | Some i \<Rightarrow> remove_nth i xs = remove1 x xs"
proof (induction xs)
  case Nil
  show ?case by (simp add: index_of_def)
next
  case (Cons y ys)
  then show ?case
    by (auto simp: index_of_Cons remove_nth_def split: option.splits)
qed

subsection \<open>Invariant\<close>

definition sb_inv :: "sequence_buffer \<Rightarrow> bool" where
  "sb_inv b \<longleftrightarrow>
     sorted (map sequence_number (sb_buffer b)) \<and> distinct (map sequence_number (sb_buffer b)) \<and>
     distinct (seen_sequence_numbers b) \<and>
     set (seen_sequence_numbers b) = sequence_number ` set (sb_buffer b) \<and>
     list_all (\<lambda>p. next_expected_sequence_number b \<le> sequence_number p) (sb_buffer b) \<and>
     (sequence_space_exhausted b \<longrightarrow> sb_buffer b = [] \<and> next_expected_sequence_number b = - 1)"

lemma sb_inv_new: "sb_inv sb_new"
  by (simp add: sb_inv_def sb_new_def)

lemma heap_push_set [simp]: "set (heap_push p h) = insert p (set h)"
  by (simp add: heap_push_def set_insort_key)

lemma heap_push_distinct:
  "distinct (map sequence_number (heap_push p h)) \<longleftrightarrow>
     distinct (map sequence_number h) \<and> sequence_number p \<notin> sequence_number ` set h"
proof -
  have "mset (map sequence_number (heap_push p h)) = add_mset (sequence_number p) (mset (map sequence_number h))"
    by (simp add: heap_push_def)
  then have "distinct (map sequence_number (heap_push p h)) = distinct (sequence_number p # map sequence_number h)"
    by (metis mset.simps(2) mset_eq_imp_distinct_iff)
  then show ?thesis by auto
qed

lemma sb_push_inv: "sb_inv b \<Longrightarrow> sb_inv (sb_push b p)"
  by (auto simp: sb_inv_def sb_push_def Let_def ph.push_law heap_push_distinct list_all_iff not_less)

lemma max_u64_iff: "w = - 1 \<longleftrightarrow> unat w = 2 ^ 64 - 1" for w :: u64
  by (simp add: word_unat_eq_iff unsigned_minus_1_eq_mask mask_eq_exp_minus_1)

lemma checked_add_one: "checked_add w 1 = (if w = - 1 then None else Some (w + 1))" for w :: u64
  using unsigned_less [of w, where 'a = nat] by (auto simp: checked_add_def max_u64_iff)

text \<open>What \<open>poll\<close> does to a buffer that satisfies the invariant.\<close>

lemma sb_poll_deliver:
  assumes inv: "sb_inv b" and b: "sb_buffer b = p # h" and n: "sequence_number p = next_expected_sequence_number b"
  shows "sb_poll b = (Some p, \<lparr>sb_buffer = h,
      next_expected_sequence_number = (if sequence_number p = - 1 then - 1 else sequence_number p + 1),
      sequence_space_exhausted = (sequence_number p = - 1),
      seen_sequence_numbers = remove1 (sequence_number p) (seen_sequence_numbers b)\<rparr>)"
proof -
  have ex: "\<not> sequence_space_exhausted b" and seen: "sequence_number p \<in> set (seen_sequence_numbers b)"
    using inv b by (auto simp: sb_inv_def)
  from seen obtain i where i: "index_of (seen_sequence_numbers b) [sequence_number p] = Some i"
      "remove_nth i (seen_sequence_numbers b) = remove1 (sequence_number p) (seen_sequence_numbers b)"
    using index_of_single [where xs = "seen_sequence_numbers b" and x = "sequence_number p"] by (auto split: option.splits)
  show ?thesis
    using b n ex i checked_add_one [of "sequence_number p"] by (cases b) (auto simp: sb_poll_def Let_def)
qed

lemma sb_poll_wait:
  assumes "\<And>p h. sb_buffer b = p # h \<Longrightarrow> sequence_number p \<noteq> next_expected_sequence_number b"
  shows "sb_poll b = (None, b)"
  using assms by (cases "sb_buffer b") (auto simp: sb_poll_def Let_def)

lemma sb_poll_cases [case_names wait deliver]:
  assumes "sb_inv b"
  obtains "sb_poll b = (None, b)"
  | p h where "sb_buffer b = p # h" "sequence_number p = next_expected_sequence_number b"
      "sb_poll b = (Some p, \<lparr>sb_buffer = h,
        next_expected_sequence_number = (if sequence_number p = - 1 then - 1 else sequence_number p + 1),
        sequence_space_exhausted = (sequence_number p = - 1),
        seen_sequence_numbers = remove1 (sequence_number p) (seen_sequence_numbers b)\<rparr>)"
  using sb_poll_wait [of b] sb_poll_deliver [OF assms] by metis

lemma unat_Suc_u64: "w \<noteq> - 1 \<Longrightarrow> unat (w + 1) = Suc (unat w)" for w :: u64
  using checked_add_one [of w] by (simp add: checked_add_eq_Some)

lemma after_head:
  assumes "sb_inv b" and "sb_buffer b = p # h" and "q \<in> set h"
  shows "sequence_number p < sequence_number q"
proof -
  have "sequence_number p \<le> sequence_number q" "sequence_number p \<noteq> sequence_number q"
    using assms by (auto simp: sb_inv_def)
  then show ?thesis by simp
qed

lemma sb_poll_inv:
  assumes inv: "sb_inv b"
  shows "sb_inv (snd (sb_poll b))"
  using inv
proof (cases rule: sb_poll_cases)
  case wait
  with inv show ?thesis by simp
next
  case (deliver p h)
  have lt: "sequence_number p < sequence_number q" if "q \<in> set h" for q
    using after_head [OF inv deliver(1) that] .
  have "h = []" if "sequence_number p = - 1"
    using lt that by (cases h) (auto simp: word_order.extremum_strict)
  moreover have "sequence_number p + 1 \<le> sequence_number q" if "q \<in> set h" "sequence_number p \<noteq> - 1" for q
    using lt [OF that(1)] unat_Suc_u64 [OF that(2)] by (simp add: word_le_nat_alt word_less_nat_alt)
  ultimately show ?thesis
    using inv deliver by (auto simp: sb_inv_def list_all_iff)
qed

lemma sb_repush_eq_Some:
  "sb_repush b p = Some b' \<longleftrightarrow>
    (if sequence_space_exhausted b then sequence_number p = - 1
     else unat (next_expected_sequence_number b) = Suc (unat (sequence_number p))) \<and>
    b' = b\<lparr>sequence_space_exhausted := False, next_expected_sequence_number := sequence_number p,
           seen_sequence_numbers := seen_sequence_numbers b @ [sequence_number p],
           sb_buffer := heap_push p (sb_buffer b)\<rparr>"
  by (auto simp: sb_repush_def Let_def checked_sub_eq_Some)

lemma sb_repush_inv:
  assumes inv: "sb_inv b" and r: "sb_repush b p = Some b'"
  shows "sb_inv b'"
proof -
  have lt: "sequence_number p < sequence_number q" if "q \<in> set (sb_buffer b)" for q
    using inv r that
    by (auto simp: sb_repush_eq_Some sb_inv_def list_all_iff word_less_nat_alt word_le_nat_alt split: if_splits)
  then have "sequence_number p \<notin> sequence_number ` set (sb_buffer b)"
    by (metis imageE less_irrefl)
  with lt show ?thesis
    using inv r unfolding sb_repush_eq_Some
    by (auto simp: sb_inv_def list_all_iff heap_push_distinct ph.push_law intro: less_imp_le)
qed

subsection \<open>Reachable buffers\<close>

inductive sb_step :: "sequence_buffer \<Rightarrow> sequence_buffer \<Rightarrow> bool" where
  push: "sb_step b (sb_push b p)"
| poll: "sb_step b (snd (sb_poll b))"
| repush: "sb_repush b p = Some b' \<Longrightarrow> sb_step b b'"

inductive_cases sb_step_cases: "sb_step b b'"

lemma sb_step_inv: "sb_step b b' \<Longrightarrow> sb_inv b \<Longrightarrow> sb_inv b'"
  by (auto elim!: sb_step_cases intro: sb_push_inv sb_poll_inv sb_repush_inv)

lemma sb_reachable_inv: "sb_step\<^sup>*\<^sup>* b b' \<Longrightarrow> sb_inv b \<Longrightarrow> sb_inv b'"
  by (induction rule: rtranclp_induct) (auto intro: sb_step_inv)

text \<open>
  C24. Invariant of the reordering buffer, for every interleaving of \<open>push\<close>, \<open>poll\<close> and \<open>repush\<close>
  from a new buffer: the buffered packets have distinct sequence numbers, none below the next
  expected one; the list of seen numbers is exactly the buffered numbers, each once, so it has
  the length of the buffer and does not grow with the stream; an exhausted sequence space means
  an empty buffer.
\<close>

theorem sequence_buffer_invariant:
  assumes "sb_step\<^sup>*\<^sup>* sb_new b"
  shows "distinct (map sequence_number (sb_buffer b)) \<and>
    mset (seen_sequence_numbers b) = mset (map sequence_number (sb_buffer b)) \<and>
    length (seen_sequence_numbers b) = sb_len b \<and>
    list_all (\<lambda>p. sb_next_expected b \<le> sequence_number p) (sb_buffer b) \<and>
    (sequence_space_exhausted b \<longrightarrow> sb_is_empty b)"
proof -
  have inv: "sb_inv b"
    using sb_reachable_inv [OF assms sb_inv_new] .
  then have "mset (seen_sequence_numbers b) = mset (map sequence_number (sb_buffer b))"
    by (metis list.set_map sb_inv_def set_eq_iff_mset_eq_distinct)
  moreover from this have "length (seen_sequence_numbers b) = sb_len b"
    by (metis length_map sb_len_def size_mset)
  ultimately show ?thesis
    using inv by (simp add: sb_inv_def sb_next_expected_def sb_is_empty_def sb_len_def)
qed

theorem sequence_buffer_invariant_witness:
  "let b = sb_push (sb_push sb_new (sequenced_packet_new [1] 2 False)) (sequenced_packet_new [2] 0 True) in
   distinct (map sequence_number (sb_buffer b)) \<and>
    mset (seen_sequence_numbers b) = mset (map sequence_number (sb_buffer b)) \<and>
    length (seen_sequence_numbers b) = sb_len b \<and> sb_len b = 2"
proof -
  let ?b1 = "sb_push sb_new (sequenced_packet_new [1] 2 False)"
  let ?b2 = "sb_push ?b1 (sequenced_packet_new [2] 0 True)"
  have "sb_step\<^sup>*\<^sup>* sb_new ?b2"
    by (rule rtranclp.rtrancl_into_rtrancl [OF rtranclp.rtrancl_into_rtrancl [OF rtranclp.rtrancl_refl]])
      (rule sb_step.push)+
  moreover have "sb_len ?b2 = 2"
    by code_simp
  ultimately show ?thesis
    using sequence_buffer_invariant [of ?b2] by (simp add: Let_def)
qed

subsection \<open>Runs of pushes and polls\<close>

datatype sb_op = Push sequenced_packet | Poll

fun sb_run :: "sequence_buffer \<Rightarrow> sb_op list \<Rightarrow> sequenced_packet list \<times> sequence_buffer" where
  "sb_run b [] = ([], b)"
| "sb_run b (Push p # ops) = sb_run (sb_push b p) ops"
| "sb_run b (Poll # ops) =
     (let (r, b') = sb_poll b; (out, b'') = sb_run b' ops
      in (case r of None \<Rightarrow> out | Some p \<Rightarrow> p # out, b''))"

definition sb_position :: "sequence_buffer \<Rightarrow> nat" where
  "sb_position b = (if sequence_space_exhausted b then 2 ^ 64 else unat (next_expected_sequence_number b))"

definition sb_window :: "sequence_buffer \<Rightarrow> bool" where
  "sb_window b \<longleftrightarrow>
     list_all (\<lambda>p. unat (sequence_number p) < unat (next_expected_sequence_number b) + 4096) (sb_buffer b)"

lemma unat_diff_u64: "(b :: u64) \<le> a \<Longrightarrow> unat a = unat (a - b) + unat b"
  using checked_sub_eq_Some [of a b "a - b"] by (simp add: checked_sub_def)

lemma sb_push_effect:
  "sb_push b p = b \<or>
   (\<not> sequence_space_exhausted b \<and> unat (sequence_number p) < unat (next_expected_sequence_number b) + 4096 \<and>
    sb_push b p = b\<lparr>seen_sequence_numbers := seen_sequence_numbers b @ [sequence_number p],
                    sb_buffer := heap_push p (sb_buffer b)\<rparr>)"
proof -
  have "unat (sequence_number p) < unat (next_expected_sequence_number b) + 4096"
    if "\<not> sequence_number p < next_expected_sequence_number b"
      "\<not> 4096 \<le> sequence_number p - next_expected_sequence_number b"
    using that unat_diff_u64 [of "next_expected_sequence_number b" "sequence_number p"]
    by (simp add: not_less not_le word_less_nat_alt word_le_nat_alt)
  then show ?thesis
    by (auto simp: sb_push_def Let_def max_sequence_reorder_window_def)
qed

lemma sb_push_window: "sb_window b \<Longrightarrow> sb_window (sb_push b p)"
  using sb_push_effect [of b p] by (auto simp: sb_window_def list_all_iff)

lemma sb_push_position: "sb_position (sb_push b p) = sb_position b"
  using sb_push_effect [of b p] by (auto simp: sb_position_def)

lemma sb_push_set: "set (sb_buffer (sb_push b p)) \<subseteq> insert p (set (sb_buffer b))"
  using sb_push_effect [of b p] by auto

lemma sb_poll_step:
  assumes inv: "sb_inv b" and w: "sb_window b"
  shows "sb_window (snd (sb_poll b)) \<and>
    (case fst (sb_poll b) of
       None \<Rightarrow> snd (sb_poll b) = b
     | Some p \<Rightarrow> p \<in> set (sb_buffer b) \<and> unat (sequence_number p) = sb_position b \<and>
         sb_position (snd (sb_poll b)) = Suc (sb_position b) \<and>
         set (sb_buffer (snd (sb_poll b))) \<subseteq> set (sb_buffer b))"
  using inv
proof (cases rule: sb_poll_cases)
  case wait
  with w show ?thesis by simp
next
  case (deliver p h)
  have ex: "\<not> sequence_space_exhausted b"
    using inv deliver(1) by (auto simp: sb_inv_def)
  have "sequence_number p = - 1 \<Longrightarrow> Suc (unat (sequence_number p)) = 2 ^ 64"
    by (simp add: max_u64_iff)
  then show ?thesis
    using deliver w ex unat_Suc_u64 [of "sequence_number p"]
    by (auto simp: sb_window_def sb_position_def list_all_iff)
qed

lemma sb_run_in_order:
  assumes "sb_inv b" and "sb_window b" and "sb_run b ops = (out, b')"
  shows "sb_inv b' \<and> sb_window b' \<and> map (unat \<circ> sequence_number) out = [sb_position b..<sb_position b'] \<and>
    sb_position b \<le> sb_position b' \<and> set out \<subseteq> set (sb_buffer b) \<union> {p. Push p \<in> set ops}"
  using assms
proof (induction b ops arbitrary: out rule: sb_run.induct)
  case (1 b)
  then show ?case by simp
next
  case (2 b p ops)
  then have "sb_run (sb_push b p) ops = (out, b')" by simp
  from "2.IH" [OF sb_push_inv sb_push_window this] "2.prems" show ?case
    using sb_push_set [of b p] by (auto simp: sb_push_position)
next
  case (3 b ops)
  obtain r b1 where p: "sb_poll b = (r, b1)" by force
  obtain out1 where o: "sb_run b1 ops = (out1, b')" "out = (case r of None \<Rightarrow> out1 | Some p \<Rightarrow> p # out1)"
    using "3.prems"(3) p by (auto simp: Let_def split: prod.splits)
  have b1: "sb_inv b1" "sb_window b1"
    using sb_poll_inv [OF "3.prems"(1)] sb_poll_step [OF "3.prems"(1,2)] p by auto
  note IH = "3.IH" [OF p [symmetric] refl b1 o(1)]
  show ?case
    using IH o(2) sb_poll_step [OF "3.prems"(1,2)] p
    by (cases r) (auto simp: upt_rec [of "sb_position b"])
qed

lemma sb_window_len:
  assumes "sb_inv b" and "sb_window b"
  shows "sb_len b \<le> 4096"
proof -
  let ?n = "unat (next_expected_sequence_number b)"
  have "sb_len b = card ((unat \<circ> sequence_number) ` set (sb_buffer b))"
    using assms(1) by (simp add: sb_len_def sb_inv_def distinct_map card_image comp_inj_on_iff
        distinct_card inj_on_def flip: word_unat_eq_iff)
  also have "\<dots> \<le> card {?n..<?n + 4096}"
    using assms by (intro card_mono) (auto simp: sb_inv_def sb_window_def list_all_iff word_le_nat_alt)
  finally show ?thesis by simp
qed

text \<open>
  C9. In-order, gap-free, exactly-once delivery: whatever packets are pushed in whatever order,
  with polls anywhere between, the polled packets carry the sequence numbers 0, 1, 2, ... without
  gap or repetition up to the next expected one, every delivered packet is one that was pushed,
  and the buffer never holds more than 4096 packets.
\<close>

theorem in_order_delivery:
  "case sb_run sb_new ops of (out, b) \<Rightarrow>
     map (unat \<circ> sequence_number) out = [0..<length out] \<and>
     set out \<subseteq> {p. Push p \<in> set ops} \<and>
     length out = (if sequence_space_exhausted b then 2 ^ 64 else unat (sb_next_expected b)) \<and>
     sb_len b \<le> 4096"
proof -
  obtain out b where r: "sb_run sb_new ops = (out, b)" by force
  have "sb_window sb_new" "sb_position sb_new = 0" "sb_buffer sb_new = []"
    by (simp_all add: sb_window_def sb_new_def sb_position_def)
  with sb_run_in_order [OF sb_inv_new _ r] have
    run: "sb_inv b" "sb_window b" "map (unat \<circ> sequence_number) out = [0..<sb_position b]"
      "set out \<subseteq> {p. Push p \<in> set ops}"
    by auto
  have "length out = sb_position b"
    using arg_cong [OF run(3), of length] by simp
  with run sb_window_len [OF run(1,2)] r show ?thesis
    by (simp add: sb_position_def sb_next_expected_def)
qed

subsection \<open>A complete window is delivered\<close>

lemma sb_push_accept:
  assumes "\<not> sequence_space_exhausted b" and "next_expected_sequence_number b \<le> sequence_number p"
    and "unat (sequence_number p) < unat (next_expected_sequence_number b) + 4096"
    and "sequence_number p \<notin> set (seen_sequence_numbers b)"
  shows "sb_push b p = b\<lparr>seen_sequence_numbers := seen_sequence_numbers b @ [sequence_number p],
      sb_buffer := heap_push p (sb_buffer b)\<rparr>"
  using assms unat_diff_u64 [OF assms(2)]
  by (simp add: sb_push_def Let_def max_sequence_reorder_window_def word_le_nat_alt word_less_nat_alt
      not_less not_le)

lemma sb_run_append:
  "sb_run b (ops1 @ ops2) = (let (out1, b1) = sb_run b ops1; (out2, b2) = sb_run b1 ops2 in (out1 @ out2, b2))"
  by (induction b ops1 rule: sb_run.induct) (auto simp: Let_def split: prod.splits option.splits)

lemma sb_run_pushes:
  assumes "sb_inv b" and "\<not> sequence_space_exhausted b"
    and "list_all (\<lambda>p. next_expected_sequence_number b \<le> sequence_number p \<and>
      unat (sequence_number p) < unat (next_expected_sequence_number b) + 4096) ps"
    and "distinct (map sequence_number (sb_buffer b) @ map sequence_number ps)"
  shows "\<exists>b'. sb_run b (map Push ps) = ([], b') \<and> sb_inv b' \<and> \<not> sequence_space_exhausted b' \<and>
    next_expected_sequence_number b' = next_expected_sequence_number b \<and>
    mset (sb_buffer b') = mset (sb_buffer b) + mset ps"
  using assms
proof (induction ps arbitrary: b)
  case Nil
  then show ?case by simp
next
  case (Cons p ps)
  let ?b = "sb_push b p"
  have "sequence_number p \<notin> set (seen_sequence_numbers b)"
    using Cons.prems(1,4) by (auto simp: sb_inv_def)
  then have b: "?b = b\<lparr>seen_sequence_numbers := seen_sequence_numbers b @ [sequence_number p],
      sb_buffer := heap_push p (sb_buffer b)\<rparr>"
    using Cons.prems by (intro sb_push_accept) simp_all
  have "mset (map sequence_number (sb_buffer ?b) @ map sequence_number ps) =
      mset (map sequence_number (sb_buffer b) @ map sequence_number (p # ps))"
    by (simp add: b heap_push_def)
  then have "distinct (map sequence_number (sb_buffer ?b) @ map sequence_number ps)"
    using Cons.prems(4) mset_eq_imp_distinct_iff by blast
  from Cons.IH [OF sb_push_inv [OF Cons.prems(1)] _ _ this] Cons.prems show ?case
    by (auto simp: b heap_push_def)
qed

lemma sb_run_polls:
  assumes "sb_inv b"
    and "map (unat \<circ> sequence_number) (sb_buffer b) =
      [unat (next_expected_sequence_number b)..<unat (next_expected_sequence_number b) + length (sb_buffer b)]"
  shows "\<exists>b'. sb_run b (replicate (length (sb_buffer b)) Poll) = (sb_buffer b, b') \<and> sb_is_empty b'"
  using assms
proof (induction "sb_buffer b" arbitrary: b)
  case Nil
  then show ?case by (simp add: sb_is_empty_def sb_len_def flip: Nil.hyps)
next
  case (Cons p h)
  note b = Cons.hyps(2) [symmetric]
  have seqs: "unat (sequence_number p) = unat (next_expected_sequence_number b)"
      "map (unat \<circ> sequence_number) h = [Suc (unat (sequence_number p))..<Suc (unat (sequence_number p)) + length h]"
    using Cons.prems(2) by (auto simp: b upt_conv_Cons simp del: upt_Suc)
  then have n: "sequence_number p = next_expected_sequence_number b"
    by (simp add: word_unat_eq_iff)
  let ?b = "snd (sb_poll b)"
  note d = sb_poll_deliver [OF Cons.prems(1) b n]
  have "h = [] \<or> sequence_number p \<noteq> - 1"
    using after_head [OF Cons.prems(1) b, of "hd h"] by (cases h) (auto simp: word_order.extremum_strict)
  then have "map (unat \<circ> sequence_number) (sb_buffer ?b) =
      [unat (next_expected_sequence_number ?b)..<unat (next_expected_sequence_number ?b) + length (sb_buffer ?b)]"
    using seqs(2) unat_Suc_u64 by (auto simp: d)
  from Cons.hyps(1) [OF _ sb_poll_inv [OF Cons.prems(1)] this] obtain b'
    where "sb_run ?b (replicate (length h) Poll) = (h, b')" "sb_is_empty b'"
    by (auto simp: d)
  then show ?case
    by (simp add: b d Let_def)
qed

text \<open>
  C23. Liveness of reordering: when a buffer with nothing waiting receives, in any order, the
  packets of the next \<open>n\<close> sequence numbers, \<open>n\<close> at most the window of 4096, then the next \<open>n\<close> polls
  return exactly these packets in order of sequence number, and nothing is left.
\<close>

theorem complete_window_is_delivered:
  assumes "sb_inv b" and "sb_is_empty b" and "\<not> sequence_space_exhausted b" and "n \<le> 4096"
    and "mset (map (unat \<circ> sequence_number) ps) =
      mset [unat (sb_next_expected b)..<unat (sb_next_expected b) + n]"
  shows "\<exists>out b'. sb_run b (map Push ps @ replicate n Poll) = (out, b') \<and> mset out = mset ps \<and>
    map (unat \<circ> sequence_number) out = [unat (sb_next_expected b)..<unat (sb_next_expected b) + n] \<and>
    sb_is_empty b'"
proof -
  let ?m = "unat (next_expected_sequence_number b)"
  have seqs: "mset (map (unat \<circ> sequence_number) ps) = mset [?m..<?m + n]"
    using assms(5) by (simp add: sb_next_expected_def)
  have empty: "sb_buffer b = []"
    using assms(2) by (simp add: sb_is_empty_def sb_len_def)
  have "set (map (unat \<circ> sequence_number) ps) = {?m..<?m + n}"
    using arg_cong [OF seqs, of set_mset] by simp
  then have "unat (sequence_number p) \<in> {?m..<?m + n}" if "p \<in> set ps" for p
    using that by (metis comp_apply image_eqI list.set_map)
  then have range: "list_all (\<lambda>p. next_expected_sequence_number b \<le> sequence_number p \<and>
      unat (sequence_number p) < ?m + 4096) ps"
    using assms(4) by (fastforce simp: list_all_iff word_le_nat_alt)
  have "distinct (map (unat \<circ> sequence_number) ps)"
    using seqs mset_eq_imp_distinct_iff [OF seqs] by simp
  then have "distinct (map sequence_number ps)"
    by (auto simp: distinct_map inj_on_def)
  with sb_run_pushes [OF assms(1,3) range] obtain b1
    where b1: "sb_run b (map Push ps) = ([], b1)" "sb_inv b1"
      "next_expected_sequence_number b1 = next_expected_sequence_number b" "mset (sb_buffer b1) = mset ps"
    by (auto simp: empty)
  have "mset (map (unat \<circ> sequence_number) (sb_buffer b1)) = mset [?m..<?m + n]"
    using b1(4) seqs by (simp add: mset_map)
  moreover have "sorted (map (unat \<circ> sequence_number) (sb_buffer b1))"
    using b1(2) by (simp add: sb_inv_def sorted_map word_le_nat_alt)
  ultimately have order: "map (unat \<circ> sequence_number) (sb_buffer b1) = [?m..<?m + n]"
    by (metis properties_for_sort sorted_sort_id sorted_upt)
  have "length (sb_buffer b1) = n"
    using arg_cong [OF order, of length] by simp
  with sb_run_polls [OF b1(2)] order b1 show ?thesis
    by (fastforce simp: sb_run_append sb_next_expected_def)
qed

theorem complete_window_is_delivered_witness:
  "\<exists>out b'. sb_run sb_new
      (map Push [sequenced_packet_new [7] 2 True, sequenced_packet_new [5] 0 False, sequenced_packet_new [6] 1 False]
       @ replicate 3 Poll) = (out, b') \<and>
    map (unat \<circ> sequence_number) out = [0, 1, 2] \<and> sb_is_empty b'"
proof -
  have "sb_is_empty sb_new" "\<not> sequence_space_exhausted sb_new" "unat (sb_next_expected sb_new) = 0"
    by code_simp+
  then show ?thesis
    using complete_window_is_delivered [OF sb_inv_new, of 3
        "[sequenced_packet_new [7] 2 True, sequenced_packet_new [5] 0 False, sequenced_packet_new [6] 1 False]"]
    by (auto simp: sequenced_packet_new_def upt_rec simp del: sb_run.simps)
qed

text \<open>
  \<open>repush\<close> undoes \<open>poll\<close>: after a poll that delivered a packet, putting that packet back never
  panics and restores the buffer, the next expected number and the exhaustion flag; the next poll
  delivers the same packet again.
\<close>

theorem repush_undoes_poll:
  assumes "sb_inv b" and "sb_poll b = (Some p, b1)"
  shows "\<exists>b2. sb_repush b1 p = Some b2 \<and> sb_buffer b2 = sb_buffer b \<and>
    sb_next_expected b2 = sb_next_expected b \<and>
    sequence_space_exhausted b2 = sequence_space_exhausted b \<and> fst (sb_poll b2) = Some p"
  using assms(1)
proof (cases rule: sb_poll_cases)
  case wait
  with assms(2) show ?thesis by simp
next
  case (deliver q h)
  have q: "q = p" and b1: "b1 = \<lparr>sb_buffer = h,
      next_expected_sequence_number = (if sequence_number p = - 1 then - 1 else sequence_number p + 1),
      sequence_space_exhausted = (sequence_number p = - 1),
      seen_sequence_numbers = remove1 (sequence_number p) (seen_sequence_numbers b)\<rparr>"
    using deliver(3) assms(2) by auto
  have ex: "\<not> sequence_space_exhausted b"
    using assms(1) deliver(1) by (auto simp: sb_inv_def)
  have inv1: "sb_inv b1"
    using sb_poll_inv [OF assms(1)] assms(2) by simp
  have heap: "heap_push p h = p # h"
    using assms(1) deliver(1) q by (cases h) (auto simp: heap_push_def sb_inv_def)
  obtain b2 where b2: "sb_repush b1 p = Some b2"
    using unat_Suc_u64 [of "sequence_number p"] by (auto simp: b1 sb_repush_eq_Some)
  then have eq: "sb_buffer b2 = p # h" "next_expected_sequence_number b2 = sequence_number p"
      "\<not> sequence_space_exhausted b2"
    unfolding sb_repush_eq_Some by (simp_all add: b1 heap)
  have "fst (sb_poll b2) = Some p"
    using sb_poll_deliver [OF sb_repush_inv [OF inv1 b2] eq(1) eq(2) [symmetric]] by simp
  moreover have "sb_buffer b = p # h" "next_expected_sequence_number b = sequence_number p"
    using deliver(1,2) by (simp_all add: q)
  ultimately show ?thesis
    using b2 eq ex by (intro exI [of _ b2]) (simp add: sb_next_expected_def)
qed

theorem repush_undoes_poll_witness:
  "\<exists>b2. sb_repush (snd (sb_poll (sb_push sb_new (sequenced_packet_new [1] 0 False)))) (sequenced_packet_new [1] 0 False)
      = Some b2 \<and> fst (sb_poll b2) = Some (sequenced_packet_new [1] 0 False)"
proof -
  let ?p = "sequenced_packet_new [1] 0 False" and ?b = "sb_push sb_new (sequenced_packet_new [1] 0 False)"
  have "fst (sb_poll ?b) = Some ?p"
    by (simp add: sb_poll_def sb_push_def sb_new_def sequenced_packet_new_def heap_push_def Let_def
        max_sequence_reorder_window_def)
  then have "sb_poll ?b = (Some ?p, snd (sb_poll ?b))"
    by (simp add: prod_eq_iff)
  from repush_undoes_poll [OF sb_push_inv [OF sb_inv_new] this] show ?thesis
    by blast
qed

end
