(* ===== verification/Cores_Package.thy ===== *)
theory Cores_Package
  imports Onion_Route Packed_Version Sequence_Buffer Receipt_Session Country_Blocks
begin

section \<open>Packages of the hopper\<close>

text \<open>
  \<open>node/src/sub_lib/hopper.rs\<close>, \<open>node/src/hopper/live_cores_package.rs\<close> and
  \<open>node/src/hopper/consuming_service.rs\<close>, with the messages of \<open>sub_lib/dispatcher.rs\<close>,
  \<open>sub_lib/stream_handler_pool.rs\<close>, \<open>sub_lib/accountant.rs\<close>, the addresses of \<open>sub_lib/node_addr.rs\<close> and
  the payloads of \<open>sub_lib/proxy_server.rs\<close>, \<open>sub_lib/proxy_client.rs\<close>, \<open>sub_lib/neighborhood.rs\<close> and
  \<open>neighborhood/gossip.rs\<close>. A component wraps a message for a remote node into a package with a
  route; the package lives while it hops from node to node and expires where its message is read.
  The actors that receive messages are alive, so a send always succeeds; what a call sends is the
  list of its effects. The CBOR codecs are parameters.
\<close>

subsection \<open>Addresses and messages\<close>

type_synonym socket_addr = "ip_addr \<times> u16"

record node_addr =
  na_ip_addr :: ip_addr
  na_ports :: "u16 list"

definition node_addr_new :: "ip_addr \<Rightarrow> u16 list \<Rightarrow> node_addr" where
  "node_addr_new ip ports = \<lparr>na_ip_addr = ip, na_ports = remdups_adj (sort ports)\<rparr>"

definition node_addr_clone :: "node_addr \<Rightarrow> node_addr" where
  "node_addr_clone a = node_addr_new (na_ip_addr a) (na_ports a)"

definition socket_addrs :: "node_addr \<Rightarrow> socket_addr list" where
  "socket_addrs a = map (\<lambda>port. (na_ip_addr a, port)) (na_ports a)"

datatype endpoint = EndpointKey public_key | EndpointSocket socket_addr

record transmit_data_msg =
  td_endpoint :: endpoint
  td_last_data :: bool
  td_sequence_number_opt :: "u64 option"
  td_data :: bytes

text \<open>A \<open>SystemTime\<close> is the number of whole seconds since the Unix epoch, negative before it.\<close>

record inbound_client_data =
  ib_timestamp :: int
  ib_client_addr :: socket_addr
  ib_reception_port_opt :: "u16 option"
  ib_last_data :: bool
  ib_is_clandestine :: bool
  ib_sequence_number_opt :: "u64 option"
  ib_data :: bytes

definition clone_but_data :: "int \<Rightarrow> inbound_client_data \<Rightarrow> inbound_client_data" where
  "clone_but_data now ibcd = ibcd\<lparr>ib_timestamp := now, ib_data := []\<rparr>"

record report_routing_service_provided_message =
  rrs_timestamp :: int
  rrs_paying_wallet :: wallet_kind
  rrs_payload_size :: nat
  rrs_service_rate :: u64
  rrs_byte_rate :: u64

subsection \<open>Payloads\<close>

datatype proxy_protocol = ProtocolHTTP | ProtocolTLS

record client_request_payload =
  crq_stream_key :: stream_key
  crq_sequenced_packet :: sequenced_packet
  crq_target_hostname :: string
  crq_target_port :: u16
  crq_protocol :: proxy_protocol
  crq_originator_public_key :: public_key
  crq_dns_attempt_id_opt :: "u64 option"
  crq_receipt_session_request_opt :: "receipt_session_request option"

record client_response_payload =
  crs_stream_key :: stream_key
  crs_sequenced_packet :: sequenced_packet

record service_receipt_offer_payload =
  sop_signed_receipt :: signed_service_receipt

record metered_client_response_payload =
  mcr_response :: client_response_payload
  mcr_receipt_offer :: service_receipt_offer_payload

record dns_resolve_failure =
  drf_stream_key :: stream_key
  drf_dns_attempt_id_opt :: "u64 option"

datatype gossip_failure = NoNeighbors | NoSuitableNeighbors | ManualRejection | UnknownFailure

record gossip_node_record =
  gnr_signed_data :: plain_data
  gnr_signature :: crypt_data
  gnr_node_addr_opt :: "node_addr option"

record gossip =
  gossip_node_records :: "gossip_node_record list"

datatype message_type =
    ClientRequest versioned_data
  | ClientResponse versioned_data
  | Gossip versioned_data
  | GossipFailure versioned_data
  | DnsResolveFailed versioned_data
  | ServiceReceipt versioned_data
  | ServiceReceiptOffer versioned_data
  | MeteredClientResponse versioned_data

subsection \<open>Packages\<close>

record no_lookup_incipient_cores_package =
  nl_public_key :: public_key
  nl_node_addr :: node_addr
  nl_payload :: crypt_data

record incipient_cores_package =
  ic_route :: route
  ic_payload :: crypt_data
  ic_routing_receipt_offers :: "crypt_data list"

record live_cores_package =
  lcp_version :: packed_version
  lcp_route :: route
  lcp_payload :: crypt_data
  lcp_routing_receipt_offers :: "crypt_data list"

text \<open>The remaining route still has the hop on top that brought the package here.\<close>

record 't expired_cores_package =
  ex_immediate_neighbor :: socket_addr
  ex_paying_wallet :: "wallet_kind option"
  ex_remaining_route :: route
  ex_payload :: 't
  ex_payload_len :: nat
  ex_routing_receipt_offers :: "crypt_data list"

record cores_env = hop_env +
  ce_to_vec_package :: "live_cores_package \<Rightarrow> (bytes, string) res"
  ce_from_slice_package :: "bytes \<Rightarrow> (live_cores_package, string) res"
  ce_to_vec_message :: "message_type \<Rightarrow> (bytes, string) res"
  ce_from_slice_message :: "bytes \<Rightarrow> (message_type, string) res"
  ce_debug :: "codec_error \<Rightarrow> string"

definition no_lookup_incipient_new ::
    "'m cores_env_scheme \<Rightarrow> crypt_de \<Rightarrow> public_key \<Rightarrow> node_addr \<Rightarrow> message_type \<Rightarrow>
     (no_lookup_incipient_cores_package, string) res" where
  "no_lookup_incipient_new env cryptde key addr payload =
     and_then (map_err (\<lambda>e. ''Could not encrypt payload: '' @ ce_debug env e)
         (encodex (ce_to_vec_message env) cryptde key payload)) (\<lambda>encrypted_payload.
       Ok \<lparr>nl_public_key = key, nl_node_addr = node_addr_clone addr, nl_payload = encrypted_payload\<rparr>)"

definition incipient_new ::
    "'m cores_env_scheme \<Rightarrow> crypt_de \<Rightarrow> route \<Rightarrow> message_type \<Rightarrow> public_key \<Rightarrow> (incipient_cores_package, string) res" where
  "incipient_new env cryptde r payload payload_destination_key =
     and_then (map_err (\<lambda>e. ''Could not encrypt payload: '' @ ce_debug env e)
         (encodex (ce_to_vec_message env) cryptde payload_destination_key payload)) (\<lambda>encrypted_payload.
       Ok \<lparr>ic_route = r, ic_payload = encrypted_payload, ic_routing_receipt_offers = []\<rparr>)"

definition incipient_with_offers :: "incipient_cores_package \<Rightarrow> crypt_data list \<Rightarrow> incipient_cores_package" where
  "incipient_with_offers p offers = p\<lparr>ic_routing_receipt_offers := offers\<rparr>"

text \<open>\<open>LiveCoresPackage::version\<close>; its \<open>expect\<close> never fires.\<close>

definition live_package_version :: packed_version where
  "live_package_version = PackedVersion 0 0 0"

lemma live_package_version_new: "packed_new 0 0 = Ok live_package_version"
  by (simp add: packed_new_def live_package_version_def)

definition live_cores_package_new :: "route \<Rightarrow> crypt_data \<Rightarrow> live_cores_package" where
  "live_cores_package_new r payload =
     \<lparr>lcp_version = live_package_version, lcp_route = r, lcp_payload = payload, lcp_routing_receipt_offers = []\<rparr>"

definition live_with_offers :: "live_cores_package \<Rightarrow> crypt_data list \<Rightarrow> live_cores_package" where
  "live_with_offers p offers = p\<lparr>lcp_routing_receipt_offers := offers\<rparr>"

definition into_next_live ::
    "'m hop_env_scheme \<Rightarrow> (bytes \<Rightarrow> bytes) \<Rightarrow> crypt_de \<Rightarrow> live_cores_package \<Rightarrow> (live_hop \<times> live_cores_package, codec_error) res" where
  "into_next_live env random cryptde p =
     (case route_shift env random cryptde (lcp_route p) of
        (Ok next, r) \<Rightarrow>
          Ok (next, live_with_offers (live_cores_package_new r (lcp_payload p)) (lcp_routing_receipt_offers p))
      | (Err e, r) \<Rightarrow> Err e
      | (Panic, r) \<Rightarrow> Panic)"

definition from_no_lookup_incipient ::
    "'m cores_env_scheme \<Rightarrow> (bytes \<Rightarrow> bytes) \<Rightarrow> no_lookup_incipient_cores_package \<Rightarrow> crypt_de \<Rightarrow>
     (live_cores_package \<times> public_key, string) res" where
  "from_no_lookup_incipient env random p cryptde =
     and_then (map_err (ce_debug env) (single_hop env (nl_public_key p) cryptde)) (\<lambda>r.
       case route_shift env random cryptde r of
         (Ok _, r') \<Rightarrow> Ok (live_cores_package_new r' (nl_payload p), nl_public_key p)
       | _ \<Rightarrow> Panic)"

definition from_incipient ::
    "'m cores_env_scheme \<Rightarrow> (bytes \<Rightarrow> bytes) \<Rightarrow> incipient_cores_package \<Rightarrow> crypt_de \<Rightarrow>
     (live_cores_package \<times> live_hop, string) res" where
  "from_incipient env random p cryptde =
     (case route_shift env random cryptde (ic_route p) of
        (Ok next, r) \<Rightarrow>
          Ok (live_with_offers (live_cores_package_new r (ic_payload p)) (ic_routing_receipt_offers p), next)
      | (Err e, r) \<Rightarrow> Err (''Could not decrypt next hop: '' @ ce_debug env e)
      | (Panic, r) \<Rightarrow> Panic)"

definition to_expired ::
    "'m cores_env_scheme \<Rightarrow> live_cores_package \<Rightarrow> socket_addr \<Rightarrow> crypt_de \<Rightarrow> crypt_de \<Rightarrow>
     (message_type expired_cores_package, codec_error) res" where
  "to_expired env p immediate_neighbor_addr main_cryptde payload_cryptde =
     and_then (next_hop env (lcp_route p) main_cryptde) (\<lambda>top_hop.
     and_then (decodex (ce_from_slice_message env) payload_cryptde (lcp_payload p)) (\<lambda>decoded_payload.
       Ok \<lparr>ex_immediate_neighbor = immediate_neighbor_addr, ex_paying_wallet = map_option payer_wallet (hop_payer top_hop),
           ex_remaining_route = lcp_route p, ex_payload = decoded_payload, ex_payload_len = length (lcp_payload p),
           ex_routing_receipt_offers = lcp_routing_receipt_offers p\<rparr>))"

subsection \<open>Effects\<close>

datatype hopper_effect =
    ToDispatcher transmit_data_msg
  | ToHopper inbound_client_data
  | ToAccountant report_routing_service_provided_message
  | ToProxyClient "client_request_payload expired_cores_package"
  | ToProxyServer "client_response_payload expired_cores_package"
  | ToProxyServerMetered "metered_client_response_payload expired_cores_package"
  | ToProxyServerDnsFailure "dns_resolve_failure expired_cores_package"
  | ToProxyServerOffer "service_receipt_offer_payload expired_cores_package"
  | ToNeighborhood "gossip expired_cores_package"
  | ToNeighborhoodFailure "gossip_failure expired_cores_package"

subsection \<open>The consuming service\<close>

definition launch_lcp :: "crypt_data \<Rightarrow> endpoint \<Rightarrow> hopper_effect" where
  "launch_lcp encrypted_package next_stop =
     ToDispatcher \<lparr>td_endpoint = next_stop, td_last_data = False, td_sequence_number_opt = None, td_data = encrypted_package\<rparr>"

definition zero_hop :: "int \<Rightarrow> crypt_data \<Rightarrow> hopper_effect" where
  "zero_hop now encrypted_package =
     ToHopper \<lparr>ib_timestamp = now, ib_client_addr = (IpV4 0x7F000001, 0), ib_reception_port_opt = None,
       ib_last_data = False, ib_is_clandestine = True, ib_sequence_number_opt = None, ib_data = encrypted_package\<rparr>"

text \<open>An error is logged and nothing is sent. A node without ports makes \<open>socket_addrs[0]\<close> panic.\<close>

definition consume_no_lookup ::
    "'m cores_env_scheme \<Rightarrow> (bytes \<Rightarrow> bytes) \<Rightarrow> crypt_de \<Rightarrow> no_lookup_incipient_cores_package \<Rightarrow> (hopper_effect list, unit) res" where
  "consume_no_lookup env random cryptde p =
     (case from_no_lookup_incipient env random p cryptde of
        Ok (live_package, _) \<Rightarrow>
          (case encodex (ce_to_vec_package env) cryptde (nl_public_key p) live_package of
             Ok encrypted_package \<Rightarrow>
               (case socket_addrs (node_addr_clone (nl_node_addr p)) of
                  first # _ \<Rightarrow> Ok [launch_lcp encrypted_package (EndpointSocket first)]
                | [] \<Rightarrow> Panic)
           | Err _ \<Rightarrow> Ok []
           | Panic \<Rightarrow> Panic)
      | Err _ \<Rightarrow> Ok []
      | Panic \<Rightarrow> Panic)"

definition consume ::
    "'m cores_env_scheme \<Rightarrow> (bytes \<Rightarrow> bytes) \<Rightarrow> int \<Rightarrow> crypt_de \<Rightarrow> incipient_cores_package \<Rightarrow> (hopper_effect list, unit) res" where
  "consume env random now cryptde p =
     (case from_incipient env random p cryptde of
        Ok (live_package, next) \<Rightarrow>
          (case encodex (ce_to_vec_package env) cryptde (hop_public_key next) live_package of
             Ok encrypted_package \<Rightarrow>
               if hop_public_key next = cde_public_key cryptde then Ok [zero_hop now encrypted_package]
               else Ok [launch_lcp encrypted_package (EndpointKey (hop_public_key next))]
           | Err _ \<Rightarrow> Ok []
           | Panic \<Rightarrow> Panic)
      | Err _ \<Rightarrow> Ok []
      | Panic \<Rightarrow> Panic)"

end
