(* ===== verification/Big_Int_Divider.thy ===== *)
theory Big_Int_Divider
  imports Masq_Prelude
begin

unbundle bit_operations_syntax

section \<open>Big integers in the database\<close>

text \<open>
  \<open>node/src/accountant/db_big_integer/big_int_divider.rs\<close>: SQLite has 64-bit integers only, so a
  balance of 128 bits is stored as two columns, a signed upper part and a non-negative lower part
  of 63 bits. An \<open>i128\<close> or \<open>i64\<close> is an \<open>int\<close> within its range; \<open>as i64\<close> keeps the lower 64 bits.
\<close>

definition as_i64 :: "int \<Rightarrow> int" where
  "as_i64 n = signed_take_bit 63 n"

definition deconstruct_range_check :: "int \<Rightarrow> (unit, 'e) res" where
  "deconstruct_range_check num =
     (let top_two_bits = drop_bit 126 num AND 3 in
      if top_two_bits = 1 then Panic else if top_two_bits = 2 then Panic else Ok ())"

definition deconstruct_high_bytes :: "int \<Rightarrow> (int, 'e) res" where
  "deconstruct_high_bytes num = and_then (deconstruct_range_check num) (\<lambda>_. Ok (as_i64 (drop_bit 63 num)))"

definition deconstruct_low_bytes :: "int \<Rightarrow> int" where
  "deconstruct_low_bytes num = as_i64 (num AND 0x7FFFFFFFFFFFFFFF)"

definition deconstruct :: "int \<Rightarrow> (int \<times> int, 'e) res" where
  "deconstruct num = and_then (deconstruct_high_bytes num) (\<lambda>high. Ok (high, deconstruct_low_bytes num))"

definition reconstitute :: "int \<Rightarrow> int \<Rightarrow> (int, 'e) res" where
  "reconstitute high_bytes low_bytes =
     (if low_bytes < 0 then Panic else Ok (push_bit 63 high_bytes OR low_bytes))"

text \<open>
  The arguments of the SQL functions \<open>slope_drop_high_bytes\<close> and \<open>slope_drop_low_bytes\<close>: a debt
  limit in gwei that falls along a slope; the texts name the refused argument.
\<close>

datatype slope_error = NonnegativeSlope int | NegativeTimeParameter int

definition slope_drop :: "int \<Rightarrow> int \<Rightarrow> int \<Rightarrow> (int, slope_error) res" where
  "slope_drop start_point_to_decrease_from_gwei slope time_parameter =
     (if slope < 0 \<and> time_parameter > 0
      then Ok (start_point_to_decrease_from_gwei * 1000000000 + slope * time_parameter)
      else if \<not> slope < 0 then Err (NonnegativeSlope slope) else Err (NegativeTimeParameter time_parameter))"

subsection \<open>Properties\<close>

lemma as_i64_id: "- (2 ^ 63) \<le> n \<Longrightarrow> n < 2 ^ 63 \<Longrightarrow> as_i64 n = n"
  by (simp add: as_i64_def signed_take_bit_int_eq_self)

lemma low_bytes_eq: "deconstruct_low_bytes num = num mod 2 ^ 63"
proof -
  have "(0x7FFFFFFFFFFFFFFF :: int) = mask 63"
    by (simp add: mask_eq_exp_minus_1)
  then have "num AND 0x7FFFFFFFFFFFFFFF = num mod 2 ^ 63"
    by (simp only: take_bit_eq_mask [symmetric] take_bit_eq_mod)
  then show ?thesis
    unfolding deconstruct_low_bytes_def using pos_mod_bound [of "2 ^ 63" num] pos_mod_sign [of "2 ^ 63" num]
    by (simp add: as_i64_id)
qed

lemma range_check_eq:
  assumes "- (2 ^ 127) \<le> num" "num < 2 ^ 127"
  shows "deconstruct_range_check num = (if - (2 ^ 126) \<le> num \<and> num < 2 ^ 126 then Ok () else Panic)"
proof -
  have "(3 :: int) = mask 2" by (simp add: mask_eq_exp_minus_1)
  then have t: "drop_bit 126 num AND 3 = (num div 2 ^ 126) mod 4"
    by (simp only: take_bit_eq_mask [symmetric] take_bit_eq_mod drop_bit_eq_div) simp
  consider "num div 2 ^ 126 = -2" "num < - (2 ^ 126)" | "num div 2 ^ 126 = -1" "- (2 ^ 126) \<le> num" "num < 0"
    | "num div 2 ^ 126 = 0" "0 \<le> num" "num < 2 ^ 126" | "num div 2 ^ 126 = 1" "2 ^ 126 \<le> num"
    using assms by (simp add: div_pos_pos_trivial) linarith
  then show ?thesis
    by cases (simp_all add: deconstruct_range_check_def t)
qed

lemma deconstruct_eq:
  assumes "- (2 ^ 126) \<le> num" "num < 2 ^ 126"
  shows "deconstruct num = Ok (num div 2 ^ 63, num mod 2 ^ 63)"
proof -
  have "deconstruct_range_check num = (Ok () :: (unit, 'a) res)"
    using assms by (subst range_check_eq) auto
  moreover have "as_i64 (drop_bit 63 num) = num div 2 ^ 63"
    using assms by (subst as_i64_id) (auto simp: drop_bit_eq_div)
  ultimately show ?thesis
    by (simp add: deconstruct_def deconstruct_high_bytes_def low_bytes_eq)
qed

lemma less_by_div_mod:
  fixes n m b :: int
  assumes "0 < b"
  shows "n < m \<longleftrightarrow> n div b < m div b \<or> n div b = m div b \<and> n mod b < m mod b"
proof (cases rule: linorder_cases [of "n div b" "m div b"])
  case less
  then show ?thesis using zdiv_mono1 [of m n b] assms by linarith
next
  case equal
  moreover have "n = n div b * b + n mod b" "m = n div b * b + m mod b"
    by (simp, metis equal div_mult_mod_eq)
  ultimately show ?thesis by linarith
next
  case greater
  then show ?thesis using zdiv_mono1 [of n m b] assms by linarith
qed

lemma reconstitute_eq:
  assumes "0 \<le> low" "low < 2 ^ 63"
  shows "reconstitute high low = Ok (high * 2 ^ 63 + low)"
proof -
  have "take_bit 63 low = low"
    using assms by (simp add: take_bit_int_eq_self)
  then have "\<not> bit low n" if "n \<ge> 63" for n
    using that by (metis bit_take_bit_iff linorder_not_le)
  then have "push_bit 63 high OR low = push_bit 63 high + low"
    by (intro disjunctive_add_eq_or [symmetric]) (auto simp: bit_eq_iff bit_simps not_le [symmetric])
  then show ?thesis
    using assms(1) by (simp add: reconstitute_def push_bit_eq_mult)
qed

text \<open>
  C32. A balance is split and put together without loss: for every \<open>i128\<close>, splitting panics
  exactly when the number is outside the 127 signed bits the two columns can hold, and otherwise
  gives two 64-bit numbers, the second of them not negative, from which reading gives the number
  back. Sorting rows by the two columns in turn, as the SQL queries do, sorts them by balance.
\<close>

theorem big_int_split_faithful:
  assumes "- (2 ^ 127) \<le> n" "n < 2 ^ 127"
  shows "if - (2 ^ 126) \<le> n \<and> n < 2 ^ 126
    then (\<exists>high low. deconstruct n = (Ok (high, low) :: (int \<times> int, unit) res) \<and>
            - (2 ^ 63) \<le> high \<and> high < 2 ^ 63 \<and> 0 \<le> low \<and> low < 2 ^ 63 \<and>
            reconstitute high low = (Ok n :: (int, unit) res) \<and>
            (\<forall>m high' low'. - (2 ^ 126) \<le> m \<and> m < 2 ^ 126 \<and> deconstruct m = (Ok (high', low') :: (int \<times> int, unit) res) \<longrightarrow>
               (n < m \<longleftrightarrow> high < high' \<or> high = high' \<and> low < low')))
    else deconstruct n = (Panic :: (int \<times> int, unit) res)"
proof (cases "- (2 ^ 126) \<le> n \<and> n < 2 ^ 126")
  case True
  have order: "n < m \<longleftrightarrow> n div 2 ^ 63 < m div 2 ^ 63 \<or> n div 2 ^ 63 = m div 2 ^ 63 \<and> n mod 2 ^ 63 < m mod 2 ^ 63" for m :: int
    by (rule less_by_div_mod) simp
  have "- (2 ^ 63) \<le> n div 2 ^ 63" "n div 2 ^ 63 < 2 ^ 63"
    using True by auto
  moreover have "reconstitute (n div 2 ^ 63) (n mod 2 ^ 63) = (Ok n :: (int, unit) res)"
    by (simp add: reconstitute_eq)
  moreover have "deconstruct m = (Ok (m div 2 ^ 63, m mod 2 ^ 63) :: (int \<times> int, unit) res)"
    if "- (2 ^ 126) \<le> m" "m < 2 ^ 126" for m
    using that by (rule deconstruct_eq)
  ultimately show ?thesis
    using True order by auto
next
  case False
  then show ?thesis
    using range_check_eq [OF assms, where 'a = unit] by (auto simp: deconstruct_def deconstruct_high_bytes_def)
qed

theorem big_int_split_faithful_witness:
  "\<exists>high low. deconstruct (- 5) = (Ok (high, low) :: (int \<times> int, unit) res) \<and>
     reconstitute high low = (Ok (- 5) :: (int, unit) res) \<and> deconstruct (2 ^ 126) = (Panic :: (int \<times> int, unit) res)"
  using big_int_split_faithful [of "- 5"] big_int_split_faithful [of "2 ^ 126"] by auto

end
