(* ===== verification/Receipt_Dao.thy ===== *)
theory Receipt_Dao
  imports Receipt_Settlement Decimal Big_Int_Divider "HOL-Library.List_Lexorder"
begin

section \<open>The provider's receipt database\<close>

text \<open>
  \<open>node/src/accountant/db_access_objects/receipt_checkpoint_dao.rs\<close> over the tables that
  \<open>node/src/database/db_initializer.rs\<close> creates. A table is the list of its rows; a \<open>select\<close> by
  primary key is \<open>find\<close>, an \<open>update\<close> is \<open>map\<close>, a \<open>delete\<close> is \<open>filter\<close>, an \<open>insert\<close> checks the unique
  keys. Blob columns are byte lists and text columns are strings, as in the schema; the wallet
  column, a hexadecimal text, is the address. A transaction that does not commit leaves the
  database as it was, also when it panics. Failures of SQLite itself are left out. The CBOR codecs
  and the debug text of a settlement error are parameters.
\<close>

subsection \<open>Data\<close>

record routing_receipt_offer_state =
  ros_authorization_nonce :: bytes32
  ros_payer_session_public_key :: public_key
  ros_expires_at_unix_s :: u64
  ros_last_signed_receipt :: signed_service_receipt

record confirmed_settlement_claim =
  csc_claim_id :: bytes32
  csc_cumulative_charge_wei :: u128

record settlement_reconciliation_candidate =
  cand_claim_id :: bytes32
  cand_cumulative_charge_wei :: u128

record settlement_chain_observation =
  obs_chain_id :: u64
  obs_settlement_contract :: address
  obs_confirmation_depth :: u64
  obs_latest_block_number :: u64
  obs_observed_block_number :: u64
  obs_observed_block_hash :: bytes32
  obs_claims :: "confirmed_settlement_claim list"

record settlement_reconciliation_outcome =
  out_archived_claim_count :: nat
  out_restored_claim_count :: nat
  out_still_pending_claim_count :: nat
  out_revalidated_archive_count :: nat
  out_unknown_claim_count :: nat

record pending_settlement_claim_record =
  pcr_receipt_payload :: service_receipt_payload
  pcr_accepted_at_unix_s :: u64

datatype receipt_checkpoint_dao_error =
    DaoAmountLimitExceeded
  | DaoAuthorizationIdentityMismatch
  | DaoAuthorizationNonceAlreadyUsed
  | DaoBalanceOverflow
  | DaoCheckpointIdentityMismatch
  | DaoDatabase string
  | DaoDeserialization string
  | DaoOfferStateCapacityExceeded
  | DaoOfferStateIdentityMismatch
  | DaoSettlementClaimIdentityMismatch
  | DaoSettlementConfirmationDepthReduced
  | DaoSettlementObservationIdentityMismatch
  | DaoSettlementObservationInvalid
  | DaoSettlementObservationRegressed
  | DaoSerialization string
  | DaoStaleCheckpoint
  | DaoStaleOfferState
  | DaoStoredAmountInvalid string

record dao_env =
  de_settlement_env :: settlement_env
  de_debug_error :: "receipt_settlement_error \<Rightarrow> string"
  de_to_vec_checkpoint :: "receipt_sequence_checkpoint \<Rightarrow> (bytes, string) res"
  de_from_slice_checkpoint :: "bytes \<Rightarrow> (receipt_sequence_checkpoint, string) res"
  de_to_vec_authorization :: "authorized_receipt_session \<Rightarrow> (bytes, string) res"
  de_from_slice_authorization :: "bytes \<Rightarrow> (authorized_receipt_session, string) res"
  de_to_vec_payload :: "service_receipt_payload \<Rightarrow> (bytes, string) res"
  de_from_slice_payload :: "bytes \<Rightarrow> (service_receipt_payload, string) res"
  de_to_vec_offer_state :: "routing_receipt_offer_state \<Rightarrow> (bytes, string) res"
  de_from_slice_offer_state :: "bytes \<Rightarrow> (routing_receipt_offer_state, string) res"
  de_to_vec_provider_settlement :: "authorized_provider_settlement \<Rightarrow> (bytes, string) res"
  de_from_slice_provider_settlement :: "bytes \<Rightarrow> (authorized_provider_settlement, string) res"

subsection \<open>Tables\<close>

record checkpoint_row =
  cr_route_epoch :: bytes
  cr_provider_public_key :: bytes
  cr_payer_session_public_key :: bytes
  cr_last_sequence :: string
  cr_cumulative_charge_wei :: string
  cr_checkpoint_cbor :: bytes

record authorization_row =
  ar_authorization_nonce :: bytes
  ar_expires_at_unix_s :: string
  ar_spent_charge_wei :: string
  ar_authorization_cbor :: bytes

record offer_row =
  or_authorization_nonce :: bytes
  or_route_epoch :: bytes
  or_provider_public_key :: bytes
  or_payer_session_public_key :: bytes
  or_expires_at_unix_s :: string
  or_offer_state_cbor :: bytes

record claim_row =
  cl_claim_id :: bytes
  cl_authorization_nonce :: bytes
  cl_route_epoch :: bytes
  cl_provider_public_key :: bytes
  cl_payer_session_public_key :: bytes
  cl_cumulative_charge_wei :: string
  cl_receipt_payload_cbor :: bytes
  cl_accepted_at_unix_s :: string

record archive_row =
  av_claim :: claim_row
  av_confirmed_cumulative_charge_wei :: string
  av_observed_block_number :: string
  av_observed_block_hash :: bytes

record receivable_row =
  rv_wallet_address :: address
  rv_balance_high_b :: int
  rv_balance_low_b :: int
  rv_last_received_timestamp :: int

record reconciliation_row =
  rr_chain_id :: string
  rr_settlement_contract :: bytes
  rr_confirmation_depth :: string
  rr_observed_block_number :: string
  rr_observed_block_hash :: bytes

record provider_settlement_row =
  ps_expires_at_unix_s :: string
  ps_authorization_cbor :: bytes

record receipt_db =
  db_checkpoints :: "checkpoint_row list"
  db_authorizations :: "authorization_row list"
  db_offers :: "offer_row list"
  db_outbox :: "claim_row list"
  db_archive :: "archive_row list"
  db_receivable :: "receivable_row list"
  db_reconciliation :: "reconciliation_row option"
  db_provider_settlement :: "provider_settlement_row option"

type_synonym 'a dao_result = "('a, receipt_checkpoint_dao_error) res"

definition run_transaction :: "receipt_db \<Rightarrow> ('a \<times> receipt_db) dao_result \<Rightarrow> 'a dao_result \<times> receipt_db" where
  "run_transaction db body =
     (case body of Ok (a, db') \<Rightarrow> (Ok a, db') | Err e \<Rightarrow> (Err e, db) | Panic \<Rightarrow> (Panic, db))"

definition insert_unique :: "('r \<Rightarrow> 'r \<Rightarrow> bool) \<Rightarrow> 'r \<Rightarrow> 'r list \<Rightarrow> ('r list) dao_result" where
  "insert_unique conflicts row rows =
     (if list_ex (conflicts row) rows then Err (DaoDatabase ''UNIQUE constraint failed'') else Ok (rows @ [row]))"

text \<open>The columns that name an economic route, as the tables hold them.\<close>

type_synonym route_key = "bytes \<times> bytes \<times> bytes"

definition cr_key :: "checkpoint_row \<Rightarrow> route_key" where
  "cr_key r = (cr_route_epoch r, cr_provider_public_key r, cr_payer_session_public_key r)"

definition cl_key :: "claim_row \<Rightarrow> route_key" where
  "cl_key r = (cl_route_epoch r, cl_provider_public_key r, cl_payer_session_public_key r)"

definition ck_key :: "receipt_sequence_checkpoint \<Rightarrow> route_key" where
  "ck_key c = (be_bytes 32 (ck_route_epoch c), ck_provider_public_key c, ck_payer_session_public_key c)"

definition or_key :: "offer_row \<Rightarrow> bytes \<times> bytes \<times> bytes \<times> bytes" where
  "or_key r = (or_authorization_nonce r, or_route_epoch r, or_provider_public_key r, or_payer_session_public_key r)"

definition outbox_conflicts :: "claim_row \<Rightarrow> claim_row \<Rightarrow> bool" where
  "outbox_conflicts a b \<longleftrightarrow> cl_claim_id a = cl_claim_id b \<or> cl_key a = cl_key b"

subsection \<open>Reading columns\<close>

definition fixed_32 :: "bytes \<Rightarrow> string \<Rightarrow> bytes32 dao_result" where
  "fixed_32 bs field =
     (if length bs \<noteq> 32
      then Err (DaoDeserialization (field @ '' must contain 32 bytes, received '' @ decimal (length bs)))
      else Ok (from_be_bytes bs))"

fun digits_error :: "nat \<Rightarrow> nat \<Rightarrow> string \<Rightarrow> string" where
  "digits_error w acc [] = ''''"
| "digits_error w acc (c # cs) =
     (if \<not> is_digit c then ''invalid digit found in string''
      else if acc * 10 + digit_value c \<ge> 2 ^ w then ''number too large to fit in target type''
      else digits_error w (acc * 10 + digit_value c) cs)"

text \<open>The text of Rust's \<open>ParseIntError\<close> for a string that \<open>parse_uint\<close> refuses.\<close>

definition parse_int_error :: "nat \<Rightarrow> string \<Rightarrow> string" where
  "parse_int_error w s =
     (case s of
        [] \<Rightarrow> ''cannot parse integer from empty string''
      | c # cs \<Rightarrow> if c = CHR ''+'' then (if cs = [] then ''invalid digit found in string'' else digits_error w 0 cs)
                  else digits_error w 0 s)"

definition stored_amount :: "string \<Rightarrow> ('a::len word) dao_result" where
  "stored_amount text = ok_or (DaoStoredAmountInvalid text) (parse_uint text)"

definition stored_u64 :: "string \<Rightarrow> u64 dao_result" where
  "stored_u64 text = stored_amount text"

definition stored_u128 :: "string \<Rightarrow> u128 dao_result" where
  "stored_u128 text = stored_amount text"

definition deserialize_checkpoint :: "dao_env \<Rightarrow> bytes \<Rightarrow> receipt_sequence_checkpoint dao_result" where
  "deserialize_checkpoint env serialized = map_err DaoDeserialization (de_from_slice_checkpoint env serialized)"

definition deserialize_authorization :: "dao_env \<Rightarrow> bytes \<Rightarrow> authorized_receipt_session dao_result" where
  "deserialize_authorization env serialized = map_err DaoDeserialization (de_from_slice_authorization env serialized)"

definition deserialize_routing_offer_state ::
    "dao_env \<Rightarrow> bytes \<Rightarrow> bytes \<Rightarrow> bytes \<Rightarrow> bytes \<Rightarrow> string \<Rightarrow> bytes \<Rightarrow> routing_receipt_offer_state dao_result" where
  "deserialize_routing_offer_state env nonce epoch provider session expires serialized =
     and_then (map_err DaoDeserialization (de_from_slice_offer_state env serialized)) (\<lambda>state.
       let receipt = ssr_receipt (ros_last_signed_receipt state) in
       and_then (ok_or (DaoStoredAmountInvalid (parse_int_error 64 expires)) (parse_uint expires :: u64 option)) (\<lambda>stored_expiry.
         if be_bytes 32 (ros_authorization_nonce state) \<noteq> nonce
            \<or> be_bytes 32 (sr_route_epoch receipt) \<noteq> epoch
            \<or> sr_provider_public_key receipt \<noteq> provider
            \<or> ros_payer_session_public_key state \<noteq> session
            \<or> ros_expires_at_unix_s state \<noteq> stored_expiry
            \<or> sr_service_kind receipt \<noteq> Routing
         then Err DaoOfferStateIdentityMismatch else Ok state))"

definition deserialize_settlement_claim ::
    "dao_env \<Rightarrow> bytes \<Rightarrow> bytes \<Rightarrow> bytes \<Rightarrow> bytes \<Rightarrow> bytes \<Rightarrow> string \<Rightarrow> bytes \<Rightarrow> service_receipt_payload dao_result" where
  "deserialize_settlement_claim env claim_id nonce epoch provider session charge serialized =
     and_then (map_err DaoDeserialization (de_from_slice_payload env serialized)) (\<lambda>payload.
       let authorization = ars_policy (srp_authorization payload);
           acknowledgement = srp_acknowledged_receipt payload;
           receipt = ssr_receipt (asr_signed_receipt acknowledgement) in
       and_then (stored_u128 charge) (\<lambda>stored_charge.
         if be_bytes 32 (rsp_authorization_nonce authorization) \<noteq> nonce
            \<or> be_bytes 32 (sr_route_epoch receipt) \<noteq> epoch
            \<or> sr_provider_public_key receipt \<noteq> provider
            \<or> asr_payer_session_public_key acknowledgement \<noteq> session
            \<or> rsp_payer_session_public_key authorization \<noteq> asr_payer_session_public_key acknowledgement
            \<or> sr_cumulative_charge_wei receipt \<noteq> stored_charge
         then Err DaoSettlementClaimIdentityMismatch
         else and_then (map_err (\<lambda>e. DaoDeserialization (de_debug_error env e))
                (receipt_settlement_claim_id (de_settlement_env env) payload)) (\<lambda>computed.
           if be_bytes 32 computed \<noteq> claim_id then Err DaoSettlementClaimIdentityMismatch else Ok payload)))"

definition deserialize_claim_row :: "dao_env \<Rightarrow> claim_row \<Rightarrow> service_receipt_payload dao_result" where
  "deserialize_claim_row env row =
     deserialize_settlement_claim env (cl_claim_id row) (cl_authorization_nonce row) (cl_route_epoch row)
       (cl_provider_public_key row) (cl_payer_session_public_key row) (cl_cumulative_charge_wei row)
       (cl_receipt_payload_cbor row)"

definition validate_settlement_claim_for_checkpoint ::
    "service_receipt_payload \<Rightarrow> receipt_sequence_checkpoint \<Rightarrow> unit dao_result" where
  "validate_settlement_claim_for_checkpoint payload checkpoint =
     (let authorization = ars_policy (srp_authorization payload);
          acknowledgement = srp_acknowledged_receipt payload;
          receipt = ssr_receipt (asr_signed_receipt acknowledgement) in
      if rsp_payer_session_public_key authorization \<noteq> ck_payer_session_public_key checkpoint
         \<or> asr_payer_session_public_key acknowledgement \<noteq> ck_payer_session_public_key checkpoint
         \<or> sr_route_epoch receipt \<noteq> ck_route_epoch checkpoint
         \<or> sr_provider_public_key receipt \<noteq> ck_provider_public_key checkpoint
         \<or> sr_accounting_commitment receipt \<noteq> ck_accounting_commitment checkpoint
         \<or> sr_sequence receipt \<noteq> ck_last_sequence checkpoint
         \<or> sr_cumulative_charge_wei receipt \<noteq> ck_cumulative_charge_wei checkpoint
      then Err DaoSettlementClaimIdentityMismatch else Ok ())"

subsection \<open>Checkpoints and authorizations\<close>

definition find_checkpoint :: "receipt_db \<Rightarrow> route_key \<Rightarrow> checkpoint_row option" where
  "find_checkpoint db k = List.find (\<lambda>r. cr_key r = k) (db_checkpoints db)"

definition dao_checkpoint ::
    "dao_env \<Rightarrow> receipt_db \<Rightarrow> bytes32 \<Rightarrow> public_key \<Rightarrow> public_key \<Rightarrow> (receipt_sequence_checkpoint option) dao_result" where
  "dao_checkpoint env db route_epoch provider session =
     (case find_checkpoint db (be_bytes 32 route_epoch, provider, session) of
        None \<Rightarrow> Ok None
      | Some row \<Rightarrow> and_then (deserialize_checkpoint env (cr_checkpoint_cbor row)) (\<lambda>c. Ok (Some c)))"

definition checkpoint_row_of :: "receipt_sequence_checkpoint \<Rightarrow> bytes \<Rightarrow> checkpoint_row" where
  "checkpoint_row_of c serialized =
     \<lparr>cr_route_epoch = be_bytes 32 (ck_route_epoch c), cr_provider_public_key = ck_provider_public_key c,
      cr_payer_session_public_key = ck_payer_session_public_key c,
      cr_last_sequence = decimal (unat (ck_last_sequence c)),
      cr_cumulative_charge_wei = decimal (unat (ck_cumulative_charge_wei c)), cr_checkpoint_cbor = serialized\<rparr>"

definition update_checkpoint_row :: "receipt_sequence_checkpoint \<Rightarrow> bytes \<Rightarrow> checkpoint_row \<Rightarrow> checkpoint_row" where
  "update_checkpoint_row c serialized row =
     (if cr_key row = ck_key c
      then row\<lparr>cr_last_sequence := decimal (unat (ck_last_sequence c)),
               cr_cumulative_charge_wei := decimal (unat (ck_cumulative_charge_wei c)), cr_checkpoint_cbor := serialized\<rparr>
      else row)"

definition put_checkpoint :: "receipt_sequence_checkpoint \<Rightarrow> bytes \<Rightarrow> bool \<Rightarrow> receipt_db \<Rightarrow> receipt_db dao_result" where
  "put_checkpoint c serialized already_stored db =
     (if already_stored
      then Ok (db\<lparr>db_checkpoints := map (update_checkpoint_row c serialized) (db_checkpoints db)\<rparr>)
      else and_then (insert_unique (\<lambda>a b. cr_key a = cr_key b) (checkpoint_row_of c serialized) (db_checkpoints db))
             (\<lambda>rows. Ok (db\<lparr>db_checkpoints := rows\<rparr>)))"

definition check_successor :: "receipt_sequence_checkpoint \<Rightarrow> receipt_sequence_checkpoint \<Rightarrow> unit dao_result" where
  "check_successor existing checkpoint =
     (if ck_route_epoch checkpoint \<noteq> ck_route_epoch existing
         \<or> ck_provider_public_key checkpoint \<noteq> ck_provider_public_key existing
         \<or> ck_payer_session_public_key checkpoint \<noteq> ck_payer_session_public_key existing
         \<or> ck_accounting_commitment checkpoint \<noteq> ck_accounting_commitment existing
      then Err DaoCheckpointIdentityMismatch
      else if ck_last_sequence checkpoint \<le> ck_last_sequence existing
         \<or> ck_cumulative_charge_wei checkpoint \<le> ck_cumulative_charge_wei existing
      then Err DaoStaleCheckpoint else Ok ())"

definition save_checkpoint :: "dao_env \<Rightarrow> receipt_db \<Rightarrow> receipt_sequence_checkpoint \<Rightarrow> unit dao_result \<times> receipt_db" where
  "save_checkpoint env db checkpoint =
     run_transaction db
       (and_then (map_err DaoSerialization (de_to_vec_checkpoint env checkpoint)) (\<lambda>serialized.
          and_then (case find_checkpoint db (ck_key checkpoint) of
             Some row \<Rightarrow>
               and_then (deserialize_checkpoint env (cr_checkpoint_cbor row)) (\<lambda>existing.
                 and_then (check_successor existing checkpoint) (\<lambda>_. put_checkpoint checkpoint serialized True db))
           | None \<Rightarrow> put_checkpoint checkpoint serialized False db) (\<lambda>db'. Ok ((), db'))))"

definition find_authorization :: "receipt_db \<Rightarrow> bytes32 \<Rightarrow> authorization_row option" where
  "find_authorization db nonce = List.find (\<lambda>r. ar_authorization_nonce r = be_bytes 32 nonce) (db_authorizations db)"

definition dao_authorization :: "dao_env \<Rightarrow> receipt_db \<Rightarrow> bytes32 \<Rightarrow> (authorized_receipt_session option) dao_result" where
  "dao_authorization env db nonce =
     (case find_authorization db nonce of
        None \<Rightarrow> Ok None
      | Some row \<Rightarrow> and_then (deserialize_authorization env (ar_authorization_cbor row)) (\<lambda>a. Ok (Some a)))"

definition authorization_row_of :: "authorized_receipt_session \<Rightarrow> string \<Rightarrow> bytes \<Rightarrow> authorization_row" where
  "authorization_row_of authorization spent serialized =
     \<lparr>ar_authorization_nonce = be_bytes 32 (rsp_authorization_nonce (ars_policy authorization)),
      ar_expires_at_unix_s = decimal (unat (rsp_expires_at_unix_s (ars_policy authorization))),
      ar_spent_charge_wei = spent, ar_authorization_cbor = serialized\<rparr>"

definition save_authorization :: "dao_env \<Rightarrow> receipt_db \<Rightarrow> authorized_receipt_session \<Rightarrow> unit dao_result \<times> receipt_db" where
  "save_authorization env db authorization =
     run_transaction db
       (and_then (map_err DaoSerialization (de_to_vec_authorization env authorization)) (\<lambda>serialized.
          and_then (map_err (\<lambda>_. DaoAuthorizationNonceAlreadyUsed)
              (insert_unique (\<lambda>a b. ar_authorization_nonce a = ar_authorization_nonce b)
                 (authorization_row_of authorization ''0'' serialized) (db_authorizations db)))
            (\<lambda>rows. Ok ((), db\<lparr>db_authorizations := rows\<rparr>))))"

subsection \<open>Routing offers\<close>

definition offer_key :: "routing_receipt_offer_state \<Rightarrow> bytes \<times> bytes \<times> bytes \<times> bytes" where
  "offer_key state =
     (be_bytes 32 (ros_authorization_nonce state), be_bytes 32 (sr_route_epoch (ssr_receipt (ros_last_signed_receipt state))),
      sr_provider_public_key (ssr_receipt (ros_last_signed_receipt state)), ros_payer_session_public_key state)"

definition deserialize_offer_row :: "dao_env \<Rightarrow> offer_row \<Rightarrow> routing_receipt_offer_state dao_result" where
  "deserialize_offer_row env row =
     deserialize_routing_offer_state env (or_authorization_nonce row) (or_route_epoch row) (or_provider_public_key row)
       (or_payer_session_public_key row) (or_expires_at_unix_s row) (or_offer_state_cbor row)"

definition routing_offer_state ::
    "dao_env \<Rightarrow> receipt_db \<Rightarrow> bytes32 \<Rightarrow> bytes32 \<Rightarrow> public_key \<Rightarrow> public_key \<Rightarrow> (routing_receipt_offer_state option) dao_result" where
  "routing_offer_state env db nonce route_epoch provider session =
     (case List.find (\<lambda>r. or_key r = (be_bytes 32 nonce, be_bytes 32 route_epoch, provider, session)) (db_offers db) of
        None \<Rightarrow> Ok None
      | Some row \<Rightarrow> and_then (deserialize_offer_row env row) (\<lambda>state. Ok (Some state)))"

text \<open>
  \<open>cast(expires_at_unix_s as integer)\<close>: the digits at the start of the text, saturated at the
  largest 64-bit integer; the column holds unsigned decimals only. The other side of the comparison
  is a text without affinity and is read as a number.
\<close>

definition sql_cast_integer :: "string \<Rightarrow> nat" where
  "sql_cast_integer text = min (dec_value 0 (takeWhile is_digit text)) (2 ^ 63 - 1)"

definition prune_offers :: "u64 \<Rightarrow> offer_row list \<Rightarrow> offer_row list" where
  "prune_offers now = filter (\<lambda>r. \<not> sql_cast_integer (or_expires_at_unix_s r) < unat now)"

definition offer_state_ok :: "routing_receipt_offer_state \<Rightarrow> u64 \<Rightarrow> bool" where
  "offer_state_ok state now \<longleftrightarrow>
     (let receipt = ssr_receipt (ros_last_signed_receipt state) in
      \<not> (sr_service_kind receipt \<noteq> Routing
         \<or> ros_authorization_nonce state = 0
         \<or> ros_payer_session_public_key state = []
         \<or> sr_route_epoch receipt = 0
         \<or> sr_provider_public_key receipt = []
         \<or> ros_expires_at_unix_s state < now))"

definition check_offer_successor ::
    "routing_receipt_offer_state \<Rightarrow> routing_receipt_offer_state \<Rightarrow> unit dao_result" where
  "check_offer_successor existing state =
     (let receipt = ssr_receipt (ros_last_signed_receipt state);
          previous = ssr_receipt (ros_last_signed_receipt existing) in
      if ros_expires_at_unix_s state \<noteq> ros_expires_at_unix_s existing
         \<or> sr_accounting_commitment receipt \<noteq> sr_accounting_commitment previous
         \<or> sr_service_rate receipt \<noteq> sr_service_rate previous
         \<or> sr_byte_rate receipt \<noteq> sr_byte_rate previous
         \<or> checked_add (sr_sequence previous) 1 \<noteq> Some (sr_sequence receipt)
         \<or> sr_cumulative_charge_wei receipt \<le> sr_cumulative_charge_wei previous
      then Err DaoStaleOfferState else Ok ())"

definition save_routing_offer_state ::
    "dao_env \<Rightarrow> receipt_db \<Rightarrow> routing_receipt_offer_state \<Rightarrow> u64 \<Rightarrow> nat \<Rightarrow> unit dao_result \<times> receipt_db" where
  "save_routing_offer_state env db state now maximum_states =
     run_transaction db
       (if \<not> offer_state_ok state now then Err DaoOfferStateIdentityMismatch
        else and_then (map_err DaoSerialization (de_to_vec_offer_state env state)) (\<lambda>serialized.
          let live = prune_offers now (db_offers db) in
          case List.find (\<lambda>r. or_key r = offer_key state) live of
            Some row \<Rightarrow>
              and_then (deserialize_offer_row env row) (\<lambda>existing.
                if existing = state then Ok ((), db\<lparr>db_offers := live\<rparr>)
                else and_then (check_offer_successor existing state) (\<lambda>_.
                  let hit = (\<lambda>r. or_key r = offer_key state \<and> or_offer_state_cbor r = or_offer_state_cbor row) in
                  if length (filter hit live) \<noteq> 1
                  then Err (DaoDatabase ''routing offer state changed during replacement'')
                  else Ok ((), db\<lparr>db_offers := map (\<lambda>r. if hit r
                         then r\<lparr>or_expires_at_unix_s := decimal (unat (ros_expires_at_unix_s state)),
                                or_offer_state_cbor := serialized\<rparr> else r) live\<rparr>)))
          | None \<Rightarrow>
              if sr_sequence (ssr_receipt (ros_last_signed_receipt state)) \<noteq> 1 then Err DaoStaleOfferState
              else if length live \<ge> maximum_states then Err DaoOfferStateCapacityExceeded
              else and_then (insert_unique (\<lambda>a b. or_key a = or_key b)
                     \<lparr>or_authorization_nonce = be_bytes 32 (ros_authorization_nonce state),
                      or_route_epoch = be_bytes 32 (sr_route_epoch (ssr_receipt (ros_last_signed_receipt state))),
                      or_provider_public_key = sr_provider_public_key (ssr_receipt (ros_last_signed_receipt state)),
                      or_payer_session_public_key = ros_payer_session_public_key state,
                      or_expires_at_unix_s = decimal (unat (ros_expires_at_unix_s state)),
                      or_offer_state_cbor = serialized\<rparr> live)
                   (\<lambda>rows. Ok ((), db\<lparr>db_offers := rows\<rparr>))))"

subsection \<open>Accepting a receipt\<close>

text \<open>
  A \<open>SystemTime\<close> is the number of whole seconds since the Unix epoch, negative before it.
\<close>

definition to_unix_timestamp :: "int \<Rightarrow> (int, 'e) res" where
  "to_unix_timestamp t = (if t < 0 then Panic else if t < 2 ^ 63 then Ok t else Panic)"

definition find_claim :: "receipt_db \<Rightarrow> route_key \<Rightarrow> claim_row option" where
  "find_claim db k = List.find (\<lambda>r. cl_key r = k) (db_outbox db)"

definition stored_claim ::
    "dao_env \<Rightarrow> receipt_db \<Rightarrow> authorized_receipt_session \<Rightarrow> receipt_sequence_checkpoint \<Rightarrow> bool dao_result" where
  "stored_claim env db authorization checkpoint =
     (case find_claim db (ck_key checkpoint) of
        None \<Rightarrow> Ok False
      | Some row \<Rightarrow>
          and_then (deserialize_settlement_claim env (cl_claim_id row) (cl_authorization_nonce row)
              (be_bytes 32 (ck_route_epoch checkpoint)) (ck_provider_public_key checkpoint)
              (ck_payer_session_public_key checkpoint) (cl_cumulative_charge_wei row) (cl_receipt_payload_cbor row))
            (\<lambda>stored_payload.
               if srp_authorization stored_payload \<noteq> authorization then Err DaoSettlementClaimIdentityMismatch else Ok True))"

definition stored_authorization ::
    "dao_env \<Rightarrow> receipt_db \<Rightarrow> authorized_receipt_session \<Rightarrow> (bool \<times> u128) dao_result" where
  "stored_authorization env db authorization =
     (case find_authorization db (rsp_authorization_nonce (ars_policy authorization)) of
        Some row \<Rightarrow>
          and_then (deserialize_authorization env (ar_authorization_cbor row)) (\<lambda>stored.
            if stored \<noteq> authorization then Err DaoAuthorizationIdentityMismatch
            else and_then (stored_u128 (ar_spent_charge_wei row)) (\<lambda>spent. Ok (True, spent)))
      | None \<Rightarrow> Ok (False, 0))"

definition charge_delta :: "dao_env \<Rightarrow> receipt_db \<Rightarrow> receipt_sequence_checkpoint \<Rightarrow> (bool \<times> u128) dao_result" where
  "charge_delta env db checkpoint =
     (case find_checkpoint db (ck_key checkpoint) of
        Some row \<Rightarrow>
          and_then (deserialize_checkpoint env (cr_checkpoint_cbor row)) (\<lambda>stored.
            and_then (check_successor stored checkpoint) (\<lambda>_.
              and_then (ok_or DaoStaleCheckpoint
                  (checked_sub (ck_cumulative_charge_wei checkpoint) (ck_cumulative_charge_wei stored)))
                (\<lambda>delta. Ok (True, delta))))
      | None \<Rightarrow> Ok (False, ck_cumulative_charge_wei checkpoint))"

definition put_authorization ::
    "authorized_receipt_session \<Rightarrow> bytes \<Rightarrow> bool \<Rightarrow> u128 \<Rightarrow> receipt_db \<Rightarrow> receipt_db dao_result" where
  "put_authorization authorization serialized already_stored new_spent db =
     (if already_stored
      then Ok (db\<lparr>db_authorizations := map (\<lambda>r.
             if ar_authorization_nonce r = be_bytes 32 (rsp_authorization_nonce (ars_policy authorization))
             then r\<lparr>ar_spent_charge_wei := decimal (unat new_spent)\<rparr> else r) (db_authorizations db)\<rparr>)
      else and_then (insert_unique (\<lambda>a b. ar_authorization_nonce a = ar_authorization_nonce b)
               (authorization_row_of authorization (decimal (unat new_spent)) serialized) (db_authorizations db))
             (\<lambda>rows. Ok (db\<lparr>db_authorizations := rows\<rparr>)))"

definition max_db_balance :: int where
  "max_db_balance = 2 ^ 126 - 1"

definition checked_add_i128 :: "int \<Rightarrow> int \<Rightarrow> int option" where
  "checked_add_i128 a b = (if - (2 ^ 127) \<le> a + b \<and> a + b < 2 ^ 127 then Some (a + b) else None)"

definition find_receivable :: "receipt_db \<Rightarrow> address \<Rightarrow> receivable_row option" where
  "find_receivable db wallet = List.find (\<lambda>r. rv_wallet_address r = wallet) (db_receivable db)"

definition book_receivable :: "address \<Rightarrow> u128 \<Rightarrow> int \<Rightarrow> receipt_db \<Rightarrow> receipt_db dao_result" where
  "book_receivable wallet delta timestamp db =
     (let existing_opt = find_receivable db wallet in
      if unat delta \<ge> 2 ^ 127 then Err DaoBalanceOverflow
      else and_then (case existing_opt of
             None \<Rightarrow> Ok 0 | Some r \<Rightarrow> reconstitute (rv_balance_high_b r) (rv_balance_low_b r)) (\<lambda>existing_balance.
        and_then (ok_or DaoBalanceOverflow
            (case checked_add_i128 existing_balance (uint delta) of
               None \<Rightarrow> None | Some balance \<Rightarrow> if balance \<le> max_db_balance then Some balance else None)) (\<lambda>new_balance.
          and_then (deconstruct new_balance) (\<lambda>(high, low).
            case existing_opt of
              Some _ \<Rightarrow> Ok (db\<lparr>db_receivable := map (\<lambda>r. if rv_wallet_address r = wallet
                  then r\<lparr>rv_balance_high_b := high, rv_balance_low_b := low\<rparr> else r) (db_receivable db)\<rparr>)
            | None \<Rightarrow> and_then (to_unix_timestamp timestamp) (\<lambda>t.
                and_then (insert_unique (\<lambda>a b. rv_wallet_address a = rv_wallet_address b)
                    \<lparr>rv_wallet_address = wallet, rv_balance_high_b = high, rv_balance_low_b = low,
                     rv_last_received_timestamp = t\<rparr> (db_receivable db))
                  (\<lambda>rows. Ok (db\<lparr>db_receivable := rows\<rparr>)))))))"

definition put_claim ::
    "bytes32 \<Rightarrow> authorized_receipt_session \<Rightarrow> receipt_sequence_checkpoint \<Rightarrow> bytes \<Rightarrow> bool \<Rightarrow> int \<Rightarrow>
     receipt_db \<Rightarrow> receipt_db dao_result" where
  "put_claim claim_id authorization checkpoint serialized already_stored timestamp db =
     and_then (to_unix_timestamp timestamp) (\<lambda>t.
       let charge = decimal (unat (ck_cumulative_charge_wei checkpoint)); accepted_at = decimal (nat t) in
       if already_stored
       then Ok (db\<lparr>db_outbox := map (\<lambda>r. if cl_key r = ck_key checkpoint
              then r\<lparr>cl_cumulative_charge_wei := charge, cl_receipt_payload_cbor := serialized,
                     cl_accepted_at_unix_s := accepted_at\<rparr> else r) (db_outbox db)\<rparr>)
       else and_then (insert_unique outbox_conflicts
                \<lparr>cl_claim_id = be_bytes 32 claim_id,
                 cl_authorization_nonce = be_bytes 32 (rsp_authorization_nonce (ars_policy authorization)),
                 cl_route_epoch = be_bytes 32 (ck_route_epoch checkpoint),
                 cl_provider_public_key = ck_provider_public_key checkpoint,
                 cl_payer_session_public_key = ck_payer_session_public_key checkpoint,
                 cl_cumulative_charge_wei = charge, cl_receipt_payload_cbor = serialized,
                 cl_accepted_at_unix_s = accepted_at\<rparr> (db_outbox db))
              (\<lambda>rows. Ok (db\<lparr>db_outbox := rows\<rparr>)))"

definition delete_archived :: "bytes32 \<Rightarrow> receipt_db \<Rightarrow> receipt_db" where
  "delete_archived claim_id db =
     db\<lparr>db_archive := filter (\<lambda>r. cl_claim_id (av_claim r) \<noteq> be_bytes 32 claim_id) (db_archive db)\<rparr>"

definition accept_verified_receipt ::
    "dao_env \<Rightarrow> receipt_db \<Rightarrow> service_receipt_payload \<Rightarrow> receipt_sequence_checkpoint \<Rightarrow> int \<Rightarrow>
     u128 dao_result \<times> receipt_db" where
  "accept_verified_receipt env db payload checkpoint timestamp =
     (let authorization = srp_authorization payload; policy = ars_policy authorization in
      run_transaction db
        (and_then (validate_settlement_claim_for_checkpoint payload checkpoint) (\<lambda>_.
         if rsp_payer_session_public_key policy \<noteq> ck_payer_session_public_key checkpoint
            \<or> make_accounting_commitment (se_receipt_env (de_settlement_env env)) (ck_route_epoch checkpoint)
                (ck_payer_session_public_key checkpoint) \<noteq> ck_accounting_commitment checkpoint
         then Err DaoAuthorizationIdentityMismatch
         else
         and_then (map_err DaoSerialization (de_to_vec_authorization env authorization)) (\<lambda>authorization_serialized.
         and_then (map_err DaoSerialization (de_to_vec_checkpoint env checkpoint)) (\<lambda>checkpoint_serialized.
         and_then (map_err DaoSerialization (de_to_vec_payload env payload)) (\<lambda>claim_serialized.
         and_then (map_err (\<lambda>e. DaoSerialization (de_debug_error env e))
             (receipt_settlement_claim_id (de_settlement_env env) payload)) (\<lambda>claim_id.
         and_then (stored_claim env db authorization checkpoint) (\<lambda>claim_already_stored.
         and_then (stored_authorization env db authorization) (\<lambda>(authorization_already_stored, spent).
         and_then (charge_delta env db checkpoint) (\<lambda>(checkpoint_already_stored, delta).
         and_then (ok_or DaoAmountLimitExceeded (checked_add spent delta)) (\<lambda>new_spent.
         if new_spent > rsp_max_total_charge_wei policy then Err DaoAmountLimitExceeded
         else
         and_then (put_authorization authorization authorization_serialized authorization_already_stored new_spent db) (\<lambda>db.
         and_then (put_checkpoint checkpoint checkpoint_serialized checkpoint_already_stored db) (\<lambda>db.
         and_then (book_receivable (rsp_payer_wallet_address policy) delta timestamp db) (\<lambda>db.
         and_then (put_claim claim_id authorization checkpoint claim_serialized claim_already_stored timestamp
             (delete_archived claim_id db)) (\<lambda>db.
         Ok (delta, db))))))))))))))))"

subsection \<open>Pages of claims\<close>

definition after_claim_id :: "bytes32 option \<Rightarrow> bytes \<Rightarrow> bool" where
  "after_claim_id start_after_opt claim_id =
     (case start_after_opt of None \<Rightarrow> True | Some start \<Rightarrow> be_bytes 32 start < claim_id)"

definition sql_limit :: "nat \<Rightarrow> nat" where
  "sql_limit limit = min limit (2 ^ 63 - 1)"

definition claim_record :: "dao_env \<Rightarrow> claim_row \<Rightarrow> pending_settlement_claim_record dao_result" where
  "claim_record env row =
     and_then (deserialize_claim_row env row) (\<lambda>payload.
       and_then (stored_u64 (cl_accepted_at_unix_s row)) (\<lambda>accepted_at.
         Ok \<lparr>pcr_receipt_payload = payload, pcr_accepted_at_unix_s = accepted_at\<rparr>))"

definition pending_settlement_claim_records_page ::
    "dao_env \<Rightarrow> receipt_db \<Rightarrow> bytes32 option \<Rightarrow> nat \<Rightarrow> (pending_settlement_claim_record list) dao_result" where
  "pending_settlement_claim_records_page env db start_after_opt limit =
     (if limit = 0 then Ok []
      else traverse (claim_record env)
        (take (sql_limit limit)
          (sort_key cl_claim_id (filter (\<lambda>r. after_claim_id start_after_opt (cl_claim_id r)) (db_outbox db)))))"

definition pending_settlement_claims_page ::
    "dao_env \<Rightarrow> receipt_db \<Rightarrow> bytes32 option \<Rightarrow> nat \<Rightarrow> (service_receipt_payload list) dao_result" where
  "pending_settlement_claims_page env db start_after_opt limit =
     and_then (pending_settlement_claim_records_page env db start_after_opt limit)
       (\<lambda>records. Ok (map pcr_receipt_payload records))"

definition pending_settlement_claims :: "dao_env \<Rightarrow> receipt_db \<Rightarrow> (service_receipt_payload list) dao_result" where
  "pending_settlement_claims env db = pending_settlement_claims_page env db None (2 ^ 64 - 1)"

definition candidate_rows :: "receipt_db \<Rightarrow> claim_row list" where
  "candidate_rows db =
     db_outbox db @ filter (\<lambda>a. \<not> list_ex (\<lambda>p. cl_claim_id p = cl_claim_id a) (db_outbox db)) (map av_claim (db_archive db))"

definition settlement_reconciliation_candidates_page ::
    "receipt_db \<Rightarrow> bytes32 option \<Rightarrow> nat \<Rightarrow> (settlement_reconciliation_candidate list) dao_result" where
  "settlement_reconciliation_candidates_page db start_after_opt limit =
     (if limit = 0 then Ok []
      else traverse (\<lambda>row.
          and_then (fixed_32 (cl_claim_id row) ''settlement claim ID'') (\<lambda>claim_id.
            and_then (stored_u128 (cl_cumulative_charge_wei row)) (\<lambda>charge.
              Ok \<lparr>cand_claim_id = claim_id, cand_cumulative_charge_wei = charge\<rparr>)))
        (take (sql_limit limit)
          (sort_key cl_claim_id (filter (\<lambda>r. after_claim_id start_after_opt (cl_claim_id r)) (candidate_rows db)))))"

subsection \<open>Reconciliation with the chain\<close>

definition observation_invalid :: "settlement_chain_observation \<Rightarrow> bool" where
  "observation_invalid obs \<longleftrightarrow>
     obs_confirmation_depth obs = 0
     \<or> obs_observed_block_number obs > obs_latest_block_number obs
     \<or> checked_sub (obs_latest_block_number obs) (obs_observed_block_number obs) \<noteq> Some (obs_confirmation_depth obs)
     \<or> obs_observed_block_hash obs = 0"

definition check_observation :: "reconciliation_row \<Rightarrow> settlement_chain_observation \<Rightarrow> unit dao_result" where
  "check_observation row obs =
     and_then (stored_u64 (rr_chain_id row)) (\<lambda>stored_chain_id.
     and_then (stored_u64 (rr_confirmation_depth row)) (\<lambda>stored_depth.
     and_then (stored_u64 (rr_observed_block_number row)) (\<lambda>stored_block_number.
     and_then (fixed_32 (rr_observed_block_hash row) ''settlement block hash'') (\<lambda>_.
       if rr_settlement_contract row \<noteq> be_bytes 20 (obs_settlement_contract obs) \<or> stored_chain_id \<noteq> obs_chain_id obs
       then Err DaoSettlementObservationIdentityMismatch
       else if obs_confirmation_depth obs < stored_depth then Err DaoSettlementConfirmationDepthReduced
       else if obs_observed_block_number obs < stored_block_number then Err DaoSettlementObservationRegressed
       else Ok ()))))"

definition find_pending :: "receipt_db \<Rightarrow> bytes32 \<Rightarrow> claim_row option" where
  "find_pending db claim_id = List.find (\<lambda>r. cl_claim_id r = be_bytes 32 claim_id) (db_outbox db)"

definition find_archived :: "receipt_db \<Rightarrow> bytes32 \<Rightarrow> archive_row option" where
  "find_archived db claim_id = List.find (\<lambda>r. cl_claim_id (av_claim r) = be_bytes 32 claim_id) (db_archive db)"

definition check_payload_chain :: "service_receipt_payload \<Rightarrow> settlement_chain_observation \<Rightarrow> unit dao_result" where
  "check_payload_chain payload obs =
     (if rsp_chain_id (ars_policy (srp_authorization payload)) \<noteq> obs_chain_id obs
         \<or> rsp_settlement_contract (ars_policy (srp_authorization payload)) \<noteq> obs_settlement_contract obs
      then Err DaoSettlementObservationIdentityMismatch else Ok ())"

definition archive_pending ::
    "settlement_chain_observation \<Rightarrow> confirmed_settlement_claim \<Rightarrow> claim_row \<Rightarrow> receipt_db \<Rightarrow> nat \<times> receipt_db" where
  "archive_pending obs confirmation row db =
     (let archived = \<lparr>av_claim = row,
            av_confirmed_cumulative_charge_wei = decimal (unat (csc_cumulative_charge_wei confirmation)),
            av_observed_block_number = decimal (unat (obs_observed_block_number obs)),
            av_observed_block_hash = be_bytes 32 (obs_observed_block_hash obs)\<rparr>;
          same = (\<lambda>r. cl_claim_id (av_claim r) = cl_claim_id row);
          hit = (\<lambda>r. cl_claim_id r = be_bytes 32 (csc_claim_id confirmation)
                   \<and> cl_receipt_payload_cbor r = cl_receipt_payload_cbor row) in
      (length (filter hit (db_outbox db)),
       db\<lparr>db_archive := (if list_ex same (db_archive db)
              then map (\<lambda>r. if same r then archived else r) (db_archive db) else db_archive db @ [archived]),
          db_outbox := filter (\<lambda>r. \<not> hit r) (db_outbox db)\<rparr>))"

definition restore_archived ::
    "confirmed_settlement_claim \<Rightarrow> archive_row \<Rightarrow> receipt_db \<Rightarrow> (nat \<times> receipt_db) dao_result" where
  "restore_archived confirmation row db =
     and_then (insert_unique outbox_conflicts (av_claim row) (db_outbox db)) (\<lambda>rows.
       let hit = (\<lambda>r. cl_claim_id (av_claim r) = be_bytes 32 (csc_claim_id confirmation)) in
       Ok (length (filter hit (db_archive db)),
           db\<lparr>db_outbox := rows, db_archive := filter (\<lambda>r. \<not> hit r) (db_archive db)\<rparr>))"

definition revalidate_archived ::
    "settlement_chain_observation \<Rightarrow> confirmed_settlement_claim \<Rightarrow> receipt_db \<Rightarrow> nat \<times> receipt_db" where
  "revalidate_archived obs confirmation db =
     (let hit = (\<lambda>r. cl_claim_id (av_claim r) = be_bytes 32 (csc_claim_id confirmation)) in
      (length (filter hit (db_archive db)),
       db\<lparr>db_archive := map (\<lambda>r. if hit r
            then r\<lparr>av_confirmed_cumulative_charge_wei := decimal (unat (csc_cumulative_charge_wei confirmation)),
                   av_observed_block_number := decimal (unat (obs_observed_block_number obs)),
                   av_observed_block_hash := be_bytes 32 (obs_observed_block_hash obs)\<rparr> else r) (db_archive db)\<rparr>))"

definition payload_charge :: "service_receipt_payload \<Rightarrow> u128" where
  "payload_charge payload = sr_cumulative_charge_wei (ssr_receipt (asr_signed_receipt (srp_acknowledged_receipt payload)))"

definition reconcile_claim ::
    "dao_env \<Rightarrow> settlement_chain_observation \<Rightarrow> confirmed_settlement_claim \<Rightarrow>
     settlement_reconciliation_outcome \<times> receipt_db \<Rightarrow> (settlement_reconciliation_outcome \<times> receipt_db) dao_result" where
  "reconcile_claim env obs confirmation = (\<lambda>(outcome, db).
     case find_pending db (csc_claim_id confirmation) of
       Some row \<Rightarrow>
         and_then (deserialize_claim_row env row) (\<lambda>payload.
         and_then (stored_u64 (cl_accepted_at_unix_s row)) (\<lambda>_.
         and_then (check_payload_chain payload obs) (\<lambda>_.
           if csc_cumulative_charge_wei confirmation < payload_charge payload
           then Ok (outcome\<lparr>out_still_pending_claim_count := Suc (out_still_pending_claim_count outcome)\<rparr>, db)
           else (let (removed, db') = archive_pending obs confirmation row db in
                 Ok (outcome\<lparr>out_archived_claim_count := out_archived_claim_count outcome + removed\<rparr>, db')))))
     | None \<Rightarrow>
         (case find_archived db (csc_claim_id confirmation) of
            None \<Rightarrow> Ok (outcome\<lparr>out_unknown_claim_count := Suc (out_unknown_claim_count outcome)\<rparr>, db)
          | Some row \<Rightarrow>
              and_then (deserialize_claim_row env (av_claim row)) (\<lambda>payload.
              and_then (stored_u64 (cl_accepted_at_unix_s (av_claim row))) (\<lambda>_.
              and_then (stored_u128 (av_confirmed_cumulative_charge_wei row)) (\<lambda>_.
              and_then (stored_u64 (av_observed_block_number row)) (\<lambda>_.
              and_then (fixed_32 (av_observed_block_hash row) ''archived settlement block hash'') (\<lambda>_.
              and_then (check_payload_chain payload obs) (\<lambda>_.
                if csc_cumulative_charge_wei confirmation < payload_charge payload
                then and_then (restore_archived confirmation row db) (\<lambda>(removed, db').
                  Ok (outcome\<lparr>out_restored_claim_count := out_restored_claim_count outcome + removed\<rparr>, db'))
                else (let (changed, db') = revalidate_archived obs confirmation db in
                  Ok (outcome\<lparr>out_revalidated_archive_count := out_revalidated_archive_count outcome + changed\<rparr>, db'))))))))))"

fun reconcile_claims ::
    "dao_env \<Rightarrow> settlement_chain_observation \<Rightarrow> confirmed_settlement_claim list \<Rightarrow>
     settlement_reconciliation_outcome \<times> receipt_db \<Rightarrow> (settlement_reconciliation_outcome \<times> receipt_db) dao_result" where
  "reconcile_claims env obs [] st = Ok st"
| "reconcile_claims env obs (c # cs) st = and_then (reconcile_claim env obs c st) (reconcile_claims env obs cs)"

definition reconcile_settlement_claims ::
    "dao_env \<Rightarrow> receipt_db \<Rightarrow> settlement_chain_observation \<Rightarrow> settlement_reconciliation_outcome dao_result \<times> receipt_db" where
  "reconcile_settlement_claims env db obs =
     run_transaction db
       (if observation_invalid obs then Err DaoSettlementObservationInvalid
        else if \<not> distinct (map csc_claim_id (obs_claims obs)) then Err DaoSettlementObservationInvalid
        else and_then (case db_reconciliation db of None \<Rightarrow> Ok () | Some row \<Rightarrow> check_observation row obs) (\<lambda>_.
          and_then (reconcile_claims env obs (obs_claims obs)
              (\<lparr>out_archived_claim_count = 0, out_restored_claim_count = 0, out_still_pending_claim_count = 0,
                out_revalidated_archive_count = 0, out_unknown_claim_count = 0\<rparr>, db)) (\<lambda>(outcome, db').
            Ok (outcome, db'\<lparr>db_reconciliation := Some
              \<lparr>rr_chain_id = decimal (unat (obs_chain_id obs)),
               rr_settlement_contract = be_bytes 20 (obs_settlement_contract obs),
               rr_confirmation_depth = decimal (unat (obs_confirmation_depth obs)),
               rr_observed_block_number = decimal (unat (obs_observed_block_number obs)),
               rr_observed_block_hash = be_bytes 32 (obs_observed_block_hash obs)\<rparr>\<rparr>))))"

subsection \<open>The provider's own settlement authorization\<close>

definition provider_settlement_authorization ::
    "dao_env \<Rightarrow> receipt_db \<Rightarrow> (authorized_provider_settlement option) dao_result" where
  "provider_settlement_authorization env db =
     (case db_provider_settlement db of
        None \<Rightarrow> Ok None
      | Some row \<Rightarrow>
          and_then (map_err DaoDeserialization (de_from_slice_provider_settlement env (ps_authorization_cbor row))) (\<lambda>authorization.
            and_then (stored_u64 (ps_expires_at_unix_s row)) (\<lambda>expiry.
              if psp_expires_at_unix_s (aps_policy authorization) \<noteq> expiry then Err DaoSettlementClaimIdentityMismatch
              else Ok (Some authorization))))"

definition save_provider_settlement_authorization ::
    "dao_env \<Rightarrow> receipt_db \<Rightarrow> authorized_provider_settlement \<Rightarrow> unit dao_result \<times> receipt_db" where
  "save_provider_settlement_authorization env db authorization =
     run_transaction db
       (and_then (map_err DaoSerialization (de_to_vec_provider_settlement env authorization)) (\<lambda>serialized.
          Ok ((), db\<lparr>db_provider_settlement := Some
            \<lparr>ps_expires_at_unix_s = decimal (unat (psp_expires_at_unix_s (aps_policy authorization))),
             ps_authorization_cbor = serialized\<rparr>\<rparr>)))"

definition clear_provider_settlement_authorization :: "receipt_db \<Rightarrow> unit dao_result \<times> receipt_db" where
  "clear_provider_settlement_authorization db = (Ok (), db\<lparr>db_provider_settlement := None\<rparr>)"

end
