(* ===== verification/Receipt_Ledger.thy ===== *)
theory Receipt_Ledger
  imports Receipt_Dao
begin

section \<open>The provider's books\<close>

text \<open>
  The receipt database over time. \<open>dao_run\<close> follows the calls the node makes and logs every accepted
  charge; the books are then compared with the log: what each signed authorization has spent, what
  each route has cost, what each wallet owes, and where the claims for it are.
\<close>

subsection \<open>Tables with a key\<close>

lemma insert_unique_eq_Ok:
  "insert_unique conflicts row rows = Ok rows' \<longleftrightarrow> (\<forall>r\<in>set rows. \<not> conflicts row r) \<and> rows' = rows @ [row]"
  by (auto simp: insert_unique_def list_ex_iff)

lemma find_key_None: "List.find (\<lambda>r. key r = k) rows = None \<longleftrightarrow> k \<notin> key ` set rows"
  by (auto simp: find_None_iff)

lemma find_key_SomeD: "List.find (\<lambda>r. key r = k) rows = Some r \<Longrightarrow> r \<in> set rows \<and> key r = k"
  by (auto simp: find_Some_iff in_set_conv_nth)

lemma find_key_distinct:
  "distinct (map key rows) \<Longrightarrow> r \<in> set rows \<Longrightarrow> List.find (\<lambda>r'. key r' = key r) rows = Some r"
  by (induction rows) force+

lemma find_key_map:
  assumes "\<And>r. key (f r) = key r"
  shows "List.find (\<lambda>r. key r = k) (map f rows) = map_option f (List.find (\<lambda>r. key r = k) rows)"
  using assms by (induction rows) auto

lemma find_append: "List.find p (xs @ ys) = (case List.find p xs of Some x \<Rightarrow> Some x | None \<Rightarrow> List.find p ys)"
  by (induction xs) auto

lemma run_transaction_Ok: "run_transaction db body = (Ok a, db') \<longleftrightarrow> body = Ok (a, db')"
  by (auto simp: run_transaction_def split: res.splits)

lemma run_transaction_not_Ok:
  "run_transaction db body = (r, db') \<Longrightarrow> \<forall>a. r \<noteq> Ok a \<Longrightarrow> db' = db"
  by (auto simp: run_transaction_def split: res.splits)

subsection \<open>Runs\<close>

record charge =
  cg_payload :: service_receipt_payload
  cg_route :: route_key
  cg_delta :: nat

abbreviation payload_policy :: "service_receipt_payload \<Rightarrow> receipt_session_policy" where
  "payload_policy p \<equiv> ars_policy (srp_authorization p)"

abbreviation payload_receipt :: "service_receipt_payload \<Rightarrow> service_receipt" where
  "payload_receipt p \<equiv> ssr_receipt (asr_signed_receipt (srp_acknowledged_receipt p))"

abbreviation payload_session_key :: "service_receipt_payload \<Rightarrow> public_key" where
  "payload_session_key p \<equiv> asr_payer_session_public_key (srp_acknowledged_receipt p)"

definition cg_nonce :: "charge \<Rightarrow> bytes32" where
  "cg_nonce e = rsp_authorization_nonce (payload_policy (cg_payload e))"

definition cg_wallet :: "charge \<Rightarrow> address" where
  "cg_wallet e = rsp_payer_wallet_address (payload_policy (cg_payload e))"

definition charge_of :: "service_receipt_payload \<Rightarrow> receipt_sequence_checkpoint \<Rightarrow> u128 \<Rightarrow> charge" where
  "charge_of payload checkpoint delta =
     \<lparr>cg_payload = payload, cg_route = ck_key checkpoint, cg_delta = unat delta\<rparr>"

definition logged :: "(charge \<Rightarrow> bool) \<Rightarrow> charge list \<Rightarrow> nat" where
  "logged p log = sum_list (map cg_delta (filter p log))"

lemma logged_simps [simp]:
  "logged p [] = 0" "logged p (log @ [e]) = logged p log + (if p e then cg_delta e else 0)"
  by (simp_all add: logged_def)

text \<open>
  The calls of the hopper and of the settlement manager. \<open>save_checkpoint\<close> is left out: it has no
  caller outside the tests, and it moves a checkpoint without a charge. The accountant's own writes to
  the table of receivables (\<open>receivable_dao.rs\<close>: services booked without receipts, payments received)
  are left out too, so the receivables below are those of accepted receipts on top of the first state.
\<close>

inductive dao_other :: "dao_env \<Rightarrow> receipt_db \<Rightarrow> receipt_db \<Rightarrow> bool" for env where
  refused: "accept_verified_receipt env db p c t = (r, db') \<Longrightarrow> \<forall>d. r \<noteq> Ok d \<Longrightarrow> dao_other env db db'"
| authorized: "save_authorization env db a = (r, db') \<Longrightarrow> dao_other env db db'"
| offered: "save_routing_offer_state env db s now m = (r, db') \<Longrightarrow> dao_other env db db'"
| reconciled: "reconcile_settlement_claims env db obs = (r, db') \<Longrightarrow> dao_other env db db'"
| saved: "save_provider_settlement_authorization env db aps = (r, db') \<Longrightarrow> dao_other env db db'"
| cleared: "clear_provider_settlement_authorization db = (r, db') \<Longrightarrow> dao_other env db db'"

inductive dao_run :: "dao_env \<Rightarrow> receipt_db \<Rightarrow> charge list \<Rightarrow> receipt_db \<Rightarrow> bool" for env db0 where
  start: "dao_run env db0 [] db0"
| accepted: "dao_run env db0 log db \<Longrightarrow> accept_verified_receipt env db p c t = (Ok d, db') \<Longrightarrow>
    dao_run env db0 (log @ [charge_of p c d]) db'"
| other: "dao_run env db0 log db \<Longrightarrow> dao_other env db db' \<Longrightarrow> dao_run env db0 log db'"

definition dao_codecs :: "dao_env \<Rightarrow> bool" where
  "dao_codecs env \<longleftrightarrow>
     (\<forall>x bs. de_to_vec_checkpoint env x = Ok bs \<longrightarrow> de_from_slice_checkpoint env bs = Ok x) \<and>
     (\<forall>x bs. de_to_vec_authorization env x = Ok bs \<longrightarrow> de_from_slice_authorization env bs = Ok x) \<and>
     (\<forall>x bs. de_to_vec_payload env x = Ok bs \<longrightarrow> de_from_slice_payload env bs = Ok x) \<and>
     (\<forall>x bs. de_to_vec_offer_state env x = Ok bs \<longrightarrow> de_from_slice_offer_state env bs = Ok x) \<and>
     (\<forall>x bs. de_to_vec_provider_settlement env x = Ok bs \<longrightarrow> de_from_slice_provider_settlement env bs = Ok x)"

definition balance :: "receipt_db \<Rightarrow> address \<Rightarrow> int" where
  "balance db wallet =
     (case find_receivable db wallet of
        None \<Rightarrow> 0
      | Some r \<Rightarrow> (case reconstitute (rv_balance_high_b r) (rv_balance_low_b r) :: (int, unit) res of Ok b \<Rightarrow> b | _ \<Rightarrow> 0))"

definition receivable_ok :: "receivable_row list \<Rightarrow> bool" where
  "receivable_ok rows \<longleftrightarrow> distinct (map rv_wallet_address rows) \<and>
     (\<forall>r\<in>set rows. - (2 ^ 63) \<le> rv_balance_high_b r \<and> rv_balance_high_b r < 2 ^ 63 \<and>
        0 \<le> rv_balance_low_b r \<and> rv_balance_low_b r < 2 ^ 63)"

definition fresh_db :: "receipt_db \<Rightarrow> bool" where
  "fresh_db db \<longleftrightarrow> db_checkpoints db = [] \<and> db_authorizations db = [] \<and> db_offers db = [] \<and> db_outbox db = [] \<and>
     db_archive db = [] \<and> db_reconciliation db = None \<and> receivable_ok (db_receivable db)"

subsection \<open>One accepted receipt\<close>

lemma stored_u128_decimal [simp]: "stored_u128 (decimal (unat w)) = Ok w"
  by (simp add: stored_u128_def stored_amount_def parse_decimal)

lemma stored_u64_decimal [simp]: "stored_u64 (decimal (unat w)) = Ok w"
  by (simp add: stored_u64_def stored_amount_def parse_decimal)

lemma accept_OkE:
  assumes "accept_verified_receipt env db p c t = (Ok d, db')"
  obtains aser cser pser cid ca aa spent ka ns db1 db2 db3 where
    "validate_settlement_claim_for_checkpoint p c = Ok ()"
    "make_accounting_commitment (se_receipt_env (de_settlement_env env)) (ck_route_epoch c) (ck_payer_session_public_key c) =
       ck_accounting_commitment c"
    "de_to_vec_authorization env (srp_authorization p) = Ok aser"
    "de_to_vec_checkpoint env c = Ok cser" "de_to_vec_payload env p = Ok pser"
    "receipt_settlement_claim_id (de_settlement_env env) p = Ok cid"
    "stored_claim env db (srp_authorization p) c = Ok ca"
    "stored_authorization env db (srp_authorization p) = Ok (aa, spent)"
    "charge_delta env db c = Ok (ka, d)" "checked_add spent d = Some ns"
    "ns \<le> rsp_max_total_charge_wei (ars_policy (srp_authorization p))"
    "put_authorization (srp_authorization p) aser aa ns db = Ok db1"
    "put_checkpoint c cser ka db1 = Ok db2"
    "book_receivable (rsp_payer_wallet_address (ars_policy (srp_authorization p))) d t db2 = Ok db3"
    "put_claim cid (srp_authorization p) c pser ca t (delete_archived cid db3) = Ok db'"
  using assms unfolding accept_verified_receipt_def Let_def run_transaction_Ok
  by (auto simp: res_simps not_less split: if_splits)

lemma put_authorization_Ok:
  assumes "put_authorization a s stored n db = Ok db'"
  shows "db' = db\<lparr>db_authorizations := db_authorizations db'\<rparr>"
    and "db_authorizations db' =
      (if stored then map (\<lambda>r. if ar_authorization_nonce r = be_bytes 32 (rsp_authorization_nonce (ars_policy a))
                 then r\<lparr>ar_spent_charge_wei := decimal (unat n)\<rparr> else r) (db_authorizations db)
       else db_authorizations db @ [authorization_row_of a (decimal (unat n)) s])"
  using assms by (auto simp: put_authorization_def res_simps insert_unique_eq_Ok split: if_splits)

lemma put_checkpoint_Ok:
  assumes "put_checkpoint c s stored db = Ok db'"
  shows "db' = db\<lparr>db_checkpoints := db_checkpoints db'\<rparr>"
    and "db_checkpoints db' = (if stored then map (update_checkpoint_row c s) (db_checkpoints db)
       else db_checkpoints db @ [checkpoint_row_of c s])"
  using assms by (auto simp: put_checkpoint_def res_simps insert_unique_eq_Ok split: if_splits)

lemma book_receivable_frame:
  "book_receivable w d t db = Ok db' \<Longrightarrow> db' = db\<lparr>db_receivable := db_receivable db'\<rparr>"
  by (auto simp: book_receivable_def Let_def res_simps split: if_splits option.splits prod.splits)

lemma put_claim_frame:
  "put_claim i a c s stored t db = Ok db' \<Longrightarrow> db' = db\<lparr>db_outbox := db_outbox db'\<rparr>"
  by (auto simp: put_claim_def Let_def res_simps split: if_splits)

lemma accept_tables:
  assumes "put_authorization a aser aa ns db = Ok db1" "put_checkpoint c cser ka db1 = Ok db2"
    "book_receivable w d t db2 = Ok db3" "put_claim cid a c pser ca t (delete_archived cid db3) = Ok db'"
  shows "db_authorizations db' = db_authorizations db1" "db_checkpoints db' = db_checkpoints db2"
    "db_checkpoints db1 = db_checkpoints db" "db_receivable db' = db_receivable db3"
    "db_receivable db2 = db_receivable db" "db_outbox db3 = db_outbox db"
    "db_archive db' = db_archive (delete_archived cid db)" "db_offers db' = db_offers db"
    "db_reconciliation db' = db_reconciliation db" "db_provider_settlement db' = db_provider_settlement db"
proof -
  obtain A C R B where "db1 = db\<lparr>db_authorizations := A\<rparr>" "db2 = db1\<lparr>db_checkpoints := C\<rparr>"
    "db3 = db2\<lparr>db_receivable := R\<rparr>" "db' = (delete_archived cid db3)\<lparr>db_outbox := B\<rparr>"
    using put_authorization_Ok(1) [OF assms(1)] put_checkpoint_Ok(1) [OF assms(2)] book_receivable_frame [OF assms(3)]
      put_claim_frame [OF assms(4)] by blast
  then show "db_authorizations db' = db_authorizations db1" "db_checkpoints db' = db_checkpoints db2"
    "db_checkpoints db1 = db_checkpoints db" "db_receivable db' = db_receivable db3"
    "db_receivable db2 = db_receivable db" "db_outbox db3 = db_outbox db"
    "db_archive db' = db_archive (delete_archived cid db)" "db_offers db' = db_offers db"
    "db_reconciliation db' = db_reconciliation db" "db_provider_settlement db' = db_provider_settlement db"
    by (simp_all add: delete_archived_def)
qed

subsection \<open>Tables that follow the log\<close>

lemma set_update_key:
  assumes "distinct (map key rows)" "r \<in> set rows" "key r = k"
  shows "set (map (\<lambda>r. if key r = k then f r else r) rows) = insert (f r) {r' \<in> set rows. key r' \<noteq> k}"
proof -
  have "r' = r" if "r' \<in> set rows" "key r' = k" for r'
    using that assms by (auto simp: distinct_map inj_on_def)
  then have rows: "set rows = insert r {r' \<in> set rows. key r' \<noteq> k}" using assms(2) by blast
  have "(\<lambda>r. if key r = k then f r else r) ` {r' \<in> set rows. key r' \<noteq> k} = {r' \<in> set rows. key r' \<noteq> k}"
    by force
  then show ?thesis
    unfolding set_map by (subst rows) (simp only: image_insert assms(3) refl if_True)
qed

lemma set_insert_key: "\<forall>r\<in>set rows. key r \<noteq> k \<Longrightarrow> set (rows @ [x]) = insert x {r' \<in> set rows. key r' \<noteq> k}"
  by auto

lemma distinct_insert_key: "distinct (map key rows) \<Longrightarrow> \<forall>r\<in>set rows. key r \<noteq> key x \<Longrightarrow> distinct (map key (rows @ [x]))"
  by auto

text \<open>
  Every row is right about the charges logged under its key, and every logged charge has a row.
\<close>

definition table_ok ::
    "('r \<Rightarrow> 'k) \<Rightarrow> (charge \<Rightarrow> 'k) \<Rightarrow> (charge list \<Rightarrow> 'r \<Rightarrow> bool) \<Rightarrow> charge list \<Rightarrow> 'r list \<Rightarrow> bool" where
  "table_ok key ekey good log rows \<longleftrightarrow>
     distinct (map key rows) \<and> (\<forall>r\<in>set rows. good (filter (\<lambda>e. ekey e = key r) log) r) \<and>
     ekey ` set log \<subseteq> key ` set rows"

lemma logged_unused:
  assumes "ekey ` set log \<subseteq> K" "k \<notin> K"
  shows "filter (\<lambda>e. ekey e = k) log = []" "logged (\<lambda>e. ekey e = k) log = 0"
proof -
  show "filter (\<lambda>e. ekey e = k) log = []" using assms by (auto simp: filter_empty_conv)
  then show "logged (\<lambda>e. ekey e = k) log = 0" by (simp add: logged_def)
qed

lemma table_ok_charge:
  assumes "table_ok key ekey good log rows" "distinct (map key rows')"
    "set rows' = insert new {r \<in> set rows. key r \<noteq> ekey e}" "key new = ekey e"
    "good (filter (\<lambda>x. ekey x = ekey e) log @ [e]) new"
  shows "table_ok key ekey good (log @ [e]) rows'"
  unfolding table_ok_def
proof (intro conjI ballI)
  show "distinct (map key rows')" by (rule assms)
  show "good (filter (\<lambda>x. ekey x = key r) (log @ [e])) r" if "r \<in> set rows'" for r
    using that assms by (cases "r = new") (auto simp: table_ok_def)
  have "ekey x \<in> key ` set rows'" if "x \<in> set log" for x
  proof -
    have "ekey x \<in> key ` set rows" using that assms(1) by (auto simp: table_ok_def)
    then obtain r where "r \<in> set rows" "key r = ekey x" by auto
    then show ?thesis using assms(3,4) by (cases "ekey x = ekey e") (auto intro: rev_image_eqI [of r])
  qed
  then show "ekey ` set (log @ [e]) \<subseteq> key ` set rows'"
    using assms(3,4) by auto
qed

lemma table_ok_insert:
  assumes "table_ok key ekey good log rows" "key new \<notin> key ` set rows" "good [] new"
  shows "table_ok key ekey good log (rows @ [new])"
proof -
  have "filter (\<lambda>e. ekey e = key new) log = []"
    using assms by (intro logged_unused [of _ _ "key ` set rows"]) (auto simp: table_ok_def)
  then show ?thesis using assms by (auto simp: table_ok_def)
qed

definition authorization_good :: "dao_env \<Rightarrow> charge list \<Rightarrow> authorization_row \<Rightarrow> bool" where
  "authorization_good env es r \<longleftrightarrow>
     (\<exists>a s. de_to_vec_authorization env a = Ok s \<and> (\<forall>e\<in>set es. srp_authorization (cg_payload e) = a) \<and>
        sum_list (map cg_delta es) \<le> unat (rsp_max_total_charge_wei (ars_policy a)) \<and>
        r = authorization_row_of a (decimal (sum_list (map cg_delta es))) s)"

definition checkpoint_good :: "dao_env \<Rightarrow> charge list \<Rightarrow> checkpoint_row \<Rightarrow> bool" where
  "checkpoint_good env es r \<longleftrightarrow>
     (\<exists>c s. de_to_vec_checkpoint env c = Ok s \<and> sum_list (map cg_delta es) = unat (ck_cumulative_charge_wei c) \<and>
        r = checkpoint_row_of c s)"

abbreviation authorizations_ok :: "dao_env \<Rightarrow> charge list \<Rightarrow> authorization_row list \<Rightarrow> bool" where
  "authorizations_ok env \<equiv> table_ok ar_authorization_nonce (\<lambda>e. be_bytes 32 (cg_nonce e)) (authorization_good env)"

abbreviation checkpoints_ok :: "dao_env \<Rightarrow> charge list \<Rightarrow> checkpoint_row list \<Rightarrow> bool" where
  "checkpoints_ok env \<equiv> table_ok cr_key cg_route (checkpoint_good env)"

lemma row_of_simps [simp]:
  "ar_authorization_nonce (authorization_row_of a n s) = be_bytes 32 (rsp_authorization_nonce (ars_policy a))"
  "ar_authorization_cbor (authorization_row_of a n s) = s" "ar_spent_charge_wei (authorization_row_of a n s) = n"
  "cr_key (checkpoint_row_of c s) = ck_key c" "cr_checkpoint_cbor (checkpoint_row_of c s) = s"
  by (simp_all add: authorization_row_of_def checkpoint_row_of_def cr_key_def ck_key_def)

lemma stored_amount_charged:
  assumes "n \<le> unat (m :: u128)"
  shows "stored_u128 (decimal n) = Ok w \<longleftrightarrow> unat w = n"
proof -
  have "n = unat (of_nat n :: u128)"
    using assms unat_less_2p [of m] by (simp add: unat_of_nat_less)
  then show ?thesis
    by (metis res.inject(1) stored_u128_decimal)
qed

lemma stored_authorization_Ok:
  assumes ok: "authorizations_ok env log (db_authorizations db)" and codecs: "dao_codecs env"
    and sa: "stored_authorization env db a = Ok (stored, spent)"
  defines "k \<equiv> be_bytes 32 (rsp_authorization_nonce (ars_policy a))"
  shows "unat spent = logged (\<lambda>e. be_bytes 32 (cg_nonce e) = k) log"
    and "stored \<Longrightarrow> \<exists>s. authorization_row_of a (decimal (unat spent)) s \<in> set (db_authorizations db) \<and>
           de_to_vec_authorization env a = Ok s"
    and "\<forall>e\<in>set (filter (\<lambda>e. be_bytes 32 (cg_nonce e) = k) log). srp_authorization (cg_payload e) = a"
    and "\<not> stored \<Longrightarrow> k \<notin> ar_authorization_nonce ` set (db_authorizations db)"
proof -
  let ?es = "filter (\<lambda>e. be_bytes 32 (cg_nonce e) = k) log"
  consider (old) r where "stored" "r \<in> set (db_authorizations db)" "ar_authorization_nonce r = k"
      "de_from_slice_authorization env (ar_authorization_cbor r) = Ok a" "stored_u128 (ar_spent_charge_wei r) = Ok spent"
    | (new) "\<not> stored" "spent = 0" "k \<notin> ar_authorization_nonce ` set (db_authorizations db)"
    using sa find_key_SomeD [of ar_authorization_nonce k "db_authorizations db"]
      find_key_None [of ar_authorization_nonce k "db_authorizations db"]
    by (auto simp: stored_authorization_def find_authorization_def deserialize_authorization_def res_simps k_def
        split: option.splits if_splits)
  then have "unat spent = sum_list (map cg_delta ?es) \<and>
      (stored \<longrightarrow> (\<exists>s. authorization_row_of a (decimal (unat spent)) s \<in> set (db_authorizations db) \<and>
           de_to_vec_authorization env a = Ok s)) \<and> (\<forall>e\<in>set ?es. srp_authorization (cg_payload e) = a) \<and>
      (\<not> stored \<longrightarrow> k \<notin> ar_authorization_nonce ` set (db_authorizations db))"
  proof cases
    case (old r)
    have "authorization_good env ?es r" using ok old(2,3) by (auto simp: table_ok_def)
    then obtain b s where b: "de_to_vec_authorization env b = Ok s" "\<forall>e\<in>set ?es. srp_authorization (cg_payload e) = b"
        "sum_list (map cg_delta ?es) \<le> unat (rsp_max_total_charge_wei (ars_policy b))"
        "r = authorization_row_of b (decimal (sum_list (map cg_delta ?es))) s"
      by (auto simp: authorization_good_def)
    moreover have "b = a"
      using old(4) b codecs by (auto simp: dao_codecs_def)
    moreover have "unat spent = sum_list (map cg_delta ?es)"
      using old(5) b(3,4) by (simp add: stored_amount_charged)
    ultimately show ?thesis using old by auto
  next
    case new
    then have "?es = []"
      using ok by (intro logged_unused [of _ _ "ar_authorization_nonce ` set (db_authorizations db)"])
        (auto simp: table_ok_def)
    with new show ?thesis by simp
  qed
  then show "unat spent = logged (\<lambda>e. be_bytes 32 (cg_nonce e) = k) log"
    and "stored \<Longrightarrow> \<exists>s. authorization_row_of a (decimal (unat spent)) s \<in> set (db_authorizations db) \<and>
           de_to_vec_authorization env a = Ok s"
    and "\<forall>e\<in>set ?es. srp_authorization (cg_payload e) = a"
    and "\<not> stored \<Longrightarrow> k \<notin> ar_authorization_nonce ` set (db_authorizations db)" unfolding logged_def by blast+
qed

lemma authorizations_ok_charge:
  assumes ok: "authorizations_ok env log (db_authorizations db)" and codecs: "dao_codecs env"
    and s: "de_to_vec_authorization env a = Ok s"
    and sa: "stored_authorization env db a = Ok (stored, spent)" and ns: "checked_add spent d = Some ns"
    and m: "ns \<le> rsp_max_total_charge_wei (ars_policy a)" and put: "put_authorization a s stored ns db = Ok db1"
    and ea: "srp_authorization (cg_payload e) = a" "cg_delta e = unat d"
  shows "authorizations_ok env (log @ [e]) (db_authorizations db1)"
proof (rule table_ok_charge [OF ok])
  let ?k = "be_bytes 32 (rsp_authorization_nonce (ars_policy a))" and ?rows = "db_authorizations db"
  note st = stored_authorization_Ok [OF ok codecs sa]
  have e: "cg_nonce e = rsp_authorization_nonce (ars_policy a)" by (simp add: cg_nonce_def ea)
  have dist: "distinct (map ar_authorization_nonce ?rows)" using ok by (simp add: table_ok_def)
  have "map ar_authorization_nonce (map (\<lambda>r. if ar_authorization_nonce r = ?k
      then r\<lparr>ar_spent_charge_wei := decimal (unat ns)\<rparr> else r) ?rows) = map ar_authorization_nonce ?rows" by simp
  with dist st(4) show "distinct (map ar_authorization_nonce (db_authorizations db1))"
    unfolding put_authorization_Ok(2) [OF put] by (cases stored) (simp_all del: map_map)
  show "set (db_authorizations db1) =
      insert (authorization_row_of a (decimal (unat ns)) s) {r \<in> set ?rows. ar_authorization_nonce r \<noteq> be_bytes 32 (cg_nonce e)}"
  proof (cases stored)
    case True
    with st(2) s have "authorization_row_of a (decimal (unat spent)) s \<in> set ?rows" by auto
    from set_update_key [OF dist this refl, of "\<lambda>r. r\<lparr>ar_spent_charge_wei := decimal (unat ns)\<rparr>"] True show ?thesis
      unfolding put_authorization_Ok(2) [OF put] by (simp add: e authorization_row_of_def)
  next
    case False
    then show ?thesis
      using st(4) unfolding put_authorization_Ok(2) [OF put] by (auto simp: e) (metis imageI)
  qed
  show "ar_authorization_nonce (authorization_row_of a (decimal (unat ns)) s) = be_bytes 32 (cg_nonce e)"
    by (simp add: e)
  have "unat ns = unat spent + unat d" using ns by (simp add: checked_simps)
  then show "authorization_good env (filter (\<lambda>x. be_bytes 32 (cg_nonce x) = be_bytes 32 (cg_nonce e)) log @ [e])
      (authorization_row_of a (decimal (unat ns)) s)"
    using st(1,3) s m e ea unfolding authorization_good_def logged_def
    by (intro exI [of _ a] exI [of _ s]) (auto simp: word_le_nat_alt)
qed

lemma update_checkpoint_row_eq:
  "update_checkpoint_row c s = (\<lambda>r. if cr_key r = ck_key c then checkpoint_row_of c s else r)"
  by (auto simp: update_checkpoint_row_def checkpoint_row_of_def cr_key_def ck_key_def fun_eq_iff)

lemma charge_delta_Ok:
  assumes ok: "checkpoints_ok env log (db_checkpoints db)" and codecs: "dao_codecs env"
    and cd: "charge_delta env db c = Ok (stored, d)"
  shows "unat (ck_cumulative_charge_wei c) = logged (\<lambda>e. cg_route e = ck_key c) log + unat d"
    and "stored \<longleftrightarrow> ck_key c \<in> cr_key ` set (db_checkpoints db)"
proof -
  consider (old) r b where "stored" "r \<in> set (db_checkpoints db)" "cr_key r = ck_key c"
      "de_from_slice_checkpoint env (cr_checkpoint_cbor r) = Ok b"
      "unat (ck_cumulative_charge_wei c) = unat d + unat (ck_cumulative_charge_wei b)"
    | (new) "\<not> stored" "d = ck_cumulative_charge_wei c" "ck_key c \<notin> cr_key ` set (db_checkpoints db)"
    using cd find_key_SomeD [of cr_key "ck_key c" "db_checkpoints db"]
      find_key_None [of cr_key "ck_key c" "db_checkpoints db"]
    by (auto simp: charge_delta_def find_checkpoint_def deserialize_checkpoint_def res_simps checked_simps
        split: option.splits if_splits)
  then have "unat (ck_cumulative_charge_wei c) = logged (\<lambda>e. cg_route e = ck_key c) log + unat d \<and>
      (stored \<longleftrightarrow> ck_key c \<in> cr_key ` set (db_checkpoints db))"
  proof cases
    case (old r b)
    have "checkpoint_good env (filter (\<lambda>e. cg_route e = ck_key c) log) r"
      using ok old(2,3) by (auto simp: table_ok_def)
    with old(4,5) codecs have "unat (ck_cumulative_charge_wei c) = logged (\<lambda>e. cg_route e = ck_key c) log + unat d"
      by (auto simp: checkpoint_good_def dao_codecs_def logged_def)
    with old(1-3) show ?thesis by (metis imageI)
  next
    case new
    then have "logged (\<lambda>e. cg_route e = ck_key c) log = 0"
      using ok by (intro logged_unused [of _ _ "cr_key ` set (db_checkpoints db)"]) (auto simp: table_ok_def)
    with new show ?thesis by simp
  qed
  then show "unat (ck_cumulative_charge_wei c) = logged (\<lambda>e. cg_route e = ck_key c) log + unat d"
    and "stored \<longleftrightarrow> ck_key c \<in> cr_key ` set (db_checkpoints db)" by blast+
qed

lemma put_checkpoint_rows:
  assumes ok: "checkpoints_ok env log (db_checkpoints db)" and codecs: "dao_codecs env"
    and cd: "charge_delta env db c = Ok (stored, d)"
    and put: "put_checkpoint c s stored db1 = Ok db2" and frame: "db_checkpoints db1 = db_checkpoints db"
  shows "distinct (map cr_key (db_checkpoints db2))"
    and "set (db_checkpoints db2) = insert (checkpoint_row_of c s) {r \<in> set (db_checkpoints db). cr_key r \<noteq> ck_key c}"
proof -
  let ?rows = "db_checkpoints db"
  note st = charge_delta_Ok [OF ok codecs cd]
  have dist: "distinct (map cr_key ?rows)" using ok by (simp add: table_ok_def)
  have "map cr_key (map (\<lambda>r. if cr_key r = ck_key c then checkpoint_row_of c s else r) ?rows) = map cr_key ?rows" by simp
  with dist st(2) show "distinct (map cr_key (db_checkpoints db2))"
    unfolding put_checkpoint_Ok(2) [OF put] frame update_checkpoint_row_eq by (cases stored) (simp_all del: map_map)
  show "set (db_checkpoints db2) = insert (checkpoint_row_of c s) {r \<in> set ?rows. cr_key r \<noteq> ck_key c}"
  proof (cases stored)
    case True
    with st(2) obtain r where "r \<in> set ?rows" "cr_key r = ck_key c" by auto
    from set_update_key [OF dist this, of "\<lambda>_. checkpoint_row_of c s"] True show ?thesis
      unfolding put_checkpoint_Ok(2) [OF put] frame update_checkpoint_row_eq by simp
  next
    case False
    then show ?thesis
      using st(2) unfolding put_checkpoint_Ok(2) [OF put] frame by auto (metis imageI)
  qed
qed

lemma checkpoints_ok_charge:
  assumes ok: "checkpoints_ok env log (db_checkpoints db)" and codecs: "dao_codecs env"
    and s: "de_to_vec_checkpoint env c = Ok s" and cd: "charge_delta env db c = Ok (stored, d)"
    and put: "put_checkpoint c s stored db1 = Ok db2" and frame: "db_checkpoints db1 = db_checkpoints db"
    and e: "cg_route e = ck_key c" "cg_delta e = unat d"
  shows "checkpoints_ok env (log @ [e]) (db_checkpoints db2)"
proof (rule table_ok_charge [OF ok])
  note rows = put_checkpoint_rows [OF ok codecs cd put frame] and st = charge_delta_Ok [OF ok codecs cd]
  show "distinct (map cr_key (db_checkpoints db2))" by (rule rows)
  show "set (db_checkpoints db2) = insert (checkpoint_row_of c s) {r \<in> set (db_checkpoints db). cr_key r \<noteq> cg_route e}"
    by (simp add: rows e)
  show "cr_key (checkpoint_row_of c s) = cg_route e" by (simp add: e)
  show "checkpoint_good env (filter (\<lambda>x. cg_route x = cg_route e) log @ [e]) (checkpoint_row_of c s)"
    unfolding checkpoint_good_def using st(1) [unfolded logged_def] s e by (intro exI [of _ c] exI [of _ s]) simp
qed

subsection \<open>Receivables\<close>

definition rv_value :: "receivable_row \<Rightarrow> int" where
  "rv_value r = rv_balance_high_b r * 2 ^ 63 + rv_balance_low_b r"

lemma balance_eq:
  assumes "receivable_ok (db_receivable db)"
  shows "balance db w = (case find_receivable db w of None \<Rightarrow> 0 | Some r \<Rightarrow> rv_value r)"
    and "(case find_receivable db w of None \<Rightarrow> Ok 0 | Some r \<Rightarrow>
            reconstitute (rv_balance_high_b r) (rv_balance_low_b r)) = (Ok (balance db w) :: int dao_result)"
    and "- (2 ^ 126) \<le> balance db w"
proof -
  have "0 \<le> rv_balance_low_b r" "rv_balance_low_b r < 2 ^ 63" "- (2 ^ 63) \<le> rv_balance_high_b r"
    if "find_receivable db w = Some r" for r
    using assms find_key_SomeD [of rv_wallet_address w "db_receivable db" r] that
    by (auto simp: receivable_ok_def find_receivable_def)
  then show "balance db w = (case find_receivable db w of None \<Rightarrow> 0 | Some r \<Rightarrow> rv_value r)"
    and "(case find_receivable db w of None \<Rightarrow> Ok 0 | Some r \<Rightarrow>
            reconstitute (rv_balance_high_b r) (rv_balance_low_b r)) = (Ok (balance db w) :: int dao_result)"
    and "- (2 ^ 126) \<le> balance db w"
    by (auto simp: balance_def rv_value_def reconstitute_eq split: option.splits)
qed

lemma book_receivable_rows:
  assumes ok: "receivable_ok (db_receivable db)" and book: "book_receivable w d t db = Ok db'"
  defines "n \<equiv> balance db w + uint d"
  obtains (old) r where "n < 2 ^ 126" "- (2 ^ 126) \<le> n" "find_receivable db w = Some r"
      "db_receivable db' = map (\<lambda>r. if rv_wallet_address r = w
         then r\<lparr>rv_balance_high_b := n div 2 ^ 63, rv_balance_low_b := n mod 2 ^ 63\<rparr> else r) (db_receivable db)"
    | (new) u where "n < 2 ^ 126" "- (2 ^ 126) \<le> n" "find_receivable db w = None"
      "db_receivable db' = db_receivable db @ [\<lparr>rv_wallet_address = w, rv_balance_high_b = n div 2 ^ 63,
         rv_balance_low_b = n mod 2 ^ 63, rv_last_received_timestamp = u\<rparr>]"
proof -
  from book balance_eq(2) [OF ok, of w] have n: "n \<le> max_db_balance"
    by (auto simp: book_receivable_def Let_def res_simps checked_add_i128_def n_def split: if_splits option.splits)
  then have range: "n < 2 ^ 126" "- (2 ^ 126) \<le> n"
    using balance_eq(3) [OF ok, of w] uint_ge_0 [of d] unfolding max_db_balance_def n_def by linarith+
  have dec: "deconstruct n = (Ok (n div 2 ^ 63, n mod 2 ^ 63) :: (int \<times> int) dao_result)"
    by (rule deconstruct_eq [OF range(2,1)])
  show thesis
  proof (cases "find_receivable db w")
    case None
    then have "uint d = n" using balance_eq(1) [OF ok, of w] by (simp add: n_def)
    then show thesis
      using book None dec that(2) [OF range]
      by (auto simp: book_receivable_def Let_def res_simps checked_add_i128_def insert_unique_eq_Ok
          split: if_splits option.splits)
  next
    case (Some r)
    then have "reconstitute (rv_balance_high_b r) (rv_balance_low_b r) = (Ok (balance db w) :: int dao_result)"
      using balance_eq(2) [OF ok, of w] by simp
    then show thesis
      using book Some dec that(1) [OF range]
      by (auto simp: book_receivable_def Let_def res_simps checked_add_i128_def n_def [symmetric]
          split: if_splits option.splits)
  qed
qed

lemma split_bounds:
  fixes n :: int
  assumes "n < 2 ^ 126" "- (2 ^ 126) \<le> n"
  shows "- (2 ^ 63) \<le> n div 2 ^ 63" "n div 2 ^ 63 < 2 ^ 63" "0 \<le> n mod 2 ^ 63" "n mod 2 ^ 63 < 2 ^ 63"
  using assms
  by (simp_all only: less_eq_div_iff_mult_less_eq div_less_iff_less_mult zero_less_power zero_less_numeral
      pos_mod_sign pos_mod_bound) simp_all

lemma book_receivable_ok:
  assumes ok: "receivable_ok (db_receivable db)" and book: "book_receivable w d t db = Ok db'"
  shows "receivable_ok (db_receivable db')"
    and "balance db' w' = balance db w' + (if w' = w then int (unat d) else 0)"
proof -
  let ?n = "balance db w + uint d"
  note bounds = split_bounds [of ?n]
  have join: "?n div 2 ^ 63 * 2 ^ 63 + ?n mod 2 ^ 63 = ?n" by simp
  have "receivable_ok (db_receivable db') \<and>
      (case find_receivable db' w' of None \<Rightarrow> 0 | Some r \<Rightarrow> rv_value r) =
      (case find_receivable db w' of None \<Rightarrow> 0 | Some r \<Rightarrow> rv_value r) + (if w' = w then int (unat d) else 0)"
    using ok book
  proof (cases rule: book_receivable_rows)
    case (old r)
    have w: "balance db w = rv_value r" using balance_eq(1) [OF ok] old(3) by simp
    let ?f = "\<lambda>r. if rv_wallet_address r = w
         then r\<lparr>rv_balance_high_b := ?n div 2 ^ 63, rv_balance_low_b := ?n mod 2 ^ 63\<rparr> else r"
    have keys: "map rv_wallet_address (map ?f (db_receivable db)) = map rv_wallet_address (db_receivable db)"
      by simp
    have "find_receivable db' w' = map_option ?f (find_receivable db w')"
      unfolding find_receivable_def old(4) by (rule find_key_map) simp
    moreover have "rv_wallet_address r' = w'" if "find_receivable db w' = Some r'" for r'
      using that find_key_SomeD [of rv_wallet_address] by (auto simp: find_receivable_def)
    moreover have "receivable_ok (db_receivable db')"
      using ok bounds old(1,2) unfolding old(4) receivable_ok_def keys by auto
    ultimately show ?thesis
      using old(3) w join by (cases "find_receivable db w'") (auto simp: rv_value_def)
  next
    case (new u)
    have w: "balance db w = 0" using balance_eq(1) [OF ok] new(3) by simp
    have "w \<notin> rv_wallet_address ` set (db_receivable db)"
      using new(3) by (simp add: find_receivable_def find_key_None)
    then have "receivable_ok (db_receivable db')"
      using ok bounds new(1,2) unfolding new(4) receivable_ok_def by auto
    then show ?thesis
      using new(3) w join unfolding find_receivable_def new(4)
      by (auto simp: find_append rv_value_def split: option.splits)
  qed
  then show "receivable_ok (db_receivable db')"
    and "balance db' w' = balance db w' + (if w' = w then int (unat d) else 0)"
    using balance_eq(1) [OF ok] balance_eq(1) [of db'] by simp_all
qed

subsection \<open>The books along a run\<close>

definition books_ok :: "dao_env \<Rightarrow> receipt_db \<Rightarrow> charge list \<Rightarrow> receipt_db \<Rightarrow> bool" where
  "books_ok env db0 log db \<longleftrightarrow>
     authorizations_ok env log (db_authorizations db) \<and> checkpoints_ok env log (db_checkpoints db) \<and>
     receivable_ok (db_receivable db) \<and>
     (\<forall>w. balance db w = balance db0 w + int (logged (\<lambda>e. cg_wallet e = w) log))"

lemma books_ok_start: "fresh_db db \<Longrightarrow> books_ok env db [] db"
  by (simp add: books_ok_def fresh_db_def table_ok_def)

lemma balance_cong: "db_receivable db' = db_receivable db \<Longrightarrow> balance db' w = balance db w"
  by (simp add: balance_def find_receivable_def)

lemma books_ok_cong:
  assumes "db_authorizations db' = db_authorizations db" "db_checkpoints db' = db_checkpoints db"
    "db_receivable db' = db_receivable db"
  shows "books_ok env db0 log db' \<longleftrightarrow> books_ok env db0 log db"
  using assms balance_cong [OF assms(3)] by (simp add: books_ok_def)

lemma books_ok_accept:
  assumes codecs: "dao_codecs env" and ok: "books_ok env db0 log db"
    and acc: "accept_verified_receipt env db p c t = (Ok d, db')"
  shows "books_ok env db0 (log @ [charge_of p c d]) db'"
proof -
  from acc obtain aser cser pser cid ca aa spent ka ns db1 db2 db3 where
    ser: "de_to_vec_authorization env (srp_authorization p) = Ok aser" "de_to_vec_checkpoint env c = Ok cser"
    and sa: "stored_authorization env db (srp_authorization p) = Ok (aa, spent)"
    and cd: "charge_delta env db c = Ok (ka, d)" and ns: "checked_add spent d = Some ns"
      "ns \<le> rsp_max_total_charge_wei (payload_policy p)"
    and puts: "put_authorization (srp_authorization p) aser aa ns db = Ok db1"
      "put_checkpoint c cser ka db1 = Ok db2"
      "book_receivable (rsp_payer_wallet_address (payload_policy p)) d t db2 = Ok db3"
      "put_claim cid (srp_authorization p) c pser ca t (delete_archived cid db3) = Ok db'"
    by (rule accept_OkE)
  note frame = accept_tables [OF puts]
  let ?e = "charge_of p c d"
  have e: "srp_authorization (cg_payload ?e) = srp_authorization p" "cg_route ?e = ck_key c" "cg_delta ?e = unat d"
    "cg_wallet ?e = rsp_payer_wallet_address (payload_policy p)"
    by (simp_all add: charge_of_def cg_nonce_def cg_wallet_def)
  have "authorizations_ok env (log @ [?e]) (db_authorizations db')"
    unfolding frame(1) using ok by (intro authorizations_ok_charge [OF _ codecs ser(1) sa ns puts(1) e(1,3)]) (simp add: books_ok_def)
  moreover have "checkpoints_ok env (log @ [?e]) (db_checkpoints db')"
    unfolding frame(2) using ok by (intro checkpoints_ok_charge [OF _ codecs ser(2) cd puts(2) frame(3) e(2,3)]) (simp add: books_ok_def)
  moreover have r2: "receivable_ok (db_receivable db2)" using ok by (simp add: books_ok_def frame(5))
  moreover have "receivable_ok (db_receivable db')"
    unfolding frame(4) by (rule book_receivable_ok(1) [OF r2 puts(3)])
  moreover have "balance db' w = balance db w + (if w = cg_wallet ?e then int (unat d) else 0)" for w
    using book_receivable_ok(2) [OF r2 puts(3), of w] balance_cong [OF frame(4), of w] balance_cong [OF frame(5), of w]
    by (simp add: e)
  ultimately show ?thesis
    using ok e(3) by (auto simp: books_ok_def)
qed

definition moves_claims_only :: "receipt_db \<Rightarrow> receipt_db \<Rightarrow> bool" where
  "moves_claims_only db db' \<longleftrightarrow>
     db_checkpoints db' = db_checkpoints db \<and> db_authorizations db' = db_authorizations db \<and>
     db_receivable db' = db_receivable db \<and> db_offers db' = db_offers db \<and>
     db_reconciliation db' = db_reconciliation db \<and> db_provider_settlement db' = db_provider_settlement db"

lemma reconcile_claim_frame:
  "reconcile_claim env obs k (outcome, db) = Ok (outcome', db') \<Longrightarrow> moves_claims_only db db'"
  by (auto simp: reconcile_claim_def archive_pending_def restore_archived_def revalidate_archived_def Let_def res_simps
      moves_claims_only_def split: option.splits if_splits)

lemma reconcile_claims_frame:
  "reconcile_claims env obs ks (outcome, db) = Ok (outcome', db') \<Longrightarrow> moves_claims_only db db'"
proof (induction ks arbitrary: outcome db)
  case (Cons k ks)
  then obtain outcome1 db1 where k: "reconcile_claim env obs k (outcome, db) = Ok (outcome1, db1)"
    and "reconcile_claims env obs ks (outcome1, db1) = Ok (outcome', db')" by (auto simp: res_simps)
  with reconcile_claim_frame [OF k] Cons.IH show ?case by (simp add: moves_claims_only_def)
qed (simp add: moves_claims_only_def)

lemma reconcile_settlement_claims_cases:
  assumes "reconcile_settlement_claims env db obs = (r, db')"
  obtains (refused) "db' = db"
    | (applied) outcome db1 where "r = Ok outcome" "\<not> observation_invalid obs" "distinct (map csc_claim_id (obs_claims obs))"
      "\<And>row. db_reconciliation db = Some row \<Longrightarrow> check_observation row obs = Ok ()"
      "reconcile_claims env obs (obs_claims obs)
         (\<lparr>out_archived_claim_count = 0, out_restored_claim_count = 0, out_still_pending_claim_count = 0,
           out_revalidated_archive_count = 0, out_unknown_claim_count = 0\<rparr>, db) = Ok (outcome, db1)"
      "db' = db1\<lparr>db_reconciliation := Some
         \<lparr>rr_chain_id = decimal (unat (obs_chain_id obs)),
          rr_settlement_contract = be_bytes 20 (obs_settlement_contract obs),
          rr_confirmation_depth = decimal (unat (obs_confirmation_depth obs)),
          rr_observed_block_number = decimal (unat (obs_observed_block_number obs)),
          rr_observed_block_hash = be_bytes 32 (obs_observed_block_hash obs)\<rparr>\<rparr>"
proof (cases "\<exists>outcome. r = Ok outcome")
  case True
  then show thesis
    using assms unfolding reconcile_settlement_claims_def
    by (auto simp: run_transaction_Ok res_simps split: if_splits option.splits intro: applied)
next
  case False
  then show thesis
    using run_transaction_not_Ok assms unfolding reconcile_settlement_claims_def by (intro refused) blast
qed

lemma save_authorization_cases:
  assumes "save_authorization env db a = (r, db')"
  obtains "db' = db"
    | s where "de_to_vec_authorization env a = Ok s"
      "be_bytes 32 (rsp_authorization_nonce (ars_policy a)) \<notin> ar_authorization_nonce ` set (db_authorizations db)"
      "db' = db\<lparr>db_authorizations := db_authorizations db @ [authorization_row_of a ''0'' s]\<rparr>"
  using assms unfolding save_authorization_def
  by (cases r) (auto simp: run_transaction_Ok res_simps insert_unique_eq_Ok image_iff dest: run_transaction_not_Ok)

lemma save_routing_offer_state_frame:
  assumes "save_routing_offer_state env db st now m = (r, db')"
  shows "db' = db\<lparr>db_offers := db_offers db'\<rparr>"
proof (cases "\<exists>u. r = Ok u")
  case True
  then show ?thesis
    using assms unfolding save_routing_offer_state_def
    by (auto simp: run_transaction_Ok res_simps Let_def split: if_splits option.splits)
next
  case False
  then have "db' = db"
    using run_transaction_not_Ok assms unfolding save_routing_offer_state_def by blast
  then show ?thesis by simp
qed

lemma save_provider_settlement_frame:
  assumes "save_provider_settlement_authorization env db a = (r, db')"
  shows "db' = db\<lparr>db_provider_settlement := db_provider_settlement db'\<rparr>"
  using assms unfolding save_provider_settlement_authorization_def
  by (cases r) (auto simp: run_transaction_Ok res_simps dest: run_transaction_not_Ok)

lemma decimal_0: "decimal 0 = ''0''"
  by (subst decimal.simps) (simp, code_simp)

lemma books_ok_other:
  assumes "dao_other env db db'" and ok: "books_ok env db0 log db"
  shows "books_ok env db0 log db'"
  using assms(1)
proof cases
  case (refused p c t r)
  then have "db' = db" using run_transaction_not_Ok unfolding accept_verified_receipt_def Let_def by blast
  with ok show ?thesis by simp
next
  case (authorized a r)
  then show ?thesis
  proof (cases rule: save_authorization_cases)
    case (2 s)
    have "authorizations_ok env log (db_authorizations db')"
      using ok 2 by (auto simp: books_ok_def authorization_good_def decimal_0 intro!: table_ok_insert exI [of _ a])
    moreover have "balance db' w = balance db w" for w using 2(3) by (intro balance_cong) simp
    ultimately show ?thesis using ok 2(3) by (simp add: books_ok_def)
  qed (use ok in simp)
next
  case (offered s now m r)
  from save_routing_offer_state_frame [OF this] obtain x where "db' = db\<lparr>db_offers := x\<rparr>" by blast
  with ok show ?thesis using books_ok_cong [of db' db env db0 log] by simp
next
  case (reconciled obs r)
  then show ?thesis
  proof (cases rule: reconcile_settlement_claims_cases)
    case (applied outcome db1)
    have "db_authorizations db' = db_authorizations db" "db_checkpoints db' = db_checkpoints db"
      "db_receivable db' = db_receivable db"
      using reconcile_claims_frame [OF applied(5)] applied(6) by (simp_all add: moves_claims_only_def)
    then show ?thesis using ok books_ok_cong by blast
  qed (use ok in simp)
next
  case (saved aps r)
  from save_provider_settlement_frame [OF this] obtain x where "db' = db\<lparr>db_provider_settlement := x\<rparr>" by blast
  with ok show ?thesis using books_ok_cong [of db' db env db0 log] by simp
next
  case (cleared r)
  then have "db' = db\<lparr>db_provider_settlement := None\<rparr>" by (simp add: clear_provider_settlement_authorization_def)
  with ok show ?thesis using books_ok_cong [of db' db env db0 log] by simp
qed

lemma dao_run_books:
  assumes "dao_run env db0 log db" "dao_codecs env" "fresh_db db0"
  shows "books_ok env db0 log db"
  using assms by (induction rule: dao_run.induct) (auto intro: books_ok_start books_ok_accept books_ok_other)

text \<open>
  C3. The provider's books balance. After any run of the node's calls on a fresh database, the
  stored authorization of every nonce is the one under which all its charges were accepted, what it
  has spent is the sum of those charges, and the sum is within the signed limit; the cumulative
  charge of every route's checkpoint is the sum of the charges of the route; and every wallet owes
  what it owed before plus the charges accepted from it, as far as receipts go.
\<close>

theorem provider_books_balance:
  assumes "dao_codecs env" and "fresh_db db0" and "dao_run env db0 log db"
  shows "(\<forall>e\<in>set log. find_authorization db (cg_nonce e) \<noteq> None \<and> find_checkpoint db (cg_route e) \<noteq> None) \<and>
    (\<forall>nonce r. find_authorization db nonce = Some r \<longrightarrow>
       (\<exists>a spent. dao_authorization env db nonce = Ok (Some a) \<and> rsp_authorization_nonce (ars_policy a) = nonce \<and>
          (\<forall>e\<in>set log. cg_nonce e = nonce \<longrightarrow> srp_authorization (cg_payload e) = a) \<and>
          stored_u128 (ar_spent_charge_wei r) = Ok spent \<and> unat spent = logged (\<lambda>e. cg_nonce e = nonce) log \<and>
          spent \<le> rsp_max_total_charge_wei (ars_policy a))) \<and>
    (\<forall>k r. find_checkpoint db k = Some r \<longrightarrow>
       (\<exists>c. deserialize_checkpoint env (cr_checkpoint_cbor r) = Ok c \<and> ck_key c = k \<and>
          unat (ck_cumulative_charge_wei c) = logged (\<lambda>e. cg_route e = k) log)) \<and>
    (\<forall>w. balance db w = balance db0 w + int (logged (\<lambda>e. cg_wallet e = w) log))"
proof -
  have ok: "authorizations_ok env log (db_authorizations db)" "checkpoints_ok env log (db_checkpoints db)"
    and bal: "\<forall>w. balance db w = balance db0 w + int (logged (\<lambda>e. cg_wallet e = w) log)"
    using dao_run_books [OF assms(3,1,2)] by (auto simp: books_ok_def)
  have "find_authorization db (cg_nonce e) \<noteq> None \<and> find_checkpoint db (cg_route e) \<noteq> None" if "e \<in> set log" for e
    using ok that by (auto simp: find_authorization_def find_checkpoint_def find_key_None table_ok_def)
  moreover have "\<exists>a spent. dao_authorization env db nonce = Ok (Some a) \<and> rsp_authorization_nonce (ars_policy a) = nonce \<and>
          (\<forall>e\<in>set log. cg_nonce e = nonce \<longrightarrow> srp_authorization (cg_payload e) = a) \<and>
          stored_u128 (ar_spent_charge_wei r) = Ok spent \<and> unat spent = logged (\<lambda>e. cg_nonce e = nonce) log \<and>
          spent \<le> rsp_max_total_charge_wei (ars_policy a)"
    if f: "find_authorization db nonce = Some r" for nonce r
  proof -
    have r: "r \<in> set (db_authorizations db)" "ar_authorization_nonce r = be_bytes 32 nonce"
      using f find_key_SomeD [of ar_authorization_nonce] by (auto simp: find_authorization_def)
    with ok(1) have "authorization_good env (filter (\<lambda>e. cg_nonce e = nonce) log) r"
      by (auto simp: table_ok_def)
    then obtain a s where a: "de_to_vec_authorization env a = Ok s"
        "\<forall>e\<in>set log. cg_nonce e = nonce \<longrightarrow> srp_authorization (cg_payload e) = a"
        "logged (\<lambda>e. cg_nonce e = nonce) log \<le> unat (rsp_max_total_charge_wei (ars_policy a))"
        "r = authorization_row_of a (decimal (logged (\<lambda>e. cg_nonce e = nonce) log)) s"
      by (auto simp: authorization_good_def logged_def)
    define spent :: u128 where "spent = of_nat (logged (\<lambda>e. cg_nonce e = nonce) log)"
    have "unat spent = logged (\<lambda>e. cg_nonce e = nonce) log"
      using a(3) unat_less_2p [of "rsp_max_total_charge_wei (ars_policy a)"] by (simp add: spent_def unat_of_nat_less)
    then show ?thesis
      using a r(2) f assms(1)
      by (intro exI [of _ a] exI [of _ spent])
        (auto simp: dao_authorization_def deserialize_authorization_def dao_codecs_def stored_amount_charged word_le_nat_alt)
  qed
  moreover have "\<exists>c. deserialize_checkpoint env (cr_checkpoint_cbor r) = Ok c \<and> ck_key c = k \<and>
      unat (ck_cumulative_charge_wei c) = logged (\<lambda>e. cg_route e = k) log"
    if "find_checkpoint db k = Some r" for k r
    using that ok(2) assms(1) find_key_SomeD [of cr_key k "db_checkpoints db" r]
    by (fastforce simp: find_checkpoint_def table_ok_def checkpoint_good_def deserialize_checkpoint_def dao_codecs_def logged_def)
  ultimately show ?thesis using bal by blast
qed

end
