(* ===== verification/Receipt_Claims.thy ===== *)
theory Receipt_Claims
  imports Receipt_Ledger
begin

section \<open>The provider's claims\<close>

text \<open>
  Where the claims for accepted charges are: pending in the outbox, or archived once the chain has
  confirmed them. Continues the theory of the books with the same runs.
\<close>

subsection \<open>The claims\<close>

text \<open>All claims, pending or archived.\<close>

definition all_claims :: "receipt_db \<Rightarrow> claim_row list" where
  "all_claims db = db_outbox db @ map av_claim (db_archive db)"

definition payload_identity :: "service_receipt_payload \<Rightarrow> claim_identity" where
  "payload_identity p =
     (rsp_chain_id (payload_policy p), rsp_settlement_contract (payload_policy p),
      rsp_payer_wallet_address (payload_policy p), payload_session_key p,
      sr_route_epoch (payload_receipt p), sr_provider_public_key (payload_receipt p),
      sr_accounting_commitment (payload_receipt p))"

text \<open>No two accepted receipts of different identity have the same claim id.\<close>

definition claim_ids_distinct :: "dao_env \<Rightarrow> charge list \<Rightarrow> bool" where
  "claim_ids_distinct env log \<longleftrightarrow>
     (\<forall>e\<in>set log. \<forall>f\<in>set log. payload_identity (cg_payload e) \<noteq> payload_identity (cg_payload f) \<longrightarrow>
        receipt_settlement_claim_id (de_settlement_env env) (cg_payload e) \<noteq>
        receipt_settlement_claim_id (de_settlement_env env) (cg_payload f))"

lemma claim_id_cong:
  "payload_identity p = payload_identity q \<Longrightarrow> receipt_settlement_claim_id env p = receipt_settlement_claim_id env q"
  by (simp add: receipt_settlement_claim_id_def payload_identity_def Let_def)

definition route_of :: "service_receipt_payload \<Rightarrow> route_key" where
  "route_of p = (be_bytes 32 (sr_route_epoch (payload_receipt p)), sr_provider_public_key (payload_receipt p), payload_session_key p)"

definition commitment_ok :: "dao_env \<Rightarrow> service_receipt_payload \<Rightarrow> bool" where
  "commitment_ok env p \<longleftrightarrow> sr_accounting_commitment (payload_receipt p) =
     make_accounting_commitment (se_receipt_env (de_settlement_env env)) (sr_route_epoch (payload_receipt p)) (payload_session_key p)"

lemma route_of_identity: "payload_identity p = payload_identity q \<Longrightarrow> route_of p = route_of q"
  by (simp add: payload_identity_def route_of_def)

lemma identity_by_route:
  "srp_authorization p = srp_authorization q \<Longrightarrow> route_of p = route_of q \<Longrightarrow> commitment_ok env p \<Longrightarrow> commitment_ok env q \<Longrightarrow>
     payload_identity p = payload_identity q"
  by (simp add: payload_identity_def route_of_def commitment_ok_def)

lemma deserialize_claim_row_Ok:
  "deserialize_claim_row env row = Ok p \<longleftrightarrow>
     de_from_slice_payload env (cl_receipt_payload_cbor row) = Ok p \<and>
     cl_authorization_nonce row = be_bytes 32 (rsp_authorization_nonce (payload_policy p)) \<and>
     cl_key row = route_of p \<and> rsp_payer_session_public_key (payload_policy p) = payload_session_key p \<and>
     stored_u128 (cl_cumulative_charge_wei row) = Ok (payload_charge p) \<and>
     (\<exists>i. receipt_settlement_claim_id (de_settlement_env env) p = Ok i \<and> cl_claim_id row = be_bytes 32 i)"
  by (auto simp: deserialize_claim_row_def deserialize_settlement_claim_def Let_def res_simps cl_key_def route_of_def
      payload_charge_def split: if_splits)

text \<open>A claim row holds a logged receipt of its route, and its texts can be read back.\<close>

definition claim_good :: "dao_env \<Rightarrow> charge list \<Rightarrow> claim_row \<Rightarrow> bool" where
  "claim_good env log row \<longleftrightarrow>
     (\<exists>e\<in>set log. deserialize_claim_row env row = Ok (cg_payload e) \<and> commitment_ok env (cg_payload e) \<and>
        cl_cumulative_charge_wei row = decimal (unat (payload_charge (cg_payload e)))) \<and>
     (\<exists>n. stored_u64 (cl_accepted_at_unix_s row) = Ok n)"

definition archive_good :: "archive_row \<Rightarrow> bool" where
  "archive_good r \<longleftrightarrow>
     (\<exists>charge confirmed. stored_u128 (cl_cumulative_charge_wei (av_claim r)) = Ok charge \<and>
        stored_u128 (av_confirmed_cumulative_charge_wei r) = Ok confirmed \<and> charge \<le> confirmed)"

definition claims_ok :: "dao_env \<Rightarrow> charge list \<Rightarrow> receipt_db \<Rightarrow> bool" where
  "claims_ok env log db \<longleftrightarrow>
     distinct (map cl_claim_id (all_claims db)) \<and> distinct (map cl_key (db_outbox db)) \<and>
     (\<forall>row\<in>set (all_claims db). claim_good env log row) \<and> (\<forall>r\<in>set (db_archive db). archive_good r) \<and>
     (\<forall>k\<in>set (db_checkpoints db). \<exists>row\<in>set (all_claims db).
        cl_key row = cr_key k \<and> cl_cumulative_charge_wei row = cr_cumulative_charge_wei k)"

lemma claims_ok_cong:
  assumes "db_outbox db' = db_outbox db" "db_archive db' = db_archive db" "db_checkpoints db' = db_checkpoints db"
  shows "claims_ok env log db' \<longleftrightarrow> claims_ok env log db"
  using assms by (simp add: claims_ok_def all_claims_def)

lemma claim_good_append: "claim_good env log row \<Longrightarrow> claim_good env (log @ [e]) row"
  by (auto simp: claim_good_def)

subsection \<open>Claims move, and none is lost\<close>

lemma filter_key_single:
  "distinct (map key rows) \<Longrightarrow> r \<in> set rows \<Longrightarrow> filter (\<lambda>r'. key r' = key r) rows = [r]"
proof (induction rows)
  case (Cons a rows)
  show ?case
  proof (cases "a = r")
    case True
    with Cons.prems have "\<forall>x\<in>set rows. key x \<noteq> key r" by auto (metis imageI)
    with True show ?thesis by simp
  next
    case False
    with Cons.prems have "key a \<noteq> key r" "r \<in> set rows" by auto
    with Cons show ?thesis by simp
  qed
qed simp

lemma mset_filter_key:
  assumes "distinct (map key rows)" "r \<in> set rows"
  shows "mset rows = add_mset r (mset (filter (\<lambda>r'. key r' \<noteq> key r) rows))"
  using multiset_partition [of "mset rows" "\<lambda>r'. key r' = key r"] filter_key_single [OF assms]
  by (simp flip: mset_filter)

text \<open>
  One observed claim: exactly one counter goes up by one, and the claims stay the same, wherever
  they are kept.
\<close>

definition outcome_total :: "settlement_reconciliation_outcome \<Rightarrow> nat" where
  "outcome_total o' = out_archived_claim_count o' + out_restored_claim_count o' + out_still_pending_claim_count o' +
     out_revalidated_archive_count o' + out_unknown_claim_count o'"

lemma find_pending_SomeD: "find_pending db i = Some row \<Longrightarrow> row \<in> set (db_outbox db) \<and> cl_claim_id row = be_bytes 32 i"
  using find_key_SomeD [of cl_claim_id] by (auto simp: find_pending_def)

lemma find_archived_SomeD:
  "find_archived db i = Some r \<Longrightarrow> r \<in> set (db_archive db) \<and> cl_claim_id (av_claim r) = be_bytes 32 i"
  using find_key_SomeD [of "\<lambda>r. cl_claim_id (av_claim r)"] by (auto simp: find_archived_def)

lemma archive_pending_effect:
  assumes dist: "distinct (map cl_claim_id (all_claims db))" and row: "row \<in> set (db_outbox db)"
    "cl_claim_id row = be_bytes 32 (csc_claim_id k)"
    and arch: "archive_pending obs k row db = (n, db')"
  shows "n = 1" "mset (all_claims db') = mset (all_claims db)"
    "mset (db_outbox db) = add_mset row (mset (db_outbox db'))"
    "set (db_archive db') = insert \<lparr>av_claim = row,
        av_confirmed_cumulative_charge_wei = decimal (unat (csc_cumulative_charge_wei k)),
        av_observed_block_number = decimal (unat (obs_observed_block_number obs)),
        av_observed_block_hash = be_bytes 32 (obs_observed_block_hash obs)\<rparr> (set (db_archive db))"
proof -
  have d: "distinct (map cl_claim_id (db_outbox db))" using dist by (simp add: all_claims_def)
  have hit: "(cl_claim_id r = be_bytes 32 (csc_claim_id k) \<and> cl_receipt_payload_cbor r = cl_receipt_payload_cbor row) \<longleftrightarrow>
      cl_claim_id r = cl_claim_id row" if "r \<in> set (db_outbox db)" for r
    using d row that by (auto simp: distinct_map inj_on_def)
  have none: "\<not> list_ex (\<lambda>r. cl_claim_id (av_claim r) = cl_claim_id row) (db_archive db)"
    using dist row(1) by (fastforce simp: list_ex_iff all_claims_def)
  have f: "filter (\<lambda>r. cl_claim_id r = be_bytes 32 (csc_claim_id k) \<and> cl_receipt_payload_cbor r = cl_receipt_payload_cbor row)
      (db_outbox db) = filter (\<lambda>r. cl_claim_id r = cl_claim_id row) (db_outbox db)"
    "filter (\<lambda>r. \<not> (cl_claim_id r = be_bytes 32 (csc_claim_id k) \<and> cl_receipt_payload_cbor r = cl_receipt_payload_cbor row))
      (db_outbox db) = filter (\<lambda>r. cl_claim_id r \<noteq> cl_claim_id row) (db_outbox db)"
    using hit by (auto intro!: filter_cong)
  note arch' = arch [unfolded archive_pending_def Let_def f]
  show "n = 1" using arch' filter_key_single [OF d row(1)] by simp
  show out: "mset (db_outbox db) = add_mset row (mset (db_outbox db'))"
    using arch' mset_filter_key [OF d row(1)] by auto
  show "set (db_archive db') = insert \<lparr>av_claim = row,
        av_confirmed_cumulative_charge_wei = decimal (unat (csc_cumulative_charge_wei k)),
        av_observed_block_number = decimal (unat (obs_observed_block_number obs)),
        av_observed_block_hash = be_bytes 32 (obs_observed_block_hash obs)\<rparr> (set (db_archive db))"
    using arch' none by auto
  show "mset (all_claims db') = mset (all_claims db)"
    using arch' none out by (auto simp: all_claims_def)
qed

lemma restore_archived_effect:
  assumes dist: "distinct (map cl_claim_id (all_claims db))" and r: "r \<in> set (db_archive db)"
    "cl_claim_id (av_claim r) = be_bytes 32 (csc_claim_id k)"
    and res: "restore_archived k r db = Ok (n, db')"
  shows "n = 1" "mset (all_claims db') = mset (all_claims db)"
    "db_outbox db' = db_outbox db @ [av_claim r]" "\<forall>row\<in>set (db_outbox db). cl_key row \<noteq> cl_key (av_claim r)"
    "set (db_archive db') \<subseteq> set (db_archive db)"
proof -
  let ?key = "\<lambda>r. cl_claim_id (av_claim r)"
  have d: "distinct (map ?key (db_archive db))" using dist by (simp add: all_claims_def comp_def)
  have db': "n = length (filter (\<lambda>r'. ?key r' = ?key r) (db_archive db))"
    "db' = db\<lparr>db_outbox := db_outbox db @ [av_claim r], db_archive := filter (\<lambda>r'. ?key r' \<noteq> ?key r) (db_archive db)\<rparr>"
    and nc: "\<forall>row\<in>set (db_outbox db). \<not> outbox_conflicts (av_claim r) row"
    using res r(2) by (auto simp: restore_archived_def Let_def res_simps insert_unique_eq_Ok)
  show "n = 1" using db'(1) filter_key_single [OF d r(1)] by simp
  show "mset (all_claims db') = mset (all_claims db)"
    using arg_cong [OF mset_filter_key [OF d r(1)], of "image_mset av_claim"] by (simp add: db'(2) all_claims_def)
  show "db_outbox db' = db_outbox db @ [av_claim r]" "\<forall>row\<in>set (db_outbox db). cl_key row \<noteq> cl_key (av_claim r)"
    "set (db_archive db') \<subseteq> set (db_archive db)"
    using nc by (auto simp: db'(2) outbox_conflicts_def)
qed

lemma revalidate_archived_effect:
  assumes dist: "distinct (map cl_claim_id (all_claims db))" and r: "r \<in> set (db_archive db)"
    "cl_claim_id (av_claim r) = be_bytes 32 (csc_claim_id k)"
    and rev: "revalidate_archived obs k db = (n, db')"
  shows "n = 1" "all_claims db' = all_claims db" "db_outbox db' = db_outbox db"
    "\<forall>r'\<in>set (db_archive db'). r' \<in> set (db_archive db) \<or>
       av_claim r' = av_claim r \<and> av_confirmed_cumulative_charge_wei r' = decimal (unat (csc_cumulative_charge_wei k))"
proof -
  let ?key = "\<lambda>r. cl_claim_id (av_claim r)"
  have d: "distinct (map ?key (db_archive db))" using dist by (simp add: all_claims_def comp_def)
  have "r' = r" if "r' \<in> set (db_archive db)" "?key r' = ?key r" for r'
    using d that r(1) by (auto simp: distinct_map inj_on_def)
  then show "\<forall>r'\<in>set (db_archive db'). r' \<in> set (db_archive db) \<or>
      av_claim r' = av_claim r \<and> av_confirmed_cumulative_charge_wei r' = decimal (unat (csc_cumulative_charge_wei k))"
    using rev r(2) by (auto simp: revalidate_archived_def Let_def)
  show "n = 1" using rev filter_key_single [OF d r(1)] r(2) by (auto simp: revalidate_archived_def Let_def)
  show "all_claims db' = all_claims db" "db_outbox db' = db_outbox db"
    using rev by (auto simp: revalidate_archived_def Let_def all_claims_def)
qed

lemma reconcile_pending_Ok:
  assumes "find_pending db (csc_claim_id k) = Some row"
    and "reconcile_claim env obs k (outcome, db) = Ok (outcome', db')"
  obtains p where "deserialize_claim_row env row = Ok p"
    "csc_cumulative_charge_wei k < payload_charge p \<longrightarrow> db' = db \<and>
       outcome' = outcome\<lparr>out_still_pending_claim_count := Suc (out_still_pending_claim_count outcome)\<rparr>"
    "\<not> csc_cumulative_charge_wei k < payload_charge p \<longrightarrow> (\<exists>n. archive_pending obs k row db = (n, db') \<and>
       outcome' = outcome\<lparr>out_archived_claim_count := out_archived_claim_count outcome + n\<rparr>)"
  using assms by (auto simp: reconcile_claim_def res_simps case_prod_unfold prod_eq_iff Let_def split: if_splits)

lemma reconcile_archived_Ok:
  assumes "find_pending db (csc_claim_id k) = None" "find_archived db (csc_claim_id k) = Some r"
    and "reconcile_claim env obs k (outcome, db) = Ok (outcome', db')"
  obtains p where "deserialize_claim_row env (av_claim r) = Ok p"
    "csc_cumulative_charge_wei k < payload_charge p \<longrightarrow> (\<exists>n. restore_archived k r db = Ok (n, db') \<and>
       outcome' = outcome\<lparr>out_restored_claim_count := out_restored_claim_count outcome + n\<rparr>)"
    "\<not> csc_cumulative_charge_wei k < payload_charge p \<longrightarrow> (\<exists>n. revalidate_archived obs k db = (n, db') \<and>
       outcome' = outcome\<lparr>out_revalidated_archive_count := out_revalidated_archive_count outcome + n\<rparr>)"
  using assms by (auto simp: reconcile_claim_def res_simps case_prod_unfold prod_eq_iff Let_def split: if_splits)

lemma reconcile_claim_cases:
  assumes dist: "distinct (map cl_claim_id (all_claims db))"
    and rec: "reconcile_claim env obs k (outcome, db) = Ok (outcome', db')"
  obtains (unchanged) "db' = db" "outcome_total outcome' = Suc (outcome_total outcome)"
    | (archived) row p where "outcome_total outcome' = Suc (outcome_total outcome)"
      "row \<in> set (db_outbox db)" "cl_claim_id row = be_bytes 32 (csc_claim_id k)"
      "deserialize_claim_row env row = Ok p" "payload_charge p \<le> csc_cumulative_charge_wei k"
      "archive_pending obs k row db = (1, db')"
    | (restored) r where "outcome_total outcome' = Suc (outcome_total outcome)"
      "r \<in> set (db_archive db)" "cl_claim_id (av_claim r) = be_bytes 32 (csc_claim_id k)"
      "restore_archived k r db = Ok (1, db')"
    | (revalidated) r p where "outcome_total outcome' = Suc (outcome_total outcome)"
      "r \<in> set (db_archive db)" "cl_claim_id (av_claim r) = be_bytes 32 (csc_claim_id k)"
      "deserialize_claim_row env (av_claim r) = Ok p" "payload_charge p \<le> csc_cumulative_charge_wei k"
      "revalidate_archived obs k db = (1, db')"
proof (cases "find_pending db (csc_claim_id k)")
  case (Some row)
  then have row: "row \<in> set (db_outbox db)" "cl_claim_id row = be_bytes 32 (csc_claim_id k)"
    using find_pending_SomeD by blast+
  obtain p where p: "deserialize_claim_row env row = Ok p"
    "csc_cumulative_charge_wei k < payload_charge p \<longrightarrow> db' = db \<and>
       outcome' = outcome\<lparr>out_still_pending_claim_count := Suc (out_still_pending_claim_count outcome)\<rparr>"
    "\<not> csc_cumulative_charge_wei k < payload_charge p \<longrightarrow> (\<exists>n. archive_pending obs k row db = (n, db') \<and>
       outcome' = outcome\<lparr>out_archived_claim_count := out_archived_claim_count outcome + n\<rparr>)"
    using reconcile_pending_Ok [OF Some rec] by metis
  show thesis
  proof (cases "csc_cumulative_charge_wei k < payload_charge p")
    case True
    then show thesis using p(2) by (intro unchanged) (simp_all add: outcome_total_def)
  next
    case False
    with p(3) obtain n where n: "archive_pending obs k row db = (n, db')"
      "outcome' = outcome\<lparr>out_archived_claim_count := out_archived_claim_count outcome + n\<rparr>" by blast
    with archive_pending_effect(1) [OF dist row n(1)] False show thesis
      by (intro archived [OF _ row p(1)]) (simp_all add: outcome_total_def)
  qed
next
  case None
  show thesis
  proof (cases "find_archived db (csc_claim_id k)")
    case None': None
    show thesis using rec None None' by (intro unchanged) (auto simp: reconcile_claim_def outcome_total_def)
  next
    case (Some r)
    then have r: "r \<in> set (db_archive db)" "cl_claim_id (av_claim r) = be_bytes 32 (csc_claim_id k)"
      using find_archived_SomeD by blast+
    obtain p where p: "deserialize_claim_row env (av_claim r) = Ok p"
      "csc_cumulative_charge_wei k < payload_charge p \<longrightarrow> (\<exists>n. restore_archived k r db = Ok (n, db') \<and>
         outcome' = outcome\<lparr>out_restored_claim_count := out_restored_claim_count outcome + n\<rparr>)"
      "\<not> csc_cumulative_charge_wei k < payload_charge p \<longrightarrow> (\<exists>n. revalidate_archived obs k db = (n, db') \<and>
         outcome' = outcome\<lparr>out_revalidated_archive_count := out_revalidated_archive_count outcome + n\<rparr>)"
      using reconcile_archived_Ok [OF None Some rec] by metis
    show thesis
    proof (cases "csc_cumulative_charge_wei k < payload_charge p")
      case True
      with p(2) obtain n where n: "restore_archived k r db = Ok (n, db')"
        "outcome' = outcome\<lparr>out_restored_claim_count := out_restored_claim_count outcome + n\<rparr>" by blast
      with restore_archived_effect(1) [OF dist r n(1)] show thesis
        by (intro restored [OF _ r]) (simp_all add: outcome_total_def)
    next
      case False
      with p(3) obtain n where n: "revalidate_archived obs k db = (n, db')"
        "outcome' = outcome\<lparr>out_revalidated_archive_count := out_revalidated_archive_count outcome + n\<rparr>" by blast
      with revalidate_archived_effect(1) [OF dist r n(1)] False show thesis
        by (intro revalidated [OF _ r p(1)]) (simp_all add: outcome_total_def)
    qed
  qed
qed

lemma claims_ok_moved:
  assumes ok: "claims_ok env log db" and same: "mset (all_claims db') = mset (all_claims db)"
    and "db_checkpoints db' = db_checkpoints db" "distinct (map cl_key (db_outbox db'))" "\<forall>r\<in>set (db_archive db'). archive_good r"
  shows "claims_ok env log db'"
proof -
  have "mset (map cl_claim_id (all_claims db')) = mset (map cl_claim_id (all_claims db))"
    using same by simp
  then have "distinct (map cl_claim_id (all_claims db'))"
    using ok mset_eq_imp_distinct_iff unfolding claims_ok_def by blast
  moreover have "set (all_claims db') = set (all_claims db)" using same by (rule mset_eq_setD)
  ultimately show ?thesis using ok assms(3-5) by (simp add: claims_ok_def)
qed

lemma claims_ok_reconcile_claim:
  assumes ok: "claims_ok env log db" and rec: "reconcile_claim env obs k (outcome, db) = Ok (outcome', db')"
  shows "claims_ok env log db'"
proof -
  have dist: "distinct (map cl_claim_id (all_claims db))" and keys: "distinct (map cl_key (db_outbox db))"
    and arch: "\<forall>r\<in>set (db_archive db). archive_good r"
    using ok by (auto simp: claims_ok_def)
  have ck: "db_checkpoints db' = db_checkpoints db"
    using reconcile_claim_frame [OF rec] by (simp add: moves_claims_only_def)
  from dist rec show ?thesis
  proof (cases rule: reconcile_claim_cases)
    case unchanged
    with ok show ?thesis by simp
  next
    case (archived row p)
    note eff = archive_pending_effect [OF dist archived(2,3,6)]
    have "mset (map cl_key (db_outbox db)) = mset (map cl_key (row # db_outbox db'))"
      using eff(3) by simp
    then have "distinct (map cl_key (row # db_outbox db'))" using keys mset_eq_imp_distinct_iff by blast
    then show ?thesis
      using arch archived(4,5) eff(4) by (intro claims_ok_moved [OF ok eff(2) ck]) (auto simp: archive_good_def deserialize_claim_row_Ok)
  next
    case (restored r)
    note eff = restore_archived_effect [OF dist restored(2,3,4)]
    show ?thesis
      using keys arch eff(3-5) by (intro claims_ok_moved [OF ok eff(2) ck]) auto
  next
    case (revalidated r p)
    note eff = revalidate_archived_effect [OF dist revalidated(2,3,6)]
    have charge: "stored_u128 (cl_cumulative_charge_wei (av_claim r)) = Ok (payload_charge p)"
      using revalidated(4) by (simp add: deserialize_claim_row_Ok)
    have "archive_good r'" if "r' \<in> set (db_archive db')" for r'
      using eff(4) that arch charge revalidated(5) by (cases "r' \<in> set (db_archive db)") (auto simp: archive_good_def)
    then show ?thesis
      using keys eff(3) by (intro claims_ok_moved [OF ok arg_cong [OF eff(2)] ck]) simp_all
  qed
qed

lemma claims_ok_reconcile_claims:
  "claims_ok env log db \<Longrightarrow> reconcile_claims env obs ks (outcome, db) = Ok (outcome', db') \<Longrightarrow>
     claims_ok env log db' \<and> outcome_total outcome' = outcome_total outcome + length ks \<and>
     mset (all_claims db') = mset (all_claims db)"
proof (induction ks arbitrary: outcome db)
  case (Cons k ks)
  then obtain outcome1 db1 where k: "reconcile_claim env obs k (outcome, db) = Ok (outcome1, db1)"
    and ks: "reconcile_claims env obs ks (outcome1, db1) = Ok (outcome', db')" by (auto simp: res_simps)
  have dist: "distinct (map cl_claim_id (all_claims db))" using Cons.prems(1) by (simp add: claims_ok_def)
  from dist k have "outcome_total outcome1 = Suc (outcome_total outcome) \<and> mset (all_claims db1) = mset (all_claims db)"
  proof (cases rule: reconcile_claim_cases)
    case (archived row p)
    with archive_pending_effect(2) [OF dist archived(2,3,6)] show ?thesis by simp
  next
    case (restored r)
    with restore_archived_effect(2) [OF dist restored(2,3,4)] show ?thesis by simp
  next
    case (revalidated r p)
    with revalidate_archived_effect(2) [OF dist revalidated(2,3,6)] show ?thesis by simp
  qed simp
  with Cons.IH [OF claims_ok_reconcile_claim [OF Cons.prems(1) k] ks] show ?case by simp
qed simp

subsection \<open>Claims of accepted receipts\<close>

lemma validate_claim_Ok:
  assumes "validate_settlement_claim_for_checkpoint p c = Ok ()"
    and "make_accounting_commitment (se_receipt_env (de_settlement_env env)) (ck_route_epoch c) (ck_payer_session_public_key c) =
       ck_accounting_commitment c"
  shows "route_of p = ck_key c" "payload_charge p = ck_cumulative_charge_wei c" "commitment_ok env p"
    "rsp_payer_session_public_key (payload_policy p) = payload_session_key p"
  using assms
  by (auto simp: validate_settlement_claim_for_checkpoint_def Let_def route_of_def ck_key_def payload_charge_def
      commitment_ok_def split: if_splits)

lemma to_unix_timestamp_Ok: "to_unix_timestamp t = Ok u \<longleftrightarrow> 0 \<le> t \<and> t < 2 ^ 63 \<and> u = t"
  by (auto simp: to_unix_timestamp_def)

lemma stored_timestamp:
  assumes "0 \<le> t" "t < 2 ^ 63"
  shows "stored_u64 (decimal (nat t)) = Ok (of_nat (nat t))"
proof -
  have "unat (of_nat (nat t) :: u64) = nat t"
    using assms by (intro unat_of_nat_less) simp
  then show ?thesis by (metis stored_u64_decimal)
qed

text \<open>Two logged receipts with one claim id belong to one route.\<close>

lemma claim_id_route:
  assumes "claim_ids_distinct env log" "e \<in> set log" "f \<in> set log"
    "receipt_settlement_claim_id (de_settlement_env env) (cg_payload e) = Ok i"
    "receipt_settlement_claim_id (de_settlement_env env) (cg_payload f) = Ok i"
  shows "route_of (cg_payload e) = route_of (cg_payload f)"
  using assms route_of_identity unfolding claim_ids_distinct_def by metis

lemma stored_claim_Ok:
  assumes "stored_claim env db a c = Ok stored"
  shows "stored \<Longrightarrow> \<exists>row q. row \<in> set (db_outbox db) \<and> cl_key row = ck_key c \<and> deserialize_claim_row env row = Ok q \<and>
      srp_authorization q = a"
    and "\<not> stored \<Longrightarrow> ck_key c \<notin> cl_key ` set (db_outbox db)"
proof -
  have "deserialize_claim_row env row = deserialize_settlement_claim env (cl_claim_id row) (cl_authorization_nonce row)
      (be_bytes 32 (ck_route_epoch c)) (ck_provider_public_key c) (ck_payer_session_public_key c)
      (cl_cumulative_charge_wei row) (cl_receipt_payload_cbor row)" if "cl_key row = ck_key c" for row
    using that by (simp add: deserialize_claim_row_def cl_key_def ck_key_def)
  then show "stored \<Longrightarrow> \<exists>row q. row \<in> set (db_outbox db) \<and> cl_key row = ck_key c \<and> deserialize_claim_row env row = Ok q \<and>
      srp_authorization q = a"
    and "\<not> stored \<Longrightarrow> ck_key c \<notin> cl_key ` set (db_outbox db)"
    using assms find_key_SomeD [of cl_key "ck_key c" "db_outbox db"] find_key_None [of cl_key "ck_key c" "db_outbox db"]
    by (auto simp: stored_claim_def find_claim_def res_simps split: option.splits if_splits)
qed

lemma accepted_claim_good:
  assumes codecs: "dao_codecs env" and "de_to_vec_payload env p = Ok s"
    and "receipt_settlement_claim_id (de_settlement_env env) p = Ok i"
    and "cl_claim_id row = be_bytes 32 i" "cl_authorization_nonce row = be_bytes 32 (rsp_authorization_nonce (payload_policy p))"
    and "cl_key row = route_of p" "cl_cumulative_charge_wei row = decimal (unat (payload_charge p))"
    and "cl_receipt_payload_cbor row = s" "cl_accepted_at_unix_s row = decimal (nat t)" "0 \<le> t" "t < 2 ^ 63"
    and "commitment_ok env p" "rsp_payer_session_public_key (payload_policy p) = payload_session_key p"
  shows "claim_good env (log @ [charge_of p c d]) row"
  using assms stored_timestamp [of t]
  by (auto simp: claim_good_def deserialize_claim_row_Ok dao_codecs_def charge_of_def)

lemma put_claim_stored:
  assumes "put_claim i a c s True t db = Ok db'"
  shows "0 \<le> t" "t < 2 ^ 63" "db_archive db' = db_archive db"
    "db_outbox db' = map (\<lambda>r. if cl_key r = ck_key c
       then r\<lparr>cl_cumulative_charge_wei := decimal (unat (ck_cumulative_charge_wei c)), cl_receipt_payload_cbor := s,
              cl_accepted_at_unix_s := decimal (nat t)\<rparr> else r) (db_outbox db)"
  using assms by (auto simp: put_claim_def Let_def res_simps to_unix_timestamp_Ok)

lemma put_claim_new:
  assumes "put_claim i a c s False t db = Ok db'"
  obtains row where "0 \<le> t" "t < 2 ^ 63" "db_archive db' = db_archive db" "db_outbox db' = db_outbox db @ [row]"
    "\<forall>r\<in>set (db_outbox db). \<not> outbox_conflicts row r" "cl_claim_id row = be_bytes 32 i" "cl_key row = ck_key c"
    "cl_authorization_nonce row = be_bytes 32 (rsp_authorization_nonce (ars_policy a))"
    "cl_cumulative_charge_wei row = decimal (unat (ck_cumulative_charge_wei c))" "cl_receipt_payload_cbor row = s"
    "cl_accepted_at_unix_s row = decimal (nat t)"
  using assms by (auto simp: put_claim_def Let_def res_simps to_unix_timestamp_Ok insert_unique_eq_Ok cl_key_def ck_key_def)

lemma claims_ok_replaced:
  assumes ok: "claims_ok env log db"
    and "distinct (map cl_claim_id (all_claims db'))" "distinct (map cl_key (db_outbox db'))"
    and new: "new \<in> set (all_claims db')" "claim_good env (log @ [e]) new" "cl_key new = ck_key c"
      "cl_cumulative_charge_wei new = decimal (unat (ck_cumulative_charge_wei c))"
    and sub: "set (all_claims db') \<subseteq> insert new (set (all_claims db))"
    and kept: "\<forall>row\<in>set (all_claims db). cl_key row \<noteq> ck_key c \<longrightarrow> row \<in> set (all_claims db')"
    and arch: "set (db_archive db') \<subseteq> set (db_archive db)"
    and ck: "set (db_checkpoints db') = insert (checkpoint_row_of c s) {r \<in> set (db_checkpoints db). cr_key r \<noteq> ck_key c}"
  shows "claims_ok env (log @ [e]) db'"
proof -
  have "claim_good env (log @ [e]) row" if "row \<in> set (all_claims db')" for row
    using that sub new(2) ok claim_good_append by (auto simp: claims_ok_def)
  moreover have "\<exists>row\<in>set (all_claims db'). cl_key row = cr_key k \<and> cl_cumulative_charge_wei row = cr_cumulative_charge_wei k"
    if k: "k \<in> set (db_checkpoints db')" for k
  proof (cases "k = checkpoint_row_of c s")
    case True
    have "cr_cumulative_charge_wei k = decimal (unat (ck_cumulative_charge_wei c))" "cr_key k = ck_key c"
      unfolding True by (simp_all add: checkpoint_row_of_def cr_key_def ck_key_def)
    then show ?thesis using new(1,3,4) by auto
  next
    case False
    with k ck have "k \<in> set (db_checkpoints db)" "cr_key k \<noteq> ck_key c" by auto
    moreover from this(1) ok obtain row where "row \<in> set (all_claims db)" "cl_key row = cr_key k"
        "cl_cumulative_charge_wei row = cr_cumulative_charge_wei k"
      unfolding claims_ok_def by blast
    ultimately show ?thesis using kept by auto
  qed
  ultimately show ?thesis
    using assms(2,3) arch ok unfolding claims_ok_def by blast
qed

lemma claims_ok_accept:
  assumes codecs: "dao_codecs env" and ok: "claims_ok env log db" and books: "books_ok env db0 log db"
    and ids: "claim_ids_distinct env (log @ [charge_of p c d])"
    and acc: "accept_verified_receipt env db p c t = (Ok d, db')"
  shows "claims_ok env (log @ [charge_of p c d]) db'"
proof -
  from acc obtain aser cser pser cid ca aa spent ka ns db1 db2 db3 where
    val: "validate_settlement_claim_for_checkpoint p c = Ok ()"
      "make_accounting_commitment (se_receipt_env (de_settlement_env env)) (ck_route_epoch c) (ck_payer_session_public_key c) =
         ck_accounting_commitment c"
    and ser: "de_to_vec_payload env p = Ok pser" and cid: "receipt_settlement_claim_id (de_settlement_env env) p = Ok cid"
    and sc: "stored_claim env db (srp_authorization p) c = Ok ca"
    and cd: "charge_delta env db c = Ok (ka, d)"
    and puts: "put_authorization (srp_authorization p) aser aa ns db = Ok db1"
      "put_checkpoint c cser ka db1 = Ok db2"
      "book_receivable (rsp_payer_wallet_address (payload_policy p)) d t db2 = Ok db3"
      "put_claim cid (srp_authorization p) c pser ca t (delete_archived cid db3) = Ok db'"
    by (rule accept_OkE)
  note frame = accept_tables [OF puts] and v = validate_claim_Ok [OF val]
  let ?log = "log @ [charge_of p c d]"
  have dist: "distinct (map cl_claim_id (all_claims db))" and keys: "distinct (map cl_key (db_outbox db))"
    using ok by (auto simp: claims_ok_def)
  have ck: "set (db_checkpoints db') = insert (checkpoint_row_of c cser) {r \<in> set (db_checkpoints db). cr_key r \<noteq> ck_key c}"
    unfolding frame(2) using books by (intro put_checkpoint_rows(2) [OF _ codecs cd puts(2) frame(3)]) (auto simp: books_ok_def)
  have same_route: "cl_key row = ck_key c" if "claim_good env log row" "cl_claim_id row = be_bytes 32 cid" for row
    using that claim_id_route [OF ids, of _ "charge_of p c d" cid] cid v(1)
    by (auto simp: claim_good_def deserialize_claim_row_Ok charge_of_def)
  show ?thesis
  proof (cases ca)
    case True
    then have "put_claim cid (srp_authorization p) c pser True t (delete_archived cid db3) = Ok db'" using puts(4) by simp
    note pc = put_claim_stored [OF this]
    obtain row q where row: "row \<in> set (db_outbox db)" "cl_key row = ck_key c" "deserialize_claim_row env row = Ok q"
        "srp_authorization q = srp_authorization p"
      using stored_claim_Ok(1) [OF sc True] by blast
    have "claim_good env log row" using ok row(1) by (simp add: claims_ok_def all_claims_def)
    with row(3) have "commitment_ok env q" by (auto simp: claim_good_def)
    moreover have "route_of q = route_of p" using row(2,3) v(1) by (simp add: deserialize_claim_row_Ok)
    ultimately have "payload_identity q = payload_identity p"
      using v(3) identity_by_route [OF row(4)] by blast
    from claim_id_cong [OF this, of "de_settlement_env env"] have rid: "cl_claim_id row = be_bytes 32 cid"
      using row(3) cid by (auto simp: deserialize_claim_row_Ok)
    let ?f = "\<lambda>r. r\<lparr>cl_cumulative_charge_wei := decimal (unat (ck_cumulative_charge_wei c)), cl_receipt_payload_cbor := pser,
              cl_accepted_at_unix_s := decimal (nat t)\<rparr>"
    have f: "cl_claim_id (?f r) = cl_claim_id r" "cl_key (?f r) = cl_key r" for r by (simp_all add: cl_key_def)
    have "cl_claim_id (av_claim r) \<noteq> be_bytes 32 cid" if "r \<in> set (db_archive db)" for r
      using dist row(1) that unfolding rid [symmetric] by (auto simp: all_claims_def)
    then have arch': "db_archive db' = db_archive db"
      unfolding frame(7) delete_archived_def by (simp add: filter_id_conv)
    have out: "db_outbox db' = map (\<lambda>r. if cl_key r = ck_key c then ?f r else r) (db_outbox db)"
      using pc(4) by (simp add: delete_archived_def frame(6))
    have outset: "set (db_outbox db') = insert (?f row) {r \<in> set (db_outbox db). cl_key r \<noteq> ck_key c}"
      unfolding out by (rule set_update_key [OF keys row(1,2)])
    have ids': "map cl_claim_id (all_claims db') = map cl_claim_id (all_claims db)"
      and keys': "map cl_key (db_outbox db') = map cl_key (db_outbox db)"
      by (simp_all add: out arch' all_claims_def cl_key_def)
    have "cl_authorization_nonce row = be_bytes 32 (rsp_authorization_nonce (payload_policy p))"
      using row(3,4) by (simp add: deserialize_claim_row_Ok)
    then have good: "claim_good env ?log (?f row)"
      using row(2) rid v pc(1,2) f by (intro accepted_claim_good [OF codecs ser cid]) simp_all
    show ?thesis
      using dist keys row(2)
      by (intro claims_ok_replaced [OF ok _ _ _ good _ _ _ _ _ ck])
        (simp only: ids' keys', simp only: ids' keys', auto simp: all_claims_def outset arch' f)
  next
    case False
    then have "put_claim cid (srp_authorization p) c pser False t (delete_archived cid db3) = Ok db'" using puts(4) by simp
    then obtain row where row: "0 \<le> t" "t < 2 ^ 63" "db_outbox db' = db_outbox (delete_archived cid db3) @ [row]"
      "\<forall>r\<in>set (db_outbox (delete_archived cid db3)). \<not> outbox_conflicts row r" "cl_claim_id row = be_bytes 32 cid"
      "cl_key row = ck_key c" "cl_authorization_nonce row = be_bytes 32 (rsp_authorization_nonce (payload_policy p))"
      "cl_cumulative_charge_wei row = decimal (unat (ck_cumulative_charge_wei c))" "cl_receipt_payload_cbor row = pser"
      "cl_accepted_at_unix_s row = decimal (nat t)"
      by (rule put_claim_new)
    have out: "db_outbox db' = db_outbox db @ [row]" and nc: "\<forall>r\<in>set (db_outbox db). \<not> outbox_conflicts row r"
      using row(3,4) by (simp_all add: delete_archived_def frame(6))
    have arch': "db_archive db' = filter (\<lambda>r. cl_claim_id (av_claim r) \<noteq> be_bytes 32 cid) (db_archive db)"
      unfolding frame(7) delete_archived_def by simp
    have "distinct (map cl_claim_id (map av_claim (db_archive db')))"
      using dist unfolding arch' all_claims_def by (simp add: distinct_map_filter)
    then have ids': "distinct (map cl_claim_id (all_claims db'))"
      using dist nc row(5) by (auto simp: all_claims_def out arch' outbox_conflicts_def)
    have keys': "distinct (map cl_key (db_outbox db'))"
      using keys nc by (auto simp: out outbox_conflicts_def)
    have kept: "\<forall>r\<in>set (all_claims db). cl_key r \<noteq> ck_key c \<longrightarrow> r \<in> set (all_claims db')"
      using same_route ok by (auto simp: all_claims_def out arch' claims_ok_def)
    have good: "claim_good env ?log row"
      using row v by (intro accepted_claim_good [OF codecs ser cid]) simp_all
    show ?thesis
      by (rule claims_ok_replaced [OF ok ids' keys' _ good row(6,8) _ kept _ ck]) (auto simp: all_claims_def out arch')
  qed
qed

subsection \<open>Claims along a run\<close>

lemma claims_ok_other:
  assumes "dao_other env db db'" and ok: "claims_ok env log db"
  shows "claims_ok env log db'"
  using assms(1)
proof cases
  case (refused p c t r)
  then have "db' = db" using run_transaction_not_Ok unfolding accept_verified_receipt_def Let_def by blast
  with ok show ?thesis by simp
next
  case (authorized a r)
  then show ?thesis
    by (cases rule: save_authorization_cases) (use ok claims_ok_cong [of db' db env log] in simp_all)
next
  case (offered s now m r)
  from save_routing_offer_state_frame [OF this] obtain x where "db' = db\<lparr>db_offers := x\<rparr>" by blast
  with ok show ?thesis using claims_ok_cong [of db' db env log] by simp
next
  case (reconciled obs r)
  then show ?thesis
  proof (cases rule: reconcile_settlement_claims_cases)
    case (applied outcome db1)
    have "claims_ok env log db1" using claims_ok_reconcile_claims [OF ok applied(5)] by simp
    then show ?thesis using claims_ok_cong [of db' db1 env log] applied(6) by simp
  qed (use ok in simp)
next
  case (saved aps r)
  from save_provider_settlement_frame [OF this] obtain x where "db' = db\<lparr>db_provider_settlement := x\<rparr>" by blast
  with ok show ?thesis using claims_ok_cong [of db' db env log] by simp
next
  case (cleared r)
  then have "db' = db\<lparr>db_provider_settlement := None\<rparr>" by (simp add: clear_provider_settlement_authorization_def)
  with ok show ?thesis using claims_ok_cong [of db' db env log] by simp
qed

lemma dao_run_claims:
  assumes "dao_run env db0 log db" "dao_codecs env" "fresh_db db0" "claim_ids_distinct env log"
  shows "claims_ok env log db"
  using assms
proof (induction rule: dao_run.induct)
  case start
  then show ?case by (simp add: claims_ok_def all_claims_def fresh_db_def)
next
  case (accepted log db p c t d db')
  then have "claim_ids_distinct env log" by (simp add: claim_ids_distinct_def)
  with accepted dao_run_books [OF accepted(1,4,5)] show ?case by (blast intro: claims_ok_accept)
next
  case (other log db db')
  then show ?case by (blast intro: claims_ok_other)
qed

text \<open>
  C6. No claim is lost or kept twice. After any run of the node's calls on a fresh database, and as
  long as different receipts have different claim ids, every claim id occurs once, in the outbox or
  in the archive. Every route that has been charged has a claim with a readable, signed payload over
  everything the route was charged, and every archived claim was confirmed on the chain for at least
  its charge. A reconciliation with the chain counts every observed claim exactly once and only
  moves claims between the two tables.
\<close>

theorem claims_never_lost:
  assumes "dao_codecs env" and "fresh_db db0" and "dao_run env db0 log db" and "claim_ids_distinct env log"
  shows "distinct (map cl_claim_id (db_outbox db @ map av_claim (db_archive db))) \<and>
    (\<forall>e\<in>set log. \<exists>row\<in>set (db_outbox db) \<union> av_claim ` set (db_archive db). \<exists>p.
       cl_key row = cg_route e \<and> deserialize_claim_row env row = Ok p \<and>
       unat (payload_charge p) = logged (\<lambda>f. cg_route f = cg_route e) log) \<and>
    (\<forall>r\<in>set (db_archive db). \<exists>p confirmed. deserialize_claim_row env (av_claim r) = Ok p \<and>
       stored_u128 (av_confirmed_cumulative_charge_wei r) = Ok confirmed \<and> payload_charge p \<le> confirmed) \<and>
    (\<forall>obs outcome db'. reconcile_settlement_claims env db obs = (Ok outcome, db') \<longrightarrow>
       outcome_total outcome = length (obs_claims obs) \<and>
       mset (db_outbox db' @ map av_claim (db_archive db')) = mset (db_outbox db @ map av_claim (db_archive db)))"
proof (intro conjI ballI allI impI)
  have ok: "claims_ok env log db" using assms by (intro dao_run_claims)
  have ck: "checkpoints_ok env log (db_checkpoints db)"
    using dao_run_books [OF assms(3,1,2)] by (simp add: books_ok_def)
  show "distinct (map cl_claim_id (db_outbox db @ map av_claim (db_archive db)))"
    using ok by (simp add: claims_ok_def all_claims_def)
  show "\<exists>row\<in>set (db_outbox db) \<union> av_claim ` set (db_archive db). \<exists>p. cl_key row = cg_route e \<and>
      deserialize_claim_row env row = Ok p \<and> unat (payload_charge p) = logged (\<lambda>f. cg_route f = cg_route e) log"
    if "e \<in> set log" for e
  proof -
    have "cg_route e \<in> cr_key ` set (db_checkpoints db)" using ck that by (auto simp: table_ok_def)
    then obtain k where k: "k \<in> set (db_checkpoints db)" "cr_key k = cg_route e" by auto
    then have "checkpoint_good env (filter (\<lambda>f. cg_route f = cg_route e) log) k" using ck by (auto simp: table_ok_def)
    then have charge: "cr_cumulative_charge_wei k = decimal (logged (\<lambda>f. cg_route f = cg_route e) log)"
      by (auto simp: checkpoint_good_def checkpoint_row_of_def logged_def)
    obtain row where row: "row \<in> set (all_claims db)" "cl_key row = cg_route e"
        "cl_cumulative_charge_wei row = cr_cumulative_charge_wei k"
      using ok k unfolding claims_ok_def by force
    have "claim_good env log row" using ok row(1) by (simp add: claims_ok_def)
    then obtain f :: charge where "deserialize_claim_row env row = Ok (cg_payload f)"
        "cl_cumulative_charge_wei row = decimal (unat (payload_charge (cg_payload f)))"
      unfolding claim_good_def by blast
    with row charge show ?thesis by (auto simp: all_claims_def)
  qed
  show "\<exists>p confirmed. deserialize_claim_row env (av_claim r) = Ok p \<and>
      stored_u128 (av_confirmed_cumulative_charge_wei r) = Ok confirmed \<and> payload_charge p \<le> confirmed"
    if "r \<in> set (db_archive db)" for r
  proof -
    have "claim_good env log (av_claim r)" "archive_good r" using ok that by (auto simp: claims_ok_def all_claims_def)
    then show ?thesis by (auto simp: claim_good_def archive_good_def deserialize_claim_row_Ok)
  qed
  fix obs outcome db' assume rec: "reconcile_settlement_claims env db obs = (Ok outcome, db')"
  then obtain db1 where db1: "reconcile_claims env obs (obs_claims obs)
         (\<lparr>out_archived_claim_count = 0, out_restored_claim_count = 0, out_still_pending_claim_count = 0,
           out_revalidated_archive_count = 0, out_unknown_claim_count = 0\<rparr>, db) = Ok (outcome, db1)"
      "all_claims db' = all_claims db1"
    unfolding reconcile_settlement_claims_def by (auto simp: run_transaction_Ok res_simps all_claims_def split: if_splits)
  from claims_ok_reconcile_claims [OF ok db1(1)] show "outcome_total outcome = length (obs_claims obs)"
    "mset (db_outbox db' @ map av_claim (db_archive db')) = mset (db_outbox db @ map av_claim (db_archive db))"
    using db1(2) by (simp_all add: outcome_total_def all_claims_def)
qed

end
