(* ===== verification/Receipt_Pages.thy ===== *)
theory Receipt_Pages
  imports Receipt_Claims
begin

section \<open>Reading the claims page by page\<close>

text \<open>
  The outbox and the reconciliation candidates are read in pages of claims sorted by claim id, each
  page starting after the last claim of the page before. \<open>paged\<close> is what a table promises for this:
  distinct keys, readable rows, and a cursor that is the key of the row. The loop \<open>fetch_pages\<close> then
  reads the whole table in order. The interface is interpreted for both tables of the database.
\<close>

fun fetch_pages ::
    "(bytes32 option \<Rightarrow> ('x list) dao_result) \<Rightarrow> ('x \<Rightarrow> bytes32 option) \<Rightarrow> nat \<Rightarrow> bytes32 option \<Rightarrow> ('x list) dao_result" where
  "fetch_pages page cursor 0 start = Panic"
| "fetch_pages page cursor (Suc fuel) start =
     and_then (page start) (\<lambda>xs.
       if xs = [] then Ok []
       else case cursor (last xs) of
              None \<Rightarrow> Panic
            | Some i \<Rightarrow> and_then (fetch_pages page cursor fuel (Some i)) (\<lambda>ys. Ok (xs @ ys)))"

definition sql_page :: "('r \<Rightarrow> bytes) \<Rightarrow> ('r \<Rightarrow> 'x dao_result) \<Rightarrow> 'r list \<Rightarrow> bytes32 option \<Rightarrow> nat \<Rightarrow> ('x list) dao_result" where
  "sql_page key read rows start_after_opt limit =
     (if limit = 0 then Ok []
      else traverse read (take (sql_limit limit) (sort_key key (filter (\<lambda>r. after_claim_id start_after_opt (key r)) rows))))"

lemma traverse_map: "\<forall>x\<in>set xs. f x = Ok (g x) \<Longrightarrow> traverse f xs = Ok (map g xs)"
  by (auto simp: traverse_eq_Ok list_all2_map2 list.rel_refl_strong)

lemma map_sort_key: "map f (sort_key f xs) = sort (map f xs)"
  by (rule properties_for_sort [symmetric]) simp_all

lemma map_choice: "\<forall>x\<in>set xs. \<exists>y. f x = Ok y \<and> g y = h x \<Longrightarrow> \<exists>ys. map f xs = map Ok ys \<and> map g ys = map h xs"
proof (induction xs)
  case (Cons x xs)
  then obtain y ys where "f x = Ok y" "g y = h x" "map f xs = map Ok ys" "map g ys = map h xs" by auto
  then show ?case by (intro exI [of _ "y # ys"]) simp
qed simp

lemma after_split:
  fixes key :: "'r \<Rightarrow> bytes"
  assumes "sorted_wrt (<) (map key (xs @ ys))" "xs \<noteq> []"
  shows "filter (\<lambda>r. key (last xs) < key r) (xs @ ys) = ys"
proof -
  obtain zs z where xs: "xs = zs @ [z]" using assms(2) by (cases xs rule: rev_cases) auto
  have "\<not> key z < key r" if "r \<in> set xs" for r
    using assms(1) that unfolding xs by (auto simp: sorted_wrt_append dest: less_imp_not_less)
  moreover have "key z < key r" if "r \<in> set ys" for r
    using assms(1) that unfolding xs by (auto simp: sorted_wrt_append)
  ultimately show ?thesis by (simp add: xs filter_id_conv)
qed

locale paged =
  fixes inv :: "'s \<Rightarrow> bool" and rows :: "'s \<Rightarrow> 'r list" and key :: "'r \<Rightarrow> bytes"
    and read :: "'s \<Rightarrow> 'r \<Rightarrow> 'x dao_result" and cursor :: "'s \<Rightarrow> 'x \<Rightarrow> bytes32 option"
  assumes distinct_keys: "inv s \<Longrightarrow> distinct (map key (rows s))"
    and readable: "inv s \<Longrightarrow> r \<in> set (rows s) \<Longrightarrow>
      \<exists>x i. read s r = Ok x \<and> cursor s x = Some i \<and> key r = be_bytes 32 i"
begin

definition content :: "'s \<Rightarrow> 'r \<Rightarrow> 'x" where
  "content s r = (case read s r of Ok x \<Rightarrow> x | _ \<Rightarrow> undefined)"

definition in_order :: "'s \<Rightarrow> 'r list" where
  "in_order s = sort_key key (rows s)"

lemma read_content: "inv s \<Longrightarrow> r \<in> set (rows s) \<Longrightarrow> read s r = Ok (content s r)"
  using readable unfolding content_def by fastforce

lemma cursor_content: "inv s \<Longrightarrow> r \<in> set (rows s) \<Longrightarrow> \<exists>i. cursor s (content s r) = Some i \<and> key r = be_bytes 32 i"
  using readable unfolding content_def by fastforce

lemma strictly_sorted:
  assumes "inv s"
  shows "sorted_wrt (<) (map key (in_order s))"
proof -
  have "sorted (map key (in_order s))" "distinct (map key (in_order s))"
    using distinct_keys [OF assms] by (simp_all add: in_order_def distinct_map)
  then show ?thesis by (simp add: strict_sorted_iff)
qed

lemma page_eq:
  assumes "inv s" "0 < limit"
  shows "sql_page key (read s) (rows s) start limit =
    Ok (map (content s) (take (sql_limit limit) (filter (\<lambda>r. after_claim_id start (key r)) (in_order s))))"
proof -
  have "\<forall>r\<in>set (take (sql_limit limit) (filter (\<lambda>r. after_claim_id start (key r)) (in_order s))). read s r = Ok (content s r)"
    using read_content [OF assms(1)] by (auto simp: in_order_def dest!: in_set_takeD)
  then show ?thesis
    using assms(2) by (simp add: sql_page_def in_order_def filter_sort traverse_map)
qed

lemma fetch_from:
  assumes "inv s" "0 < limit"
  shows "filter (\<lambda>r. after_claim_id start (key r)) (in_order s) = T \<Longrightarrow> in_order s = D @ T \<Longrightarrow> length T < fuel \<Longrightarrow>
    fetch_pages (\<lambda>start. sql_page key (read s) (rows s) start limit) (cursor s) fuel start = Ok (map (content s) T)"
proof (induction fuel arbitrary: start T D)
  case (Suc fuel)
  let ?n = "sql_limit limit" and ?page = "\<lambda>start. sql_page key (read s) (rows s) start limit"
  have n: "0 < ?n" using assms(2) by (simp add: sql_limit_def)
  show ?case
  proof (cases "T = []")
    case True
    with Suc.prems show ?thesis by (simp add: page_eq [OF assms])
  next
    case False
    have first: "take ?n T \<noteq> []" using False n by simp
    let ?l = "last (take ?n T)"
    have "?l \<in> set (take ?n T)" using first by (rule last_in_set)
    then have "?l \<in> set (in_order s)" using Suc.prems(2) by (auto dest: in_set_takeD)
    then obtain i where i: "cursor s (content s ?l) = Some i" "key ?l = be_bytes 32 i"
      using cursor_content [OF assms(1), of ?l] by (auto simp: in_order_def)
    have order: "in_order s = (D @ take ?n T) @ drop ?n T" using Suc.prems(2) by simp
    have "filter (\<lambda>r. after_claim_id (Some i) (key r)) (in_order s) = drop ?n T"
      using after_split [of key "D @ take ?n T" "drop ?n T"] strictly_sorted [OF assms(1)] first i(2)
      unfolding order [symmetric] by (simp add: after_claim_id_def)
    moreover have "length (drop ?n T) < fuel" using Suc.prems(3) n False by (cases T) auto
    ultimately have "fetch_pages ?page (cursor s) fuel (Some i) = Ok (map (content s) (drop ?n T))"
      by (intro Suc.IH [OF _ order])
    moreover have "?page start = Ok (map (content s) (take ?n T))"
      using Suc.prems(1) by (simp add: page_eq [OF assms])
    ultimately show ?thesis
      using first i(1) by (simp add: last_map flip: map_append)
  qed
qed simp

lemma fetch_all:
  assumes "inv s" "0 < limit" "length (rows s) < fuel" "length (rows s) < 2 ^ 63"
  shows "fetch_pages (\<lambda>start. sql_page key (read s) (rows s) start limit) (cursor s) fuel None =
      sql_page key (read s) (rows s) None (2 ^ 64 - 1)"
    and "sql_page key (read s) (rows s) None (2 ^ 64 - 1) = Ok (map (content s) (in_order s))"
proof -
  have all: "filter (\<lambda>r. after_claim_id None (key r)) (in_order s) = in_order s"
    by (simp add: after_claim_id_def)
  have len: "length (in_order s) = length (rows s)" by (simp add: in_order_def)
  have "sql_limit (2 ^ 64 - 1) = 2 ^ 63 - 1" by (simp add: sql_limit_def)
  then show one: "sql_page key (read s) (rows s) None (2 ^ 64 - 1) = Ok (map (content s) (in_order s))"
    using assms(4) len by (simp add: page_eq [OF assms(1)] all)
  show "fetch_pages (\<lambda>start. sql_page key (read s) (rows s) start limit) (cursor s) fuel None =
      sql_page key (read s) (rows s) None (2 ^ 64 - 1)"
    unfolding one using fetch_from [OF assms(1,2) all, of "[]" fuel] assms(3) len by simp
qed

end

subsection \<open>The two tables\<close>

lemma records_page_eq:
  "pending_settlement_claim_records_page env db = sql_page cl_claim_id (claim_record env) (db_outbox db)"
  by (simp add: fun_eq_iff pending_settlement_claim_records_page_def sql_page_def)

definition record_cursor :: "dao_env \<Rightarrow> pending_settlement_claim_record \<Rightarrow> bytes32 option" where
  "record_cursor env record =
     (case receipt_settlement_claim_id (de_settlement_env env) (pcr_receipt_payload record) of Ok i \<Rightarrow> Some i | _ \<Rightarrow> None)"

definition candidate_of :: "claim_row \<Rightarrow> settlement_reconciliation_candidate dao_result" where
  "candidate_of row =
     and_then (fixed_32 (cl_claim_id row) ''settlement claim ID'') (\<lambda>claim_id.
       and_then (stored_u128 (cl_cumulative_charge_wei row)) (\<lambda>charge.
         Ok \<lparr>cand_claim_id = claim_id, cand_cumulative_charge_wei = charge\<rparr>))"

lemma candidates_page_eq:
  "settlement_reconciliation_candidates_page db = sql_page cl_claim_id candidate_of (candidate_rows db)"
  by (simp add: fun_eq_iff settlement_reconciliation_candidates_page_def sql_page_def candidate_of_def [abs_def])

lemma fixed_32_be_bytes: "fixed_32 (be_bytes 32 i) field = Ok i"
  by (simp add: fixed_32_def from_be_bytes_be_bytes take_bit_word_eq_self)

lemma candidate_rows_eq: "claims_ok env log db \<Longrightarrow> candidate_rows db = all_claims db"
  by (auto simp: candidate_rows_def all_claims_def claims_ok_def list_ex_iff filter_id_conv)

lemma claim_good_record:
  assumes "claim_good env log r"
  obtains x i where "claim_record env r = Ok x" "record_cursor env x = Some i" "cl_claim_id r = be_bytes 32 i"
    "receipt_settlement_claim_id (de_settlement_env env) (pcr_receipt_payload x) = Ok i"
proof -
  obtain p n where p: "deserialize_claim_row env r = Ok p" "stored_u64 (cl_accepted_at_unix_s r) = Ok n"
    using assms by (auto simp: claim_good_def)
  then obtain i where "receipt_settlement_claim_id (de_settlement_env env) p = Ok i" "cl_claim_id r = be_bytes 32 i"
    by (auto simp: deserialize_claim_row_Ok)
  with p show thesis by (intro that [of "\<lparr>pcr_receipt_payload = p, pcr_accepted_at_unix_s = n\<rparr>" i])
      (simp_all add: claim_record_def record_cursor_def)
qed

interpretation pending: paged "\<lambda>(env, log, db). claims_ok env log db" "\<lambda>(env, log, db). db_outbox db" cl_claim_id
  "\<lambda>(env, log, db). claim_record env" "\<lambda>(env, log, db). record_cursor env"
proof (unfold_locales; clarify)
  fix env log db assume ok: "claims_ok env log db"
  show "distinct (map cl_claim_id (db_outbox db))" using ok by (simp add: claims_ok_def all_claims_def)
  fix r assume "r \<in> set (db_outbox db)"
  then have "claim_good env log r" using ok by (simp add: claims_ok_def all_claims_def)
  then show "\<exists>x i. claim_record env r = Ok x \<and> record_cursor env x = Some i \<and> cl_claim_id r = be_bytes 32 i"
    by (rule claim_good_record) blast
qed

interpretation candidates: paged "\<lambda>(env, log, db). claims_ok env log db" "\<lambda>(env, log, db). candidate_rows db" cl_claim_id
  "\<lambda>(env, log, db). candidate_of" "\<lambda>(env, log, db) c. Some (cand_claim_id c)"
proof (unfold_locales; clarify)
  fix env log db assume ok: "claims_ok env log db"
  show "distinct (map cl_claim_id (candidate_rows db))" using ok by (simp add: candidate_rows_eq [OF ok] claims_ok_def)
  fix r assume "r \<in> set (candidate_rows db)"
  then have "claim_good env log r" using ok by (simp add: candidate_rows_eq [OF ok] claims_ok_def)
  then obtain i :: bytes32 and w where "cl_claim_id r = be_bytes 32 i" "stored_u128 (cl_cumulative_charge_wei r) = Ok w"
    by (auto simp: claim_good_def deserialize_claim_row_Ok)
  then show "\<exists>x i. candidate_of r = Ok x \<and> Some (cand_claim_id x) = Some i \<and> cl_claim_id r = be_bytes 32 i"
    by (simp add: candidate_of_def fixed_32_be_bytes)
qed

lemma pending_page_ids:
  assumes ok: "claims_ok env log db" and "0 < n" and page: "pending_settlement_claim_records_page env db start n = Ok records"
  shows "\<exists>ids. map (receipt_settlement_claim_id (de_settlement_env env)) (map pcr_receipt_payload records) = map Ok ids \<and>
    map (be_bytes 32) ids = take (sql_limit n) (filter (after_claim_id start) (sort (map cl_claim_id (db_outbox db))))"
proof -
  let ?s = "(env, log, db)"
  let ?rows = "take (sql_limit n) (filter (\<lambda>r. after_claim_id start (cl_claim_id r)) (pending.in_order ?s))"
  have records: "records = map (pending.content ?s) ?rows"
    using page pending.page_eq [of ?s n start] ok assms(2) by (simp add: records_page_eq)
  have "\<exists>i. receipt_settlement_claim_id (de_settlement_env env) (pcr_receipt_payload (pending.content ?s r)) = Ok i \<and>
      be_bytes 32 i = cl_claim_id r" if "r \<in> set ?rows" for r
    using pending.cursor_content [of ?s r] that ok
    by (auto simp: pending.in_order_def record_cursor_def split: res.splits dest!: in_set_takeD)
  then have "\<exists>ids. map (\<lambda>r. receipt_settlement_claim_id (de_settlement_env env) (pcr_receipt_payload (pending.content ?s r))) ?rows =
      map Ok ids \<and> map (be_bytes 32) ids = map cl_claim_id ?rows"
    by (intro map_choice) blast
  moreover have "map cl_claim_id ?rows =
      take (sql_limit n) (filter (after_claim_id start) (sort (map cl_claim_id (db_outbox db))))"
    by (simp add: pending.in_order_def filter_map comp_def flip: take_map map_sort_key)
  ultimately show ?thesis unfolding records by (simp add: comp_def)
qed

text \<open>
  C15. Reading page by page is reading everything. After any run of the node's calls, following the
  cursors with any page size ends, and the pages together are what one unlimited query returns: every
  pending claim once, in the order of the claim ids; likewise for the candidates of a reconciliation,
  which are the pending and the archived claims together.
\<close>

theorem pages_cover_claims:
  assumes "dao_codecs env" and "fresh_db db0" and "dao_run env db0 log db" and "claim_ids_distinct env log"
    and "0 < limit" and "length (db_outbox db) + length (db_archive db) < 2 ^ 63"
  shows "fetch_pages (\<lambda>start. pending_settlement_claim_records_page env db start limit) (record_cursor env)
        (Suc (length (db_outbox db))) None = pending_settlement_claim_records_page env db None (2 ^ 64 - 1) \<and>
    fetch_pages (\<lambda>start. settlement_reconciliation_candidates_page db start limit) (\<lambda>c. Some (cand_claim_id c))
        (Suc (length (db_outbox db) + length (db_archive db))) None = settlement_reconciliation_candidates_page db None (2 ^ 64 - 1) \<and>
    (\<exists>payloads ids. pending_settlement_claims env db = Ok payloads \<and>
       map (receipt_settlement_claim_id (de_settlement_env env)) payloads = map Ok ids \<and>
       map (be_bytes 32) ids = sort (map cl_claim_id (db_outbox db))) \<and>
    (\<exists>cs. settlement_reconciliation_candidates_page db None (2 ^ 64 - 1) = Ok cs \<and>
       map (be_bytes 32) (map cand_claim_id cs) = sort (map cl_claim_id (db_outbox db @ map av_claim (db_archive db))))"
proof -
  let ?s = "(env, log, db)"
  have ok: "claims_ok env log db" using assms(1-4) by (intro dao_run_claims)
  have rows: "length (candidate_rows db) = length (db_outbox db) + length (db_archive db)"
    by (simp add: candidate_rows_eq [OF ok] all_claims_def)
  have p: "fetch_pages (\<lambda>start. pending_settlement_claim_records_page env db start limit) (record_cursor env)
      (Suc (length (db_outbox db))) None = pending_settlement_claim_records_page env db None (2 ^ 64 - 1)"
    and p2: "pending_settlement_claim_records_page env db None (2 ^ 64 - 1) = Ok (map (pending.content ?s) (pending.in_order ?s))"
    using pending.fetch_all [of ?s limit "Suc (length (db_outbox db))"] ok assms(5,6) unfolding records_page_eq by simp_all
  have c: "fetch_pages (\<lambda>start. settlement_reconciliation_candidates_page db start limit) (\<lambda>c. Some (cand_claim_id c))
      (Suc (length (db_outbox db) + length (db_archive db))) None = settlement_reconciliation_candidates_page db None (2 ^ 64 - 1)"
    and c2: "settlement_reconciliation_candidates_page db None (2 ^ 64 - 1) = Ok (map (candidates.content ?s) (candidates.in_order ?s))"
    using candidates.fetch_all [of ?s limit "Suc (length (candidate_rows db))"] ok assms(5,6) rows
    unfolding candidates_page_eq by simp_all
  have "sql_limit (2 ^ 64 - 1) = 2 ^ 63 - 1" by (simp add: sql_limit_def)
  then obtain ids where ids: "map (receipt_settlement_claim_id (de_settlement_env env))
        (map pcr_receipt_payload (map (pending.content ?s) (pending.in_order ?s))) = map Ok ids"
      "map (be_bytes 32) ids = sort (map cl_claim_id (db_outbox db))"
    using pending_page_ids [OF ok _ p2] assms(6) by (auto simp: after_claim_id_def)
  have "be_bytes 32 (cand_claim_id (candidates.content ?s r)) = cl_claim_id r" if "r \<in> set (candidates.in_order ?s)" for r
    using candidates.cursor_content [of ?s r] that ok by (auto simp: candidates.in_order_def)
  then have "map (be_bytes 32) (map cand_claim_id (map (candidates.content ?s) (candidates.in_order ?s))) =
      map cl_claim_id (candidates.in_order ?s)" by simp
  moreover have "map cl_claim_id (candidates.in_order ?s) = sort (map cl_claim_id (candidate_rows db))"
    by (simp add: map_sort_key candidates.in_order_def)
  ultimately have cs: "map (be_bytes 32) (map cand_claim_id (map (candidates.content ?s) (candidates.in_order ?s))) =
      sort (map cl_claim_id (db_outbox db @ map av_claim (db_archive db)))"
    by (simp only: candidate_rows_eq [OF ok] all_claims_def)
  have "pending_settlement_claims env db = Ok (map pcr_receipt_payload (map (pending.content ?s) (pending.in_order ?s)))"
    by (simp only: pending_settlement_claims_def pending_settlement_claims_page_def p2 and_then.simps)
  then show ?thesis using p c c2 cs ids by metis
qed

end
