(* ===== verification/Routing_Service.thy ===== *)
theory Routing_Service
  imports Cores_Package Receipt_Pages
begin

section \<open>The routing service of the hopper\<close>

text \<open>
  \<open>node/src/hopper/routing_service.rs\<close>: every package that reaches the node is opened here and
  relayed to the next node, put around again, or handed to a component of the node. A relayed
  package is paid for: either the accountant books the service, or the package takes an encrypted
  receipt offer along, whose state is stored before the package leaves. A call that logs an error
  returns; its outcome is what it has sent, whether it returned or panicked, and the service with its
  database. The clock, the ban cache and the random bytes a call meets are its circumstances.
\<close>

subsection \<open>Data\<close>

definition max_routing_receipt_offers_per_package :: nat where
  "max_routing_receipt_offers_per_package = 64"

definition max_routing_receipt_session_states :: nat where
  "max_routing_receipt_session_states = 4096"

record service_receipt_settlement_context =
  sc_dao :: receipt_db
  sc_chain_id :: u64
  sc_settlement_contract :: address

record routing_service =
  rs_main :: crypt_de
  rs_alias :: crypt_de
  rs_proxy_client_running :: bool
  rs_per_routing_service :: u64
  rs_per_routing_byte :: u64
  rs_is_decentralized :: bool
  rs_receipt_context_opt :: "service_receipt_settlement_context option"

record circumstances =
  at_now :: int
  at_ban_cache :: "wallet_kind set"
  at_random :: "bytes \<Rightarrow> bytes"

text \<open>Decoders of the payloads, and the steps from future versions for those that have one.\<close>

record payload_env =
  pv_client_request :: "bytes \<Rightarrow> (client_request_payload, string) res"
  pv_client_request_step :: migration_step
  pv_client_response :: "bytes \<Rightarrow> (client_response_payload, string) res"
  pv_client_response_step :: migration_step
  pv_dns_resolve_failure :: "bytes \<Rightarrow> (dns_resolve_failure, string) res"
  pv_dns_resolve_failure_step :: migration_step
  pv_gossip :: "bytes \<Rightarrow> (gossip, string) res"
  pv_gossip_step :: migration_step
  pv_gossip_failure :: "bytes \<Rightarrow> (gossip_failure, string) res"
  pv_gossip_failure_step :: migration_step
  pv_metered_client_response :: "bytes \<Rightarrow> (metered_client_response_payload, string) res"
  pv_service_receipt :: "bytes \<Rightarrow> (service_receipt_payload, string) res"
  pv_service_receipt_offer :: "bytes \<Rightarrow> (service_receipt_offer_payload, string) res"

record routing_env = cores_env +
  re_dao_env :: dao_env
  re_payloads :: payload_env
  re_to_vec_offer :: "service_receipt_offer_payload \<Rightarrow> (bytes, string) res"

datatype hopper_status = Returned | Panicked

type_synonym routing_outcome = "hopper_effect list \<times> hopper_status \<times> routing_service"

text \<open>\<open>match r { Ok(a) => .., Err(e) => { log; return } }\<close>\<close>

definition or_log :: "('a, 'e) res \<Rightarrow> routing_service \<Rightarrow> ('a \<Rightarrow> routing_outcome) \<Rightarrow> routing_outcome" where
  "or_log r svc k = (case r of Ok a \<Rightarrow> k a | Err _ \<Rightarrow> ([], Returned, svc) | Panic \<Rightarrow> ([], Panicked, svc))"

definition routing_service_new :: "crypt_de \<Rightarrow> crypt_de \<Rightarrow> bool \<Rightarrow> u64 \<Rightarrow> u64 \<Rightarrow> bool \<Rightarrow> routing_service" where
  "routing_service_new main alias proxy_client_running per_routing_service per_routing_byte is_decentralized =
     \<lparr>rs_main = main, rs_alias = alias, rs_proxy_client_running = proxy_client_running,
      rs_per_routing_service = per_routing_service, rs_per_routing_byte = per_routing_byte,
      rs_is_decentralized = is_decentralized, rs_receipt_context_opt = None\<rparr>"

definition enable_service_receipts :: "receipt_db \<Rightarrow> u64 \<Rightarrow> address \<Rightarrow> routing_service \<Rightarrow> routing_service" where
  "enable_service_receipts db chain_id settlement_contract svc =
     svc\<lparr>rs_receipt_context_opt :=
       Some \<lparr>sc_dao = db, sc_chain_id = chain_id, sc_settlement_contract = settlement_contract\<rparr>\<rparr>"

definition with_dao :: "receipt_db \<Rightarrow> service_receipt_settlement_context \<Rightarrow> routing_service \<Rightarrow> routing_service" where
  "with_dao db context svc = svc\<lparr>rs_receipt_context_opt := Some (context\<lparr>sc_dao := db\<rparr>)\<rparr>"

text \<open>\<open>duration_since(UNIX_EPOCH)\<close> in whole seconds, an error before the epoch.\<close>

definition unix_seconds :: "int \<Rightarrow> (u64, unit) res" where
  "unix_seconds now = (if now < 0 then Err () else Ok (word_of_int now))"

subsection \<open>Payloads from the network\<close>

definition try_from_vd :: "(bytes \<Rightarrow> ('t, string) res) \<Rightarrow> migrations \<Rightarrow> versioned_data \<Rightarrow> ('t, migration_error) res" where
  "try_from_vd from_slice m vd = (case vd_extract from_slice m vd of Some (r, _) \<Rightarrow> r | None \<Rightarrow> Panic)"

definition try_from_future ::
    "(bytes \<Rightarrow> ('t, string) res) \<Rightarrow> migration_step \<Rightarrow> versioned_data \<Rightarrow> ('t, migration_error) res" where
  "try_from_future from_slice step vd =
     and_then (client_request_payload_migrations step) (\<lambda>m. try_from_vd from_slice m vd)"

definition try_from_current :: "(bytes \<Rightarrow> ('t, string) res) \<Rightarrow> versioned_data \<Rightarrow> ('t, migration_error) res" where
  "try_from_current from_slice vd = try_from_vd from_slice service_receipt_payload_migrations vd"

definition with_payload :: "'a expired_cores_package \<Rightarrow> 'b \<Rightarrow> 'b expired_cores_package" where
  "with_payload p payload =
     \<lparr>ex_immediate_neighbor = ex_immediate_neighbor p, ex_paying_wallet = ex_paying_wallet p,
      ex_remaining_route = ex_remaining_route p, ex_payload = payload, ex_payload_len = ex_payload_len p,
      ex_routing_receipt_offers = ex_routing_receipt_offers p\<rparr>"

subsection \<open>Receipts for settlement\<close>

definition settlement_checkpoint ::
    "receipt_env \<Rightarrow> crypt_de \<Rightarrow> acknowledged_service_receipt \<Rightarrow> receipt_sequence_checkpoint option \<Rightarrow>
     (receipt_sequence_checkpoint, service_receipt_error) res" where
  "settlement_checkpoint env cryptde ack checkpoint_opt =
     (case checkpoint_opt of
        Some checkpoint \<Rightarrow> advance_for_settlement env checkpoint ack cryptde
      | None \<Rightarrow> begin_for_settlement env ack cryptde)"

definition accept_service_receipt ::
    "'m routing_env_scheme \<Rightarrow> int \<Rightarrow> service_receipt_payload \<Rightarrow> routing_service \<Rightarrow> routing_outcome" where
  "accept_service_receipt env now payload svc =
     (case rs_receipt_context_opt svc of
        None \<Rightarrow> ([], Returned, svc)
      | Some context \<Rightarrow>
          let ack = srp_acknowledged_receipt payload; receipt = ssr_receipt (asr_signed_receipt ack) in
          if sr_provider_public_key receipt \<noteq> cde_public_key (rs_main svc) then ([], Returned, svc)
          else or_log (unix_seconds now) svc (\<lambda>now_unix_s.
            or_log (verify_for_receipt (he_receipt_env env) (srp_authorization payload) ack (rs_main svc)
                (sc_chain_id context) (sc_settlement_contract context) now_unix_s) svc (\<lambda>_.
            or_log (dao_checkpoint (re_dao_env env) (sc_dao context) (sr_route_epoch receipt) (sr_provider_public_key receipt)
                (asr_payer_session_public_key ack)) svc (\<lambda>checkpoint_opt.
            or_log (settlement_checkpoint (he_receipt_env env) (rs_main svc) ack checkpoint_opt) svc (\<lambda>checkpoint.
              let (r, db) = accept_verified_receipt (re_dao_env env) (sc_dao context) payload checkpoint now in
              or_log r (with_dao db context svc) (\<lambda>charge_wei. ([], Returned, with_dao db context svc)))))))"

subsection \<open>Offers of routing receipts\<close>

text \<open>The messages of the refusals; where the source formats an inner error, it is kept.\<close>

datatype routing_offer_error =
    OfferSettlementDisabled
  | OfferTimeBeforeEpoch
  | OfferInvalidAuthorization service_receipt_error
  | OfferPayloadTooLarge
  | OfferCannotLoadReceipt receipt_checkpoint_dao_error
  | OfferCannotLoadAcknowledgement receipt_checkpoint_dao_error
  | OfferAcknowledgementIdentityChanged
  | OfferReceiptIdentityChanged
  | OfferSignatureInvalid service_receipt_error
  | OfferSequenceExhausted
  | OfferCannotAdvance service_receipt_error
  | OfferCannotSign service_receipt_error
  | OfferAcknowledgementInconsistent
  | OfferAcknowledgementWithoutOffer
  | OfferExceedsAuthorization service_receipt_error
  | OfferCannotEncrypt codec_error
  | OfferCannotPersist receipt_checkpoint_dao_error

abbreviation request_policy :: "receipt_session_request \<Rightarrow> receipt_session_policy" where
  "request_policy request \<equiv> ars_policy (rsr_authorization request)"

definition acknowledgement_matches ::
    "receipt_session_request \<Rightarrow> public_key \<Rightarrow> receipt_sequence_checkpoint option \<Rightarrow> bool" where
  "acknowledgement_matches request provider checkpoint_opt =
     (case checkpoint_opt of
        None \<Rightarrow> True
      | Some checkpoint \<Rightarrow>
          \<not> (ck_route_epoch checkpoint \<noteq> rsr_route_epoch request
             \<or> ck_provider_public_key checkpoint \<noteq> provider
             \<or> ck_payer_session_public_key checkpoint \<noteq> rsp_payer_session_public_key (request_policy request)
             \<or> ck_accounting_commitment checkpoint \<noteq> rsr_accounting_commitment request))"

definition offer_identity_kept ::
    "routing_service \<Rightarrow> receipt_session_request \<Rightarrow> routing_receipt_offer_state \<Rightarrow> bool" where
  "offer_identity_kept svc request state \<longleftrightarrow>
     (let previous = ssr_receipt (ros_last_signed_receipt state) in
      \<not> (ros_authorization_nonce state \<noteq> rsp_authorization_nonce (request_policy request)
         \<or> ros_payer_session_public_key state \<noteq> rsp_payer_session_public_key (request_policy request)
         \<or> ros_expires_at_unix_s state \<noteq> rsp_expires_at_unix_s (request_policy request)
         \<or> sr_route_epoch previous \<noteq> rsr_route_epoch request
         \<or> sr_provider_public_key previous \<noteq> cde_public_key (rs_main svc)
         \<or> sr_accounting_commitment previous \<noteq> rsr_accounting_commitment request
         \<or> sr_service_kind previous \<noteq> Routing
         \<or> sr_service_rate previous \<noteq> rs_per_routing_service svc
         \<or> sr_byte_rate previous \<noteq> rs_per_routing_byte svc))"

text \<open>The receipt to offer, and whether its state is new and has to be stored.\<close>

definition offered_receipt ::
    "receipt_env \<Rightarrow> routing_service \<Rightarrow> receipt_session_request \<Rightarrow> u64 \<Rightarrow> routing_receipt_offer_state option \<Rightarrow>
     receipt_sequence_checkpoint option \<Rightarrow> (signed_service_receipt \<times> bool, routing_offer_error) res" where
  "offered_receipt env svc request payload_size persisted_state_opt checkpoint_opt =
     (case persisted_state_opt of
        Some state \<Rightarrow>
          let previous = ssr_receipt (ros_last_signed_receipt state) in
          if \<not> offer_identity_kept svc request state then Err OfferReceiptIdentityChanged
          else and_then (map_err OfferSignatureInvalid (signed_verify env (ros_last_signed_receipt state) (rs_main svc))) (\<lambda>_.
            case checkpoint_opt of
              None \<Rightarrow> Ok (ros_last_signed_receipt state, False)
            | Some checkpoint \<Rightarrow>
                if ck_last_sequence checkpoint = sr_sequence previous
                   \<and> ck_cumulative_charge_wei checkpoint = sr_cumulative_charge_wei previous
                then and_then (ok_or OfferSequenceExhausted (checked_add (sr_sequence previous) 1)) (\<lambda>next_sequence.
                  and_then (map_err OfferCannotAdvance (next_for_same_route previous next_sequence Routing payload_size
                      (rs_per_routing_service svc) (rs_per_routing_byte svc))) (\<lambda>receipt.
                  and_then (map_err OfferCannotSign (receipt_sign env receipt (rs_main svc))) (\<lambda>signed_receipt. Ok (signed_receipt, True))))
                else if ck_last_sequence checkpoint < sr_sequence previous
                   \<and> ck_cumulative_charge_wei checkpoint < sr_cumulative_charge_wei previous
                then Ok (ros_last_signed_receipt state, False)
                else Err OfferAcknowledgementInconsistent)
      | None \<Rightarrow>
          if checkpoint_opt \<noteq> None then Err OfferAcknowledgementWithoutOffer
          else and_then (map_err OfferCannotSign (receipt_sign env
              (service_receipt_new (rsr_route_epoch request) 1 Routing (cde_public_key (rs_main svc))
                 (rsr_accounting_commitment request) payload_size (rs_per_routing_service svc) (rs_per_routing_byte svc))
              (rs_main svc))) (\<lambda>signed_receipt. Ok (signed_receipt, True)))"

definition offer_state_of :: "receipt_session_request \<Rightarrow> signed_service_receipt \<Rightarrow> routing_receipt_offer_state" where
  "offer_state_of request signed_receipt =
     \<lparr>ros_authorization_nonce = rsp_authorization_nonce (request_policy request),
      ros_payer_session_public_key = rsp_payer_session_public_key (request_policy request),
      ros_expires_at_unix_s = rsp_expires_at_unix_s (request_policy request), ros_last_signed_receipt = signed_receipt\<rparr>"

text \<open>The checks, the receipt and its encryption, which only read the database.\<close>

definition prepare_offer ::
    "'m routing_env_scheme \<Rightarrow> u64 \<Rightarrow> receipt_session_request \<Rightarrow> nat \<Rightarrow> service_receipt_settlement_context \<Rightarrow> routing_service \<Rightarrow>
     (signed_service_receipt \<times> bool \<times> crypt_data, routing_offer_error) res" where
  "prepare_offer env now_unix_s request payload_size context svc =
     (let renv = he_receipt_env env; policy = request_policy request;
          session_key = rsp_payer_session_public_key policy; provider = cde_public_key (rs_main svc) in
      and_then (map_err OfferInvalidAuthorization (session_request_verify renv request (sc_chain_id context)
          (sc_settlement_contract context) now_unix_s)) (\<lambda>_.
      if \<not> payload_size < 2 ^ 64 then Err OfferPayloadTooLarge
      else
      and_then (map_err OfferCannotLoadReceipt (routing_offer_state (re_dao_env env) (sc_dao context)
          (rsp_authorization_nonce policy) (rsr_route_epoch request) provider session_key)) (\<lambda>persisted_state_opt.
      and_then (map_err OfferCannotLoadAcknowledgement (dao_checkpoint (re_dao_env env) (sc_dao context)
          (rsr_route_epoch request) provider session_key)) (\<lambda>checkpoint_opt.
      if \<not> acknowledgement_matches request provider checkpoint_opt then Err OfferAcknowledgementIdentityChanged
      else
      and_then (offered_receipt renv svc request (of_nat payload_size) persisted_state_opt checkpoint_opt)
        (\<lambda>(signed_receipt, persist_new_state).
      and_then (map_err OfferExceedsAuthorization (session_verify renv (rsr_authorization request) (sc_chain_id context)
          (sc_settlement_contract context) session_key now_unix_s (sr_cumulative_charge_wei (ssr_receipt signed_receipt)))) (\<lambda>_.
      and_then (map_err OfferCannotEncrypt (encodex (re_to_vec_offer env) (rs_main svc) session_key
          \<lparr>sop_signed_receipt = signed_receipt\<rparr>)) (\<lambda>encrypted_offer.
      Ok (signed_receipt, persist_new_state, encrypted_offer))))))))"

definition make_routing_receipt_offer ::
    "'m routing_env_scheme \<Rightarrow> int \<Rightarrow> receipt_session_request \<Rightarrow> nat \<Rightarrow> routing_service \<Rightarrow>
     (crypt_data, routing_offer_error) res \<times> routing_service" where
  "make_routing_receipt_offer env now request payload_size svc =
     (case rs_receipt_context_opt svc of
        None \<Rightarrow> (Err OfferSettlementDisabled, svc)
      | Some context \<Rightarrow>
          (case and_then (map_err (\<lambda>_. OfferTimeBeforeEpoch) (unix_seconds now)) (\<lambda>now_unix_s.
                  and_then (prepare_offer env now_unix_s request payload_size context svc) (\<lambda>prepared. Ok (now_unix_s, prepared))) of
             Ok (now_unix_s, signed_receipt, persist_new_state, encrypted_offer) \<Rightarrow>
               if persist_new_state
               then let (r, db) = save_routing_offer_state (re_dao_env env) (sc_dao context) (offer_state_of request signed_receipt)
                        now_unix_s max_routing_receipt_session_states in
                    (and_then (map_err OfferCannotPersist r) (\<lambda>_. Ok encrypted_offer), with_dao db context svc)
               else (Ok encrypted_offer, svc)
           | Err e \<Rightarrow> (Err e, svc)
           | Panic \<Rightarrow> (Panic, svc)))"

subsection \<open>Relaying\<close>

definition to_transmit_data_msg ::
    "'m cores_env_scheme \<Rightarrow> (bytes \<Rightarrow> bytes) \<Rightarrow> live_cores_package \<Rightarrow> bool \<Rightarrow> routing_service \<Rightarrow> (transmit_data_msg, cryptdec_error) res" where
  "to_transmit_data_msg env random live_package is_last svc =
     and_then (map_err (\<lambda>e. OtherError (''Couldn't get next hop and outgoing LCP from incoming LCP: '' @ ce_debug env e))
         (into_next_live env random (rs_main svc) live_package)) (\<lambda>(next, next_live_package).
     and_then (map_err (\<lambda>e. OtherError (''Couldn't serialize or encrypt outgoing LCP: '' @ ce_debug env e))
         (encodex (ce_to_vec_package env) (rs_main svc) (hop_public_key next) next_live_package)) (\<lambda>next_live_package_enc.
       Ok \<lparr>td_endpoint = EndpointKey (hop_public_key next), td_last_data = is_last, td_sequence_number_opt = None,
           td_data = next_live_package_enc\<rparr>))"

definition transmit ::
    "'m cores_env_scheme \<Rightarrow> (bytes \<Rightarrow> bytes) \<Rightarrow> live_cores_package \<Rightarrow> bool \<Rightarrow> routing_service \<Rightarrow> routing_outcome" where
  "transmit env random live_package is_last svc =
     or_log (to_transmit_data_msg env random live_package is_last svc) svc (\<lambda>msg. ([ToDispatcher msg], Returned, svc))"

definition route_data_externally ::
    "'m routing_env_scheme \<Rightarrow> circumstances \<Rightarrow> live_cores_package \<Rightarrow> payer option \<Rightarrow> receipt_session_request option \<Rightarrow> bool \<Rightarrow>
     routing_service \<Rightarrow> routing_outcome" where
  "route_data_externally env at live_package payer_opt routing_receipt_request_opt is_last svc =
     (let payload_size = length (lcp_payload live_package); refused = ([], Returned, svc) in
      case payer_opt of
        None \<Rightarrow> refused
      | Some payer \<Rightarrow>
          or_log (owns_secret_key (he_receipt_env env) payer (cde_digest (rs_main svc)) :: (bool, unit) res) svc (\<lambda>owns.
          if \<not> owns then refused
          else or_log (is_delinquent (he_receipt_env env) (at_ban_cache at) payer :: (bool, unit) res) svc (\<lambda>delinquent.
          if delinquent then refused
          else case routing_receipt_request_opt of
            Some request \<Rightarrow>
              or_log (wallet_address (he_receipt_env env) (payer_wallet payer) :: (address, unit) res) svc (\<lambda>address.
              if rsp_payer_wallet_address (request_policy request) \<noteq> address then refused
              else if length (lcp_routing_receipt_offers live_package) \<ge> max_routing_receipt_offers_per_package then refused
              else let (r, svc') = make_routing_receipt_offer env (at_now at) request payload_size svc in
                or_log r svc' (\<lambda>encrypted_offer.
                  transmit env (at_random at)
                    (live_with_offers live_package (lcp_routing_receipt_offers live_package @ [encrypted_offer])) is_last svc'))
          | None \<Rightarrow>
              let (effects, status, svc') = transmit env (at_random at) live_package is_last svc in
              (ToAccountant \<lparr>rrs_timestamp = at_now at, rrs_paying_wallet = payer_wallet payer, rrs_payload_size = payload_size,
                 rrs_service_rate = rs_per_routing_service svc, rrs_byte_rate = rs_per_routing_byte svc\<rparr> # effects,
               status, svc'))))"

definition route_data_around_again ::
    "'m routing_env_scheme \<Rightarrow> circumstances \<Rightarrow> live_cores_package \<Rightarrow> inbound_client_data \<Rightarrow> routing_service \<Rightarrow> routing_outcome" where
  "route_data_around_again env at live_package ibcd_but_data svc =
     or_log (into_next_live env (at_random at) (rs_main svc) live_package) svc (\<lambda>(_, next_lcp).
       case encodex (ce_to_vec_package env) (rs_main svc) (cde_public_key (rs_main svc)) next_lcp of
         Ok payload \<Rightarrow> ([ToHopper (ibcd_but_data\<lparr>ib_data := payload\<rparr>)], Returned, svc)
       | _ \<Rightarrow> ([], Panicked, svc))"

subsection \<open>Handing over to a component\<close>

definition extract_expired_package ::
    "'m cores_env_scheme \<Rightarrow> socket_addr \<Rightarrow> live_cores_package \<Rightarrow> component \<Rightarrow> routing_service \<Rightarrow>
     (message_type expired_cores_package, codec_error) res" where
  "extract_expired_package env immediate_neighbor_addr live_package target svc =
     to_expired env live_package immediate_neighbor_addr (rs_main svc)
       (if target = ProxyServer then rs_alias svc else rs_main svc)"

definition route_expired_package ::
    "'m routing_env_scheme \<Rightarrow> circumstances \<Rightarrow> component \<Rightarrow> message_type expired_cores_package \<Rightarrow> bool \<Rightarrow> routing_service \<Rightarrow>
     routing_outcome" where
  "route_expired_package env at target p owns svc =
     (let pv = re_payloads env; send = (\<lambda>effect. ([effect], Returned, svc)) in
      case (target, ex_payload p) of
        (ProxyClient, ClientRequest vd) \<Rightarrow>
          if \<not> rs_is_decentralized svc \<or> owns
          then if \<not> rs_proxy_client_running svc then ([], Returned, svc)
            else or_log (try_from_future (pv_client_request pv) (pv_client_request_step pv) vd) svc
                   (\<lambda>request. send (ToProxyClient (with_payload p request)))
          else ([], Returned, svc)
      | (ProxyServer, ClientResponse vd) \<Rightarrow>
          or_log (try_from_future (pv_client_response pv) (pv_client_response_step pv) vd) svc
            (\<lambda>response. send (ToProxyServer (with_payload p response)))
      | (ProxyServer, MeteredClientResponse vd) \<Rightarrow>
          or_log (try_from_current (pv_metered_client_response pv) vd) svc
            (\<lambda>response. send (ToProxyServerMetered (with_payload p response)))
      | (ProxyServer, DnsResolveFailed vd) \<Rightarrow>
          or_log (try_from_future (pv_dns_resolve_failure pv) (pv_dns_resolve_failure_step pv) vd) svc
            (\<lambda>failure. send (ToProxyServerDnsFailure (with_payload p failure)))
      | (Neighborhood, Gossip vd) \<Rightarrow>
          or_log (try_from_future (pv_gossip pv) (pv_gossip_step pv) vd) svc
            (\<lambda>g. send (ToNeighborhood (with_payload p g)))
      | (Neighborhood, GossipFailure vd) \<Rightarrow>
          or_log (try_from_future (pv_gossip_failure pv) (pv_gossip_failure_step pv) vd) svc
            (\<lambda>failure. send (ToNeighborhoodFailure (with_payload p failure)))
      | (ProxyServer, ServiceReceiptOffer vd) \<Rightarrow>
          or_log (try_from_current (pv_service_receipt_offer pv) vd) svc
            (\<lambda>offer. send (ToProxyServerOffer (with_payload p offer)))
      | (Hopper, ServiceReceipt vd) \<Rightarrow>
          or_log (try_from_current (pv_service_receipt pv) vd) svc
            (\<lambda>payload. accept_service_receipt env (at_now at) payload svc)
      | _ \<Rightarrow> ([], Returned, svc))"

definition route_data_to_peripheral_component ::
    "'m routing_env_scheme \<Rightarrow> circumstances \<Rightarrow> component \<Rightarrow> socket_addr \<Rightarrow> live_cores_package \<Rightarrow> bool \<Rightarrow> routing_service \<Rightarrow>
     routing_outcome" where
  "route_data_to_peripheral_component env at target immediate_neighbor_addr live_package owns svc =
     or_log (extract_expired_package env immediate_neighbor_addr live_package target svc) svc
       (\<lambda>expired_package. route_expired_package env at target expired_package owns svc)"

definition route_data_internally ::
    "'m routing_env_scheme \<Rightarrow> circumstances \<Rightarrow> live_hop \<Rightarrow> socket_addr \<Rightarrow> live_cores_package \<Rightarrow> inbound_client_data \<Rightarrow>
     routing_service \<Rightarrow> routing_outcome" where
  "route_data_internally env at next immediate_neighbor_addr live_package ibcd_but_data svc =
     (if hop_component next = Hopper then route_data_around_again env at live_package ibcd_but_data svc
      else or_log ((case hop_payer next of
             None \<Rightarrow> Ok False
           | Some payer \<Rightarrow> is_delinquent (he_receipt_env env) (at_ban_cache at) payer) :: (bool, unit) res) svc (\<lambda>delinquent.
        if delinquent then ([], Returned, svc)
        else or_log (payer_owns_secret_key env next (cde_digest (rs_main svc)) :: (bool, unit) res) svc (\<lambda>owns.
          route_data_to_peripheral_component env at (hop_component next) immediate_neighbor_addr live_package owns svc)))"

subsection \<open>Routing\<close>

definition is_destined_for_here :: "routing_service \<Rightarrow> live_hop \<Rightarrow> bool" where
  "is_destined_for_here svc next \<longleftrightarrow> hop_public_key next = cde_public_key (rs_main svc)"

definition route_data ::
    "'m routing_env_scheme \<Rightarrow> circumstances \<Rightarrow> socket_addr \<Rightarrow> live_hop \<Rightarrow> live_cores_package \<Rightarrow> bool \<Rightarrow> inbound_client_data \<Rightarrow>
     routing_service \<Rightarrow> routing_outcome" where
  "route_data env at sender_addr next live_package is_last ibcd_but_data svc =
     (if hop_component next = Hopper \<and> \<not> is_destined_for_here svc next
      then route_data_externally env at live_package (hop_payer next) (hop_routing_receipt_request_opt next) is_last svc
      else route_data_internally env at next sender_addr live_package ibcd_but_data svc)"

definition hopper_route ::
    "'m routing_env_scheme \<Rightarrow> circumstances \<Rightarrow> inbound_client_data \<Rightarrow> routing_service \<Rightarrow> routing_outcome" where
  "hopper_route env at ibcd svc =
     or_log (decodex (ce_from_slice_package env) (rs_main svc) (ib_data ibcd)) svc (\<lambda>live_package.
     or_log (next_hop env (lcp_route live_package) (rs_main svc)) svc (\<lambda>next.
       route_data env at (ib_client_addr ibcd) next live_package (ib_last_data ibcd) (clone_but_data (at_now at) ibcd) svc))"

end
