(* ===== verification/Hopper_Safety.thy ===== *)
theory Hopper_Safety
  imports Routing_Service
begin

section \<open>What the routing service does with a package\<close>

text \<open>
  Properties of \<open>hopper_route\<close>: what a call may send, what has to be paid before a package leaves,
  and what it may change in the database.
\<close>

subsection \<open>Outcomes\<close>

lemma or_log_simps [simp]:
  "or_log (Ok a) svc k = k a" "or_log (Err e) svc k = ([], Returned, svc)" "or_log Panic svc k = ([], Panicked, svc)"
  by (simp_all add: or_log_def)

lemma or_log_cases:
  assumes "or_log r svc k = (es, st, svc')"
  obtains "es = []" "svc' = svc" | a where "r = Ok a" "k a = (es, st, svc')"
  using assms by (cases r) auto

text \<open>The part of a service that no call changes.\<close>

definition offers_updated :: "service_receipt_settlement_context \<Rightarrow> service_receipt_settlement_context \<Rightarrow> bool" where
  "offers_updated c c' \<longleftrightarrow> (\<exists>offers. c' = c\<lparr>sc_dao := (sc_dao c)\<lparr>db_offers := offers\<rparr>\<rparr>)"

definition only_offers_change :: "routing_service \<Rightarrow> routing_service \<Rightarrow> bool" where
  "only_offers_change svc svc' \<longleftrightarrow>
     (\<exists>context_opt. svc' = svc\<lparr>rs_receipt_context_opt := context_opt\<rparr> \<and>
        rel_option offers_updated (rs_receipt_context_opt svc) context_opt)"

lemma offers_updated_refl: "offers_updated c c"
  unfolding offers_updated_def by (rule exI [of _ "db_offers (sc_dao c)"]) simp

lemma only_offers_change_refl [simp]: "only_offers_change svc svc"
  unfolding only_offers_change_def
  by (rule exI [of _ "rs_receipt_context_opt svc"]) (simp add: option.rel_refl offers_updated_refl)

lemma only_offers_change_or_log:
  assumes "or_log r svc k = (es, st, svc')" and "\<And>a. r = Ok a \<Longrightarrow> k a = (es, st, svc') \<Longrightarrow> only_offers_change svc svc'"
  shows "only_offers_change svc svc'"
  using assms(1) by (rule or_log_cases) (use assms(2) in auto)

lemma make_offer_changes:
  assumes "make_routing_receipt_offer env now request n svc = (r, svc')"
  shows "only_offers_change svc svc'"
proof (cases "svc' = svc")
  case False
  then obtain ctx s u db r' where c: "rs_receipt_context_opt svc = Some ctx" "svc' = with_dao db ctx svc"
    "save_routing_offer_state (re_dao_env env) (sc_dao ctx) s u max_routing_receipt_session_states = (r', db)"
    using assms by (auto simp: make_routing_receipt_offer_def split: option.splits res.splits if_splits prod.splits)
  from save_routing_offer_state_frame [OF c(3)] obtain x where "db = (sc_dao ctx)\<lparr>db_offers := x\<rparr>" by blast
  then have "offers_updated ctx (ctx\<lparr>sc_dao := db\<rparr>)" unfolding offers_updated_def by blast
  then show ?thesis
    using c(1,2) unfolding only_offers_change_def
    by (intro exI [of _ "Some (ctx\<lparr>sc_dao := db\<rparr>)"]) (simp add: with_dao_def)
qed simp

lemma transmit_cases:
  assumes "transmit env random p is_last svc = (es, st, svc')"
  shows "svc' = svc \<and> (es = [] \<or> (\<exists>msg. to_transmit_data_msg env random p is_last svc = Ok msg \<and> es = [ToDispatcher msg] \<and> st = Returned))"
  using assms unfolding transmit_def by (cases "to_transmit_data_msg env random p is_last svc") auto

text \<open>A package for another node: everything that is checked before it is sent on.\<close>

lemma route_data_externally_cases:
  assumes "route_data_externally env at p payer_opt request_opt is_last svc = (es, st, svc')"
  shows "es = [] \<and> (svc' = svc \<or> (\<exists>request n r. make_routing_receipt_offer env (at_now at) request n svc = (r, svc'))) \<or>
    (\<exists>payer. payer_opt = Some payer \<and>
      owns_secret_key (he_receipt_env env) payer (cde_digest (rs_main svc)) = (Ok True :: (bool, unit) res) \<and>
      is_delinquent (he_receipt_env env) (at_ban_cache at) payer = (Ok False :: (bool, unit) res) \<and>
      (case request_opt of
         None \<Rightarrow> svc' = svc \<and> (\<exists>rest. es = ToAccountant \<lparr>rrs_timestamp = at_now at, rrs_paying_wallet = payer_wallet payer,
             rrs_payload_size = length (lcp_payload p), rrs_service_rate = rs_per_routing_service svc,
             rrs_byte_rate = rs_per_routing_byte svc\<rparr> # rest \<and> transmit env (at_random at) p is_last svc = (rest, st, svc))
       | Some request \<Rightarrow>
           wallet_address (he_receipt_env env) (payer_wallet payer) =
             (Ok (rsp_payer_wallet_address (request_policy request)) :: (address, unit) res) \<and>
           length (lcp_routing_receipt_offers p) < 64 \<and>
           (\<exists>offer. make_routing_receipt_offer env (at_now at) request (length (lcp_payload p)) svc = (Ok offer, svc') \<and>
             transmit env (at_random at) (live_with_offers p (lcp_routing_receipt_offers p @ [offer])) is_last svc' = (es, st, svc'))))"
proof (cases payer_opt)
  case None
  then show ?thesis using assms by (simp add: route_data_externally_def)
next
  case (Some payer)
  let ?own = "owns_secret_key (he_receipt_env env) payer (cde_digest (rs_main svc)) :: (bool, unit) res"
  let ?del = "is_delinquent (he_receipt_env env) (at_ban_cache at) payer :: (bool, unit) res"
  show ?thesis
  proof (cases "?own = Ok True \<and> ?del = Ok False")
    case False
    then have "es = [] \<and> svc' = svc"
      using assms Some by (auto simp: route_data_externally_def Let_def elim!: or_log_cases split: if_splits)
    then show ?thesis by simp
  next
    case True
    show ?thesis
    proof (cases request_opt)
      case None
      obtain rest st1 svc1 where t: "transmit env (at_random at) p is_last svc = (rest, st1, svc1)" by (rule prod_cases3)
      then show ?thesis
        using assms Some True None transmit_cases [OF t] by (auto simp: route_data_externally_def Let_def)
    next
      case (Some request)
      note r = assms [unfolded route_data_externally_def \<open>payer_opt = Some payer\<close> Some Let_def option.case]
      obtain q svc1 where q: "make_routing_receipt_offer env (at_now at) request (length (lcp_payload p)) svc = (q, svc1)" by force
      show ?thesis
      proof (cases "wallet_address (he_receipt_env env) (payer_wallet payer) =
            (Ok (rsp_payer_wallet_address (request_policy request)) :: (address, unit) res) \<and>
          length (lcp_routing_receipt_offers p) < 64 \<and> (\<exists>offer. q = Ok offer)")
        case False
        then have "es = [] \<and> (svc' = svc \<or> svc' = svc1)"
          using r True q
          by (auto simp: max_routing_receipt_offers_per_package_def not_le elim!: or_log_cases split: if_splits)
        then show ?thesis using q by auto
      next
        case w: True
        then obtain offer where "q = Ok offer" by blast
        then have t: "transmit env (at_random at) (live_with_offers p (lcp_routing_receipt_offers p @ [offer])) is_last svc1 = (es, st, svc')"
          using r True q w by (simp add: max_routing_receipt_offers_per_package_def)
        then have "svc' = svc1" using transmit_cases [OF t] by simp
        then show ?thesis
          using t q w True \<open>payer_opt = Some payer\<close> Some \<open>q = Ok offer\<close>
          by (intro disjI2 exI [of _ payer]) simp
      qed
    qed
  qed
qed

lemma route_data_internally_changes:
  assumes "route_data_internally env at next addr p ibcd svc = (es, st, svc')"
  shows "svc' = svc \<and> (\<forall>msg. ToDispatcher msg \<notin> set es)"
proof (cases "hop_component next = Hopper")
  case True
  then show ?thesis
    using assms
    by (auto simp: route_data_internally_def route_data_around_again_def elim!: or_log_cases split: res.splits)
next
  case False
  then show ?thesis
    using assms
    by (auto simp: route_data_internally_def route_data_to_peripheral_component_def route_expired_package_def Let_def
        elim!: or_log_cases split: if_splits component.splits message_type.splits)
qed

lemma hopper_route_cases:
  assumes "hopper_route env at ibcd svc = (es, st, svc')"
  obtains (nothing) "svc' = svc" "\<forall>msg. ToDispatcher msg \<notin> set es"
  | (relay) p hop where "decodex (ce_from_slice_package env) (rs_main svc) (ib_data ibcd) = Ok p"
      "next_hop env (lcp_route p) (rs_main svc) = Ok hop" "hop_component hop = Hopper"
      "hop_public_key hop \<noteq> cde_public_key (rs_main svc)"
      "route_data_externally env at p (hop_payer hop) (hop_routing_receipt_request_opt hop) (ib_last_data ibcd) svc = (es, st, svc')"
proof -
  from assms [unfolded hopper_route_def] show thesis
  proof (rule or_log_cases)
    fix p assume p: "decodex (ce_from_slice_package env) (rs_main svc) (ib_data ibcd) = Ok p"
      and "or_log (next_hop env (lcp_route p) (rs_main svc)) svc
         (\<lambda>next. route_data env at (ib_client_addr ibcd) next p (ib_last_data ibcd) (clone_but_data (at_now at) ibcd) svc) = (es, st, svc')"
    from this(2) show thesis
    proof (rule or_log_cases)
      fix hop assume hop: "next_hop env (lcp_route p) (rs_main svc) = Ok hop"
        and r: "route_data env at (ib_client_addr ibcd) hop p (ib_last_data ibcd) (clone_but_data (at_now at) ibcd) svc = (es, st, svc')"
      show thesis
      proof (cases "hop_component hop = Hopper \<and> \<not> is_destined_for_here svc hop")
        case True
        then show thesis using relay [OF p hop] r by (simp add: route_data_def is_destined_for_here_def)
      next
        case False
        then have "route_data_internally env at hop (ib_client_addr ibcd) p (clone_but_data (at_now at) ibcd) svc = (es, st, svc')"
          using r by (auto simp: route_data_def split: if_splits)
        note c = route_data_internally_changes [OF this]
        show thesis by (rule nothing) (use c in simp_all)
      qed
    qed (rule nothing, simp_all)
  qed (rule nothing, simp_all)
qed

subsection \<open>Payment before transit\<close>

text \<open>
  The offer for a package of a given size. A stored receipt that its payer has not acknowledged yet is
  offered again as it is, for whatever it was made out. Otherwise the receipt is for this package: the
  first of its route or the next after the acknowledged one, at the node's own rates, and stored.
\<close>

definition pending_receipt ::
    "routing_receipt_offer_state option \<Rightarrow> receipt_sequence_checkpoint option \<Rightarrow> signed_service_receipt option" where
  "pending_receipt state_opt checkpoint_opt =
     (case state_opt of
        None \<Rightarrow> None
      | Some state \<Rightarrow>
          (case checkpoint_opt of
             None \<Rightarrow> Some (ros_last_signed_receipt state)
           | Some checkpoint \<Rightarrow>
               if ck_last_sequence checkpoint = sr_sequence (ssr_receipt (ros_last_signed_receipt state))
               then None else Some (ros_last_signed_receipt state)))"

definition receipt_for_package ::
    "routing_service \<Rightarrow> receipt_session_request \<Rightarrow> nat \<Rightarrow> routing_receipt_offer_state option \<Rightarrow> service_receipt \<Rightarrow> bool" where
  "receipt_for_package svc request payload_size state_opt r \<longleftrightarrow>
     sr_route_epoch r = rsr_route_epoch request \<and> sr_accounting_commitment r = rsr_accounting_commitment request \<and>
     sr_service_kind r = Routing \<and> sr_provider_public_key r = cde_public_key (rs_main svc) \<and>
     unat (sr_payload_size r) = payload_size \<and> sr_service_units r = 1 \<and>
     sr_service_rate r = rs_per_routing_service svc \<and> sr_byte_rate r = rs_per_routing_byte svc \<and>
     unat (sr_sequence r) =
       (case state_opt of None \<Rightarrow> 1 | Some state \<Rightarrow> unat (sr_sequence (ssr_receipt (ros_last_signed_receipt state))) + 1)"

definition offer_for ::
    "'m routing_env_scheme \<Rightarrow> int \<Rightarrow> receipt_session_request \<Rightarrow> nat \<Rightarrow> routing_service \<Rightarrow> crypt_data \<Rightarrow> routing_service \<Rightarrow> bool" where
  "offer_for env now request payload_size svc offer svc' \<longleftrightarrow>
     (\<exists>context state_opt checkpoint_opt signed. rs_receipt_context_opt svc = Some context \<and>
        routing_offer_state (re_dao_env env) (sc_dao context) (rsp_authorization_nonce (request_policy request)) (rsr_route_epoch request)
          (cde_public_key (rs_main svc)) (rsp_payer_session_public_key (request_policy request)) = Ok state_opt \<and>
        dao_checkpoint (re_dao_env env) (sc_dao context) (rsr_route_epoch request) (cde_public_key (rs_main svc))
          (rsp_payer_session_public_key (request_policy request)) = Ok checkpoint_opt \<and>
        session_verify (he_receipt_env env) (rsr_authorization request) (sc_chain_id context) (sc_settlement_contract context)
          (rsp_payer_session_public_key (request_policy request)) (word_of_int now) (sr_cumulative_charge_wei (ssr_receipt signed)) = Ok () \<and>
        encodex (re_to_vec_offer env) (rs_main svc) (rsp_payer_session_public_key (request_policy request)) \<lparr>sop_signed_receipt = signed\<rparr> =
          Ok offer \<and>
        (case pending_receipt state_opt checkpoint_opt of
           Some pending \<Rightarrow> signed = pending \<and> svc' = svc
         | None \<Rightarrow>
             receipt_for_package svc request payload_size state_opt (ssr_receipt signed) \<and>
             receipt_sign (he_receipt_env env) (ssr_receipt signed) (rs_main svc) = Ok signed \<and>
             (\<exists>db. save_routing_offer_state (re_dao_env env) (sc_dao context) (offer_state_of request signed) (word_of_int now)
                 max_routing_receipt_session_states = (Ok (), db) \<and> svc' = with_dao db context svc)))"

lemma offered_receipt_cases:
  assumes "offered_receipt env svc q (of_nat n) state_opt ck_opt = Ok (s, fresh)" "n < 2 ^ 64"
  shows "(if fresh then pending_receipt state_opt ck_opt = None \<and> receipt_for_package svc q n state_opt (ssr_receipt s) \<and>
       receipt_sign env (ssr_receipt s) (rs_main svc) = Ok s
     else pending_receipt state_opt ck_opt = Some s)"
proof (cases state_opt)
  case None
  then have "fresh" "receipt_sign env (service_receipt_new (rsr_route_epoch q) 1 Routing (cde_public_key (rs_main svc))
      (rsr_accounting_commitment q) (of_nat n) (rs_per_routing_service svc) (rs_per_routing_byte svc)) (rs_main svc) = Ok s"
    using assms(1) by (auto simp: offered_receipt_def res_simps split: if_splits)
  moreover from this(2) have "ssr_receipt s = service_receipt_new (rsr_route_epoch q) 1 Routing (cde_public_key (rs_main svc))
      (rsr_accounting_commitment q) (of_nat n) (rs_per_routing_service svc) (rs_per_routing_byte svc)"
    by (auto simp: receipt_sign_eq_Ok)
  ultimately show ?thesis
    using None assms(2) by (simp add: pending_receipt_def receipt_for_package_def)
      (simp add: service_receipt_new_def new_with_service_units_def unat_of_nat_less)
next
  case (Some st)
  let ?last = "ssr_receipt (ros_last_signed_receipt st)"
  have kept: "offer_identity_kept svc q st" using assms(1) Some by (auto simp: offered_receipt_def Let_def split: if_splits)
  show ?thesis
  proof (cases fresh)
    case False
    then show ?thesis
      using assms(1) Some by (auto simp: offered_receipt_def Let_def res_simps pending_receipt_def split: if_splits option.splits)
  next
    case True
    then obtain n' r where n': "checked_add (sr_sequence ?last) 1 = Some n'" "pending_receipt state_opt ck_opt = None"
      and r: "next_for_same_route ?last n' Routing (of_nat n) (rs_per_routing_service svc) (rs_per_routing_byte svc) = Ok r"
      and s: "ssr_receipt s = r" "receipt_sign env r (rs_main svc) = Ok s"
      using assms(1) Some
      by (auto simp: offered_receipt_def Let_def res_simps receipt_sign_eq_Ok pending_receipt_def split: if_splits option.splits)
    have "r = \<lparr>sr_protocol_version = 1, sr_route_epoch = sr_route_epoch ?last, sr_sequence = n', sr_service_kind = Routing,
        sr_provider_public_key = sr_provider_public_key ?last,
        sr_accounting_commitment = sr_accounting_commitment ?last, sr_payload_size = of_nat n, sr_service_units = 1,
        sr_service_rate = rs_per_routing_service svc, sr_byte_rate = rs_per_routing_byte svc,
        sr_cumulative_charge_wei = sr_cumulative_charge_wei r\<rparr>"
      using r [unfolded next_for_same_route_def next_with_service_units_eq_Ok] by blast
    then have f: "sr_sequence r = n'" "sr_route_epoch r = sr_route_epoch ?last" "sr_service_kind r = Routing"
      "sr_provider_public_key r = sr_provider_public_key ?last" "sr_accounting_commitment r = sr_accounting_commitment ?last"
      "sr_payload_size r = of_nat n" "sr_service_units r = 1" "sr_service_rate r = rs_per_routing_service svc" "sr_byte_rate r = rs_per_routing_byte svc"
      by (metis service_receipt.select_convs)+
    have "unat n' = unat (sr_sequence ?last) + 1" using n'(1) by (simp add: checked_add_eq_Some)
    then show ?thesis
      using True n'(2) s Some kept assms(2)
      by (simp add: receipt_for_package_def f offer_identity_kept_def Let_def unat_of_nat_less)
  qed
qed

lemma make_offer_for:
  assumes "make_routing_receipt_offer env now q n svc = (Ok offer, svc')"
  shows "offer_for env now q n svc offer svc'"
proof -
  obtain c s fresh where c: "rs_receipt_context_opt svc = Some c" and prep: "prepare_offer env (word_of_int now) q n c svc = Ok (s, fresh, offer)"
    and saved: "if fresh then \<exists>db. save_routing_offer_state (re_dao_env env) (sc_dao c) (offer_state_of q s) (word_of_int now)
        max_routing_receipt_session_states = (Ok (), db) \<and> svc' = with_dao db c svc else svc' = svc"
    using assms
    by (auto simp: make_routing_receipt_offer_def unix_seconds_def res_simps split: option.splits res.splits if_splits prod.splits)
  let ?p = "request_policy q" and ?pk = "cde_public_key (rs_main svc)"
  obtain state_opt ck_opt where so: "routing_offer_state (re_dao_env env) (sc_dao c) (rsp_authorization_nonce ?p) (rsr_route_epoch q) ?pk
        (rsp_payer_session_public_key ?p) = Ok state_opt"
    "dao_checkpoint (re_dao_env env) (sc_dao c) (rsr_route_epoch q) ?pk (rsp_payer_session_public_key ?p) = Ok ck_opt"
    and off: "offered_receipt (he_receipt_env env) svc q (of_nat n) state_opt ck_opt = Ok (s, fresh)" "n < 2 ^ 64"
    and ver: "session_verify (he_receipt_env env) (rsr_authorization q) (sc_chain_id c) (sc_settlement_contract c)
        (rsp_payer_session_public_key ?p) (word_of_int now) (sr_cumulative_charge_wei (ssr_receipt s)) = Ok ()"
    "encodex (re_to_vec_offer env) (rs_main svc) (rsp_payer_session_public_key ?p) \<lparr>sop_signed_receipt = s\<rparr> = Ok offer"
    using prep by (auto simp: prepare_offer_def Let_def res_simps split: if_splits)
  show ?thesis
    unfolding offer_for_def using c so ver offered_receipt_cases [OF off] saved
    by (intro exI [of _ c] exI [of _ state_opt] exI [of _ ck_opt] exI [of _ s]) (cases fresh; simp)
qed

text \<open>
  C2. Transit needs a payer who has proved to be one. Whenever routing a package sends anything to
  another node, the package was sealed for this node, its top hop names another node and the hopper,
  and comes with a payer that has proved ownership of its wallet to this very node and is not banned;
  the message goes to the node the hop names. Without a receipt request the accountant has been told
  the wallet, the size of the payload and the node's own rates before. With one, the paying wallet is
  the one that authorized the request, the package had room for another offer, and what leaves is the
  package with one more offer behind those it had, sealed for the payer's session and within the
  charge that the payer has authorized. If a receipt of the route still waits for its acknowledgement,
  this offer is that receipt unchanged, so that this package is not accounted by a receipt of its own.
  Otherwise it is a new receipt for this request and the size of this payload at the node's own rates,
  with the next number, and is stored before the package leaves.
\<close>

theorem transit_needs_proven_payer:
  assumes "hopper_route env at ibcd svc = (es, st, svc')" and "ToDispatcher msg \<in> set es"
  shows "\<exists>p hop payer. decodex (ce_from_slice_package env) (rs_main svc) (ib_data ibcd) = Ok p \<and>
    next_hop env (lcp_route p) (rs_main svc) = Ok hop \<and>
    hop_component hop = Hopper \<and> hop_public_key hop \<noteq> cde_public_key (rs_main svc) \<and> hop_payer hop = Some payer \<and>
    owns_secret_key (he_receipt_env env) payer (cde_digest (rs_main svc)) = (Ok True :: (bool, unit) res) \<and>
    is_delinquent (he_receipt_env env) (at_ban_cache at) payer = (Ok False :: (bool, unit) res) \<and>
    td_endpoint msg = EndpointKey (hop_public_key hop) \<and>
    (case hop_routing_receipt_request_opt hop of
       None \<Rightarrow>
         svc' = svc \<and> to_transmit_data_msg env (at_random at) p (ib_last_data ibcd) svc = Ok msg \<and>
         es = [ToAccountant \<lparr>rrs_timestamp = at_now at, rrs_paying_wallet = payer_wallet payer,
             rrs_payload_size = length (lcp_payload p), rrs_service_rate = rs_per_routing_service svc,
             rrs_byte_rate = rs_per_routing_byte svc\<rparr>, ToDispatcher msg]
     | Some request \<Rightarrow>
         wallet_address (he_receipt_env env) (payer_wallet payer) =
           (Ok (rsp_payer_wallet_address (request_policy request)) :: (address, unit) res) \<and>
         length (lcp_routing_receipt_offers p) < 64 \<and> es = [ToDispatcher msg] \<and>
         (\<exists>offer. make_routing_receipt_offer env (at_now at) request (length (lcp_payload p)) svc = (Ok offer, svc') \<and>
            offer_for env (at_now at) request (length (lcp_payload p)) svc offer svc' \<and>
            to_transmit_data_msg env (at_random at) (live_with_offers p (lcp_routing_receipt_offers p @ [offer]))
              (ib_last_data ibcd) svc' = Ok msg))"
proof -
  from assms(1) show ?thesis
  proof (cases rule: hopper_route_cases)
    case nothing
    then show ?thesis using assms(2) by simp
  next
    case (relay p hop)
    have sent: "td_endpoint m = EndpointKey (hop_public_key hop)"
      if "to_transmit_data_msg env (at_random at) q l svc1 = Ok m" "lcp_route q = lcp_route p" "rs_main svc1 = rs_main svc" for q l svc1 m
      using that relay(2)
      by (auto simp: to_transmit_data_msg_def into_next_live_def route_shift_def next_hop_def res_simps
          split: list.splits res.splits)
    have main: "rs_main svc1 = rs_main svc" if "make_routing_receipt_offer env now request n svc = (r, svc1)" for now request n r svc1
      using make_offer_changes [OF that] by (auto simp: only_offers_change_def)
    from route_data_externally_cases [OF relay(5)] assms(2) obtain payer where payer: "hop_payer hop = Some payer"
      "owns_secret_key (he_receipt_env env) payer (cde_digest (rs_main svc)) = (Ok True :: (bool, unit) res)"
      "is_delinquent (he_receipt_env env) (at_ban_cache at) payer = (Ok False :: (bool, unit) res)"
      and how: "case hop_routing_receipt_request_opt hop of
         None \<Rightarrow> svc' = svc \<and> (\<exists>rest. es = ToAccountant \<lparr>rrs_timestamp = at_now at, rrs_paying_wallet = payer_wallet payer,
             rrs_payload_size = length (lcp_payload p), rrs_service_rate = rs_per_routing_service svc,
             rrs_byte_rate = rs_per_routing_byte svc\<rparr> # rest \<and> transmit env (at_random at) p (ib_last_data ibcd) svc = (rest, st, svc))
       | Some request \<Rightarrow>
           wallet_address (he_receipt_env env) (payer_wallet payer) =
             (Ok (rsp_payer_wallet_address (request_policy request)) :: (address, unit) res) \<and>
           length (lcp_routing_receipt_offers p) < 64 \<and>
           (\<exists>offer. make_routing_receipt_offer env (at_now at) request (length (lcp_payload p)) svc = (Ok offer, svc') \<and>
             transmit env (at_random at) (live_with_offers p (lcp_routing_receipt_offers p @ [offer])) (ib_last_data ibcd) svc' = (es, st, svc'))"
      by fastforce
    show ?thesis
    proof (cases "hop_routing_receipt_request_opt hop")
      case None
      then obtain rest where "svc' = svc" and es: "es = ToAccountant \<lparr>rrs_timestamp = at_now at, rrs_paying_wallet = payer_wallet payer,
             rrs_payload_size = length (lcp_payload p), rrs_service_rate = rs_per_routing_service svc,
             rrs_byte_rate = rs_per_routing_byte svc\<rparr> # rest" and t: "transmit env (at_random at) p (ib_last_data ibcd) svc = (rest, st, svc)"
        using how by auto
      from transmit_cases [OF t] assms(2) es
      have m: "to_transmit_data_msg env (at_random at) p (ib_last_data ibcd) svc = Ok msg" "rest = [ToDispatcher msg]" by auto
      show ?thesis
        using relay(1-4) payer sent [OF m(1)] m es \<open>svc' = svc\<close> None
        by (intro exI [of _ p] exI [of _ hop] exI [of _ payer] conjI) simp_all
    next
      case (Some request)
      then obtain offer where o: "make_routing_receipt_offer env (at_now at) request (length (lcp_payload p)) svc = (Ok offer, svc')"
        and t: "transmit env (at_random at) (live_with_offers p (lcp_routing_receipt_offers p @ [offer])) (ib_last_data ibcd) svc' = (es, st, svc')"
        and w: "wallet_address (he_receipt_env env) (payer_wallet payer) =
             (Ok (rsp_payer_wallet_address (request_policy request)) :: (address, unit) res)" "length (lcp_routing_receipt_offers p) < 64"
        using how by auto
      from transmit_cases [OF t] assms(2)
      have m: "to_transmit_data_msg env (at_random at) (live_with_offers p (lcp_routing_receipt_offers p @ [offer])) (ib_last_data ibcd) svc' = Ok msg"
        "es = [ToDispatcher msg]" by auto
      have "td_endpoint msg = EndpointKey (hop_public_key hop)"
        using sent [OF m(1) _ main [OF o]] by (simp add: live_with_offers_def)
      then show ?thesis
        using relay(1-4) payer m o make_offer_for [OF o] w Some by (intro exI [of _ p] exI [of _ hop] exI [of _ payer] conjI) simp_all
    qed
  qed
qed

subsection \<open>Acknowledged receipts\<close>

text \<open>
  C12. No package from the network changes the books. Whatever arrives, \<open>route\<close> leaves the service as
  it was but for the stored routing offers: checkpoints, authorizations, receivables, claims and the
  payout authorization of the database stay the same. The branch of \<open>route_expired_package\<close> for
  service receipts asks for the component \<open>Hopper\<close>, but a hop that names the hopper is relayed or put
  around again before that point, so \<open>accept_service_receipt\<close> is never called, although called directly
  it would take the receipt.
\<close>

theorem packages_never_settle:
  assumes "hopper_route env at ibcd svc = (es, st, svc')"
  shows "only_offers_change svc svc'"
  using assms
proof (cases rule: hopper_route_cases)
  case nothing
  then show ?thesis by simp
next
  case (relay p hop)
  from route_data_externally_cases [OF this(5)] show ?thesis
    by (auto split: option.splits dest: make_offer_changes)
qed

end
