(* ===== verification/Routing_Offers.thy ===== *)
theory Routing_Offers
  imports Hopper_Safety
begin

section \<open>The chain of routing receipts\<close>

text \<open>
  A provider offers one receipt after the other for a route and signs each of them. These lemmas
  follow the offers through the database: what \<open>save_routing_offer_state\<close> leaves in the table, and
  what \<open>prepare_offer\<close> offers next. They end in the theorem that the offers for one authorization and
  route form a chain without forks.
\<close>

subsection \<open>The table of offers\<close>

definition row_state :: "dao_env \<Rightarrow> offer_row \<Rightarrow> routing_receipt_offer_state \<Rightarrow> bool" where
  "row_state env row st \<longleftrightarrow> deserialize_offer_row env row = Ok st \<and> or_key row = offer_key st \<and>
     or_expires_at_unix_s row = decimal (unat (ros_expires_at_unix_s st))"

definition offers_readable :: "dao_env \<Rightarrow> offer_row list \<Rightarrow> bool" where
  "offers_readable env rows \<longleftrightarrow> distinct (map or_key rows) \<and> (\<forall>row\<in>set rows. \<exists>st. row_state env row st)"

lemma sql_cast_decimal: "sql_cast_integer (decimal n) = min n (2 ^ 63 - 1)"
proof -
  have t: "takeWhile is_digit (decimal n) = decimal n"
    using decimal_digits [of n] by (simp add: takeWhile_eq_all_conv list_all_iff)
  show ?thesis unfolding sql_cast_integer_def t using decimal_digits [of n] by simp
qed

lemma prune_keeps:
  assumes "row \<in> set rows" "row_state env row st" "unat now \<le> unat (ros_expires_at_unix_s st)" "unat now < 2 ^ 63"
  shows "row \<in> set (prune_offers now rows)"
  using assms by (auto simp: prune_offers_def row_state_def sql_cast_decimal)

lemma row_state_written:
  assumes "dao_codecs env" "de_to_vec_offer_state env st = Ok bs" "sr_service_kind (ssr_receipt (ros_last_signed_receipt st)) = Routing"
    and "or_key row = offer_key st" "or_expires_at_unix_s row = decimal (unat (ros_expires_at_unix_s st))" "or_offer_state_cbor row = bs"
  shows "row_state env row st"
proof -
  have "de_from_slice_offer_state env bs = Ok st" using assms(1,2) by (simp add: dao_codecs_def)
  moreover have "(parse_uint (decimal (unat (ros_expires_at_unix_s st))) :: u64 option) = Some (ros_expires_at_unix_s st)"
    by (simp add: parse_decimal)
  ultimately show ?thesis
    using assms(3-6)
    by (simp add: row_state_def deserialize_offer_row_def deserialize_routing_offer_state_def or_key_def offer_key_def Let_def)
qed

text \<open>After a state is stored, the table holds it once and otherwise what it held, without expired offers.\<close>

lemma saved_offers:
  assumes codecs: "dao_codecs env" and ok: "offers_readable env (db_offers db)"
    and save: "save_routing_offer_state env db st now m = (Ok (), db')"
  shows "distinct (map or_key (db_offers db'))"
    and "\<exists>row. row_state env row st \<and>
      set (db_offers db') = {r \<in> set (prune_offers now (db_offers db)). or_key r \<noteq> offer_key st} \<union> {row}"
proof -
  let ?live = "prune_offers now (db_offers db)"
  have dist: "distinct (map or_key ?live)"
    using ok by (auto simp: offers_readable_def prune_offers_def distinct_map_filter)
  have readable: "\<exists>st. row_state env r st" if "r \<in> set ?live" for r
    using ok that by (auto simp: offers_readable_def prune_offers_def)
  from save have "offer_state_ok st now"
    by (auto simp: save_routing_offer_state_def run_transaction_def split: if_splits)
  then have kind: "sr_service_kind (ssr_receipt (ros_last_signed_receipt st)) = Routing"
    by (simp add: offer_state_ok_def Let_def)
  obtain bs where bs: "de_to_vec_offer_state env st = Ok bs"
    using save by (cases "de_to_vec_offer_state env st") (auto simp: save_routing_offer_state_def run_transaction_def split: if_splits)
  note written = row_state_written [OF codecs bs kind]
  have "distinct (map or_key (db_offers db')) \<and> (\<exists>row. row_state env row st \<and>
      set (db_offers db') = {r \<in> set ?live. or_key r \<noteq> offer_key st} \<union> {row})"
  proof (cases "List.find (\<lambda>r. or_key r = offer_key st) ?live")
    case None
    let ?row = "\<lparr>or_authorization_nonce = be_bytes 32 (ros_authorization_nonce st),
        or_route_epoch = be_bytes 32 (sr_route_epoch (ssr_receipt (ros_last_signed_receipt st))),
        or_provider_public_key = sr_provider_public_key (ssr_receipt (ros_last_signed_receipt st)),
        or_payer_session_public_key = ros_payer_session_public_key st,
        or_expires_at_unix_s = decimal (unat (ros_expires_at_unix_s st)), or_offer_state_cbor = bs\<rparr>"
    have key: "or_key ?row = offer_key st" by (simp add: or_key_def offer_key_def)
    have fresh: "\<forall>r\<in>set ?live. or_key r \<noteq> offer_key st" using None by (auto simp: find_None_iff)
    have rows: "db_offers db' = ?live @ [?row]"
      using save None bs \<open>offer_state_ok st now\<close>
      by (auto simp: save_routing_offer_state_def run_transaction_Ok res_simps Let_def insert_unique_eq_Ok split: if_splits)
    have "distinct (map or_key (?live @ [?row]))"
      using dist fresh key by auto
    moreover have "set (?live @ [?row]) = {r \<in> set ?live. or_key r \<noteq> offer_key st} \<union> {?row}"
      using fresh by auto
    moreover have "row_state env ?row st" using key by (intro written) simp_all
    ultimately show ?thesis unfolding rows by blast
  next
    case (Some row)
    then have row: "row \<in> set ?live" "or_key row = offer_key st" by (auto dest: find_key_SomeD)
    obtain old where old: "row_state env row old" using readable [OF row(1)] by blast
    show ?thesis
    proof (cases "old = st")
      case True
      then have "db_offers db' = ?live"
        using save Some bs \<open>offer_state_ok st now\<close> old
        by (auto simp: save_routing_offer_state_def run_transaction_Ok res_simps Let_def row_state_def split: if_splits)
      moreover have "set ?live = {r \<in> set ?live. or_key r \<noteq> offer_key st} \<union> {row}"
        using row dist by (auto simp: distinct_map inj_on_def)
      ultimately show ?thesis using dist old True by auto
    next
      case False
      let ?hit = "\<lambda>r. or_key r = offer_key st \<and> or_offer_state_cbor r = or_offer_state_cbor row"
      let ?f = "\<lambda>r. if ?hit r then r\<lparr>or_expires_at_unix_s := decimal (unat (ros_expires_at_unix_s st)), or_offer_state_cbor := bs\<rparr> else r"
      have rows: "db_offers db' = map ?f ?live"
        using save Some bs \<open>offer_state_ok st now\<close> old False
        by (auto simp: save_routing_offer_state_def run_transaction_Ok res_simps Let_def row_state_def split: if_splits)
      have "map or_key (map ?f ?live) = map or_key ?live" by (simp add: or_key_def)
      then have "distinct (map or_key (db_offers db'))" unfolding rows using dist by (simp only:)
      moreover have "set (map ?f ?live) = {r \<in> set ?live. or_key r \<noteq> offer_key st} \<union> {?f row}"
        using row dist by (auto simp: distinct_map inj_on_def image_iff)
      moreover have "row_state env (?f row) st"
        using row by (intro written) (simp_all add: or_key_def)
      ultimately show ?thesis unfolding rows by blast
    qed
  qed
  then show "distinct (map or_key (db_offers db'))"
    and "\<exists>row. row_state env row st \<and>
      set (db_offers db') = {r \<in> set ?live. or_key r \<noteq> offer_key st} \<union> {row}" by blast+
qed

subsection \<open>What is offered next\<close>

abbreviation request_expiry :: "receipt_session_request \<Rightarrow> u64" where
  "request_expiry q \<equiv> rsp_expires_at_unix_s (request_policy q)"

abbreviation offered_sequence :: "signed_service_receipt \<Rightarrow> nat" where
  "offered_sequence s \<equiv> unat (sr_sequence (ssr_receipt s))"

abbreviation offered_total :: "signed_service_receipt \<Rightarrow> nat" where
  "offered_total s \<equiv> unat (sr_cumulative_charge_wei (ssr_receipt s))"

definition request_key :: "routing_service \<Rightarrow> receipt_session_request \<Rightarrow> bytes \<times> bytes \<times> bytes \<times> bytes" where
  "request_key svc q = (be_bytes 32 (rsp_authorization_nonce (request_policy q)), be_bytes 32 (rsr_route_epoch q),
     cde_public_key (rs_main svc), rsp_payer_session_public_key (request_policy q))"

definition offer_fits :: "routing_service \<Rightarrow> receipt_session_request \<Rightarrow> signed_service_receipt \<Rightarrow> bool" where
  "offer_fits svc q s \<longleftrightarrow>
     sr_route_epoch (ssr_receipt s) = rsr_route_epoch q \<and> sr_provider_public_key (ssr_receipt s) = cde_public_key (rs_main svc) \<and>
     sr_service_kind (ssr_receipt s) = Routing \<and> sr_service_rate (ssr_receipt s) = rs_per_routing_service svc \<and>
     sr_byte_rate (ssr_receipt s) = rs_per_routing_byte svc \<and> sr_service_units (ssr_receipt s) = 1 \<and>
     offered_total s \<le> unat (rsp_max_total_charge_wei (request_policy q))"

lemma routing_offer_state_cases:
  assumes "offers_readable env (db_offers db)"
    and "routing_offer_state env db nonce epoch provider session = Ok state_opt"
  shows "case state_opt of
      None \<Rightarrow> (be_bytes 32 nonce, be_bytes 32 epoch, provider, session) \<notin> or_key ` set (db_offers db)
    | Some st \<Rightarrow> \<exists>row\<in>set (db_offers db). or_key row = (be_bytes 32 nonce, be_bytes 32 epoch, provider, session) \<and> row_state env row st"
proof (cases "List.find (\<lambda>r. or_key r = (be_bytes 32 nonce, be_bytes 32 epoch, provider, session)) (db_offers db)")
  case None
  then have "state_opt = None" using assms(2) by (simp add: routing_offer_state_def)
  then show ?thesis using None by (simp add: find_key_None)
next
  case (Some row)
  then have row: "row \<in> set (db_offers db)" "or_key row = (be_bytes 32 nonce, be_bytes 32 epoch, provider, session)"
    by (auto dest: find_key_SomeD)
  obtain st where st: "row_state env row st" using assms(1) row(1) by (auto simp: offers_readable_def)
  then have "state_opt = Some st" using assms(2) Some by (simp add: routing_offer_state_def row_state_def)
  then show ?thesis using row st by auto
qed

lemma prepare_offer_cases:
  assumes ok: "offers_readable (re_dao_env env) (db_offers (sc_dao c))" and prep: "prepare_offer env u q n c svc = Ok (s, fresh, e)"
  obtains (again) row st where "\<not> fresh" "row \<in> set (db_offers (sc_dao c))" "or_key row = request_key svc q" "row_state (re_dao_env env) row st"
      "offer_identity_kept svc q st" "s = ros_last_signed_receipt st"
      "unat u \<le> unat (request_expiry q)" "offered_total s \<le> unat (rsp_max_total_charge_wei (request_policy q))"
  | (following) row st where "fresh" "row \<in> set (db_offers (sc_dao c))" "or_key row = request_key svc q" "row_state (re_dao_env env) row st"
      "offer_identity_kept svc q st" "offered_sequence s = offered_sequence (ros_last_signed_receipt st) + 1"
      "offered_total s = offered_total (ros_last_signed_receipt st) + receipt_charge (ssr_receipt s)"
      "unat u \<le> unat (request_expiry q)" "offer_fits svc q s"
  | (first) "fresh" "request_key svc q \<notin> or_key ` set (db_offers (sc_dao c))" "offered_sequence s = 1"
      "offered_total s = receipt_charge (ssr_receipt s)" "unat u \<le> unat (request_expiry q)" "offer_fits svc q s"
proof -
  let ?db = "sc_dao c" and ?p = "request_policy q" and ?pk = "cde_public_key (rs_main svc)"
  obtain state_opt ck_opt where so: "routing_offer_state (re_dao_env env) ?db (rsp_authorization_nonce ?p) (rsr_route_epoch q) ?pk
        (rsp_payer_session_public_key ?p) = Ok state_opt"
    and off: "offered_receipt (he_receipt_env env) svc q (of_nat n) state_opt ck_opt = Ok (s, fresh)"
    and ver: "session_verify (he_receipt_env env) (rsr_authorization q) (sc_chain_id c) (sc_settlement_contract c)
        (rsp_payer_session_public_key ?p) u (sr_cumulative_charge_wei (ssr_receipt s)) = Ok ()"
    using prep by (auto simp: prepare_offer_def Let_def res_simps split: if_splits)
  have lim: "unat u \<le> unat (request_expiry q)" "offered_total s \<le> unat (rsp_max_total_charge_wei ?p)"
    using ver by (auto simp: session_verify_eq_Ok Let_def)
  show thesis
  proof (cases state_opt)
    case None
    let ?r = "service_receipt_new (rsr_route_epoch q) 1 Routing ?pk (rsr_accounting_commitment q) (of_nat n)
      (rs_per_routing_service svc) (rs_per_routing_byte svc)"
    have "fresh" and r: "ssr_receipt s = ?r" "receipt_validate ?r = Ok ()"
      using off None by (auto simp: offered_receipt_def res_simps receipt_sign_eq_Ok split: if_splits)
    obtain w where w: "checked_total_charge_wei ?r = Ok w"
      using r(2) by (auto simp: receipt_validate_def res_simps split: if_splits)
    then have "sr_cumulative_charge_wei ?r = w"
      by (simp add: service_receipt_new_def new_with_service_units_def checked_total_charge_wei_def unwrap_or_def)
    then have "offered_total s = receipt_charge (ssr_receipt s)"
      using w unfolding r(1) checked_total_charge_wei_eq_Ok by simp
    moreover have "offer_fits svc q s"
      using lim(2) by (simp add: offer_fits_def r(1)) (simp add: service_receipt_new_def new_with_service_units_def)
    moreover have "offered_sequence s = 1" by (simp add: r(1) service_receipt_new_def new_with_service_units_def)
    moreover have "request_key svc q \<notin> or_key ` set (db_offers ?db)"
      using routing_offer_state_cases [OF ok so] None by (simp add: request_key_def)
    ultimately show thesis using \<open>fresh\<close> lim(1) by (intro first)
  next
    case (Some st)
    let ?last = "ros_last_signed_receipt st"
    obtain row where row: "row \<in> set (db_offers ?db)" "or_key row = request_key svc q" "row_state (re_dao_env env) row st"
      using routing_offer_state_cases [OF ok so] Some by (auto simp: request_key_def)
    have kept: "offer_identity_kept svc q st" using off Some by (auto simp: offered_receipt_def Let_def split: if_splits)
    show thesis
    proof (cases fresh)
      case False
      then have "s = ?last"
        using off Some by (auto simp: offered_receipt_def Let_def res_simps split: if_splits option.splits)
      then show thesis using False row kept lim by (intro again)
    next
      case True
      then obtain n' r where n': "checked_add (sr_sequence (ssr_receipt ?last)) 1 = Some n'"
        and r: "next_for_same_route (ssr_receipt ?last) n' Routing (of_nat n) (rs_per_routing_service svc) (rs_per_routing_byte svc) = Ok r"
        and s: "ssr_receipt s = r"
        using off Some by (auto simp: offered_receipt_def Let_def res_simps receipt_sign_eq_Ok split: if_splits option.splits)
      note nx = r [unfolded next_for_same_route_def next_with_service_units_eq_Ok]
      have "r = \<lparr>sr_protocol_version = 1, sr_route_epoch = sr_route_epoch (ssr_receipt ?last), sr_sequence = n', sr_service_kind = Routing,
          sr_provider_public_key = sr_provider_public_key (ssr_receipt ?last),
          sr_accounting_commitment = sr_accounting_commitment (ssr_receipt ?last), sr_payload_size = of_nat n, sr_service_units = 1,
          sr_service_rate = rs_per_routing_service svc, sr_byte_rate = rs_per_routing_byte svc,
          sr_cumulative_charge_wei = sr_cumulative_charge_wei r\<rparr>" (is "r = ?r")
        using nx by blast
      then have f: "sr_sequence r = n'" "sr_route_epoch r = sr_route_epoch (ssr_receipt ?last)" "sr_service_kind r = Routing"
        "sr_provider_public_key r = sr_provider_public_key (ssr_receipt ?last)" "sr_payload_size r = of_nat n" "sr_service_units r = 1"
        "sr_service_rate r = rs_per_routing_service svc" "sr_byte_rate r = rs_per_routing_byte svc"
        by (metis service_receipt.select_convs)+
      have "offered_sequence s = offered_sequence ?last + 1"
        using n' by (simp add: s f checked_add_eq_Some)
      moreover have "offered_total s = offered_total ?last + receipt_charge (ssr_receipt s)"
        using nx by (simp add: s receipt_charge_def f)
      moreover have "offer_fits svc q s"
        using kept lim(2) by (simp add: offer_fits_def s f offer_identity_kept_def Let_def)
      ultimately show thesis using True row kept lim(1) by (intro following)
    qed
  qed
qed

subsection \<open>Runs of a provider\<close>

text \<open>
  The calls of one provider in the order of its clock, with the offers it has handed out. A package
  that is routed makes at most one offer, so runs of packages are among these runs.
\<close>

type_synonym offer_log = "(receipt_session_request \<times> signed_service_receipt) list"

inductive offer_run ::
    "'m routing_env_scheme \<Rightarrow> routing_service \<Rightarrow> offer_log \<Rightarrow> int \<Rightarrow> routing_service \<Rightarrow> bool" for env svc0 where
  start: "offer_run env svc0 [] t svc0"
| offered: "offer_run env svc0 log t svc \<Longrightarrow> t \<le> now \<Longrightarrow> now < 2 ^ 63 \<Longrightarrow>
    make_routing_receipt_offer env now q n svc = (Ok e, svc') \<Longrightarrow> rs_receipt_context_opt svc = Some c \<Longrightarrow>
    prepare_offer env (word_of_int now) q n c svc = Ok (s, fresh, e) \<Longrightarrow> offer_run env svc0 (log @ [(q, s)]) now svc'"
| refused: "offer_run env svc0 log t svc \<Longrightarrow> t \<le> now \<Longrightarrow> make_routing_receipt_offer env now q n svc = (r, svc') \<Longrightarrow>
    (\<forall>e. r \<noteq> Ok e) \<Longrightarrow> offer_run env svc0 log now svc'"
| acknowledged: "offer_run env svc0 log t svc \<Longrightarrow> t \<le> now \<Longrightarrow> accept_service_receipt env now payload svc = (es, st, svc') \<Longrightarrow>
    offer_run env svc0 log now svc'"

definition same_route :: "receipt_session_request \<Rightarrow> receipt_session_request \<Rightarrow> bool" where
  "same_route q q' \<longleftrightarrow>
     rsp_authorization_nonce (request_policy q) = rsp_authorization_nonce (request_policy q') \<and>
     rsp_payer_session_public_key (request_policy q) = rsp_payer_session_public_key (request_policy q') \<and>
     request_expiry q = request_expiry q' \<and> rsr_route_epoch q = rsr_route_epoch q'"

definition chained :: "offer_log \<Rightarrow> receipt_session_request \<Rightarrow> signed_service_receipt \<Rightarrow> bool" where
  "chained log q s \<longleftrightarrow> offered_sequence s = 1 \<and> offered_total s = receipt_charge (ssr_receipt s) \<or>
     (\<exists>(q', s')\<in>set log. same_route q' q \<and> offered_sequence s = offered_sequence s' + 1 \<and>
        offered_total s = offered_total s' + receipt_charge (ssr_receipt s))"

definition covered :: "dao_env \<Rightarrow> routing_service \<Rightarrow> offer_row list \<Rightarrow> receipt_session_request \<Rightarrow> signed_service_receipt \<Rightarrow> bool" where
  "covered env svc rows q s \<longleftrightarrow> (\<exists>row\<in>set rows. \<exists>st. row_state env row st \<and> or_key row = request_key svc q \<and>
     ros_expires_at_unix_s st = request_expiry q \<and> offered_sequence s \<le> offered_sequence (ros_last_signed_receipt st) \<and>
     (offered_sequence s = offered_sequence (ros_last_signed_receipt st) \<longrightarrow> s = ros_last_signed_receipt st))"

definition offers_inv :: "dao_env \<Rightarrow> routing_service \<Rightarrow> offer_log \<Rightarrow> int \<Rightarrow> offer_row list \<Rightarrow> bool" where
  "offers_inv env svc log t rows \<longleftrightarrow> offers_readable env rows \<and>
     (\<forall>row\<in>set rows. \<forall>st. row_state env row st \<longrightarrow> (\<exists>q. (q, ros_last_signed_receipt st) \<in> set log \<and> st = offer_state_of q (ros_last_signed_receipt st))) \<and>
     (\<forall>(q, s)\<in>set log. t \<le> uint (request_expiry q) \<longrightarrow> covered env svc rows q s) \<and>
     (\<forall>(q, s)\<in>set log. offer_fits svc q s \<and> chained log q s) \<and>
     (\<forall>(q, s)\<in>set log. \<forall>(q', s')\<in>set log. same_route q q' \<and> offered_sequence s = offered_sequence s' \<longrightarrow> s = s')"

lemma offers_invD:
  assumes "offers_inv env svc log t rows"
  shows "offers_readable env rows"
    and "row \<in> set rows \<Longrightarrow> row_state env row st \<Longrightarrow>
      \<exists>q. (q, ros_last_signed_receipt st) \<in> set log \<and> st = offer_state_of q (ros_last_signed_receipt st)"
    and "(q, s) \<in> set log \<Longrightarrow> t \<le> uint (request_expiry q) \<Longrightarrow> covered env svc rows q s"
    and "(q, s) \<in> set log \<Longrightarrow> offer_fits svc q s" "(q, s) \<in> set log \<Longrightarrow> chained log q s"
    and "(q, s) \<in> set log \<Longrightarrow> (q', s') \<in> set log \<Longrightarrow> same_route q q' \<Longrightarrow> offered_sequence s = offered_sequence s' \<Longrightarrow> s = s'"
  using assms unfolding offers_inv_def by (blast, blast, blast, blast, blast, blast)

lemma chained_append: "chained log q s \<Longrightarrow> chained (log @ rest) q s"
  by (auto simp: chained_def)

lemma row_state_unique: "row_state env row st \<Longrightarrow> row_state env row st' \<Longrightarrow> st' = st"
  by (simp add: row_state_def)

lemma covered_row:
  assumes "offers_readable env rows" "covered env svc rows q s" "row \<in> set rows" "or_key row = request_key svc q" "row_state env row st"
  shows "ros_expires_at_unix_s st = request_expiry q" "offered_sequence s \<le> offered_sequence (ros_last_signed_receipt st)"
    "offered_sequence s = offered_sequence (ros_last_signed_receipt st) \<Longrightarrow> s = ros_last_signed_receipt st"
proof -
  obtain row' st' where r: "row' \<in> set rows" "row_state env row' st'" "or_key row' = request_key svc q"
    "ros_expires_at_unix_s st' = request_expiry q" "offered_sequence s \<le> offered_sequence (ros_last_signed_receipt st')"
    "offered_sequence s = offered_sequence (ros_last_signed_receipt st') \<Longrightarrow> s = ros_last_signed_receipt st'"
    using assms(2) by (auto simp: covered_def)
  have "row' = row" using assms(1,3,4) r(1,3) by (auto simp: offers_readable_def distinct_map inj_on_def)
  then have "st' = st" using r(2) assms(5) row_state_unique by blast
  then show "ros_expires_at_unix_s st = request_expiry q" "offered_sequence s \<le> offered_sequence (ros_last_signed_receipt st)"
    "offered_sequence s = offered_sequence (ros_last_signed_receipt st) \<Longrightarrow> s = ros_last_signed_receipt st"
    using r by simp_all
qed

lemma request_key_eq: "request_key svc q = request_key svc q' \<longleftrightarrow>
    rsp_authorization_nonce (request_policy q) = rsp_authorization_nonce (request_policy q') \<and> rsr_route_epoch q = rsr_route_epoch q' \<and>
    rsp_payer_session_public_key (request_policy q) = rsp_payer_session_public_key (request_policy q')"
  by (auto simp: request_key_def be_bytes_inj)

lemma same_route_key: "same_route q q' \<Longrightarrow> request_key svc q = request_key svc q' \<and> request_expiry q = request_expiry q'"
  by (auto simp: same_route_def request_key_eq)

text \<open>The log after an offer, given how the offer relates to the table it was made from.\<close>

lemma extended_log:
  assumes inv: "offers_inv env svc log t rows" and fits: "offer_fits svc q s"
    and chain: "chained log q s"
    and step: "\<And>q' s'. (q', s') \<in> set log \<Longrightarrow> same_route q' q \<Longrightarrow> offered_sequence s' = offered_sequence s \<Longrightarrow> s' = s"
  shows "(\<forall>(q', s')\<in>set (log @ [(q, s)]). offer_fits svc q' s' \<and> chained (log @ [(q, s)]) q' s') \<and>
    (\<forall>(q1, s1)\<in>set (log @ [(q, s)]). \<forall>(q2, s2)\<in>set (log @ [(q, s)]). same_route q1 q2 \<and> offered_sequence s1 = offered_sequence s2 \<longrightarrow> s1 = s2)"
proof
  show "\<forall>(q', s')\<in>set (log @ [(q, s)]). offer_fits svc q' s' \<and> chained (log @ [(q, s)]) q' s'"
    using inv fits chain by (auto simp: offers_inv_def chained_append)
  have sym: "same_route q2 q1" if "same_route q1 q2" for q1 q2 using that by (simp add: same_route_def)
  have step': "\<And>q' s'. (q', s') \<in> set log \<Longrightarrow> same_route q q' \<Longrightarrow> offered_sequence s = offered_sequence s' \<Longrightarrow> s = s'"
    using step sym by metis
  have old: "\<And>q1 s1 q2 s2. (q1, s1) \<in> set log \<Longrightarrow> (q2, s2) \<in> set log \<Longrightarrow> same_route q1 q2 \<Longrightarrow>
      offered_sequence s1 = offered_sequence s2 \<Longrightarrow> s1 = s2"
    using inv by (auto simp: offers_inv_def)
  show "\<forall>(q1, s1)\<in>set (log @ [(q, s)]). \<forall>(q2, s2)\<in>set (log @ [(q, s)]). same_route q1 q2 \<and> offered_sequence s1 = offered_sequence s2 \<longrightarrow> s1 = s2"
    using old step step' by auto
qed

lemma offers_inv_later: "offers_inv env svc log t rows \<Longrightarrow> t \<le> now \<Longrightarrow> offers_inv env svc log now rows"
  unfolding offers_inv_def by fastforce

lemma offer_state_key: "offer_fits svc q s \<Longrightarrow> offer_key (offer_state_of q s) = request_key svc q"
  by (simp add: offer_fits_def offer_key_def offer_state_of_def request_key_def)

lemma logged_state:
  assumes "offers_inv env svc log t rows" "row \<in> set rows" "row_state env row st" "offer_identity_kept svc q st"
  shows "\<exists>q0. (q0, ros_last_signed_receipt st) \<in> set log \<and> same_route q0 q"
proof -
  let ?last = "ros_last_signed_receipt st"
  obtain q0 where q0: "(q0, ?last) \<in> set log" "st = offer_state_of q0 ?last"
    using offers_invD(2) [OF assms(1-3)] by blast
  have "offer_fits svc q0 ?last" using offers_invD(4) [OF assms(1) q0(1)] .
  moreover have "ros_authorization_nonce st = rsp_authorization_nonce (request_policy q0)"
    "ros_payer_session_public_key st = rsp_payer_session_public_key (request_policy q0)"
    "ros_expires_at_unix_s st = request_expiry q0"
    using arg_cong [OF q0(2), of ros_authorization_nonce] arg_cong [OF q0(2), of ros_payer_session_public_key]
      arg_cong [OF q0(2), of ros_expires_at_unix_s] by (simp_all add: offer_state_of_def)
  ultimately have "same_route q0 q"
    using assms(4) by (simp add: same_route_def offer_identity_kept_def offer_fits_def Let_def)
  with q0(1) show ?thesis by blast
qed

lemma chained_same: "chained log q0 s \<Longrightarrow> same_route q0 q \<Longrightarrow> chained log q s"
  unfolding chained_def same_route_def by (elim disjE) auto

lemma offers_inv_again:
  assumes inv: "offers_inv env svc log t rows" and t: "t \<le> now" "now \<le> uint (request_expiry q)"
    and row: "row \<in> set rows" "or_key row = request_key svc q" "row_state env row st" and kept: "offer_identity_kept svc q st"
    and s: "s = ros_last_signed_receipt st" and lim: "offered_total s \<le> unat (rsp_max_total_charge_wei (request_policy q))"
  shows "offers_inv env svc (log @ [(q, s)]) now rows"
proof -
  obtain q0 where q0: "(q0, s) \<in> set log" "same_route q0 q" using logged_state [OF inv row(1,3) kept] s by blast
  have old: "offer_fits svc q0 s" "chained log q0 s" using offers_invD(4,5) [OF inv q0(1)] .
  have fits: "offer_fits svc q s" using old(1) q0(2) lim by (simp add: offer_fits_def same_route_def)
  have read: "offers_readable env rows" using inv by (simp add: offers_inv_def)
  have cov: "covered env svc rows q' s'" if "(q', s') \<in> set log" "now \<le> uint (request_expiry q')" for q' s'
    using offers_invD(3) [OF inv that(1)] that(2) t(1) by simp
  have same: "s' = s" if q': "(q', s') \<in> set log" "same_route q' q" "offered_sequence s' = offered_sequence s" for q' s'
  proof -
    have k: "request_key svc q' = request_key svc q" "request_expiry q' = request_expiry q"
      using same_route_key [OF q'(2)] by auto
    then have "covered env svc rows q' s'" using cov [OF q'(1)] t(2) by simp
    from covered_row(3) [OF read this row(1) _ row(3)] show "s' = s" using k row(2) q'(3) s by simp
  qed
  have log: "(\<forall>(q', s')\<in>set (log @ [(q, s)]). offer_fits svc q' s' \<and> chained (log @ [(q, s)]) q' s') \<and>
    (\<forall>(q1, s1)\<in>set (log @ [(q, s)]). \<forall>(q2, s2)\<in>set (log @ [(q, s)]). same_route q1 q2 \<and> offered_sequence s1 = offered_sequence s2 \<longrightarrow> s1 = s2)"
    by (rule extended_log [OF inv fits chained_same [OF old(2) q0(2)]]) (erule (2) same)
  have "covered env svc rows q s"
    using row kept s by (auto simp: covered_def offer_identity_kept_def Let_def)
  then have "\<forall>(q', s')\<in>set (log @ [(q, s)]). now \<le> uint (request_expiry q') \<longrightarrow> covered env svc rows q' s'"
    using cov by auto
  moreover have "\<forall>row\<in>set rows. \<forall>st. row_state env row st \<longrightarrow>
      (\<exists>q'. (q', ros_last_signed_receipt st) \<in> set (log @ [(q, s)]) \<and> st = offer_state_of q' (ros_last_signed_receipt st))"
    using offers_invD(2) [OF inv] by (metis Un_iff set_append)
  ultimately show ?thesis using read log unfolding offers_inv_def by blast
qed

lemma offers_inv_stored:
  assumes inv: "offers_inv env svc log t (db_offers db)" and codecs: "dao_codecs env"
    and t: "t \<le> now" "now \<le> uint (request_expiry q)" "uint u = now" "now < 2 ^ 63" and fits: "offer_fits svc q s" and chain: "chained log q s"
    and save: "save_routing_offer_state env db (offer_state_of q s) u m = (Ok (), db')"
    and later: "\<And>row st. row \<in> set (db_offers db) \<Longrightarrow> or_key row = request_key svc q \<Longrightarrow> row_state env row st \<Longrightarrow>
      ros_expires_at_unix_s st = request_expiry q \<and> offered_sequence (ros_last_signed_receipt st) < offered_sequence s"
  shows "offers_inv env svc (log @ [(q, s)]) now (db_offers db')"
proof -
  let ?rows = "db_offers db" and ?st = "offer_state_of q s"
  have read: "offers_readable env ?rows" using inv by (simp add: offers_inv_def)
  note key = offer_state_key [OF fits]
  from saved_offers [OF codecs read save] obtain row where dist: "distinct (map or_key (db_offers db'))"
    and row: "row_state env row ?st"
    and rows: "set (db_offers db') = {r \<in> set (prune_offers u ?rows). or_key r \<noteq> request_key svc q} \<union> {row}"
    unfolding key by blast
  have sub: "set (prune_offers u ?rows) \<subseteq> set ?rows" by (auto simp: prune_offers_def)
  have rk: "or_key row = request_key svc q" using row key by (simp add: row_state_def)
  have u2: "unat u = nat now" unfolding t(3) [symmetric] by simp
  have "nat now < 2 ^ 63" using t(4) by simp
  with u2 have u: "unat u < 2 ^ 63" "unat u = nat now" by simp_all
  have cov: "covered env svc ?rows q' s'" if "(q', s') \<in> set log" "now \<le> uint (request_expiry q')" for q' s'
    using offers_invD(3) [OF inv that(1)] that(2) t(1) by simp
  have own: "request_expiry q' = request_expiry q \<and> offered_sequence s' < offered_sequence s"
    if q': "(q', s') \<in> set log" "now \<le> uint (request_expiry q')" "request_key svc q' = request_key svc q" for q' s'
  proof -
    note c = cov [OF q'(1,2)]
    then obtain r st where r: "r \<in> set ?rows" "row_state env r st" "or_key r = request_key svc q"
      unfolding covered_def q'(3) by blast
    have "or_key r = request_key svc q'" using r(3) q'(3) by simp
    note cr = covered_row [OF read c r(1) this r(2)] and lt = later [OF r(1,3,2)]
    show ?thesis using cr(1,2) lt by (metis le_less_trans)
  qed
  have same: "s' = s" if "(q', s') \<in> set log" "same_route q' q" "offered_sequence s' = offered_sequence s" for q' s'
    using own [OF that(1)] same_route_key [OF that(2)] t(2) that(3) by (metis less_irrefl)
  have log: "(\<forall>(q', s')\<in>set (log @ [(q, s)]). offer_fits svc q' s' \<and> chained (log @ [(q, s)]) q' s') \<and>
    (\<forall>(q1, s1)\<in>set (log @ [(q, s)]). \<forall>(q2, s2)\<in>set (log @ [(q, s)]). same_route q1 q2 \<and> offered_sequence s1 = offered_sequence s2 \<longrightarrow> s1 = s2)"
    by (rule extended_log [OF inv fits chain]) (erule (2) same)
  have "offers_readable env (db_offers db')"
    using dist row rows read sub by (auto simp: offers_readable_def)
  moreover have "\<exists>q'. (q', ros_last_signed_receipt st) \<in> set (log @ [(q, s)]) \<and> st = offer_state_of q' (ros_last_signed_receipt st)"
    if "r \<in> set (db_offers db')" "row_state env r st" for r st
  proof (cases "r = row")
    case True
    then have "st = ?st" using that(2) row row_state_unique by blast
    then show ?thesis by (auto simp: offer_state_of_def)
  next
    case False
    then have "r \<in> set ?rows" using that(1) rows sub by auto
    then show ?thesis using offers_invD(2) [OF inv _ that(2)] by (metis Un_iff set_append)
  qed
  moreover have "covered env svc (db_offers db') q' s'" if q': "(q', s') \<in> set (log @ [(q, s)])" "now \<le> uint (request_expiry q')" for q' s'
  proof (cases "request_key svc q' = request_key svc q")
    case True
    then have "request_expiry q' = request_expiry q \<and> offered_sequence s' \<le> offered_sequence s \<and> (offered_sequence s' = offered_sequence s \<longrightarrow> s' = s)"
      using own [of q' s'] q' by auto
    then show ?thesis
      using row rk rows True unfolding covered_def by (intro bexI [of _ row] exI [of _ ?st]) (auto simp: offer_state_of_def)
  next
    case False
    then have "covered env svc ?rows q' s'" using cov q' by auto
    then obtain r st where r: "r \<in> set ?rows" "row_state env r st" "or_key r = request_key svc q'"
      "ros_expires_at_unix_s st = request_expiry q'" "offered_sequence s' \<le> offered_sequence (ros_last_signed_receipt st)"
      "offered_sequence s' = offered_sequence (ros_last_signed_receipt st) \<longrightarrow> s' = ros_last_signed_receipt st"
      unfolding covered_def by blast
    have "unat u \<le> unat (ros_expires_at_unix_s st)"
      using q'(2) u(2) r(4) by (simp add: nat_le_iff)
    then have "r \<in> set (db_offers db')" using prune_keeps [OF r(1,2) _ u(1)] r(3) False rows by auto
    then show ?thesis using r unfolding covered_def by blast
  qed
  ultimately show ?thesis using log unfolding offers_inv_def by blast
qed

lemma context_irrelevant [simp]:
  "offer_fits (svc\<lparr>rs_receipt_context_opt := x\<rparr>) = offer_fits svc"
  "request_key (svc\<lparr>rs_receipt_context_opt := x\<rparr>) = request_key svc"
  "covered env (svc\<lparr>rs_receipt_context_opt := x\<rparr>) = covered env svc"
  "offers_inv env (svc\<lparr>rs_receipt_context_opt := x\<rparr>) = offers_inv env svc"
  by (simp_all add: fun_eq_iff offer_fits_def request_key_def covered_def offers_inv_def)

definition provider_inv :: "'m routing_env_scheme \<Rightarrow> routing_service \<Rightarrow> offer_log \<Rightarrow> int \<Rightarrow> routing_service \<Rightarrow> bool" where
  "provider_inv env svc0 log t svc \<longleftrightarrow>
     (\<exists>c. svc = svc0\<lparr>rs_receipt_context_opt := Some c\<rparr> \<and> offers_inv (re_dao_env env) svc0 log t (db_offers (sc_dao c)))"

lemma provider_inv_stay:
  assumes "provider_inv env svc0 log t svc" "t \<le> now"
    and "svc' = svc \<or> (\<exists>c db. rs_receipt_context_opt svc = Some c \<and> svc' = with_dao db c svc \<and> db_offers db = db_offers (sc_dao c))"
  shows "provider_inv env svc0 log now svc'"
  using assms offers_inv_later unfolding provider_inv_def with_dao_def by fastforce

lemma make_offer_refused:
  assumes "make_routing_receipt_offer env now q n svc = (r, svc')" "\<forall>e. r \<noteq> Ok e"
  shows "svc' = svc \<or> (\<exists>c db. rs_receipt_context_opt svc = Some c \<and> svc' = with_dao db c svc \<and> db_offers db = db_offers (sc_dao c))"
proof (cases "svc' = svc")
  case False
  then obtain c s u db r' where c: "rs_receipt_context_opt svc = Some c" "svc' = with_dao db c svc" "\<forall>u. r' \<noteq> Ok u"
    "save_routing_offer_state (re_dao_env env) (sc_dao c) s u max_routing_receipt_session_states = (r', db)"
    using assms
    by (auto simp: make_routing_receipt_offer_def split: option.splits res.splits if_splits prod.splits) (metis map_err.simps and_then.simps)+
  have "db = sc_dao c" using c(3,4) run_transaction_not_Ok unfolding save_routing_offer_state_def by blast
  with c show ?thesis by blast
qed simp

lemma accept_keeps_offers:
  assumes "accept_service_receipt env now payload svc = (es, st, svc')"
  shows "svc' = svc \<or> (\<exists>c db. rs_receipt_context_opt svc = Some c \<and> svc' = with_dao db c svc \<and> db_offers db = db_offers (sc_dao c))"
proof (cases "rs_receipt_context_opt svc")
  case None
  then show ?thesis using assms by (simp add: accept_service_receipt_def)
next
  case (Some c)
  have keep: "db_offers db = db_offers (sc_dao c)"
    if acc: "accept_verified_receipt (re_dao_env env) (sc_dao c) payload ck now = (r, db)" for ck r db
  proof (cases "\<exists>d. r = Ok d")
    case True
    then obtain d where "accept_verified_receipt (re_dao_env env) (sc_dao c) payload ck now = (Ok d, db)" using acc by blast
    then show ?thesis by (rule accept_OkE) (blast dest: accept_tables(8))
  next
    case False
    then have "db = sc_dao c" using acc run_transaction_not_Ok unfolding accept_verified_receipt_def Let_def by blast
    then show ?thesis by simp
  qed
  have "svc' = svc \<or> (\<exists>ck r db. accept_verified_receipt (re_dao_env env) (sc_dao c) payload ck now = (r, db) \<and> svc' = with_dao db c svc)"
    using assms Some by (auto simp: accept_service_receipt_def Let_def elim!: or_log_cases split: if_splits prod.splits) blast+
  then show ?thesis using Some keep by blast
qed

lemma provider_inv_offered:
  assumes inv: "provider_inv env svc0 log t svc" and codecs: "dao_codecs (re_dao_env env)" and t: "t \<le> now" "now < 2 ^ 63"
    and offer: "make_routing_receipt_offer env now q n svc = (Ok e, svc')" and c: "rs_receipt_context_opt svc = Some c"
    and prep: "prepare_offer env (word_of_int now) q n c svc = Ok (s, fresh, e)"
  shows "provider_inv env svc0 (log @ [(q, s)]) now svc'"
proof -
  let ?D = "re_dao_env env" and ?u = "word_of_int now :: u64"
  have svc: "svc = svc0\<lparr>rs_receipt_context_opt := Some c\<rparr>" and inv': "offers_inv ?D svc log t (db_offers (sc_dao c))"
    using inv c unfolding provider_inv_def by auto
  have "0 \<le> now"
    using offer c by (auto simp: make_routing_receipt_offer_def unix_seconds_def split: if_splits)
  then have u: "uint ?u = now" using t(2) by (simp add: uint_word_of_int)
  have le: "now \<le> uint (request_expiry q)" if "unat ?u \<le> unat (request_expiry q)"
    using that u by (metis uint_nat of_nat_le_iff)
  note read = offers_invD(1) [OF inv']
  from read prep show ?thesis
  proof (cases rule: prepare_offer_cases)
    case (again row st)
    then have "svc' = svc"
      using offer c prep \<open>0 \<le> now\<close> by (simp add: make_routing_receipt_offer_def unix_seconds_def)
    moreover have "offers_inv ?D svc (log @ [(q, s)]) now (db_offers (sc_dao c))"
      using again le by (intro offers_inv_again [OF inv' t(1)]) auto
    ultimately show ?thesis using svc unfolding provider_inv_def by auto
  next
    case (following row st)
    then obtain db' where save: "save_routing_offer_state ?D (sc_dao c) (offer_state_of q s) ?u max_routing_receipt_session_states = (Ok (), db')"
      and svc': "svc' = with_dao db' c svc"
      using offer c prep \<open>0 \<le> now\<close>
      by (auto simp: make_routing_receipt_offer_def unix_seconds_def res_simps split: prod.splits)
    obtain q0 where q0: "(q0, ros_last_signed_receipt st) \<in> set log" "same_route q0 q"
      using logged_state [OF inv' following(2,4,5)] by blast
    have "chained log q s" using q0 following(6,7) unfolding chained_def by blast
    moreover have "ros_expires_at_unix_s st' = request_expiry q \<and> offered_sequence (ros_last_signed_receipt st') < offered_sequence s"
      if "row' \<in> set (db_offers (sc_dao c))" "or_key row' = request_key svc q" "row_state ?D row' st'" for row' st'
    proof -
      have "row' = row" using read that(1,2) following(2,3) by (auto simp: offers_readable_def distinct_map inj_on_def)
      then have "st' = st" using that(3) following(4) row_state_unique by blast
      then show ?thesis using following(5,6) by (auto simp: offer_identity_kept_def Let_def)
    qed
    ultimately have "offers_inv ?D svc (log @ [(q, s)]) now (db_offers db')"
      using le [OF following(8)] by (intro offers_inv_stored [OF inv' codecs t(1) _ u t(2) following(9) _ save])
    then show ?thesis using svc svc' unfolding provider_inv_def with_dao_def by auto
  next
    case first
    then obtain db' where save: "save_routing_offer_state ?D (sc_dao c) (offer_state_of q s) ?u max_routing_receipt_session_states = (Ok (), db')"
      and svc': "svc' = with_dao db' c svc"
      using offer c prep \<open>0 \<le> now\<close>
      by (auto simp: make_routing_receipt_offer_def unix_seconds_def res_simps split: prod.splits)
    have "chained log q s" using first(3,4) unfolding chained_def by blast
    moreover have "False" if "row' \<in> set (db_offers (sc_dao c))" "or_key row' = request_key svc q" for row'
      using that first(2) by (metis imageI)
    ultimately have "offers_inv ?D svc (log @ [(q, s)]) now (db_offers db')"
      using le [OF first(5)] by (intro offers_inv_stored [OF inv' codecs t(1) _ u t(2) first(6) _ save]) blast+
    then show ?thesis using svc svc' unfolding provider_inv_def with_dao_def by auto
  qed
qed

lemma offer_run_inv:
  assumes "offer_run env svc0 log t svc" "dao_codecs (re_dao_env env)" "rs_receipt_context_opt svc0 = Some c0" "db_offers (sc_dao c0) = []"
  shows "provider_inv env svc0 log t svc"
  using assms
proof (induction rule: offer_run.induct)
  case (start t)
  have "svc0 = svc0\<lparr>rs_receipt_context_opt := Some c0\<rparr>" using start(2) by (metis routing_service.surjective routing_service.update_convs(7))
  moreover have "offers_inv (re_dao_env env) svc0 [] t (db_offers (sc_dao c0))"
    using start(3) by (simp add: offers_inv_def offers_readable_def)
  ultimately show ?case unfolding provider_inv_def by blast
next
  case (offered log t svc now q n e svc' c s fresh)
  then show ?case by (intro provider_inv_offered)
next
  case (refused log t svc now q n r svc')
  then have "provider_inv env svc0 log t svc" by simp
  then show ?case using refused(2) make_offer_refused [OF refused(3,4)] by (rule provider_inv_stay)
next
  case (acknowledged log t svc now payload es st svc')
  then have "provider_inv env svc0 log t svc" by simp
  then show ?case using acknowledged(2) accept_keeps_offers [OF acknowledged(3)] by (rule provider_inv_stay)
qed

text \<open>Routing a package is a step of a run.\<close>

lemma make_offer_prepared:
  assumes "make_routing_receipt_offer env now q n svc = (Ok e, svc')"
  shows "\<exists>c s fresh. rs_receipt_context_opt svc = Some c \<and> prepare_offer env (word_of_int now) q n c svc = Ok (s, fresh, e)"
  using assms
  by (auto simp: make_routing_receipt_offer_def unix_seconds_def res_simps split: option.splits res.splits if_splits prod.splits)

lemma hopper_route_offer_run:
  assumes run: "offer_run env svc0 log t svc" and t: "t \<le> at_now at" "at_now at < 2 ^ 63"
    and route: "hopper_route env at ibcd svc = (es, st, svc')"
  shows "\<exists>log' t'. (log' = log \<or> (\<exists>x. log' = log @ [x])) \<and> t' \<le> at_now at \<and> offer_run env svc0 log' t' svc'"
proof (cases "svc' = svc")
  case True
  then show ?thesis using run t(1) by blast
next
  case False
  from route False obtain q n r where make: "make_routing_receipt_offer env (at_now at) q n svc = (r, svc')"
  proof (cases rule: hopper_route_cases)
    case (relay p hop)
    from route_data_externally_cases [OF this(5)] False that show thesis by (auto split: option.splits)
  qed simp
  show ?thesis
  proof (cases r)
    case (Ok e)
    with make obtain c s fresh where "rs_receipt_context_opt svc = Some c" "prepare_offer env (word_of_int (at_now at)) q n c svc = Ok (s, fresh, e)"
      using make_offer_prepared by blast
    then have "offer_run env svc0 (log @ [(q, s)]) (at_now at) svc'" using offer_run.offered [OF run t] make Ok by blast
    then show ?thesis by blast
  qed (use offer_run.refused [OF run t(1) make] in blast)+
qed

text \<open>
  C4. A provider never forks a chain of receipts. In every run of its calls from an empty table of
  offers, with a clock that does not run backwards, the routing receipts it hands out for one
  authorization and route have these properties. Two of them with the same number are the same
  receipt. The first has number 1 and the total of its own charge; each other one continues a receipt
  handed out before, with the next number, and adds exactly its own charge to the total. All are
  at the provider's own rates, and none exceeds the limit its payer has signed.
\<close>

theorem routing_offers_never_fork:
  assumes "offer_run env svc0 log t svc" "dao_codecs (re_dao_env env)"
    and "rs_receipt_context_opt svc0 = Some c0" "db_offers (sc_dao c0) = []"
    and "(q, s) \<in> set log" "(q', s') \<in> set log" "same_route q q'"
  shows "(offered_sequence s = offered_sequence s' \<longrightarrow> s = s') \<and> chained log q s \<and> offer_fits svc0 q s"
proof -
  obtain c :: service_receipt_settlement_context where "offers_inv (re_dao_env env) svc0 log t (db_offers (sc_dao c))"
    using offer_run_inv [OF assms(1-4)] unfolding provider_inv_def by blast
  from offers_invD(4-6) [OF this] assms(5-7) show ?thesis by blast
qed

end
