(* ===== verification/Delivery.thy ===== *)
theory Delivery
  imports Hopper_Safety
begin

section \<open>A request and its response across the network\<close>

text \<open>
  Composition of routes, packages and the routing services of many nodes: a request that leaves one
  node arrives at the exit, paid at every hop, and the response finds its way home on the route that
  arrived with the request.
\<close>

subsection \<open>Premises on codecs, keys and wallets\<close>

definition cores_codecs :: "'m cores_env_scheme \<Rightarrow> bool" where
  "cores_codecs env \<longleftrightarrow>
     hop_codec env \<and>
     (\<forall>p. \<exists>bs. ce_to_vec_package env p = Ok bs \<and> bs \<noteq> [] \<and> ce_from_slice_package env bs = Ok p) \<and>
     (\<forall>msg bs. ce_to_vec_message env msg = Ok bs \<longrightarrow> ce_from_slice_message env bs = Ok msg)"

definition keyed :: "(crypt_de \<Rightarrow> bool) \<Rightarrow> public_key \<Rightarrow> bool" where
  "keyed member key \<longleftrightarrow> key \<noteq> [] \<and> (\<exists>c. member c \<and> cde_public_key c = key)"

definition wallet_proves :: "receipt_env \<Rightarrow> wallet_kind \<Rightarrow> address \<Rightarrow> bool" where
  "wallet_proves env w a \<longleftrightarrow> wallet_address_opt env w = Some a \<and>
     (\<forall>d s. wallet_sign w d = Ok s \<longrightarrow>
        (\<exists>pk. ec_recover env s d = Some pk \<and> ec_verify env pk s d = Some True \<and> ec_address env pk = a))"

text \<open>A node at the time of a call: its digest is the one payers sign, and the payer is not banned there.\<close>

type_synonym net_node = "circumstances \<times> routing_service"

abbreviation node_key :: "net_node \<Rightarrow> public_key" where
  "node_key node \<equiv> cde_public_key (rs_main (snd node))"

definition serves :: "receipt_env \<Rightarrow> address \<Rightarrow> address \<Rightarrow> net_node \<Rightarrow> bool" where
  "serves env contract_address a node \<longleftrightarrow>
     cde_digest (rs_main (snd node)) = create_digest (keccak256 env) (node_key node) (be_bytes 20 contract_address) \<and>
     WalletAddress a \<notin> at_ban_cache (fst node)"

lemma payer_proves:
  assumes "payer_for env (Some w) (Some k) (node_key node) = (Ok (Some payer) :: (payer option, codec_error) res)"
    and w: "wallet_proves (he_receipt_env env) w a" and n: "serves (he_receipt_env env) k a node"
  shows "owns_secret_key (he_receipt_env env) payer (cde_digest (rs_main (snd node))) = (Ok True :: (bool, unit) res)"
    and "payer_wallet payer = WalletAddress a"
    and "is_delinquent (he_receipt_env env) (at_ban_cache (fst node)) payer = (Ok False :: (bool, unit) res)"
proof -
  let ?d = "create_digest (keccak256 (he_receipt_env env)) (node_key node) (be_bytes 20 k)"
  obtain s where s: "wallet_sign w ?d = Ok s" "payer = \<lparr>payer_wallet = WalletAddress a, payer_proof = s\<rparr>"
    using assms(1) w
    by (auto simp: payer_for_def as_payer_def payer_new_def as_address_wallet_def wallet_address_def wallet_proves_def res_simps
        split: res.splits)
  obtain pk where pk: "ec_recover (he_receipt_env env) s ?d = Some pk" "ec_verify (he_receipt_env env) pk s ?d = Some True"
    "ec_address (he_receipt_env env) pk = a"
    using w s(1) by (auto simp: wallet_proves_def)
  have addr: "wallet_address_opt (he_receipt_env env) (WalletAddress a) = Some a" by simp
  show "payer_wallet payer = WalletAddress a" by (simp add: s(2))
  show "owns_secret_key (he_receipt_env env) payer (cde_digest (rs_main (snd node))) = (Ok True :: (bool, unit) res)"
    using n pk by (simp add: owns_secret_key_def serves_def s(2) wallet_address_def addr)
  show "is_delinquent (he_receipt_env env) (at_ban_cache (fst node)) payer = (Ok False :: (bool, unit) res)"
    using n by (simp add: is_delinquent_def s(2) as_address_wallet_def wallet_address_def addr serves_def)
qed

subsection \<open>Nodes pass packages on\<close>

definition arrival :: "circumstances \<Rightarrow> socket_addr \<Rightarrow> bytes \<Rightarrow> inbound_client_data" where
  "arrival at addr data = \<lparr>ib_timestamp = at_now at, ib_client_addr = addr, ib_reception_port_opt = None, ib_last_data = False,
     ib_is_clandestine = True, ib_sequence_number_opt = None, ib_data = data\<rparr>"

text \<open>
  Each node in turn routes what the one before it has sent; the result is what every node reported
  to its accountant and where it sent the package, and the data that reaches the next node.
\<close>

fun relayed ::
    "'m routing_env_scheme \<Rightarrow> socket_addr \<Rightarrow> net_node list \<Rightarrow> bytes \<Rightarrow>
     ((report_routing_service_provided_message \<times> endpoint) list \<times> bytes) option" where
  "relayed env addr [] data = Some ([], data)"
| "relayed env addr ((at, svc) # nodes) data =
     (case hopper_route env at (arrival at addr data) svc of
        ([ToAccountant report, ToDispatcher msg], Returned, svc') \<Rightarrow>
          map_option (\<lambda>(rest, data'). ((report, td_endpoint msg) # rest, data')) (relayed env addr nodes (td_data msg))
      | _ \<Rightarrow> None)"

definition report_of :: "wallet_kind \<Rightarrow> nat \<Rightarrow> net_node \<Rightarrow> report_routing_service_provided_message" where
  "report_of wallet n node = \<lparr>rrs_timestamp = at_now (fst node), rrs_paying_wallet = wallet, rrs_payload_size = n,
     rrs_service_rate = rs_per_routing_service (snd node), rrs_byte_rate = rs_per_routing_byte (snd node)\<rparr>"

context seal_family
begin

lemma package_opens:
  assumes "cores_codecs env" "member c" "member v" "encodex (ce_to_vec_package env) v (cde_public_key c) p = Ok data"
  shows "decodex (ce_from_slice_package env) c data = Ok p"
proof (rule decodex_encodex [OF assms(2,3,4)])
  fix bs assume "ce_to_vec_package env p = Ok bs"
  then show "ce_from_slice_package env bs = Ok p" using assms(1) unfolding cores_codecs_def by (metis res.inject(1))
qed

lemma package_sealed:
  assumes "cores_codecs env" "seals_all member" "member v" "keyed member key"
  shows "\<exists>data. encodex (ce_to_vec_package env) v key p = Ok data"
proof -
  obtain bs where "ce_to_vec_package env p = Ok bs" "bs \<noteq> []" using assms(1) unfolding cores_codecs_def by blast
  moreover obtain e where "cde_encode v key bs = Ok e" using assms(2-4) calculation(2) unfolding seals_all_def keyed_def by blast
  ultimately show ?thesis by (simp add: encodex_def)
qed

lemma relay_step:
  assumes codecs: "cores_codecs env" and all: "seals_all member" and mem: "member (rs_main svc)" "member v" "member u"
    and data: "encodex (ce_to_vec_package env) u (cde_public_key (rs_main svc)) p = Ok data"
    and route: "lcp_route p = \<lparr>route_hops = e # rest\<rparr>" "hop_encode env hop (cde_public_key (rs_main svc)) v = Ok e"
    and hop: "hop_component hop = Hopper" "hop_public_key hop \<noteq> cde_public_key (rs_main svc)" "keyed member (hop_public_key hop)"
      "hop_payer hop = Some payer" "hop_routing_receipt_request_opt hop = None" "address_payer hop"
    and pays: "owns_secret_key (he_receipt_env env) payer (cde_digest (rs_main svc)) = (Ok True :: (bool, unit) res)"
      "is_delinquent (he_receipt_env env) (at_ban_cache at) payer = (Ok False :: (bool, unit) res)"
  shows "\<exists>msg p' g. hopper_route env at (arrival at addr data) svc =
      ([ToAccountant (report_of (payer_wallet payer) (length (lcp_payload p)) (at, svc)), ToDispatcher msg], Returned, svc) \<and>
    td_endpoint msg = EndpointKey (hop_public_key hop) \<and>
    encodex (ce_to_vec_package env) (rs_main svc) (hop_public_key hop) p' = Ok (td_data msg) \<and>
    lcp_route p' = \<lparr>route_hops = rest @ [g]\<rparr> \<and> lcp_payload p' = lcp_payload p"
proof -
  have hc: "he_from_slice_hop env bs = Ok hop" if "he_to_vec_hop env hop = Ok bs" for bs
    using codecs that hop(6) unfolding cores_codecs_def hop_codec_def by blast
  note opened = package_opens [OF codecs mem(1,3) data]
  have shift: "route_shift env (at_random at) (rs_main svc) (lcp_route p) =
      (Ok hop, \<lparr>route_hops = rest @ [at_random at (replicate (length e) 0)]\<rparr>)" (is "_ = (Ok hop, ?r)")
    unfolding route(1) by (rule shift_sealed_hop [OF mem(1,2) route(2) hc])
  have top: "next_hop env (lcp_route p) (rs_main svc) = Ok hop"
    using shift unfolding route(1) by (auto simp: route_shift_def next_hop_def split: res.splits)
  let ?p = "live_with_offers (live_cores_package_new ?r (lcp_payload p)) (lcp_routing_receipt_offers p)"
  obtain data' where data': "encodex (ce_to_vec_package env) (rs_main svc) (hop_public_key hop) ?p = Ok data'"
    using package_sealed [OF codecs all mem(1) hop(3)] by blast
  let ?msg = "\<lparr>td_endpoint = EndpointKey (hop_public_key hop), td_last_data = False, td_sequence_number_opt = None, td_data = data'\<rparr>"
  have "to_transmit_data_msg env (at_random at) p False svc = Ok ?msg"
    by (simp add: to_transmit_data_msg_def into_next_live_def shift data')
  then have "hopper_route env at (arrival at addr data) svc =
      ([ToAccountant (report_of (payer_wallet payer) (length (lcp_payload p)) (at, svc)), ToDispatcher ?msg], Returned, svc)"
    using opened top hop pays
    by (simp add: hopper_route_def arrival_def route_data_def is_destined_for_here_def route_data_externally_def transmit_def report_of_def Let_def)
  moreover have "lcp_route ?p = ?r" "lcp_payload ?p = lcp_payload p"
    by (simp_all add: live_with_offers_def live_cores_package_new_def)
  ultimately show ?thesis using data' by (intro exI [of _ ?msg] exI [of _ ?p] exI [of _ "at_random at (replicate (length e) 0)"]) simp
qed

lemma relays_deliver:
  assumes codecs: "cores_codecs env" and all: "seals_all member" and v: "member v" and w: "wallet_proves (he_receipt_env env) w a"
  shows "hops_enc_from env (hs @ hs') key v = Ok es \<Longrightarrow> encodex (ce_to_vec_package env) u key p = Ok data \<Longrightarrow> member u \<Longrightarrow>
    lcp_route p = \<lparr>route_hops = es @ rest\<rparr> \<Longrightarrow> map node_key nodes = butlast (key # map hop_public_key hs) \<Longrightarrow>
    distinct (key # map hop_public_key hs) \<Longrightarrow> \<forall>k\<in>set (map hop_public_key hs). keyed member k \<Longrightarrow>
    \<forall>hop\<in>set hs. hop_component hop = Hopper \<and> hop_routing_receipt_request_opt hop = None \<Longrightarrow>
    list_all2 (\<lambda>k hop. payer_for env (Some w) (Some kc) k = (Ok (hop_payer hop) :: (payer option, codec_error) res)) (map node_key nodes) hs \<Longrightarrow>
    \<forall>node\<in>set nodes. member (rs_main (snd node)) \<and> serves (he_receipt_env env) kc a node \<Longrightarrow>
    \<exists>data' u' p' es' rest'.
      relayed env addr nodes data =
        Some (zip (map (report_of (WalletAddress a) (length (lcp_payload p))) nodes) (map (\<lambda>h. EndpointKey (hop_public_key h)) hs), data') \<and>
      hops_enc_from env hs' (last (key # map hop_public_key hs)) v = Ok es' \<and> member u' \<and>
      encodex (ce_to_vec_package env) u' (last (key # map hop_public_key hs)) p' = Ok data' \<and>
      lcp_route p' = \<lparr>route_hops = es' @ rest'\<rparr> \<and> lcp_payload p' = lcp_payload p"
proof (induction hs arbitrary: key es u p data rest nodes)
  case Nil
  then show ?case
    by (intro exI [of _ data] exI [of _ u] exI [of _ p] exI [of _ es] exI [of _ rest]) (simp add: list_all2_Nil2)
next
  case (Cons hop hs)
  obtain at svc nodes' where n: "nodes = (at, svc) # nodes'" using Cons.prems(5) by (cases nodes) auto
  have key: "cde_public_key (rs_main svc) = key" and nodes': "map node_key nodes' = butlast (hop_public_key hop # map hop_public_key hs)"
    using Cons.prems(5) by (simp_all add: n)
  obtain e es1 where e: "hop_encode env hop key v = Ok e" "hops_enc_from env (hs @ hs') (hop_public_key hop) v = Ok es1" "es = e # es1"
    using Cons.prems(1) by (auto simp: res_simps)
  have hop: "hop_component hop = Hopper" "hop_routing_receipt_request_opt hop = None" "hop_public_key hop \<noteq> key" "keyed member (hop_public_key hop)"
    using Cons.prems(6-8) by auto
  have pf: "payer_for env (Some w) (Some kc) (node_key (at, svc)) = (Ok (hop_payer hop) :: (payer option, codec_error) res)"
    using Cons.prems(9) by (simp add: n)
  then obtain payer where payer: "hop_payer hop = Some payer" by (cases "hop_payer hop") (auto simp: payer_for_def res_simps)
  have node: "member (rs_main svc)" "serves (he_receipt_env env) kc a (at, svc)" using Cons.prems(10) by (simp_all add: n)
  note pays = payer_proves [OF pf [unfolded payer] w node(2), unfolded fst_conv snd_conv]
  obtain msg p1 g where step: "hopper_route env at (arrival at addr data) svc =
      ([ToAccountant (report_of (WalletAddress a) (length (lcp_payload p)) (at, svc)), ToDispatcher msg], Returned, svc)"
    "td_endpoint msg = EndpointKey (hop_public_key hop)"
    "encodex (ce_to_vec_package env) (rs_main svc) (hop_public_key hop) p1 = Ok (td_data msg)"
    "lcp_route p1 = \<lparr>route_hops = (es1 @ rest) @ [g]\<rparr>" "lcp_payload p1 = lcp_payload p"
    using relay_step [OF codecs all node(1) v Cons.prems(3), of p data e "es1 @ rest" hop payer at addr]
      Cons.prems(2,4) e(1,3) hop payer pays key payer_for_address [OF pf] by auto
  have "\<exists>data' u' p' es' rest'.
      relayed env addr nodes' (td_data msg) =
        Some (zip (map (report_of (WalletAddress a) (length (lcp_payload p1))) nodes') (map (\<lambda>h. EndpointKey (hop_public_key h)) hs), data') \<and>
      hops_enc_from env hs' (last (hop_public_key hop # map hop_public_key hs)) v = Ok es' \<and> member u' \<and>
      encodex (ce_to_vec_package env) u' (last (hop_public_key hop # map hop_public_key hs)) p' = Ok data' \<and>
      lcp_route p' = \<lparr>route_hops = es' @ rest'\<rparr> \<and> lcp_payload p' = lcp_payload p1"
    by (rule Cons.IH [where rest = "rest @ [g]", OF e(2) step(3) node(1) _ nodes']) (use Cons.prems step(4) in \<open>auto simp: n\<close>)
  then show ?case
  proof (elim exE conjE)
    fix data' u' p' es' rest'
    assume r: "relayed env addr nodes' (td_data msg) =
        Some (zip (map (report_of (WalletAddress a) (length (lcp_payload p1))) nodes') (map (\<lambda>h. EndpointKey (hop_public_key h)) hs), data')"
      "hops_enc_from env hs' (last (hop_public_key hop # map hop_public_key hs)) v = Ok es'" "member u'"
      "encodex (ce_to_vec_package env) u' (last (hop_public_key hop # map hop_public_key hs)) p' = Ok data'"
      "lcp_route p' = \<lparr>route_hops = es' @ rest'\<rparr>" "lcp_payload p' = lcp_payload p1"
    have "last (key # map hop_public_key (hop # hs)) = last (hop_public_key hop # map hop_public_key hs)" by simp
    then show ?thesis
      using r step by (intro exI [of _ data'] exI [of _ u'] exI [of _ p'] exI [of _ es'] exI [of _ rest'] conjI) (simp_all add: n)
  qed
qed

lemma consume_step:
  assumes codecs: "cores_codecs env" and all: "seals_all member" and mem: "member c" "member v"
    and route: "ic_route icp = \<lparr>route_hops = e # rest\<rparr>" "hop_encode env hop (cde_public_key c) v = Ok e"
    and hop: "hop_public_key hop \<noteq> cde_public_key c" "keyed member (hop_public_key hop)" "address_payer hop"
  shows "\<exists>data p g. consume env random now c icp = Ok [launch_lcp data (EndpointKey (hop_public_key hop))] \<and>
    encodex (ce_to_vec_package env) c (hop_public_key hop) p = Ok data \<and>
    lcp_route p = \<lparr>route_hops = rest @ [g]\<rparr> \<and> lcp_payload p = ic_payload icp"
proof -
  have hc: "he_from_slice_hop env bs = Ok hop" if "he_to_vec_hop env hop = Ok bs" for bs
    using codecs that hop(3) unfolding cores_codecs_def hop_codec_def by blast
  have shift: "route_shift env random c (ic_route icp) = (Ok hop, \<lparr>route_hops = rest @ [random (replicate (length e) 0)]\<rparr>)" (is "_ = (Ok hop, ?r)")
    unfolding route(1) by (rule shift_sealed_hop [OF mem route(2) hc])
  let ?p = "live_with_offers (live_cores_package_new ?r (ic_payload icp)) (ic_routing_receipt_offers icp)"
  obtain data where "encodex (ce_to_vec_package env) c (hop_public_key hop) ?p = Ok data"
    using package_sealed [OF codecs all mem(1) hop(2)] by blast
  moreover from this have "consume env random now c icp = Ok [launch_lcp data (EndpointKey (hop_public_key hop))]"
    using hop(1) by (simp add: consume_def from_incipient_def shift)
  moreover have "lcp_route ?p = ?r" "lcp_payload ?p = ic_payload icp"
    by (simp_all add: live_with_offers_def live_cores_package_new_def)
  ultimately show ?thesis by (intro exI [of _ data] exI [of _ ?p] exI [of _ "random (replicate (length e) 0)"]) simp
qed

lemma segment_delivers:
  assumes codecs: "cores_codecs env" and all: "seals_all member" and mem: "member c" "member v" and w: "wallet_proves (he_receipt_env env) w a"
    and enc: "hops_enc_from env (h0 # hs @ hs') (cde_public_key c) v = Ok es" and route: "ic_route icp = \<lparr>route_hops = es @ rest\<rparr>"
    and keys: "map node_key nodes = butlast (hop_public_key h0 # map hop_public_key hs)"
      "distinct (cde_public_key c # hop_public_key h0 # map hop_public_key hs)" "\<forall>k\<in>set (hop_public_key h0 # map hop_public_key hs). keyed member k"
    and hops: "address_payer h0" "\<forall>hop\<in>set hs. hop_component hop = Hopper \<and> hop_routing_receipt_request_opt hop = None"
      "list_all2 (\<lambda>k hop. payer_for env (Some w) (Some kc) k = (Ok (hop_payer hop) :: (payer option, codec_error) res)) (map node_key nodes) hs"
    and nodes: "\<forall>node\<in>set nodes. member (rs_main (snd node)) \<and> serves (he_receipt_env env) kc a node"
  shows "\<exists>data data' u' p' es' rest'.
      consume env random now c icp = Ok [launch_lcp data (EndpointKey (hop_public_key h0))] \<and>
      relayed env addr nodes data =
        Some (zip (map (report_of (WalletAddress a) (length (ic_payload icp))) nodes) (map (\<lambda>h. EndpointKey (hop_public_key h)) hs), data') \<and>
      hops_enc_from env hs' (last (hop_public_key h0 # map hop_public_key hs)) v = Ok es' \<and> member u' \<and>
      encodex (ce_to_vec_package env) u' (last (hop_public_key h0 # map hop_public_key hs)) p' = Ok data' \<and>
      lcp_route p' = \<lparr>route_hops = es' @ rest'\<rparr> \<and> lcp_payload p' = ic_payload icp"
proof -
  obtain e es1 where e: "hop_encode env h0 (cde_public_key c) v = Ok e" "hops_enc_from env (hs @ hs') (hop_public_key h0) v = Ok es1" "es = e # es1"
    using enc by (auto simp: res_simps)
  have "\<exists>data p g. consume env random now c icp = Ok [launch_lcp data (EndpointKey (hop_public_key h0))] \<and>
      encodex (ce_to_vec_package env) c (hop_public_key h0) p = Ok data \<and>
      lcp_route p = \<lparr>route_hops = (es1 @ rest) @ [g]\<rparr> \<and> lcp_payload p = ic_payload icp"
    using keys(2,3) hops(1) by (intro consume_step [OF codecs all mem _ e(1)]) (auto simp: route e(3))
  then obtain data p g where c: "consume env random now c icp = Ok [launch_lcp data (EndpointKey (hop_public_key h0))]"
      "encodex (ce_to_vec_package env) c (hop_public_key h0) p = Ok data"
      "lcp_route p = \<lparr>route_hops = es1 @ (rest @ [g])\<rparr>" "lcp_payload p = ic_payload icp" by auto
  have "\<exists>data' u' p' es' rest'.
      relayed env addr nodes data =
        Some (zip (map (report_of (WalletAddress a) (length (lcp_payload p))) nodes) (map (\<lambda>h. EndpointKey (hop_public_key h)) hs), data') \<and>
      hops_enc_from env hs' (last (hop_public_key h0 # map hop_public_key hs)) v = Ok es' \<and> member u' \<and>
      encodex (ce_to_vec_package env) u' (last (hop_public_key h0 # map hop_public_key hs)) p' = Ok data' \<and>
      lcp_route p' = \<lparr>route_hops = es' @ rest'\<rparr> \<and> lcp_payload p' = lcp_payload p"
    using keys hops nodes by (intro relays_deliver [OF codecs all mem(2) w e(2) c(2) mem(1) c(3)]) auto
  then show ?thesis using c(1) unfolding c(4) by blast
qed

lemma final_step:
  assumes codecs: "cores_codecs env" and mem: "member (rs_main svc)" "member v" "member u"
    and data: "encodex (ce_to_vec_package env) u (cde_public_key (rs_main svc)) p = Ok data"
    and route: "lcp_route p = \<lparr>route_hops = e # rest\<rparr>" "hop_encode env hop (cde_public_key (rs_main svc)) v = Ok e"
    and hop: "hop_component hop \<noteq> Hopper" "payer_for env (Some w) (Some kc) (cde_public_key (rs_main svc)) =
        (Ok (hop_payer hop) :: (payer option, codec_error) res)"
    and pays: "wallet_proves (he_receipt_env env) w a" "serves (he_receipt_env env) kc a (at, svc)"
    and msg: "decodex (ce_from_slice_message env) (if hop_component hop = ProxyServer then rs_alias svc else rs_main svc) (lcp_payload p) = Ok msg"
  shows "hopper_route env at (arrival at addr data) svc = route_expired_package env at (hop_component hop)
      \<lparr>ex_immediate_neighbor = addr, ex_paying_wallet = Some (WalletAddress a), ex_remaining_route = lcp_route p, ex_payload = msg,
       ex_payload_len = length (lcp_payload p), ex_routing_receipt_offers = lcp_routing_receipt_offers p\<rparr> True svc"
proof -
  have hc: "he_from_slice_hop env bs = Ok hop" if "he_to_vec_hop env hop = Ok bs" for bs
    using codecs that payer_for_address [OF hop(2)] unfolding cores_codecs_def hop_codec_def by blast
  note opened = package_opens [OF codecs mem(1,3) data]
  have shift: "route_shift env (at_random at) (rs_main svc) (lcp_route p) =
      (Ok hop, \<lparr>route_hops = rest @ [at_random at (replicate (length e) 0)]\<rparr>)"
    unfolding route(1) by (rule shift_sealed_hop [OF mem(1,2) route(2) hc])
  have top: "next_hop env (lcp_route p) (rs_main svc) = Ok hop"
    using shift unfolding route(1) by (auto simp: route_shift_def next_hop_def split: res.splits)
  obtain payer where payer: "hop_payer hop = Some payer" using hop(2) by (cases "hop_payer hop") (auto simp: payer_for_def res_simps)
  note pp = payer_proves [OF _ pays, unfolded fst_conv snd_conv, OF hop(2) [unfolded payer]]
  show ?thesis
    using opened top hop(1) payer pp msg
    by (simp add: hopper_route_def arrival_def route_data_def route_data_internally_def route_data_to_peripheral_component_def
        extract_expired_package_def to_expired_def payer_owns_secret_key_def)
qed

end

text \<open>
  A package is carried from a sender over relays to a receiver: the sender launches it towards the
  first of them, each relay reports the service to its own accountant at its own rates and sends it
  to the next, and the receiver hands it over with the given effect.
\<close>

definition carried ::
    "'m routing_env_scheme \<Rightarrow> address \<Rightarrow> socket_addr \<Rightarrow> net_node \<Rightarrow> incipient_cores_package \<Rightarrow> net_node list \<Rightarrow> net_node \<Rightarrow>
     hopper_effect \<Rightarrow> bool" where
  "carried env a addr sender icp relays receiver effect \<longleftrightarrow>
     (\<exists>msg data. consume env (at_random (fst sender)) (at_now (fst sender)) (rs_main (snd sender)) icp = Ok [ToDispatcher msg] \<and>
        td_endpoint msg = EndpointKey (node_key (hd (relays @ [receiver]))) \<and>
        relayed env addr relays (td_data msg) =
          Some (zip (map (report_of (WalletAddress a) (length (ic_payload icp))) relays)
            (map (\<lambda>node. EndpointKey (node_key node)) (tl (relays @ [receiver]))), data) \<and>
        hopper_route env (fst receiver) (arrival (fst receiver) addr data) (snd receiver) = ([effect], Returned, snd receiver))"

lemma map_replicateD: "map f xs = replicate n y \<Longrightarrow> x \<in> set xs \<Longrightarrow> f x = y"
  by (induction xs arbitrary: n) (auto simp: Cons_replicate_eq)

lemma round_trip_split:
  assumes r: "round_trip_with_receipts env (route_segment_new (map node_key (orig # outs @ [exit])) ProxyClient)
      (route_segment_new (map node_key (exit # backs @ [home])) ProxyServer) v (Some w) (Some kc) None = Ok r"
  obtains h0 hs he hb hl where
    "hops_enc_from env (h0 # hs @ he # hb @ [hl]) (node_key orig) v = Ok (route_hops r)"
    "map hop_public_key (h0 # hs) = map node_key (outs @ [exit])" "map hop_public_key (he # hb) = map node_key (backs @ [home])"
    "address_payer h0" "\<forall>hop\<in>set (hs @ hb). hop_component hop = Hopper \<and> hop_routing_receipt_request_opt hop = None"
    "hop_component he = ProxyClient" "hop_component hl = ProxyServer"
    "list_all2 (\<lambda>k hop. payer_for env (Some w) (Some kc) k = (Ok (hop_payer hop) :: (payer option, codec_error) res)) (map node_key outs) hs"
    "list_all2 (\<lambda>k hop. payer_for env (Some w) (Some kc) k = (Ok (hop_payer hop) :: (payer option, codec_error) res)) (map node_key backs) hb"
    "payer_for env (Some w) (Some kc) (node_key exit) = (Ok (hop_payer he) :: (payer option, codec_error) res)"
    "payer_for env (Some w) (Some kc) (node_key home) = (Ok (hop_payer hl) :: (payer option, codec_error) res)"
proof -
  let ?ks = "map node_key (orig # outs @ [exit])" and ?bs = "map node_key (exit # backs @ [home])"
  let ?P = "\<lambda>k hop. payer_for env (Some w) (Some kc) k = (Ok (hop_payer hop) :: (payer option, codec_error) res)"
  let ?plan = "over_plan ?ks @ back_plan ProxyClient ?bs ProxyServer"
  obtain hops where enc: "hops_enc_from env hops (node_key orig) v = Ok (route_hops r)"
    and plan: "list_all2 (follows_plan env (Some w) (Some kc) None) ?plan hops"
    using round_trip_hops(4) [OF r [unfolded round_trip_with_receipts_def]] by (auto simp: route_segment_new_def)
  note fields = plan_fields [OF plan]
  have own: "map fst ?plan = map node_key (orig # outs @ exit # backs @ [home])"
    using round_trip_plan_keys(1) [of ?ks ?bs ProxyClient ProxyServer] by simp
  have nexts: "map hop_public_key hops = map node_key (outs @ exit # backs @ [home]) @ [[]]"
    using fields(1) round_trip_plan_keys(2) [of ?ks ?bs ProxyClient ProxyServer] by simp
  have comps: "map hop_component hops = replicate (Suc (length outs)) Hopper @ ProxyClient # replicate (length backs) Hopper @ [ProxyServer]"
    using fields(2) over_plan_keys(3) [of ?ks] back_plan_components [of ?bs ProxyClient ProxyServer] by simp
  obtain h0 hs he hb hl where h: "hops = h0 # hs @ he # hb @ [hl]" "list_all2 ?P (map node_key outs) hs" "list_all2 ?P (map node_key backs) hb"
    "?P (node_key exit) he" "?P (node_key home) hl" "?P (node_key orig) h0"
    using fields(4) unfolding own by (auto simp: list_all2_Cons1 list_all2_append1)
  have len: "length hs = length outs" "length hb = length backs"
    using list_all2_lengthD [OF h(2)] list_all2_lengthD [OF h(3)] by simp_all
  have "map hop_public_key (h0 # hs) @ (map hop_public_key (he # hb) @ [hop_public_key hl]) =
      map node_key (outs @ [exit]) @ (map node_key (backs @ [home]) @ [[]])"
    using nexts by (simp add: h(1))
  then have keys: "map hop_public_key (h0 # hs) = map node_key (outs @ [exit])" "map hop_public_key (he # hb) = map node_key (backs @ [home])"
    using len by (simp_all add: append_eq_append_conv del: list.map map_append)
  have "map hop_component (h0 # hs) @ (hop_component he # map hop_component hb @ [hop_component hl]) =
      replicate (Suc (length outs)) Hopper @ (ProxyClient # replicate (length backs) Hopper @ [ProxyServer])"
    using comps by (simp add: h(1))
  then have c: "map hop_component (h0 # hs) = replicate (Suc (length outs)) Hopper" "hop_component he = ProxyClient"
    "map hop_component hb = replicate (length backs) Hopper" "hop_component hl = ProxyServer"
    using len by (simp_all add: append_eq_append_conv del: list.map(2) replicate_Suc)
  then have "\<forall>hop\<in>set (hs @ hb). hop_component hop = Hopper" by (auto dest: map_replicateD)
  moreover note keys c(2,4)
  moreover have "\<forall>hop\<in>set hops. hop_routing_receipt_request_opt hop = None"
    using fields(3) by (auto dest: map_replicateD)
  ultimately show thesis using that enc h payer_for_address [OF h(6)] by (simp add: h(1))
qed

context seal_family
begin

lemma message_opens:
  assumes "cores_codecs env" "member c" "member u" "incipient_new env u r msg (cde_public_key c) = Ok icp"
  shows "decodex (ce_from_slice_message env) c (ic_payload icp) = Ok msg" "ic_route icp = r"
proof -
  have e: "encodex (ce_to_vec_message env) u (cde_public_key c) msg = Ok (ic_payload icp)" "ic_route icp = r"
    using assms(4) by (auto simp: incipient_new_def res_simps)
  show "decodex (ce_from_slice_message env) c (ic_payload icp) = Ok msg"
    by (rule decodex_encodex [OF assms(2,3) e(1)]) (use assms(1) in \<open>auto simp: cores_codecs_def\<close>)
  show "ic_route icp = r" by (rule e(2))
qed

text \<open>One direction: from a node with a package whose top hop it can open to the node that reads the message.\<close>

lemma carried_over:
  assumes codecs: "cores_codecs env" and all: "seals_all member" and mem: "member (rs_main (snd sender))" "member v" "member (rs_main (snd receiver))"
    and w: "wallet_proves (he_receipt_env env) w a"
    and enc: "hops_enc_from env (h0 # hs @ h1 # hs') (node_key sender) v = Ok es" and route: "ic_route icp = \<lparr>route_hops = es @ rest\<rparr>"
    and keys: "map hop_public_key (h0 # hs) = map node_key (relays @ [receiver])" "distinct (map node_key (sender # relays @ [receiver]))"
      "\<forall>k\<in>node_key ` set (relays @ [receiver]). keyed member k"
    and hops: "address_payer h0" "\<forall>hop\<in>set hs. hop_component hop = Hopper \<and> hop_routing_receipt_request_opt hop = None"
      "list_all2 (\<lambda>k hop. payer_for env (Some w) (Some kc) k = (Ok (hop_payer hop) :: (payer option, codec_error) res)) (map node_key relays) hs"
    and nodes: "\<forall>node\<in>set relays. member (rs_main (snd node))" "\<forall>node\<in>set (relays @ [receiver]). serves (he_receipt_env env) kc a node"
    and h1: "hop_component h1 \<noteq> Hopper" "payer_for env (Some w) (Some kc) (node_key receiver) = (Ok (hop_payer h1) :: (payer option, codec_error) res)"
    and msg: "decodex (ce_from_slice_message env) (if hop_component h1 = ProxyServer then rs_alias (snd receiver) else rs_main (snd receiver)) (ic_payload icp) = Ok msg"
  shows "\<exists>p es' rest'. ex_payload p = msg \<and> ex_paying_wallet p = Some (WalletAddress a) \<and> ex_remaining_route p = \<lparr>route_hops = es' @ rest'\<rparr> \<and>
    hops_enc_from env (h1 # hs') (node_key receiver) v = Ok es' \<and>
    (\<forall>effect. route_expired_package env (fst receiver) (hop_component h1) p True (snd receiver) = ([effect], Returned, snd receiver) \<longrightarrow>
       carried env a addr sender icp relays receiver effect)"
proof -
  have last: "last (hop_public_key h0 # map hop_public_key hs) = node_key receiver"
    using arg_cong [OF keys(1), of last] by simp
  have h0: "hop_public_key h0 = node_key (hd (relays @ [receiver]))" "map hop_public_key hs = map node_key (tl (relays @ [receiver]))"
    using keys(1) by (cases relays; simp)+
  have "\<exists>data data' u' p' es' rest'.
      consume env (at_random (fst sender)) (at_now (fst sender)) (rs_main (snd sender)) icp = Ok [launch_lcp data (EndpointKey (hop_public_key h0))] \<and>
      relayed env addr relays data =
        Some (zip (map (report_of (WalletAddress a) (length (ic_payload icp))) relays) (map (\<lambda>h. EndpointKey (hop_public_key h)) hs), data') \<and>
      hops_enc_from env (h1 # hs') (last (hop_public_key h0 # map hop_public_key hs)) v = Ok es' \<and> member u' \<and>
      encodex (ce_to_vec_package env) u' (last (hop_public_key h0 # map hop_public_key hs)) p' = Ok data' \<and>
      lcp_route p' = \<lparr>route_hops = es' @ rest'\<rparr> \<and> lcp_payload p' = ic_payload icp"
  proof (rule segment_delivers [OF codecs all mem(1,2) w enc route])
    show "map node_key relays = butlast (hop_public_key h0 # map hop_public_key hs)"
      using keys(1) by (metis butlast_snoc list.simps(9) map_butlast map_append)
    show "distinct (cde_public_key (rs_main (snd sender)) # hop_public_key h0 # map hop_public_key hs)"
      using keys(1,2) by (metis list.simps(9))
    show "\<forall>k\<in>set (hop_public_key h0 # map hop_public_key hs). keyed member k"
      using keys(1,3) by (metis list.simps(9) set_map)
  qed (use hops nodes in auto)
  then obtain data data' u' p' es' rest' where d:
      "consume env (at_random (fst sender)) (at_now (fst sender)) (rs_main (snd sender)) icp = Ok [launch_lcp data (EndpointKey (hop_public_key h0))]"
      "relayed env addr relays data =
        Some (zip (map (report_of (WalletAddress a) (length (ic_payload icp))) relays) (map (\<lambda>h. EndpointKey (hop_public_key h)) hs), data')"
      "hops_enc_from env (h1 # hs') (node_key receiver) v = Ok es'" "member u'"
      "encodex (ce_to_vec_package env) u' (node_key receiver) p' = Ok data'"
      "lcp_route p' = \<lparr>route_hops = es' @ rest'\<rparr>" "lcp_payload p' = ic_payload icp"
    unfolding last by blast
  obtain e es1 where e: "hop_encode env h1 (node_key receiver) v = Ok e" "es' = e # es1" using d(3) by (auto simp: res_simps)
  let ?p = "\<lparr>ex_immediate_neighbor = addr, ex_paying_wallet = Some (WalletAddress a), ex_remaining_route = lcp_route p', ex_payload = msg,
       ex_payload_len = length (lcp_payload p'), ex_routing_receipt_offers = lcp_routing_receipt_offers p'\<rparr>"
  have fin: "hopper_route env (fst receiver) (arrival (fst receiver) addr data') (snd receiver) =
      route_expired_package env (fst receiver) (hop_component h1) ?p True (snd receiver)"
    by (rule final_step [OF codecs mem(3,2) d(4,5) _ e(1) h1 w]) (use d(6,7) e(2) nodes(2) msg in auto)
  have log: "map (\<lambda>h. EndpointKey (hop_public_key h)) hs = map (\<lambda>node. EndpointKey (node_key node)) (tl (relays @ [receiver]))"
    using arg_cong [OF h0(2), of "map EndpointKey"] by (simp add: comp_def)
  have "carried env a addr sender icp relays receiver effect"
    if "route_expired_package env (fst receiver) (hop_component h1) ?p True (snd receiver) = ([effect], Returned, snd receiver)" for effect
    unfolding carried_def using d(1,2) fin that h0(1) log
    by (intro exI [of _ "\<lparr>td_endpoint = EndpointKey (hop_public_key h0), td_last_data = False, td_sequence_number_opt = None, td_data = data\<rparr>"]
        exI [of _ data']) (simp add: launch_lcp_def)
  then show ?thesis using d(3,6) by (intro exI [of _ ?p] exI [of _ es'] exI [of _ rest']) simp
qed

end

subsection \<open>There and home again\<close>

text \<open>
  C1. A client request whose route was planned over relays to an exit and over further relays home,
  with a payer and without a request for receipts, is delivered, provided that the nodes of the route
  have different keys in each direction and open what is sealed for them, that the payer's wallet makes
  signatures that recover its address, that no node of the route bans it, and that hops with address
  wallets, packages and messages are read back as they were written: the originator's hopper launches it to the first node of the route, every relay in turn
  reports the service it gave to its own accountant, at its own rates, on the payer's wallet and for
  the payload's size, and sends the package to the next node, and the exit hands the very request to
  its proxy client together with what remains of the route. A response sent on that remaining route
  is carried over the return relays in the same way, and the node at its end hands the very response
  to its proxy server. No node changes its state on the way.
\<close>

theorem request_and_response_delivered:
  assumes "seal_family member" "cores_codecs env" "seals_all member" "wallet_proves (he_receipt_env env) w a"
    and "\<forall>node\<in>set (orig # outs @ exit # backs @ [home]). member (rs_main (snd node))" "member (rs_alias (snd home))"
    and "\<forall>node\<in>set (outs @ exit # backs @ [home]). serves (he_receipt_env env) kc a node"
    and "distinct (map node_key (orig # outs @ [exit]))" "distinct (map node_key (exit # backs @ [home]))"
    and "[] \<notin> node_key ` set (outs @ exit # backs @ [home])"
    and "round_trip_with_receipts env (route_segment_new (map node_key (orig # outs @ [exit])) ProxyClient)
      (route_segment_new (map node_key (exit # backs @ [home])) ProxyServer) (rs_main (snd orig)) (Some w) (Some kc) None = Ok r"
    and "incipient_new env (rs_main (snd orig)) r (ClientRequest vd) (node_key exit) = Ok icp"
    and "try_from_future (pv_client_request (re_payloads env)) (pv_client_request_step (re_payloads env)) vd = Ok request"
    and "rs_proxy_client_running (snd exit)"
  shows "\<exists>package. carried env a addr orig icp outs exit (ToProxyClient package) \<and>
    ex_payload package = request \<and> ex_paying_wallet package = Some (WalletAddress a) \<and>
    (\<forall>at vd' response icp'.
       try_from_future (pv_client_response (re_payloads env)) (pv_client_response_step (re_payloads env)) vd' = Ok response \<longrightarrow>
       incipient_new env (rs_main (snd exit)) (ex_remaining_route package) (ClientResponse vd') (cde_public_key (rs_alias (snd home))) = Ok icp' \<longrightarrow>
       (\<exists>package'. carried env a addr (at, snd exit) icp' backs home (ToProxyServer package') \<and>
          ex_payload package' = response \<and> ex_paying_wallet package' = Some (WalletAddress a)))"
proof -
  note ass = assms
  obtain h0 hs he hb hl where h: "hops_enc_from env (h0 # hs @ he # hb @ [hl]) (node_key orig) (rs_main (snd orig)) = Ok (route_hops r)"
    "map hop_public_key (h0 # hs) = map node_key (outs @ [exit])" "map hop_public_key (he # hb) = map node_key (backs @ [home])"
    "address_payer h0" "\<forall>hop\<in>set (hs @ hb). hop_component hop = Hopper \<and> hop_routing_receipt_request_opt hop = None"
    "hop_component he = ProxyClient" "hop_component hl = ProxyServer"
    "list_all2 (\<lambda>k hop. payer_for env (Some w) (Some kc) k = (Ok (hop_payer hop) :: (payer option, codec_error) res)) (map node_key outs) hs"
    "list_all2 (\<lambda>k hop. payer_for env (Some w) (Some kc) k = (Ok (hop_payer hop) :: (payer option, codec_error) res)) (map node_key backs) hb"
    "payer_for env (Some w) (Some kc) (node_key exit) = (Ok (hop_payer he) :: (payer option, codec_error) res)"
    "payer_for env (Some w) (Some kc) (node_key home) = (Ok (hop_payer hl) :: (payer option, codec_error) res)"
    by (rule round_trip_split [OF ass(11)])
  let ?v = "rs_main (snd orig)"
  have v: "member ?v" and e: "member (rs_main (snd exit))" and m: "member (rs_main (snd home))" using ass(5) by simp_all
  note opened = seal_family.message_opens [OF ass(1,2) e v ass(12)]
  have over: "\<forall>hop\<in>set hs. hop_component hop = Hopper \<and> hop_routing_receipt_request_opt hop = None"
    and on: "\<forall>hop\<in>set hb. hop_component hop = Hopper \<and> hop_routing_receipt_request_opt hop = None" using h(5) by auto
  have keyed: "keyed member (node_key node)" if "node \<in> set (outs @ exit # backs @ [home])" for node
  proof -
    have "member (rs_main (snd node))" using ass(5) that by (metis list.set_intros(2) set_append)
    moreover have "node_key node \<noteq> []" using ass(10) that by (metis imageI)
    ultimately show ?thesis unfolding keyed_def by blast
  qed
  have "\<exists>p es' rest'. ex_payload p = ClientRequest vd \<and> ex_paying_wallet p = Some (WalletAddress a) \<and>
    ex_remaining_route p = \<lparr>route_hops = es' @ rest'\<rparr> \<and> hops_enc_from env (he # (hb @ [hl])) (node_key exit) ?v = Ok es' \<and>
    (\<forall>effect. route_expired_package env (fst exit) (hop_component he) p True (snd exit) = ([effect], Returned, snd exit) \<longrightarrow>
       carried env a addr orig icp outs exit effect)"
    by (rule seal_family.carried_over [OF ass(1-3) v v e ass(4) h(1) _ h(2) ass(8) _ h(4) over h(8), where rest = "[]"])
      (use ass(5,7) keyed h(6,10) opened in auto)
  then obtain p es' rest' where p: "ex_payload p = ClientRequest vd" "ex_paying_wallet p = Some (WalletAddress a)"
    "ex_remaining_route p = \<lparr>route_hops = es' @ rest'\<rparr>" "hops_enc_from env (he # hb @ [hl]) (node_key exit) ?v = Ok es'"
    "\<And>effect. route_expired_package env (fst exit) ProxyClient p True (snd exit) = ([effect], Returned, snd exit) \<Longrightarrow>
       carried env a addr orig icp outs exit effect" using h(6) by auto
  let ?package = "with_payload p request"
  have served: "carried env a addr orig icp outs exit (ToProxyClient ?package)"
    by (rule p(5)) (use ass(13,14) p(1) in \<open>simp add: route_expired_package_def\<close>)
  have "\<exists>package'. carried env a addr (at, snd exit) icp' backs home (ToProxyServer package') \<and>
          ex_payload package' = response \<and> ex_paying_wallet package' = Some (WalletAddress a)"
    if resp: "try_from_future (pv_client_response (re_payloads env)) (pv_client_response_step (re_payloads env)) vd' = Ok response"
      and icp': "incipient_new env (rs_main (snd exit)) (ex_remaining_route p) (ClientResponse vd') (cde_public_key (rs_alias (snd home))) = Ok icp'"
    for at vd' response icp'
  proof -
    note opened' = seal_family.message_opens [OF ass(1,2,6) e icp']
    have "\<exists>q es'' rest''. ex_payload q = ClientResponse vd' \<and> ex_paying_wallet q = Some (WalletAddress a) \<and>
      ex_remaining_route q = \<lparr>route_hops = es'' @ rest''\<rparr> \<and> hops_enc_from env (hl # []) (node_key home) ?v = Ok es'' \<and>
      (\<forall>effect. route_expired_package env (fst home) (hop_component hl) q True (snd home) = ([effect], Returned, snd home) \<longrightarrow>
         carried env a addr (at, snd exit) icp' backs home effect)"
      by (rule seal_family.carried_over [OF ass(1-3) _ v m ass(4) _ _ h(3) _ _ payer_for_address [OF h(10)] on h(9)])
        (use ass(5,7,9) keyed h(7,11) opened' p(3,4) e in auto)
    then obtain q where q: "ex_payload q = ClientResponse vd'" "ex_paying_wallet q = Some (WalletAddress a)"
      "\<And>effect. route_expired_package env (fst home) ProxyServer q True (snd home) = ([effect], Returned, snd home) \<Longrightarrow>
         carried env a addr (at, snd exit) icp' backs home effect" using h(7) by auto
    have "carried env a addr (at, snd exit) icp' backs home (ToProxyServer (with_payload q response))"
      by (rule q(3)) (use resp q(1) in \<open>simp add: route_expired_package_def\<close>)
    then show ?thesis using q(2) by (intro exI [of _ "with_payload q response"]) (simp add: with_payload_def)
  qed
  then show ?thesis using served p(2)
    by (intro exI [of _ ?package]) (simp add: with_payload_def)
qed

end
