(* ===== verification/Provider_Settlement.thy ===== *)
theory Provider_Settlement
  imports Session_Safety Receipt_Pages
begin

section \<open>The provider's settlement manager\<close>

text \<open>
  \<open>node/src/hopper/provider_settlement.rs\<close>: the provider's payout wallet authorizes settlements for
  a while; the manager keeps the authorization in the receipt database, exports pending claims in
  batches and reconciles them with the chain. The manager's state holds the database it writes to.
  An operation returns its result and the state, also when it fails half way.
\<close>

subsection \<open>Data\<close>

definition max_provider_settlement_export_claims :: nat where
  "max_provider_settlement_export_claims = 128"

definition min_provider_settlement_confirmation_depth :: u64 where
  "min_provider_settlement_confirmation_depth = 12"

definition max_provider_settlement_confirmation_depth :: u64 where
  "max_provider_settlement_confirmation_depth = 100000"

record provider_settlement_config =
  psc_chain :: chain_rec
  psc_chain_id :: u64
  psc_settlement_contract :: address
  psc_payout_wallet_address :: address

record provider_settlement_proposal =
  psl_proposal_id :: string
  psl_chain_name :: string
  psl_masq_token_contract :: address
  psl_policy :: provider_settlement_policy
  psl_eip712_typed_data :: json

record provider_settlement_status =
  pss_authorization_opt :: "authorized_provider_settlement option"
  pss_chain_name_opt :: "string option"
  pss_masq_token_contract_opt :: "address option"
  pss_pending_claim_count :: nat

definition settlement_status_inactive :: "nat \<Rightarrow> provider_settlement_status" where
  "settlement_status_inactive pending_claim_count =
     \<lparr>pss_authorization_opt = None, pss_chain_name_opt = None, pss_masq_token_contract_opt = None,
      pss_pending_claim_count = pending_claim_count\<rparr>"

record provider_settlement_batch_export =
  pbe_batch :: receipt_settlement_batch
  pbe_total_pending_claims :: nat
  pbe_start_after_claim_id_opt :: "bytes32 option"
  pbe_next_cursor :: bytes32

record provider_settlement_reconciliation_page =
  prp_settlement_contract :: address
  prp_candidates :: "settlement_reconciliation_candidate list"
  prp_start_after_claim_id_opt :: "bytes32 option"
  prp_next_cursor :: bytes32

datatype provider_settlement_manager_error =
    PsmDao receipt_checkpoint_dao_error
  | PsmConfirmationDepth u64
  | PsmDuration u64
  | PsmEmptyPage
  | PsmExpired
  | PsmExportLimit nat
  | PsmNoActiveAuthorization
  | PsmNoPendingProposal
  | PsmProposalMismatch
  | PsmSettlement receipt_settlement_error
  | PsmSignature string
  | PsmTimeOverflow
  | PsmVerification service_receipt_error

record pending_provider_settlement =
  pps_proposal_id :: string
  pps_policy :: provider_settlement_policy

record provider_settlement_manager =
  psm_config :: provider_settlement_config
  psm_provider_cryptde :: crypt_de
  psm_dao :: receipt_db
  psm_pending_opt :: "pending_provider_settlement option"
  psm_active_opt :: "authorized_provider_settlement option"

record provider_env =
  pe_dao_env :: dao_env
  pe_to_hex :: "bytes \<Rightarrow> string"
  pe_from_hex :: "string \<Rightarrow> (bytes, string) res"

abbreviation pe_settlement_env :: "provider_env \<Rightarrow> settlement_env" where
  "pe_settlement_env env \<equiv> de_settlement_env (pe_dao_env env)"

abbreviation pe_receipt_env :: "provider_env \<Rightarrow> receipt_env" where
  "pe_receipt_env env \<equiv> se_receipt_env (pe_settlement_env env)"

type_synonym 'a settlement_outcome = "('a, provider_settlement_manager_error, provider_settlement_manager) outcome"

subsection \<open>Operations\<close>

definition clear_authorization :: "provider_settlement_manager \<Rightarrow> unit settlement_outcome" where
  "clear_authorization s =
     (let (r, db) = clear_provider_settlement_authorization (psm_dao s) in (map_err PsmDao r, s\<lparr>psm_dao := db\<rparr>))"

definition matches_config :: "provider_settlement_config \<Rightarrow> public_key \<Rightarrow> provider_settlement_policy \<Rightarrow> bool" where
  "matches_config config provider p \<longleftrightarrow>
     \<not> (psp_chain_id p \<noteq> psc_chain_id config
        \<or> psp_settlement_contract p \<noteq> psc_settlement_contract config
        \<or> psp_payout_wallet_address p \<noteq> psc_payout_wallet_address config
        \<or> psp_provider_public_key p \<noteq> provider)"

definition settlement_manager_new ::
    "provider_env \<Rightarrow> provider_settlement_config \<Rightarrow> crypt_de \<Rightarrow> receipt_db \<Rightarrow> u64 \<Rightarrow>
     (provider_settlement_manager, provider_settlement_manager_error) res \<times> receipt_db" where
  "settlement_manager_new env config provider_cryptde db now =
     (let manager = (\<lambda>db active_opt. \<lparr>psm_config = config, psm_provider_cryptde = provider_cryptde, psm_dao = db,
            psm_pending_opt = None, psm_active_opt = active_opt\<rparr>);
          cleared = (let (r, db') = clear_provider_settlement_authorization db in
            (and_then (map_err PsmDao r) (\<lambda>_. Ok (manager db' None)), db')) in
      case map_err PsmDao (provider_settlement_authorization (pe_dao_env env) db) of
        Err e \<Rightarrow> (Err e, db)
      | Panic \<Rightarrow> (Panic, db)
      | Ok None \<Rightarrow> (Ok (manager db None), db)
      | Ok (Some stored) \<Rightarrow>
          if now > psp_expires_at_unix_s (aps_policy stored) then cleared
          else if \<not> matches_config config (cde_public_key provider_cryptde) (aps_policy stored) then cleared
          else (and_then (map_err PsmVerification (settlement_verify (pe_receipt_env env) stored (psc_chain_id config)
                    (psc_settlement_contract config) (cde_public_key provider_cryptde) now provider_cryptde))
                  (\<lambda>_. Ok (manager db (Some stored))), db))"

definition settlement_propose ::
    "provider_env \<Rightarrow> u64 \<Rightarrow> u64 \<Rightarrow> bytes32 \<Rightarrow> provider_settlement_manager \<Rightarrow> provider_settlement_proposal settlement_outcome" where
  "settlement_propose env duration_seconds now random_nonce s =
     (if \<not> (min_provider_settlement_duration_seconds \<le> duration_seconds
             \<and> duration_seconds \<le> max_provider_settlement_duration_seconds)
      then (Err (PsmDuration duration_seconds), s)
      else case checked_add now duration_seconds of
        None \<Rightarrow> (Err PsmTimeOverflow, s)
      | Some expires_at \<Rightarrow>
          if random_nonce = 0 then (Err (PsmSignature ''secure nonce generation returned an invalid value''), s)
          else
            let config = psm_config s;
                policy = settlement_policy_new (psc_chain_id config) (psc_settlement_contract config)
                  (psc_payout_wallet_address config) (cde_public_key (psm_provider_cryptde s)) now expires_at random_nonce in
            and_then_s (map_err PsmVerification (settlement_typed_data (pe_to_hex env) policy), s) (\<lambda>typed_data s.
              let proposal_id = ''0x'' @ pe_to_hex env (be_bytes 32 random_nonce) in
              (Ok \<lparr>psl_proposal_id = proposal_id, psl_chain_name = literal_identifier (psc_chain config),
                   psl_masq_token_contract = chain_contract (psc_chain config), psl_policy = policy,
                   psl_eip712_typed_data = typed_data\<rparr>,
               s\<lparr>psm_pending_opt := Some \<lparr>pps_proposal_id = proposal_id, pps_policy = policy\<rparr>\<rparr>)))"

definition pending_claim_count :: "provider_env \<Rightarrow> provider_settlement_manager \<Rightarrow> nat settlement_outcome" where
  "pending_claim_count env s =
     (and_then (map_err PsmDao (pending_settlement_claims (pe_dao_env env) (psm_dao s))) (\<lambda>claims. Ok (length claims)), s)"

definition settlement_status :: "provider_env \<Rightarrow> u64 \<Rightarrow> provider_settlement_manager \<Rightarrow> provider_settlement_status settlement_outcome" where
  "settlement_status env now s =
     and_then_s
       (case psm_active_opt s of
          Some authorization \<Rightarrow>
            if now > psp_expires_at_unix_s (aps_policy authorization)
            then and_then_s (clear_authorization s) (\<lambda>_ s. (Ok (), s\<lparr>psm_active_opt := None\<rparr>))
            else (Ok (), s)
        | None \<Rightarrow> (Ok (), s))
       (\<lambda>_ s. and_then_s (pending_claim_count env s) (\<lambda>count s.
          (Ok (case psm_active_opt s of
                 Some authorization \<Rightarrow>
                   \<lparr>pss_authorization_opt = Some authorization,
                    pss_chain_name_opt = Some (literal_identifier (psc_chain (psm_config s))),
                    pss_masq_token_contract_opt = Some (chain_contract (psc_chain (psm_config s))),
                    pss_pending_claim_count = count\<rparr>
               | None \<Rightarrow> settlement_status_inactive count), s)))"

definition provider_signature_from_hex ::
    "provider_env \<Rightarrow> string \<Rightarrow> (eth_signature, provider_settlement_manager_error) res" where
  "provider_signature_from_hex env input =
     and_then (map_err PsmSignature (pe_from_hex env (strip_0x input))) (\<lambda>bs.
       if length bs \<noteq> 65
       then Err (PsmSignature (''expected 65 bytes, received '' @ decimal (length bs)))
       else
         let r = from_be_bytes (take 32 bs) :: bytes32; s = from_be_bytes (take 32 (drop 32 bs)) :: bytes32 in
         if r = 0 \<or> s = 0 \<or> s > secp256k1_half_order
         then Err (PsmSignature ''r and s must be non-zero and s must use canonical low-s form'')
         else
           let b = bs ! 64 in
           if b = 0 \<or> b = 1 then Ok \<lparr>sig_v = b, sig_r = r, sig_s = s\<rparr>
           else if b = 27 \<or> b = 28 then Ok \<lparr>sig_v = b - 27, sig_r = r, sig_s = s\<rparr>
           else Err (PsmSignature (''recovery ID '' @ decimal (unat b) @ '' is not 0, 1, 27 or 28'')))"

definition settlement_activate ::
    "provider_env \<Rightarrow> string \<Rightarrow> string \<Rightarrow> u64 \<Rightarrow> provider_settlement_manager \<Rightarrow> provider_settlement_status settlement_outcome" where
  "settlement_activate env proposal_id wallet_signature now s =
     (case psm_pending_opt s of
        None \<Rightarrow> (Err PsmNoPendingProposal, s)
      | Some pending \<Rightarrow>
          if pps_proposal_id pending \<noteq> proposal_id then (Err PsmProposalMismatch, s)
          else if now > psp_expires_at_unix_s (pps_policy pending)
          then (Err PsmExpired, s\<lparr>psm_pending_opt := None\<rparr>)
          else
            and_then_s (provider_signature_from_hex env wallet_signature, s) (\<lambda>signature s.
            and_then_s (map_err PsmVerification (authorize_with_wallet_signature (pe_receipt_env env) (pps_policy pending)
                signature (psm_provider_cryptde s)), s) (\<lambda>authorization s.
            and_then_s (map_err PsmVerification (settlement_verify (pe_receipt_env env) authorization
                (psc_chain_id (psm_config s)) (psc_settlement_contract (psm_config s))
                (cde_public_key (psm_provider_cryptde s)) now (psm_provider_cryptde s)), s) (\<lambda>_ s.
            and_then_s
              (let (r, db) = save_provider_settlement_authorization (pe_dao_env env) (psm_dao s) authorization in
               (map_err PsmDao r, s\<lparr>psm_dao := db\<rparr>))
              (\<lambda>_ s. settlement_status env now (s\<lparr>psm_pending_opt := None, psm_active_opt := Some authorization\<rparr>))))))"

definition settlement_stop :: "provider_env \<Rightarrow> provider_settlement_manager \<Rightarrow> provider_settlement_status settlement_outcome" where
  "settlement_stop env s =
     and_then_s (clear_authorization s) (\<lambda>_ s.
       and_then_s (pending_claim_count env (s\<lparr>psm_pending_opt := None, psm_active_opt := None\<rparr>)) (\<lambda>count s.
         (Ok (settlement_status_inactive count), s)))"

definition settlement_export ::
    "provider_env \<Rightarrow> bytes32 option \<Rightarrow> nat \<Rightarrow> u64 \<Rightarrow> provider_settlement_manager \<Rightarrow>
     provider_settlement_batch_export settlement_outcome" where
  "settlement_export env start_after_opt max_claims now s =
     (if \<not> (1 \<le> max_claims \<and> max_claims \<le> max_provider_settlement_export_claims)
      then (Err (PsmExportLimit max_claims), s)
      else and_then_s (settlement_status env now s) (\<lambda>_ s.
        (case psm_active_opt s of
           None \<Rightarrow> Err PsmNoActiveAuthorization
         | Some authorization \<Rightarrow>
             and_then (map_err PsmDao (pending_settlement_claims (pe_dao_env env) (psm_dao s))) (\<lambda>total_pending_claims.
             and_then (map_err PsmDao (pending_settlement_claim_records_page (pe_dao_env env) (psm_dao s) start_after_opt max_claims))
               (\<lambda>selected_records.
             and_then
               (if selected_records = [] then Err PsmEmptyPage
                else map_err PsmSettlement (receipt_settlement_claim_id (pe_settlement_env env)
                       (pcr_receipt_payload (last selected_records)))) (\<lambda>next_cursor.
             and_then (map_err PsmSettlement (build_from_accepted (pe_settlement_env env)
                 (map (\<lambda>record. (settlement_claim_new (pcr_receipt_payload record) authorization, pcr_accepted_at_unix_s record))
                    selected_records)
                 (psc_chain_id (psm_config s)) (psc_settlement_contract (psm_config s)) now (psm_provider_cryptde s))) (\<lambda>batch.
             Ok \<lparr>pbe_batch = batch, pbe_total_pending_claims = length total_pending_claims,
                 pbe_start_after_claim_id_opt = start_after_opt, pbe_next_cursor = next_cursor\<rparr>)))), s)))"

definition reconciliation_page ::
    "bytes32 option \<Rightarrow> nat \<Rightarrow> u64 \<Rightarrow> provider_settlement_manager \<Rightarrow>
     (provider_settlement_reconciliation_page, provider_settlement_manager_error) res" where
  "reconciliation_page start_after_opt max_claims confirmation_depth s =
     (if \<not> (1 \<le> max_claims \<and> max_claims \<le> max_provider_settlement_export_claims)
      then Err (PsmExportLimit max_claims)
      else if \<not> (min_provider_settlement_confirmation_depth \<le> confirmation_depth
                 \<and> confirmation_depth \<le> max_provider_settlement_confirmation_depth)
      then Err (PsmConfirmationDepth confirmation_depth)
      else and_then (map_err PsmDao (settlement_reconciliation_candidates_page (psm_dao s) start_after_opt max_claims)) (\<lambda>candidates.
        if candidates = [] then Err PsmEmptyPage
        else Ok \<lparr>prp_settlement_contract = psc_settlement_contract (psm_config s), prp_candidates = candidates,
                 prp_start_after_claim_id_opt = start_after_opt, prp_next_cursor = cand_claim_id (last candidates)\<rparr>))"

definition settlement_reconcile ::
    "provider_env \<Rightarrow> settlement_chain_observation \<Rightarrow> provider_settlement_manager \<Rightarrow>
     settlement_reconciliation_outcome settlement_outcome" where
  "settlement_reconcile env observation s =
     (if obs_chain_id observation \<noteq> psc_chain_id (psm_config s)
         \<or> obs_settlement_contract observation \<noteq> psc_settlement_contract (psm_config s)
      then (Err (PsmDao DaoSettlementObservationIdentityMismatch), s)
      else let (r, db) = reconcile_settlement_claims (pe_dao_env env) (psm_dao s) observation in
        (map_err PsmDao r, s\<lparr>psm_dao := db\<rparr>))"

section \<open>Properties of the settlement manager\<close>

subsection \<open>Exported batches\<close>

lemma built_batch_content:
  assumes "build_from_accepted env cs chain k now cd = Ok b"
  shows "mset (rsb_claims b) = mset (map fst cs)"
    and "unat (rsb_total_claimed_wei b) = (\<Sum>c\<leftarrow>map fst cs. claim_charge c)"
proof -
  obtain vs where vs: "cs = map accepted_claim vs" "all_verified env chain k now cd vs" "from_verified env vs chain k = Ok b"
    using assms by (auto simp: build_from_accepted_eq_Ok)
  note b = from_verified_Ok [OF vs(3)]
  let ?s = "sort_key leaf_key vs"
  have "mset (rsb_claims b) = mset (map (\<lambda>(v, t). vrc_claim v) vs)"
    by (simp add: b(4))
  then show claims: "mset (rsb_claims b) = mset (map fst cs)"
    by (simp add: vs(1) case_prod_unfold comp_def flip: mset_map)
  have "unat (rsb_total_claimed_wei b) = charged ?s"
    using b(8) payout_totals_Ok [of ?s 0 "[]"] by auto
  moreover have "charged ?s = (\<Sum>c\<leftarrow>rsb_claims b. claim_charge c)"
    unfolding b(4) using all_verified_perm [of ?s vs] vs(2) by (intro all_verified_charges(1)) simp
  moreover have "(\<Sum>c\<leftarrow>rsb_claims b. claim_charge c) = (\<Sum>c\<leftarrow>map fst cs. claim_charge c)"
    unfolding sum_mset_sum_list [symmetric] mset_map claims ..
  ultimately show "unat (rsb_total_claimed_wei b) = (\<Sum>c\<leftarrow>map fst cs. claim_charge c)" by simp
qed

lemma clear_authorization_eq: "clear_authorization s = (Ok (), s\<lparr>psm_dao := (psm_dao s)\<lparr>db_provider_settlement := None\<rparr>\<rparr>)"
  by (simp add: clear_authorization_def clear_provider_settlement_authorization_def)

lemma pending_claim_count_state: "snd (and_then_s (pending_claim_count env s) (\<lambda>count s. (f count s, s))) = s"
  by (simp add: pending_claim_count_def and_then_s_cases split: res.split)

lemma settlement_status_state:
  "snd (settlement_status env now s) =
     (if case psm_active_opt s of None \<Rightarrow> False | Some a \<Rightarrow> now > psp_expires_at_unix_s (aps_policy a)
      then s\<lparr>psm_dao := (psm_dao s)\<lparr>db_provider_settlement := None\<rparr>, psm_active_opt := None\<rparr> else s)"
  unfolding settlement_status_def
  by (cases "psm_active_opt s") (simp_all add: clear_authorization_eq pending_claim_count_state)

lemma settlement_export_Ok:
  assumes "settlement_export env start n now s = (Ok x, s')"
  obtains a records where "psm_active_opt s = Some a" "now \<le> psp_expires_at_unix_s (aps_policy a)" "s' = s"
    "1 \<le> n" "n \<le> 128" "pending_settlement_claim_records_page (pe_dao_env env) (psm_dao s) start n = Ok records" "records \<noteq> []"
    "receipt_settlement_claim_id (pe_settlement_env env) (pcr_receipt_payload (last records)) = Ok (pbe_next_cursor x)"
    "build_from_accepted (pe_settlement_env env)
       (map (\<lambda>record. (settlement_claim_new (pcr_receipt_payload record) a, pcr_accepted_at_unix_s record)) records)
       (psc_chain_id (psm_config s)) (psc_settlement_contract (psm_config s)) now (psm_provider_cryptde s) = Ok (pbe_batch x)"
proof -
  obtain st s1 where st: "settlement_status env now s = (Ok st, s1)"
    using assms by (auto simp: settlement_export_def and_then_s_def split: if_splits prod.splits res.splits)
  note s1 = settlement_status_state [of env now s, unfolded st snd_conv]
  have "psm_active_opt s1 \<noteq> None"
    using assms st by (auto simp: settlement_export_def split: if_splits option.splits)
  then obtain a where a: "psm_active_opt s = Some a" "now \<le> psp_expires_at_unix_s (aps_policy a)" "s1 = s"
    using s1 by (cases "psm_active_opt s") (auto simp: not_less split: if_splits)
  show thesis
    using assms st that [OF a(1,2)] a(1,3)
    by (auto simp: settlement_export_def res_simps max_provider_settlement_export_claims_def split: if_splits)
qed

text \<open>
  C13. An export is a page of pending claims, ready for the contract. When the export of up to \<open>n\<close>
  claims after a cursor succeeds, the manager has an unexpired payout authorization and its state does
  not change; the batch holds exactly the first \<open>n\<close> pending claims after the cursor in the order of the
  claim ids, each once and each under that authorization; its total is the sum of their charges; it
  passes the verification of exported batches; and the next cursor is the last claim of the page.
\<close>

theorem export_is_verified_page:
  assumes "dao_codecs (pe_dao_env env)" and "fresh_db db0" and "dao_run (pe_dao_env env) db0 log (psm_dao s)"
    and "claim_ids_distinct (pe_dao_env env) log" and "settlement_export env start n now s = (Ok x, s')"
  shows "s' = s \<and> n \<le> 128 \<and> (\<exists>a payloads ids. psm_active_opt s = Some a \<and> now \<le> psp_expires_at_unix_s (aps_policy a) \<and>
      map (receipt_settlement_claim_id (pe_settlement_env env)) payloads = map Ok ids \<and>
      map (be_bytes 32) ids = take n (filter (after_claim_id start) (sort (map cl_claim_id (db_outbox (psm_dao s))))) \<and>
      mset (rsb_claims (pbe_batch x)) = mset (map (\<lambda>p. settlement_claim_new p a) payloads) \<and>
      unat (rsb_total_claimed_wei (pbe_batch x)) = (\<Sum>p\<leftarrow>payloads. unat (payload_charge p)) \<and>
      verify_exported (pe_settlement_env env) (pbe_batch x) now (psm_provider_cryptde s) = Ok () \<and>
      ids \<noteq> [] \<and> pbe_next_cursor x = last ids)"
proof -
  from assms(5) obtain a records where e: "psm_active_opt s = Some a" "now \<le> psp_expires_at_unix_s (aps_policy a)" "s' = s"
    "1 \<le> n" "n \<le> 128" "pending_settlement_claim_records_page (pe_dao_env env) (psm_dao s) start n = Ok records" "records \<noteq> []"
    "receipt_settlement_claim_id (pe_settlement_env env) (pcr_receipt_payload (last records)) = Ok (pbe_next_cursor x)"
    "build_from_accepted (pe_settlement_env env)
       (map (\<lambda>record. (settlement_claim_new (pcr_receipt_payload record) a, pcr_accepted_at_unix_s record)) records)
       (psc_chain_id (psm_config s)) (psc_settlement_contract (psm_config s)) now (psm_provider_cryptde s) = Ok (pbe_batch x)"
    by (rule settlement_export_Ok)
  let ?db = "psm_dao s" and ?id = "receipt_settlement_claim_id (pe_settlement_env env)"
  have "claims_ok (pe_dao_env env) log ?db" using assms(1-4) by (intro dao_run_claims)
  from pending_page_ids [OF this _ e(6)] e(4) obtain ids where ids:
    "map ?id (map pcr_receipt_payload records) = map Ok ids"
    "map (be_bytes 32) ids = take (sql_limit n) (filter (after_claim_id start) (sort (map cl_claim_id (db_outbox ?db))))"
    by auto
  have "sql_limit n = n" using e(5) by (simp add: sql_limit_def)
  moreover have "ids \<noteq> []" using ids(1) e(7) by auto
  moreover have "pbe_next_cursor x = last ids"
    using arg_cong [OF ids(1), of last] e(7,8) \<open>ids \<noteq> []\<close> by (simp add: last_map)
  ultimately show ?thesis
    using e ids built_batch_content [OF e(9)] build_exports [OF e(9)]
    by (intro conjI exI [of _ a] exI [of _ "map pcr_receipt_payload records"] exI [of _ ids])
      (simp_all add: comp_def settlement_claim_new_def payload_charge_def)
qed

subsection \<open>Restarts\<close>

text \<open>
  The manager's calls, interleaved with the calls of the hopper on the same database, which do not
  touch the provider's authorization.
\<close>

inductive settlement_step :: "provider_env \<Rightarrow> provider_settlement_manager \<Rightarrow> provider_settlement_manager \<Rightarrow> bool" for env where
  proposed: "settlement_propose env duration now nonce s = (r, s') \<Longrightarrow> settlement_step env s s'"
| activated: "settlement_activate env i sig now s = (r, s') \<Longrightarrow> settlement_step env s s'"
| asked: "settlement_status env now s = (r, s') \<Longrightarrow> settlement_step env s s'"
| stopped: "settlement_stop env s = (r, s') \<Longrightarrow> settlement_step env s s'"
| exported: "settlement_export env start n now s = (r, s') \<Longrightarrow> settlement_step env s s'"
| reconciled: "settlement_reconcile env obs s = (r, s') \<Longrightarrow> settlement_step env s s'"
| receipt: "accept_verified_receipt (pe_dao_env env) (psm_dao s) p c t = (r, db) \<Longrightarrow> settlement_step env s (s\<lparr>psm_dao := db\<rparr>)"
| offer: "save_routing_offer_state (pe_dao_env env) (psm_dao s) st now m = (r, db) \<Longrightarrow> settlement_step env s (s\<lparr>psm_dao := db\<rparr>)"

inductive settlement_reachable :: "provider_env \<Rightarrow> provider_settlement_manager \<Rightarrow> bool" for env where
  start: "settlement_manager_new env config cd db now = (Ok s, db') \<Longrightarrow> settlement_reachable env s"
| step: "settlement_reachable env s \<Longrightarrow> settlement_step env s s' \<Longrightarrow> settlement_reachable env s'"

definition policy_ours :: "provider_settlement_manager \<Rightarrow> provider_settlement_policy \<Rightarrow> bool" where
  "policy_ours s p \<longleftrightarrow> matches_config (psm_config s) (cde_public_key (psm_provider_cryptde s)) p"

definition once_verified :: "provider_env \<Rightarrow> provider_settlement_manager \<Rightarrow> authorized_provider_settlement \<Rightarrow> bool" where
  "once_verified env s a \<longleftrightarrow> policy_ours s (aps_policy a) \<and>
     (\<exists>t w. settlement_verify (pe_receipt_env env) a (psc_chain_id (psm_config s)) (psc_settlement_contract (psm_config s))
        (cde_public_key (psm_provider_cryptde s)) t (psm_provider_cryptde s) = Ok w)"

definition settlement_ok :: "provider_env \<Rightarrow> provider_settlement_manager \<Rightarrow> bool" where
  "settlement_ok env s \<longleftrightarrow>
     provider_settlement_authorization (pe_dao_env env) (psm_dao s) = Ok (psm_active_opt s) \<and>
     (case psm_active_opt s of None \<Rightarrow> True | Some a \<Rightarrow> once_verified env s a) \<and>
     (case psm_pending_opt s of None \<Rightarrow> True | Some p \<Rightarrow> policy_ours s (pps_policy p))"

lemma stored_authorization_cong:
  "db_provider_settlement db' = db_provider_settlement db \<Longrightarrow>
     provider_settlement_authorization env db' = provider_settlement_authorization env db"
  by (simp add: provider_settlement_authorization_def)

lemma provider_authorization_cleared:
  "provider_settlement_authorization env (db\<lparr>db_provider_settlement := None\<rparr>) = Ok None"
  by (simp add: provider_settlement_authorization_def)

lemma provider_authorization_saved:
  assumes "dao_codecs env" "save_provider_settlement_authorization env db a = (r, db')"
  shows "db' = db \<and> (\<forall>u. r \<noteq> Ok u) \<or> provider_settlement_authorization env db' = Ok (Some a) \<and> r = Ok ()"
proof (cases "de_to_vec_provider_settlement env a")
  case (Ok bs)
  then have "de_from_slice_provider_settlement env bs = Ok a" using assms(1) by (simp add: dao_codecs_def)
  then show ?thesis
    using assms(2) Ok
    by (auto simp: save_provider_settlement_authorization_def provider_settlement_authorization_def run_transaction_def)
qed (use assms(2) in \<open>auto simp: save_provider_settlement_authorization_def run_transaction_def\<close>)

lemma settlement_ok_dao:
  assumes "settlement_ok env s" "db_provider_settlement db = db_provider_settlement (psm_dao s)"
  shows "settlement_ok env (s\<lparr>psm_dao := db\<rparr>)"
  using assms stored_authorization_cong [OF assms(2), of "pe_dao_env env"]
  by (simp add: settlement_ok_def once_verified_def policy_ours_def cong: option.case_cong)

lemma settlement_ok_status:
  assumes "settlement_ok env s"
  shows "settlement_ok env (snd (settlement_status env now s))"
  using assms unfolding settlement_status_state
  by (auto simp: settlement_ok_def once_verified_def policy_ours_def provider_authorization_cleared split: option.splits)

lemma settlement_ok_new:
  assumes "settlement_manager_new env config cd db now = (Ok s, db')"
  shows "settlement_ok env s"
  using assms
  by (auto simp: settlement_manager_new_def Let_def settlement_ok_def once_verified_def policy_ours_def res_simps
      clear_provider_settlement_authorization_def provider_authorization_cleared intro!: exI
      split: res.splits option.splits if_splits)

lemma accept_keeps_provider:
  assumes "accept_verified_receipt env db p c t = (r, db')"
  shows "db_provider_settlement db' = db_provider_settlement db"
proof (cases "\<exists>d. r = Ok d")
  case True
  then obtain d where "accept_verified_receipt env db p c t = (Ok d, db')" using assms by blast
  then show ?thesis by (rule accept_OkE) (blast dest: accept_tables(10))
next
  case False
  then have "db' = db" using assms run_transaction_not_Ok unfolding accept_verified_receipt_def Let_def by blast
  then show ?thesis by simp
qed

lemma settlement_ok_activate:
  assumes codecs: "dao_codecs (pe_dao_env env)" and ok: "settlement_ok env s"
    and act: "settlement_activate env i sig now s = (r, s')"
  shows "settlement_ok env s'"
proof (cases "psm_pending_opt s")
  case None
  then show ?thesis using act ok by (simp add: settlement_activate_def)
next
  case (Some p)
  have kept: "settlement_ok env (s\<lparr>psm_pending_opt := None\<rparr>)"
    using ok by (simp add: settlement_ok_def once_verified_def policy_ours_def cong: option.case_cong)
  let ?env = "pe_receipt_env env" and ?cd = "psm_provider_cryptde s"
  let ?verify = "\<lambda>a. settlement_verify ?env a (psc_chain_id (psm_config s)) (psc_settlement_contract (psm_config s))
        (cde_public_key ?cd) now ?cd"
  show ?thesis
  proof (cases "pps_proposal_id p = i \<and> \<not> now > psp_expires_at_unix_s (pps_policy p) \<and>
      (\<exists>w a x. provider_signature_from_hex env sig = Ok w \<and>
         authorize_with_wallet_signature ?env (pps_policy p) w ?cd = Ok a \<and> ?verify a = Ok x)")
    case False
    then have "s' = s \<or> s' = s\<lparr>psm_pending_opt := None\<rparr>"
      using act Some by (auto simp: settlement_activate_def and_then_s_cases map_err_eq_Ok split: if_splits res.splits)
    then show ?thesis using ok kept by auto
  next
    case True
    then obtain w a x where a: "provider_signature_from_hex env sig = Ok w"
        "authorize_with_wallet_signature ?env (pps_policy p) w ?cd = Ok a" "?verify a = Ok x" by blast
    obtain r1 db where save: "save_provider_settlement_authorization (pe_dao_env env) (psm_dao s) a = (r1, db)" by force
    have "aps_policy a = pps_policy p"
      using a(2) by (auto simp: authorize_with_wallet_signature_def res_simps split: if_splits)
    then have ours: "policy_ours s (aps_policy a)" using ok Some by (simp add: settlement_ok_def)
    from provider_authorization_saved [OF codecs save]
    consider "db = psm_dao s" "\<forall>u. r1 \<noteq> Ok u" | "provider_settlement_authorization (pe_dao_env env) db = Ok (Some a)" "r1 = Ok ()"
      by blast
    then show ?thesis
    proof cases
      case 1
      then have "s' = s"
        using act Some True a save by (cases r1) (auto simp: settlement_activate_def and_then_s_cases)
      with ok show ?thesis by simp
    next
      case 2
      let ?s = "s\<lparr>psm_dao := db, psm_pending_opt := None, psm_active_opt := Some a\<rparr>"
      have "settlement_ok env ?s"
        using ours 2(1) a(3) by (auto simp: settlement_ok_def once_verified_def policy_ours_def)
      moreover have "settlement_status env now ?s = (r, s')"
        using act Some True a save 2(2) by (simp add: settlement_activate_def)
      ultimately show ?thesis using settlement_ok_status [of env ?s now] by simp
    qed
  qed
qed

lemma settlement_ok_step:
  assumes codecs: "dao_codecs (pe_dao_env env)" and ok: "settlement_ok env s" and "settlement_step env s s'"
  shows "settlement_ok env s'"
  using assms(3)
proof cases
  case (proposed duration now nonce r)
  then have "s' = s \<or> (\<exists>x. s' = s\<lparr>psm_pending_opt := Some x\<rparr> \<and> policy_ours s (pps_policy x))"
    by (auto simp: settlement_propose_def Let_def and_then_s_cases policy_ours_def matches_config_def settlement_policy_new_def
        split: if_splits option.splits res.splits)
  then show ?thesis
    using ok by (auto simp: settlement_ok_def once_verified_def policy_ours_def cong: option.case_cong)
next
  case (activated i sig now r)
  then show ?thesis using settlement_ok_activate [OF codecs ok] by blast
next
  case (asked now r)
  then show ?thesis using settlement_ok_status [OF ok, of now] by simp
next
  case (stopped r)
  then have "s' = s\<lparr>psm_dao := (psm_dao s)\<lparr>db_provider_settlement := None\<rparr>, psm_pending_opt := None, psm_active_opt := None\<rparr>"
    using pending_claim_count_state [of env "s\<lparr>psm_dao := (psm_dao s)\<lparr>db_provider_settlement := None\<rparr>, psm_pending_opt := None,
      psm_active_opt := None\<rparr>" "\<lambda>count s. Ok (settlement_status_inactive count)"]
    by (simp add: settlement_stop_def clear_authorization_eq)
  then show ?thesis by (simp add: settlement_ok_def provider_authorization_cleared)
next
  case (exported start n now r)
  then have "s' = s \<or> s' = snd (settlement_status env now s)"
    by (cases "settlement_status env now s"; cases "fst (settlement_status env now s)")
      (auto simp: settlement_export_def and_then_s_def split: if_splits res.splits)
  then show ?thesis using ok settlement_ok_status [OF ok, of now] by auto
next
  case (reconciled obs r)
  have "db_provider_settlement db = db_provider_settlement (psm_dao s)"
    if "reconcile_settlement_claims (pe_dao_env env) (psm_dao s) obs = (r', db)" for r' db
    using that reconcile_claims_frame
    by (cases rule: reconcile_settlement_claims_cases) (auto simp: moves_claims_only_def)
  then show ?thesis
    using reconciled ok settlement_ok_dao [OF ok] by (auto simp: settlement_reconcile_def split: if_splits prod.splits)
next
  case (receipt p c t r db)
  then show ?thesis using settlement_ok_dao [OF ok] accept_keeps_provider by simp
next
  case (offer st now m r db)
  from save_routing_offer_state_frame [OF offer(2)] obtain x where "db = (psm_dao s)\<lparr>db_offers := x\<rparr>" by blast
  then show ?thesis using settlement_ok_dao [OF ok, of db] offer(1) by simp
qed

lemma settlement_reachable_ok:
  assumes "settlement_reachable env s" "dao_codecs (pe_dao_env env)"
  shows "settlement_ok env s"
  using assms by (induction rule: settlement_reachable.induct) (auto intro: settlement_ok_new settlement_ok_step)

text \<open>The clock says that the active authorization has not begun yet, as after it was set back.\<close>

definition begins_later :: "provider_settlement_manager \<Rightarrow> u64 \<Rightarrow> bool" where
  "begins_later s now \<longleftrightarrow>
     (case psm_active_opt s of
        None \<Rightarrow> False
      | Some a \<Rightarrow> now < psp_valid_from_unix_s (aps_policy a) \<and> now \<le> psp_expires_at_unix_s (aps_policy a))"

lemma settlement_verify_early:
  assumes "settlement_verify env a chain contract provider t v = Ok w" "now < psp_valid_from_unix_s (aps_policy a)"
  shows "settlement_verify env a chain contract provider now v = Err ProviderSettlementAuthorizationNotYetValid"
  using assms(1) [unfolded settlement_verify_eq_Ok Let_def] assms(2) by (simp add: settlement_verify_def)

text \<open>
  C14. A restart loses nothing, whatever the clock says. In every state the settlement manager can
  reach, restart the node on the stored database and with the same configuration. If the clock is
  before the window of the stored authorization, the restart is refused because the authorization is
  not yet valid, and the database stays as it is. Otherwise it gives a manager with the same payout
  authorization, unless that has expired, in which case it is removed; the restored authorization
  verifies, pays to the configured wallet, and the claims are untouched.
\<close>

theorem settlement_restart_resumes:
  assumes "dao_codecs (pe_dao_env env)" and "settlement_reachable env s"
  shows "if begins_later s now
    then settlement_manager_new env (psm_config s) (psm_provider_cryptde s) (psm_dao s) now =
      (Err (PsmVerification ProviderSettlementAuthorizationNotYetValid), psm_dao s)
    else \<exists>s1. settlement_manager_new env (psm_config s) (psm_provider_cryptde s) (psm_dao s) now = (Ok s1, psm_dao s1) \<and>
    psm_active_opt s1 =
      (case psm_active_opt s of
         Some a \<Rightarrow> if now > psp_expires_at_unix_s (aps_policy a) then None else Some a | None \<Rightarrow> None) \<and>
    provider_settlement_authorization (pe_dao_env env) (psm_dao s1) = Ok (psm_active_opt s1) \<and>
    (\<forall>a. psm_active_opt s1 = Some a \<longrightarrow>
       settlement_verify (pe_receipt_env env) a (psc_chain_id (psm_config s)) (psc_settlement_contract (psm_config s))
         (cde_public_key (psm_provider_cryptde s)) now (psm_provider_cryptde s) = Ok (psc_payout_wallet_address (psm_config s))) \<and>
    db_outbox (psm_dao s1) = db_outbox (psm_dao s) \<and> db_archive (psm_dao s1) = db_archive (psm_dao s)"
proof -
  have ok: "settlement_ok env s" using assms(2,1) by (rule settlement_reachable_ok)
  have stored: "provider_settlement_authorization (pe_dao_env env) (psm_dao s) = Ok (psm_active_opt s)"
    using ok by (simp add: settlement_ok_def)
  show ?thesis
  proof (cases "psm_active_opt s")
    case None
    then show ?thesis using stored by (simp add: settlement_manager_new_def begins_later_def)
  next
    case (Some a)
    then have ours: "matches_config (psm_config s) (cde_public_key (psm_provider_cryptde s)) (aps_policy a)"
      and ver: "\<exists>t w. settlement_verify (pe_receipt_env env) a (psc_chain_id (psm_config s)) (psc_settlement_contract (psm_config s))
        (cde_public_key (psm_provider_cryptde s)) t (psm_provider_cryptde s) = Ok w"
      using ok by (auto simp: settlement_ok_def once_verified_def policy_ours_def)
    show ?thesis
    proof (cases "now > psp_expires_at_unix_s (aps_policy a)")
      case True
      then show ?thesis using stored Some
        by (simp add: begins_later_def not_le settlement_manager_new_def clear_provider_settlement_authorization_def provider_authorization_cleared)
    next
      case False
      show ?thesis
      proof (cases "now < psp_valid_from_unix_s (aps_policy a)")
        case True
        then show ?thesis using stored Some False ours ver settlement_verify_early [OF _ True]
          by (auto simp: begins_later_def settlement_manager_new_def)
      next
        case began: False
        with False have "settlement_verify (pe_receipt_env env) a (psc_chain_id (psm_config s)) (psc_settlement_contract (psm_config s))
          (cde_public_key (psm_provider_cryptde s)) now (psm_provider_cryptde s) = Ok (psc_payout_wallet_address (psm_config s))"
          using ver ours by (auto simp: settlement_verify_eq_Ok Let_def matches_config_def)
        then show ?thesis using stored Some False began ours by (simp add: begins_later_def settlement_manager_new_def)
      qed
    qed
  qed
qed

end
