(* ===== verification/Receipt_Examples.thy ===== *)
theory Receipt_Examples
  imports Receipt_Pages Table_Codec
begin

section \<open>A provider at work\<close>

text \<open>
  A concrete run of the receipt database, at which the theorems on the books, the claims and the
  pages are applied: a fresh database in which a receipt of 310 wei is accepted at time 150.
\<close>

definition demo_payload :: "bytes32 \<Rightarrow> service_receipt_payload" where
  "demo_payload e = rsc_receipt_payload (demo_claim e 5)"

definition demo_checkpoint :: "bytes32 \<Rightarrow> receipt_sequence_checkpoint" where
  "demo_checkpoint e = \<lparr>ck_route_epoch = e, ck_provider_public_key = [7], ck_accounting_commitment = 8,
     ck_payer_session_public_key = [8], ck_last_sequence = 4, ck_cumulative_charge_wei = 310\<rparr>"

definition demo_dao_env :: dao_env where
  "demo_dao_env = \<lparr>de_settlement_env = demo_settlement_env, de_debug_error = (\<lambda>e. ''''),
     de_to_vec_checkpoint = table_to_vec [demo_checkpoint 1, demo_checkpoint 2],
     de_from_slice_checkpoint = table_from_slice [demo_checkpoint 1, demo_checkpoint 2],
     de_to_vec_authorization = table_to_vec [srp_authorization (demo_payload 1)],
     de_from_slice_authorization = table_from_slice [srp_authorization (demo_payload 1)],
     de_to_vec_payload = table_to_vec [demo_payload 1, demo_payload 2],
     de_from_slice_payload = table_from_slice [demo_payload 1, demo_payload 2],
     de_to_vec_offer_state = table_to_vec [], de_from_slice_offer_state = table_from_slice [],
     de_to_vec_provider_settlement = table_to_vec [demo_settlement 5],
     de_from_slice_provider_settlement = table_from_slice [demo_settlement 5]\<rparr>"

definition empty_db :: receipt_db where
  "empty_db = \<lparr>db_checkpoints = [], db_authorizations = [], db_offers = [], db_outbox = [], db_archive = [],
     db_receivable = [], db_reconciliation = None, db_provider_settlement = None\<rparr>"

lemma demo_codecs: "dao_codecs demo_dao_env"
  by (simp add: dao_codecs_def demo_dao_env_def table_codec)

lemma empty_db_fresh: "fresh_db empty_db"
  by (simp add: fresh_db_def empty_db_def receivable_ok_def)

lemma demo_payload_simps [simp]:
  "srp_authorization (demo_payload e) = \<lparr>ars_policy = demo_policy [8], ars_wallet_signature = \<lparr>sig_v = 0, sig_r = 0xAB, sig_s = 1\<rparr>\<rparr>"
  "srp_acknowledged_receipt (demo_payload e) = demo_ack (demo_receipt last_byte e 4 310) [8]"
  by (simp_all add: demo_payload_def demo_claim_def settlement_claim_new_def)

lemma demo_commitment: "make_accounting_commitment (demo_env_with last_byte) e [8] = 8"
  by (simp add: make_accounting_commitment_def last_byte_def)

lemma demo_claim_id: "receipt_settlement_claim_id demo_settlement_env (demo_payload e) = Ok (ucast (ucast e :: u8))"
  by (simp add: receipt_settlement_claim_id_def demo_settlement_env_def last_byte_def Let_def)

lemma accept_OkI:
  assumes "validate_settlement_claim_for_checkpoint p c = Ok ()"
    and "rsp_payer_session_public_key (payload_policy p) = ck_payer_session_public_key c"
    and "make_accounting_commitment (se_receipt_env (de_settlement_env env)) (ck_route_epoch c) (ck_payer_session_public_key c) =
       ck_accounting_commitment c"
    and "de_to_vec_authorization env (srp_authorization p) = Ok aser"
    and "de_to_vec_checkpoint env c = Ok cser" "de_to_vec_payload env p = Ok pser"
    and "receipt_settlement_claim_id (de_settlement_env env) p = Ok cid"
    and "stored_claim env db (srp_authorization p) c = Ok ca"
    and "stored_authorization env db (srp_authorization p) = Ok (aa, spent)"
    and "charge_delta env db c = Ok (ka, d)" "checked_add spent d = Some ns"
    and "ns \<le> rsp_max_total_charge_wei (payload_policy p)"
    and "put_authorization (srp_authorization p) aser aa ns db = Ok db1"
    and "put_checkpoint c cser ka db1 = Ok db2"
    and "book_receivable (rsp_payer_wallet_address (payload_policy p)) d t db2 = Ok db3"
    and "put_claim cid (srp_authorization p) c pser ca t (delete_archived cid db3) = Ok db'"
  shows "accept_verified_receipt env db p c t = (Ok d, db')"
  using assms by (simp add: accept_verified_receipt_def Let_def run_transaction_def not_less)

definition demo_claim_row :: claim_row where
  "demo_claim_row = \<lparr>cl_claim_id = be_bytes 32 (1 :: bytes32), cl_authorization_nonce = be_bytes 32 (5 :: bytes32),
     cl_route_epoch = be_bytes 32 (1 :: bytes32), cl_provider_public_key = [7], cl_payer_session_public_key = [8],
     cl_cumulative_charge_wei = decimal 310, cl_receipt_payload_cbor = [0], cl_accepted_at_unix_s = decimal 150\<rparr>"

lemma demo_accepts: "\<exists>db. accept_verified_receipt demo_dao_env empty_db (demo_payload 1) (demo_checkpoint 1) 150 = (Ok 310, db) \<and>
    db_outbox db = [demo_claim_row] \<and> db_archive db = []"
proof -
  let ?a = "srp_authorization (demo_payload 1)" and ?c = "demo_checkpoint 1"
  let ?db1 = "empty_db\<lparr>db_authorizations := [authorization_row_of ?a (decimal (unat (310 :: u128))) [0]]\<rparr>"
  let ?db2 = "?db1\<lparr>db_checkpoints := [checkpoint_row_of ?c [0]]\<rparr>"
  let ?db3 = "?db2\<lparr>db_receivable := [\<lparr>rv_wallet_address = 0xAB, rv_balance_high_b = 0, rv_balance_low_b = 310,
       rv_last_received_timestamp = 150\<rparr>]\<rparr>"
  obtain db where pc: "put_claim 1 ?a ?c [0] False 150 (delete_archived 1 ?db3) = Ok db"
      and db: "db_outbox db = [demo_claim_row]" "db_archive db = []"
    by (simp add: put_claim_def to_unix_timestamp_def insert_unique_def delete_archived_def empty_db_def Let_def
        demo_claim_row_def demo_checkpoint_def demo_policy_def session_policy_new_def)
  have "validate_settlement_claim_for_checkpoint (demo_payload 1) ?c = Ok ()"
    by (simp add: validate_settlement_claim_for_checkpoint_def demo_checkpoint_def demo_commitment)
  moreover have "rsp_payer_session_public_key (payload_policy (demo_payload 1)) = ck_payer_session_public_key ?c"
    by (simp add: demo_checkpoint_def)
  moreover have "make_accounting_commitment (se_receipt_env (de_settlement_env demo_dao_env)) (ck_route_epoch ?c)
      (ck_payer_session_public_key ?c) = ck_accounting_commitment ?c"
    by (simp add: demo_checkpoint_def demo_dao_env_def demo_settlement_env_def demo_commitment)
  moreover have "de_to_vec_authorization demo_dao_env ?a = Ok [0]" "de_to_vec_checkpoint demo_dao_env ?c = Ok [0]"
    "de_to_vec_payload demo_dao_env (demo_payload 1) = Ok [0]"
    by (simp_all add: demo_dao_env_def table_to_vec_def)
  moreover have "receipt_settlement_claim_id (de_settlement_env demo_dao_env) (demo_payload 1) = Ok 1"
    by (simp add: demo_dao_env_def demo_claim_id)
  moreover have "stored_claim demo_dao_env empty_db ?a ?c = Ok False"
    "stored_authorization demo_dao_env empty_db ?a = Ok (False, 0)" "charge_delta demo_dao_env empty_db ?c = Ok (False, 310)"
    by (simp_all add: stored_claim_def find_claim_def stored_authorization_def find_authorization_def charge_delta_def
        find_checkpoint_def empty_db_def demo_checkpoint_def)
  moreover have "checked_add 0 310 = Some (310 :: u128)"
    by (simp add: checked_add_eq_Some)
  moreover have "(310 :: u128) \<le> rsp_max_total_charge_wei (payload_policy (demo_payload 1))"
    by (simp add: demo_policy_def session_policy_new_def)
  moreover have "put_authorization ?a [0] False 310 empty_db = Ok ?db1" "put_checkpoint ?c [0] False ?db1 = Ok ?db2"
    by (simp_all add: put_authorization_def put_checkpoint_def insert_unique_def empty_db_def)
  moreover have "book_receivable (rsp_payer_wallet_address (payload_policy (demo_payload 1))) 310 150 ?db2 = Ok ?db3"
    by (simp add: book_receivable_def find_receivable_def empty_db_def checked_add_i128_def max_db_balance_def deconstruct_eq
        to_unix_timestamp_def insert_unique_def demo_policy_def session_policy_new_def)
  moreover note pc
  ultimately have "accept_verified_receipt demo_dao_env empty_db (demo_payload 1) ?c 150 = (Ok 310, db)"
    by (rule accept_OkI)
  with db show ?thesis by (intro exI [of _ db] conjI)
qed

lemma demo_run:
  obtains db where "dao_run demo_dao_env empty_db [charge_of (demo_payload 1) (demo_checkpoint 1) 310] db"
    "map cl_claim_id (db_outbox db) = [be_bytes 32 (1 :: bytes32)]" "db_archive db = []" "db_outbox db = [demo_claim_row]"
proof -
  obtain db where db: "accept_verified_receipt demo_dao_env empty_db (demo_payload 1) (demo_checkpoint 1) 150 = (Ok 310, db)"
    "db_outbox db = [demo_claim_row]" "db_archive db = []"
    using demo_accepts by (elim exE conjE)
  moreover have "map cl_claim_id (db_outbox db) = [be_bytes 32 (1 :: bytes32)]" using db(2) by (simp add: demo_claim_row_def)
  ultimately show thesis using dao_run.accepted [OF dao_run.start db(1)] that by simp
qed

lemma demo_log_simps [simp]:
  "cg_nonce (charge_of (demo_payload e) c d) = 5" "cg_wallet (charge_of (demo_payload e) c d) = 0xAB"
  "cg_delta (charge_of p c d) = unat d" "cg_route (charge_of p c d) = ck_key c" "cg_payload (charge_of p c d) = p"
  by (simp_all add: charge_of_def cg_nonce_def cg_wallet_def demo_policy_def session_policy_new_def)

theorem provider_books_balance_witness:
  "\<exists>db r c. dao_run demo_dao_env empty_db [charge_of (demo_payload 1) (demo_checkpoint 1) 310] db \<and>
     balance db 0xAB = balance empty_db 0xAB + 310 \<and>
     find_checkpoint db (ck_key (demo_checkpoint 1)) = Some r \<and>
     deserialize_checkpoint demo_dao_env (cr_checkpoint_cbor r) = Ok c \<and> unat (ck_cumulative_charge_wei c) = 310"
proof (rule demo_run)
  let ?log = "[charge_of (demo_payload 1) (demo_checkpoint 1) 310]"
  fix db assume db: "dao_run demo_dao_env empty_db ?log db"
  note books = provider_books_balance [OF demo_codecs empty_db_fresh db]
  have sums: "logged (\<lambda>e. cg_wallet e = 0xAB) ?log = 310" "logged (\<lambda>e. cg_route e = ck_key (demo_checkpoint 1)) ?log = 310"
    by (simp_all add: logged_def)
  have "find_checkpoint db (ck_key (demo_checkpoint 1)) \<noteq> None" using books by simp
  then obtain r where r: "find_checkpoint db (ck_key (demo_checkpoint 1)) = Some r" by blast
  then obtain c where "deserialize_checkpoint demo_dao_env (cr_checkpoint_cbor r) = Ok c" "unat (ck_cumulative_charge_wei c) = 310"
    using books sums(2) by metis
  moreover have "balance db 0xAB = balance empty_db 0xAB + 310" using books sums(1) by (metis of_nat_numeral)
  ultimately show ?thesis using db r by (intro exI [of _ db] exI [of _ r] exI [of _ c] conjI)
qed

theorem claims_never_lost_witness:
  "\<exists>db row p. dao_run demo_dao_env empty_db [charge_of (demo_payload 1) (demo_checkpoint 1) 310] db \<and>
     row \<in> set (db_outbox db) \<and> deserialize_claim_row demo_dao_env row = Ok p \<and> unat (payload_charge p) = 310"
proof (rule demo_run)
  let ?log = "[charge_of (demo_payload 1) (demo_checkpoint 1) 310]"
  fix db assume db: "dao_run demo_dao_env empty_db ?log db" "db_archive db = []"
  have "claim_ids_distinct demo_dao_env ?log" by (simp add: claim_ids_distinct_def)
  note claims = claims_never_lost [OF demo_codecs empty_db_fresh db(1) this]
  have "logged (\<lambda>f. cg_route f = ck_key (demo_checkpoint 1)) ?log = 310" by (simp add: logged_def)
  then have "\<exists>row\<in>set (db_outbox db). \<exists>p. deserialize_claim_row demo_dao_env row = Ok p \<and> unat (payload_charge p) = 310"
    using claims db(2) by auto
  then obtain row p where "row \<in> set (db_outbox db)" "deserialize_claim_row demo_dao_env row = Ok p" "unat (payload_charge p) = 310"
    by (elim bexE exE conjE)
  with db(1) show ?thesis by (intro exI [of _ db] exI [of _ row] exI [of _ p] conjI)
qed

theorem pages_cover_claims_witness:
  "\<exists>db records. dao_run demo_dao_env empty_db [charge_of (demo_payload 1) (demo_checkpoint 1) 310] db \<and>
     fetch_pages (\<lambda>start. pending_settlement_claim_records_page demo_dao_env db start 1) (record_cursor demo_dao_env) 2 None = records \<and>
     records = pending_settlement_claim_records_page demo_dao_env db None (2 ^ 64 - 1)"
proof (rule demo_run)
  let ?log = "[charge_of (demo_payload 1) (demo_checkpoint 1) 310]"
  fix db assume db: "dao_run demo_dao_env empty_db ?log db" "map cl_claim_id (db_outbox db) = [be_bytes 32 (1 :: bytes32)]" "db_archive db = []"
  have ids: "claim_ids_distinct demo_dao_env ?log" by (simp add: claim_ids_distinct_def)
  have len: "length (db_outbox db) = 1" using arg_cong [OF db(2), of length] by simp
  then have "length (db_outbox db) + length (db_archive db) < 2 ^ 63" using db(3) by simp
  from pages_cover_claims [OF demo_codecs empty_db_fresh db(1) ids zero_less_one this] show ?thesis
    using db(1) len by (auto simp: numeral_2_eq_2)
qed

end
