(* ===== verification/Settlement_Examples.thy ===== *)
theory Settlement_Examples
  imports Provider_Settlement Receipt_Examples
begin

section \<open>A provider that settles\<close>

text \<open>
  The provider \<open>[7]\<close> with the database of the concrete run and a payout authorization for the wallet
  \<open>0x05\<close>, valid from time 1000 to 1060: one pending claim is exported, and a restart resumes.
\<close>

definition demo_provider_env :: provider_env where
  "demo_provider_env = \<lparr>pe_dao_env = demo_dao_env, pe_to_hex = (\<lambda>b. []), pe_from_hex = (\<lambda>s. Ok [])\<rparr>"

definition demo_settlement_config :: provider_settlement_config where
  "demo_settlement_config = \<lparr>psc_chain = \<lparr>literal_identifier = ''base-mainnet'', chain_contract = 0xE\<rparr>, psc_chain_id = 8453,
     psc_settlement_contract = 0xC0, psc_payout_wallet_address = 5\<rparr>"

definition demo_manager :: "receipt_db \<Rightarrow> provider_settlement_manager" where
  "demo_manager db = \<lparr>psm_config = demo_settlement_config, psm_provider_cryptde = demo_crypt_de [7], psm_dao = db,
     psm_pending_opt = None, psm_active_opt = Some (demo_settlement 5)\<rparr>"

lemma demo_env_simps [simp]:
  "pe_dao_env demo_provider_env = demo_dao_env" "de_settlement_env demo_dao_env = demo_settlement_env"
  "se_receipt_env demo_settlement_env = demo_env_with last_byte"
  by (simp_all add: demo_provider_env_def demo_dao_env_def demo_settlement_env_def)

lemma demo_config_simps [simp]:
  "psc_chain_id demo_settlement_config = 8453" "psc_settlement_contract demo_settlement_config = 0xC0"
  "psc_payout_wallet_address demo_settlement_config = 5" "cde_public_key (demo_crypt_de k) = k"
  by (simp_all add: demo_settlement_config_def null_crypt_de_def null_from_def null_set_key_pair_def)

lemma demo_manager_simps [simp]:
  "psm_config (demo_manager db) = demo_settlement_config" "psm_provider_cryptde (demo_manager db) = demo_crypt_de [7]"
  "psm_dao (demo_manager db) = db" "psm_active_opt (demo_manager db) = Some (demo_settlement 5)"
  by (simp_all add: demo_manager_def)

lemma demo_row_record: "claim_record demo_dao_env demo_claim_row = Ok \<lparr>pcr_receipt_payload = demo_payload 1, pcr_accepted_at_unix_s = 150\<rparr>"
proof -
  have "de_from_slice_payload demo_dao_env [0] = Ok (demo_payload 1)"
    by (simp add: demo_dao_env_def table_from_slice_def)
  moreover have "stored_u128 (decimal 310) = Ok 310" "stored_u64 (decimal 150) = Ok 150"
    using stored_u128_decimal [of 310] stored_u64_decimal [of 150] by simp_all
  ultimately show ?thesis
    by (simp add: claim_record_def deserialize_claim_row_def deserialize_settlement_claim_def demo_claim_row_def demo_claim_id
        demo_policy_def session_policy_new_def)
qed

lemma demo_page:
  assumes "db_outbox db = [demo_claim_row]" "0 < n"
  shows "pending_settlement_claim_records_page demo_dao_env db None n = Ok [\<lparr>pcr_receipt_payload = demo_payload 1, pcr_accepted_at_unix_s = 150\<rparr>]"
proof -
  have "take (sql_limit n) [demo_claim_row] = [demo_claim_row]"
    using assms(2) by (intro take_all) (simp add: sql_limit_def)
  then show ?thesis
    using assms by (simp add: pending_settlement_claim_records_page_def after_claim_id_def demo_row_record)
qed

lemma demo_batch:
  "\<exists>b. build_from_accepted demo_settlement_env [(settlement_claim_new (demo_payload 1) (demo_settlement 5), 150)] 8453 0xC0 1000
     (demo_crypt_de [7]) = Ok b"
proof -
  let ?vs = "[(demo_verified 1 5, 150)]"
  have "[(settlement_claim_new (demo_payload 1) (demo_settlement 5), 150)] = map accepted_claim ?vs"
    by (simp add: demo_payload_def demo_claim_def settlement_claim_new_def)
  moreover have "claim_verify_at demo_settlement_env (demo_claim 1 5) 8453 0xC0 150 1000 (demo_crypt_de [7]) = Ok (demo_verified 1 5)"
    by (rule demo_claim_verifies) simp_all
  then have "all_verified demo_settlement_env 8453 0xC0 1000 (demo_crypt_de [7]) ?vs"
    unfolding all_verified_def by simp
  moreover have "\<exists>b. from_verified demo_settlement_env ?vs 8453 0xC0 = Ok b"
    by (rule from_verified_succeeds) simp_all
  ultimately show ?thesis
    unfolding build_from_accepted_eq_Ok by (metis list.distinct(1))
qed

lemma demo_export:
  assumes "db_outbox db = [demo_claim_row]"
  shows "\<exists>x. settlement_export demo_provider_env None 10 1000 (demo_manager db) = (Ok x, demo_manager db)"
proof -
  have "pending_settlement_claims demo_dao_env db = Ok [demo_payload 1]"
    using demo_page [OF assms, of "2 ^ 64 - 1"]
    by (simp add: pending_settlement_claims_def pending_settlement_claims_page_def)
  moreover have "pending_settlement_claim_records_page demo_dao_env db None 10 =
      Ok [\<lparr>pcr_receipt_payload = demo_payload 1, pcr_accepted_at_unix_s = 150\<rparr>]"
    using demo_page [OF assms, of 10] by simp
  ultimately show ?thesis
    using demo_batch demo_claim_id [of 1]
    by (auto simp: settlement_export_def settlement_status_def pending_claim_count_def max_provider_settlement_export_claims_def
        demo_settlement_def)
qed

theorem export_is_verified_page_witness:
  "\<exists>db x. settlement_export demo_provider_env None 10 1000 (demo_manager db) = (Ok x, demo_manager db) \<and>
     length (rsb_claims (pbe_batch x)) = 1 \<and> verify_exported demo_settlement_env (pbe_batch x) 1000 (demo_crypt_de [7]) = Ok () \<and>
     pbe_next_cursor x = 1"
proof (rule demo_run)
  let ?log = "[charge_of (demo_payload 1) (demo_checkpoint 1) 310]"
  fix db assume db: "dao_run demo_dao_env empty_db ?log db" "map cl_claim_id (db_outbox db) = [be_bytes 32 (1 :: bytes32)]"
    "db_outbox db = [demo_claim_row]"
  from demo_export [OF db(3)] obtain x where
    x: "settlement_export demo_provider_env None 10 1000 (demo_manager db) = (Ok x, demo_manager db)" ..
  have "claim_ids_distinct demo_dao_env ?log" by (simp add: claim_ids_distinct_def)
  with export_is_verified_page [of demo_provider_env empty_db ?log "demo_manager db", OF _ empty_db_fresh _ _ x]
  obtain payloads ids where e: "map (receipt_settlement_claim_id demo_settlement_env) payloads = map Ok ids"
    "map (be_bytes 32) ids = take 10 (filter (after_claim_id None) (sort (map cl_claim_id (db_outbox db))))"
    "mset (rsb_claims (pbe_batch x)) = mset (map (\<lambda>p. settlement_claim_new p (demo_settlement 5)) payloads)"
    "verify_exported demo_settlement_env (pbe_batch x) 1000 (demo_crypt_de [7]) = Ok ()"
    "pbe_next_cursor x = last ids"
    using demo_codecs db(1) by auto
  have "map (be_bytes 32) ids = [be_bytes 32 (1 :: bytes32)]"
    unfolding e(2) db(2) by (simp add: after_claim_id_def)
  then obtain i where i: "ids = [i]" "be_bytes 32 i = be_bytes 32 (1 :: bytes32)" by auto
  then have "i = 1" by (simp add: be_bytes_inj)
  moreover have "length payloads = 1" using arg_cong [OF e(1), of length] i(1) by simp
  then have "length (rsb_claims (pbe_batch x)) = 1" using arg_cong [OF e(3), of size] by simp
  ultimately show ?thesis using x e(4,5) i(1) by (intro exI [of _ db] exI [of _ x]) simp
qed

definition demo_stored_db :: receipt_db where
  "demo_stored_db = empty_db\<lparr>db_provider_settlement := Some \<lparr>ps_expires_at_unix_s = decimal 1060, ps_authorization_cbor = [0]\<rparr>\<rparr>"

lemma demo_stored: "provider_settlement_authorization demo_dao_env demo_stored_db = Ok (Some (demo_settlement 5))"
proof -
  have "de_from_slice_provider_settlement demo_dao_env [0] = Ok (demo_settlement 5)"
    by (simp add: demo_dao_env_def table_from_slice_def)
  then show ?thesis
    using stored_u64_decimal [of 1060]
    by (simp add: provider_settlement_authorization_def demo_stored_db_def demo_settlement_def)
qed

lemma demo_manager_reachable: "settlement_reachable demo_provider_env (demo_manager demo_stored_db)"
proof -
  let ?db = demo_stored_db and ?env = "demo_env_with last_byte"
  obtain sg where "authorize_with_wallet_signature ?env (demo_settlement_policy 5) sg (demo_crypt_de [7]) = Ok (demo_settlement 5)"
    using demo_settlement_authorized [of 5 last_byte] by (auto simp: settlement_authorize_def res_simps split: if_splits)
  then have "settlement_verify ?env (demo_settlement 5) 8453 0xC0 [7] 1000 (demo_crypt_de [7]) = Ok 5"
    using null.settlement_verify_authorized [of "\<lambda>b. [9]" "\<lambda>b. []" "demo_crypt_de [7]" "demo_crypt_de [7]" ?env
        "demo_settlement_policy 5" sg "demo_settlement 5" 1000]
    by simp
  then have "settlement_manager_new demo_provider_env demo_settlement_config (demo_crypt_de [7]) ?db 1000 = (Ok (demo_manager ?db), ?db)"
    by (simp add: settlement_manager_new_def demo_stored matches_config_def demo_settlement_def demo_manager_def)
  then show ?thesis by (rule settlement_reachable.start)
qed

theorem settlement_restart_resumes_witness:
  "\<exists>db s. settlement_reachable demo_provider_env (demo_manager db) \<and>
     settlement_manager_new demo_provider_env demo_settlement_config (demo_crypt_de [7]) db 1060 = (Ok s, psm_dao s) \<and>
     psm_active_opt s = Some (demo_settlement 5) \<and>
     settlement_manager_new demo_provider_env demo_settlement_config (demo_crypt_de [7]) db 10 =
       (Err (PsmVerification ProviderSettlementAuthorizationNotYetValid), db)"
proof -
  have "dao_codecs (pe_dao_env demo_provider_env)" using demo_codecs by simp
  note r = settlement_restart_resumes [OF this demo_manager_reachable, of 1060] settlement_restart_resumes [OF this demo_manager_reachable, of 10]
  have "aps_policy (demo_settlement 5) = demo_settlement_policy 5" by (simp add: demo_settlement_def)
  then show ?thesis using r demo_manager_reachable by (auto simp: begins_later_def)
qed

end
