(* ===== verification/Hopper_Examples.thy ===== *)
theory Hopper_Examples
  imports Routing_Offers Delivery Settlement_Examples
begin

section \<open>A small network\<close>

text \<open>
  Three nodes \<open>[1]\<close>, \<open>[2]\<close> and \<open>[3]\<close> with the payer of the examples, a prefix code for packages and
  table codecs for hops and messages: a request travels from the first to the third and a response
  travels back, and the second makes a routing receipt offer.
\<close>

subsection \<open>A code for packages\<close>

text \<open>Each byte of a string is marked with a one and its end with a zero; so are the strings of a list.\<close>

fun put_bytes :: "bytes \<Rightarrow> bytes" where
  "put_bytes [] = [0]"
| "put_bytes (x # xs) = 1 # x # put_bytes xs"

fun take_bytes :: "bytes \<Rightarrow> (bytes \<times> bytes) option" where
  "take_bytes [] = None"
| "take_bytes (t # r) =
     (if t = 0 then Some ([], r)
      else case r of [] \<Rightarrow> None | x # r' \<Rightarrow> map_option (\<lambda>(xs, s). (x # xs, s)) (take_bytes r'))"

fun put_list :: "bytes list \<Rightarrow> bytes" where
  "put_list [] = [0]"
| "put_list (x # xs) = 1 # put_bytes x @ put_list xs"

lemma take_put_bytes: "take_bytes (put_bytes xs @ s) = Some (xs, s)"
  by (induction xs) simp_all

lemma take_bytes_length: "take_bytes r = Some (xs, s) \<Longrightarrow> length s < length r"
  by (induction r arbitrary: xs rule: take_bytes.induct) (auto split: if_splits list.splits, fastforce)

function take_list :: "bytes \<Rightarrow> (bytes list \<times> bytes) option" where
  "take_list [] = None"
| "take_list (t # r) =
     (if t = 0 then Some ([], r)
      else case take_bytes r of None \<Rightarrow> None | Some (x, r') \<Rightarrow> map_option (\<lambda>(xs, s). (x # xs, s)) (take_list r'))"
  by pat_completeness auto
termination by (relation "measure length") (auto dest: take_bytes_length)

lemma take_put_list: "take_list (put_list xs @ s) = Some (xs, s)"
  by (induction xs) (simp_all add: take_put_bytes)

definition put_package :: "live_cores_package \<Rightarrow> (bytes, string) res" where
  "put_package p =
     (case lcp_version p of PackedVersion x y z \<Rightarrow>
        Ok (x # y # z # put_list (route_hops (lcp_route p)) @ put_bytes (lcp_payload p) @ put_list (lcp_routing_receipt_offers p)))"

definition take_package :: "bytes \<Rightarrow> (live_cores_package, string) res" where
  "take_package b =
     (case take_list (drop 3 b) of None \<Rightarrow> Err ''route'' | Some (hops, b1) \<Rightarrow>
      case take_bytes b1 of None \<Rightarrow> Err ''payload'' | Some (payload, b2) \<Rightarrow>
      case take_list b2 of None \<Rightarrow> Err ''offers'' | Some (offers, _) \<Rightarrow>
        Ok \<lparr>lcp_version = PackedVersion (b ! 0) (b ! 1) (b ! 2), lcp_route = \<lparr>route_hops = hops\<rparr>,
            lcp_payload = payload, lcp_routing_receipt_offers = offers\<rparr>)"

lemma put_bytes_not_Nil [simp]: "put_bytes xs \<noteq> []"
  by (cases xs) simp_all

lemma package_codec: "\<exists>b. put_package p = Ok b \<and> b \<noteq> [] \<and> take_package b = Ok p"
proof -
  have "take_list (put_list (lcp_routing_receipt_offers p)) = Some (lcp_routing_receipt_offers p, [])"
    using take_put_list [of _ "[]"] by simp
  then show ?thesis
    by (cases "lcp_version p") (simp add: put_package_def take_package_def take_put_list take_put_bytes numeral_3_eq_3)
qed

subsection \<open>The nodes and their environment\<close>

definition demo_client_request :: client_request_payload where
  "demo_client_request = \<lparr>crq_stream_key = 1, crq_sequenced_packet = sequenced_packet_new [71, 69, 84] 0 False,
     crq_target_hostname = ''example.com'', crq_target_port = 80, crq_protocol = ProtocolHTTP, crq_originator_public_key = [11],
     crq_dns_attempt_id_opt = None, crq_receipt_session_request_opt = None\<rparr>"

definition demo_client_response :: client_response_payload where
  "demo_client_response = \<lparr>crs_stream_key = 1, crs_sequenced_packet = sequenced_packet_new [50, 48, 48] 0 True\<rparr>"

definition demo_vd :: versioned_data where
  "demo_vd = \<lparr>vd_version = DataVersion 0 1, vd_bytes = [0]\<rparr>"

definition demo_offer_request :: receipt_session_request where
  "demo_offer_request = \<lparr>rsr_authorization = srp_authorization (demo_payload 1), rsr_route_epoch = 1, rsr_accounting_commitment = 8\<rparr>"

text \<open>The first receipt of the provider \<open>[7]\<close> for that request and a hundred bytes, with its signature.\<close>

definition demo_offered :: signed_service_receipt where
  "demo_offered = \<lparr>ssr_receipt = service_receipt_new 1 1 Routing [7] 8 100 10 3, ssr_provider_signature = [7, 9]\<rparr>"

definition demo_payload_env :: payload_env where
  "demo_payload_env =
     \<lparr>pv_client_request = table_from_slice [demo_client_request], pv_client_request_step = Ok,
      pv_client_response = table_from_slice [demo_client_response], pv_client_response_step = Ok,
      pv_dns_resolve_failure = table_from_slice [], pv_dns_resolve_failure_step = Ok,
      pv_gossip = table_from_slice [], pv_gossip_step = Ok, pv_gossip_failure = table_from_slice [], pv_gossip_failure_step = Ok,
      pv_metered_client_response = table_from_slice [], pv_service_receipt = table_from_slice [demo_payload 1],
      pv_service_receipt_offer = table_from_slice [\<lparr>sop_signed_receipt = demo_offered\<rparr>]\<rparr>"

definition demo_offer_dao_env :: dao_env where
  "demo_offer_dao_env = demo_dao_env\<lparr>de_to_vec_offer_state := table_to_vec [offer_state_of demo_offer_request demo_offered],
     de_from_slice_offer_state := table_from_slice [offer_state_of demo_offer_request demo_offered]\<rparr>"

abbreviation demo_messages :: "message_type list" where
  "demo_messages \<equiv> [ClientRequest demo_vd, ClientResponse demo_vd, ServiceReceipt demo_vd]"

definition demo_routing_env :: routing_env where
  "demo_routing_env = \<lparr>he_receipt_env = demo_env_with last_byte, he_to_vec_hop = table_to_vec demo_hops,
     he_from_slice_hop = table_from_slice demo_hops, ce_to_vec_package = put_package, ce_from_slice_package = take_package,
     ce_to_vec_message = table_to_vec demo_messages, ce_from_slice_message = table_from_slice demo_messages, ce_debug = (\<lambda>e. ''''),
     re_dao_env = demo_offer_dao_env, re_payloads = demo_payload_env, re_to_vec_offer = table_to_vec [\<lparr>sop_signed_receipt = demo_offered\<rparr>]\<rparr>"

definition demo_net_crypt_de :: "public_key \<Rightarrow> crypt_de" where
  "demo_net_crypt_de k = null_crypt_de (\<lambda>b. [9]) (\<lambda>b. []) (null_from last_byte [1] k (be_bytes 20 (0xC0 :: address)))"

definition demo_node :: "u8 \<Rightarrow> net_node" where
  "demo_node k = (\<lparr>at_now = 150, at_ban_cache = {}, at_random = null_random\<rparr>,
     routing_service_new (demo_net_crypt_de [k]) (demo_net_crypt_de [k + 10]) True 10 3 True)"

lemma demo_routing_env_simps [simp]:
  "he_receipt_env demo_routing_env = demo_env_with last_byte" "he_to_vec_hop demo_routing_env = table_to_vec demo_hops"
  "re_payloads demo_routing_env = demo_payload_env" "re_dao_env demo_routing_env = demo_offer_dao_env"
  "ce_to_vec_message demo_routing_env = table_to_vec demo_messages"
  by (simp_all add: demo_routing_env_def)

lemma demo_node_simps [simp]:
  "rs_main (snd (demo_node k)) = demo_net_crypt_de [k]" "rs_alias (snd (demo_node k)) = demo_net_crypt_de [k + 10]"
  "at_ban_cache (fst (demo_node k)) = {}" "rs_proxy_client_running (snd (demo_node k))"
  by (simp_all add: demo_node_def routing_service_new_def)

lemma demo_net_crypt_de_simps [simp]:
  "cde_public_key (demo_net_crypt_de k) = k" "null_member (\<lambda>b. [9]) (\<lambda>b. []) (demo_net_crypt_de k)"
  by (simp_all add: demo_net_crypt_de_def)

lemma demo_cores_codecs: "cores_codecs demo_routing_env"
  using package_codec by (auto simp: cores_codecs_def hop_codec_def demo_routing_env_def table_codec)

lemma demo_keyed: "key \<noteq> [] \<Longrightarrow> keyed (null_member (\<lambda>b. [9]) (\<lambda>b. [])) key"
  unfolding keyed_def using demo_net_crypt_de_simps by blast

lemma demo_wallet_proves: "wallet_proves (demo_env_with last_byte) demo_payer_wallet 0xAB"
  by (simp add: wallet_proves_def demo_payer_wallet_def)

lemma demo_serves: "serves (demo_env_with last_byte) 0xC0 0xAB (demo_node k)"
  by (simp add: serves_def) (simp add: demo_net_crypt_de_def null_crypt_de_def null_from_def null_set_key_pair_def)

abbreviation demo_addr :: socket_addr where
  "demo_addr \<equiv> (IpV4 0x0A000001, 5000)"

lemma demo_net_route:
  obtains r where "round_trip_with_receipts demo_routing_env (route_segment_new [[1], [2], [3]] ProxyClient)
     (route_segment_new [[3], [2], [1]] ProxyServer) (demo_net_crypt_de [1]) (Some demo_payer_wallet) (Some 0xC0) None = Ok r"
  using demo_round_trip [of demo_routing_env "\<lambda>b. [9]" "\<lambda>b. []" last_byte "[1]" "be_bytes 20 (0xC0 :: address)"]
  unfolding demo_net_crypt_de_def by auto

lemma demo_incipient:
  assumes "msg \<in> set demo_messages" "key \<noteq> []"
  shows "\<exists>p. incipient_new demo_routing_env (demo_net_crypt_de k) r msg key = Ok p \<and> ic_route p = r"
proof -
  obtain bs where "table_to_vec demo_messages msg = Ok bs" "bs \<noteq> []" using assms(1) by (auto simp: table_to_vec_def)
  moreover obtain e where "cde_encode (demo_net_crypt_de k) key bs = Ok e"
    using null_seals_all [of "\<lambda>b. [9]" "\<lambda>b. []"] calculation(2) assms(2) demo_net_crypt_de_simps unfolding seals_all_def by metis
  ultimately show ?thesis by (simp add: incipient_new_def encodex_def)
qed

lemma decodes_current:
  assumes "from_slice [0] = Ok x"
  shows "try_from_future from_slice step demo_vd = Ok x"
  using assms by (simp add: try_from_future_def try_from_vd_def demo_vd_def client_request_payload_migrations_def add_step_def
      validate_step_def migrations_new_def future_version_def vd_extract_def effective_version_def decode_current_def dv_less_def Let_def)

lemma demo_decodes:
  "try_from_future (pv_client_request demo_payload_env) (pv_client_request_step demo_payload_env) demo_vd = Ok demo_client_request"
  "try_from_future (pv_client_response demo_payload_env) (pv_client_response_step demo_payload_env) demo_vd = Ok demo_client_response"
  by (rule decodes_current, simp add: demo_payload_env_def table_from_slice_def)+

subsection \<open>A request and its response\<close>

theorem request_and_response_delivered_witness:
  "\<exists>r icp package icp' package'. round_trip_with_receipts demo_routing_env (route_segment_new [[1], [2], [3]] ProxyClient)
       (route_segment_new [[3], [2], [1]] ProxyServer) (demo_net_crypt_de [1]) (Some demo_payer_wallet) (Some 0xC0) None = Ok r \<and>
     incipient_new demo_routing_env (demo_net_crypt_de [1]) r (ClientRequest demo_vd) [3] = Ok icp \<and>
     carried demo_routing_env 0xAB demo_addr (demo_node 1) icp [demo_node 2] (demo_node 3) (ToProxyClient package) \<and>
     ex_payload package = demo_client_request \<and>
     incipient_new demo_routing_env (demo_net_crypt_de [3]) (ex_remaining_route package) (ClientResponse demo_vd) [11] = Ok icp' \<and>
     carried demo_routing_env 0xAB demo_addr (demo_node 3) icp' [demo_node 2] (demo_node 1) (ToProxyServer package') \<and>
     ex_payload package' = demo_client_response"
proof -
  obtain r where r: "round_trip_with_receipts demo_routing_env (route_segment_new [[1], [2], [3]] ProxyClient)
     (route_segment_new [[3], [2], [1]] ProxyServer) (demo_net_crypt_de [1]) (Some demo_payer_wallet) (Some 0xC0) None = Ok r"
    by (rule demo_net_route)
  obtain icp where icp: "incipient_new demo_routing_env (demo_net_crypt_de [1]) r (ClientRequest demo_vd) [3] = Ok icp"
    using demo_incipient [of "ClientRequest demo_vd" "[3]"] by auto
  from request_and_response_delivered [OF sealed.seal_family_axioms [of "\<lambda>b. [9]" "\<lambda>b. []"] demo_cores_codecs null_seals_all,
      where w = demo_payer_wallet and a = "0xAB" and orig = "demo_node 1" and outs = "[demo_node 2]" and exit = "demo_node 3"
      and backs = "[demo_node 2]" and home = "demo_node 1" and kc = "0xC0" and r = r and icp = icp and vd = demo_vd
      and request = demo_client_request and addr = demo_addr]
  obtain package where p: "carried demo_routing_env 0xAB demo_addr (demo_node 1) icp [demo_node 2] (demo_node 3) (ToProxyClient package)"
    "ex_payload package = demo_client_request"
    "\<forall>at vd' response icp'.
       try_from_future (pv_client_response demo_payload_env) (pv_client_response_step demo_payload_env) vd' = Ok response \<longrightarrow>
       incipient_new demo_routing_env (demo_net_crypt_de [3]) (ex_remaining_route package) (ClientResponse vd') [11] = Ok icp' \<longrightarrow>
       (\<exists>package'. carried demo_routing_env 0xAB demo_addr (at, snd (demo_node 3)) icp' [demo_node 2] (demo_node 1) (ToProxyServer package') \<and>
         ex_payload package' = response \<and> ex_paying_wallet package' = Some (WalletAddress 0xAB))"
    using r icp demo_decodes(1) demo_wallet_proves demo_serves by auto
  obtain icp' where icp': "incipient_new demo_routing_env (demo_net_crypt_de [3]) (ex_remaining_route package) (ClientResponse demo_vd) [11] = Ok icp'"
    using demo_incipient [of "ClientResponse demo_vd" "[11]"] by auto
  from p(3) [rule_format, OF demo_decodes(2) this, of "fst (demo_node 3)"] show ?thesis
    using r icp p(1,2) icp' by auto
qed

subsection \<open>A relay\<close>

lemma demo_relay:
  obtains data n msg where
    "hopper_route demo_routing_env (fst (demo_node 2)) (arrival (fst (demo_node 2)) demo_addr data) (snd (demo_node 2)) =
      ([ToAccountant (report_of (WalletAddress 0xAB) n (demo_node 2)), ToDispatcher msg], Returned, snd (demo_node 2))"
    "td_endpoint msg = EndpointKey [3]"
proof -
  obtain e where e: "hop_encode demo_routing_env (demo_hop [3] Hopper) [2] (demo_net_crypt_de [1]) = Ok e"
    by (simp add: demo_hops_def demo_hop_def hop_encode_def encodex_def table_to_vec_def demo_net_crypt_de_def
        null_crypt_de_def encode_with_key_data_def)
  let ?p = "live_cores_package_new \<lparr>route_hops = [e]\<rparr> [5, 5, 5]"
  obtain data where data: "encodex (ce_to_vec_package demo_routing_env) (demo_net_crypt_de [1]) [2] ?p = Ok data"
    using sealed.package_sealed [OF demo_cores_codecs null_seals_all demo_net_crypt_de_simps(2) demo_keyed] by blast
  have "payer_for demo_routing_env (Some demo_payer_wallet) (Some 0xC0) (node_key (demo_node 2)) = (Ok (Some demo_payer) :: (payer option, codec_error) res)"
    by (simp add: payer_for_def demo_as_payer)
  note pays = payer_proves [OF this, where a = "0xAB"]
  have "\<exists>msg p' g. hopper_route demo_routing_env (fst (demo_node 2)) (arrival (fst (demo_node 2)) demo_addr data) (snd (demo_node 2)) =
      ([ToAccountant (report_of (payer_wallet demo_payer) (length (lcp_payload ?p)) (fst (demo_node 2), snd (demo_node 2))), ToDispatcher msg],
       Returned, snd (demo_node 2)) \<and>
    td_endpoint msg = EndpointKey (hop_public_key (demo_hop [3] Hopper)) \<and>
    encodex (ce_to_vec_package demo_routing_env) (rs_main (snd (demo_node 2))) (hop_public_key (demo_hop [3] Hopper)) p' = Ok (td_data msg) \<and>
    lcp_route p' = \<lparr>route_hops = [] @ [g]\<rparr> \<and> lcp_payload p' = lcp_payload ?p"
    by (rule seal_family.relay_step [OF sealed.seal_family_axioms [of "\<lambda>b. [9]" "\<lambda>b. []"] demo_cores_codecs null_seals_all,
          where v = "demo_net_crypt_de [1]" and u = "demo_net_crypt_de [1]" and e = e])
      (use data e pays demo_wallet_proves demo_serves in \<open>simp_all add: live_cores_package_new_def demo_hop_def demo_keyed address_payer_def demo_payer_def\<close>)
  moreover have "payer_wallet demo_payer = WalletAddress 0xAB" by (simp add: demo_payer_def)
  ultimately show thesis by (auto simp: demo_hop_def intro: that)
qed

theorem transit_needs_proven_payer_witness:
  "\<exists>data n msg p hop payer.
     hopper_route demo_routing_env (fst (demo_node 2)) (arrival (fst (demo_node 2)) demo_addr data) (snd (demo_node 2)) =
       ([ToAccountant (report_of (WalletAddress 0xAB) n (demo_node 2)), ToDispatcher msg], Returned, snd (demo_node 2)) \<and>
     decodex (ce_from_slice_package demo_routing_env) (demo_net_crypt_de [2]) data = Ok p \<and>
     next_hop demo_routing_env (lcp_route p) (demo_net_crypt_de [2]) = Ok hop \<and> hop_public_key hop = [3] \<and> hop_payer hop = Some payer \<and>
     owns_secret_key (demo_env_with last_byte) payer (cde_digest (demo_net_crypt_de [2])) = (Ok True :: (bool, unit) res)"
proof -
  obtain data n msg where r:
    "hopper_route demo_routing_env (fst (demo_node 2)) (arrival (fst (demo_node 2)) demo_addr data) (snd (demo_node 2)) =
      ([ToAccountant (report_of (WalletAddress 0xAB) n (demo_node 2)), ToDispatcher msg], Returned, snd (demo_node 2))"
    "td_endpoint msg = EndpointKey [3]"
    by (rule demo_relay)
  from transit_needs_proven_payer [OF this(1), of msg] obtain p hop payer where
    "decodex (ce_from_slice_package demo_routing_env) (demo_net_crypt_de [2]) data = Ok p"
    "next_hop demo_routing_env (lcp_route p) (demo_net_crypt_de [2]) = Ok hop" "hop_payer hop = Some payer"
    "owns_secret_key (demo_env_with last_byte) payer (cde_digest (demo_net_crypt_de [2])) = (Ok True :: (bool, unit) res)"
    "td_endpoint msg = EndpointKey (hop_public_key hop)"
    by (auto simp: arrival_def)
  with r show ?thesis by auto
qed

subsection \<open>A provider with receipts\<close>

definition demo_provider :: "receipt_db \<Rightarrow> routing_service" where
  "demo_provider db = enable_service_receipts db 8453 0xC0 (routing_service_new (demo_crypt_de [7]) (demo_crypt_de [17]) False 10 3 True)"

lemma demo_provider_simps [simp]:
  "rs_main (demo_provider db) = demo_crypt_de [7]" "rs_per_routing_service (demo_provider db) = 10" "rs_per_routing_byte (demo_provider db) = 3"
  "rs_receipt_context_opt (demo_provider db) = Some \<lparr>sc_dao = db, sc_chain_id = 8453, sc_settlement_contract = 0xC0\<rparr>"
  "with_dao db' \<lparr>sc_dao = db, sc_chain_id = 8453, sc_settlement_contract = 0xC0\<rparr> (demo_provider db) = demo_provider db'"
  by (simp_all add: demo_provider_def enable_service_receipts_def routing_service_new_def with_dao_def)

definition demo_settle_env :: routing_env where
  "demo_settle_env = demo_routing_env\<lparr>he_to_vec_hop := table_to_vec [demo_hop [7] Hopper], he_from_slice_hop := table_from_slice [demo_hop [7] Hopper],
     re_dao_env := demo_dao_env\<rparr>"

lemma demo_settle_env_simps [simp]:
  "he_receipt_env demo_settle_env = demo_env_with last_byte" "re_dao_env demo_settle_env = demo_dao_env"
  "he_to_vec_hop demo_settle_env = table_to_vec [demo_hop [7] Hopper]" "ce_to_vec_message demo_settle_env = table_to_vec demo_messages"
  by (simp_all add: demo_settle_env_def)

text \<open>Called directly, the provider takes the acknowledged receipt and puts its claim into the outbox.\<close>

lemma demo_provider_accepts:
  "\<exists>db. accept_service_receipt demo_settle_env 150 (demo_payload 1) (demo_provider empty_db) =
     ([], Returned, demo_provider db) \<and> db_outbox db = [demo_claim_row]"
proof -
  obtain n where v: "verify_for_receipt (demo_env_with last_byte) (srp_authorization (demo_payload 1))
      (demo_ack (demo_receipt last_byte 1 4 310) [8]) (demo_crypt_de [7]) 8453 0xC0 150 = Ok n"
    using demo_receipt_verifies [of 1 "[7]"] by auto
  have c: "settlement_checkpoint (demo_env_with last_byte) (demo_crypt_de [7]) (demo_ack (demo_receipt last_byte 1 4 310) [8]) None =
      Ok (demo_checkpoint 1)"
    by (simp add: settlement_checkpoint_def begin_for_settlement_def begin_with_contiguity_eq_Ok same_stream_def demo_checkpoint_def
        demo_commitment)
  have d: "dao_checkpoint demo_dao_env empty_db e k s = Ok None" for e k s
    by (simp add: dao_checkpoint_def find_checkpoint_def empty_db_def)
  obtain db where "accept_verified_receipt demo_dao_env empty_db (demo_payload 1) (demo_checkpoint 1) 150 = (Ok 310, db)"
    "db_outbox db = [demo_claim_row]" using demo_accepts by blast
  then show ?thesis
    using v c d by (intro exI [of _ db]) (simp add: accept_service_receipt_def unix_seconds_def or_log_def)
qed

text \<open>The same receipt in a package whose hop names the hopper of the provider has no such effect.\<close>

theorem packages_never_settle_witness:
  "\<exists>e payload data es st svc db. hop_encode demo_settle_env (demo_hop [7] Hopper) [7] (demo_crypt_de [8]) = Ok e \<and>
     encodex (ce_to_vec_message demo_settle_env) (demo_crypt_de [8]) [7] (ServiceReceipt demo_vd) = Ok payload \<and>
     encodex (ce_to_vec_package demo_settle_env) (demo_crypt_de [8]) [7] (live_cores_package_new \<lparr>route_hops = [e]\<rparr> payload) = Ok data \<and>
     hopper_route demo_settle_env (fst (demo_node 7)) (arrival (fst (demo_node 7)) demo_addr data) (demo_provider empty_db) = (es, st, svc) \<and>
     only_offers_change (demo_provider empty_db) svc \<and>
     accept_service_receipt demo_settle_env 150 (demo_payload 1) (demo_provider empty_db) = ([], Returned, demo_provider db) \<and>
     \<not> only_offers_change (demo_provider empty_db) (demo_provider db)"
proof -
  obtain e where e: "hop_encode demo_settle_env (demo_hop [7] Hopper) [7] (demo_crypt_de [8]) = Ok e"
    by (simp add: hop_encode_def encodex_def table_to_vec_def null_crypt_de_def encode_with_key_data_def)
  obtain payload where m: "encodex (ce_to_vec_message demo_settle_env) (demo_crypt_de [8]) [7] (ServiceReceipt demo_vd) = Ok payload"
    by (simp add: encodex_def table_to_vec_def null_crypt_de_def encode_with_key_data_def)
  have "cores_codecs demo_settle_env"
    using package_codec by (auto simp: cores_codecs_def hop_codec_def demo_settle_env_def demo_routing_env_def table_codec)
  then obtain data where p: "encodex (ce_to_vec_package demo_settle_env) (demo_crypt_de [8]) [7] (live_cores_package_new \<lparr>route_hops = [e]\<rparr> payload) = Ok data"
    using sealed.package_sealed [OF _ null_seals_all demo_crypt_de_member demo_keyed] by blast
  obtain es st svc where r: "hopper_route demo_settle_env (fst (demo_node 7)) (arrival (fst (demo_node 7)) demo_addr data) (demo_provider empty_db) = (es, st, svc)"
    by (metis prod.exhaust)
  obtain db where db: "accept_service_receipt demo_settle_env 150 (demo_payload 1) (demo_provider empty_db) = ([], Returned, demo_provider db)"
    "db_outbox db = [demo_claim_row]" using demo_provider_accepts by blast
  have "\<not> only_offers_change (demo_provider empty_db) (demo_provider db)"
  proof
    assume "only_offers_change (demo_provider empty_db) (demo_provider db)"
    then obtain offers where "demo_provider db = (demo_provider empty_db)\<lparr>rs_receipt_context_opt :=
        Some \<lparr>sc_dao = empty_db\<lparr>db_offers := offers\<rparr>, sc_chain_id = 8453, sc_settlement_contract = 0xC0\<rparr>\<rparr>"
      by (auto simp: only_offers_change_def offers_updated_def option_rel_Some1)
    from arg_cong [OF this, of rs_receipt_context_opt] db(2) show False by (simp add: empty_db_def)
  qed
  then show ?thesis using e m p r packages_never_settle [OF r] db(1) by blast
qed

subsection \<open>A receipt offered twice\<close>

definition demo_offer_row :: offer_row where
  "demo_offer_row = \<lparr>or_authorization_nonce = be_bytes 32 (5 :: bytes32), or_route_epoch = be_bytes 32 (1 :: bytes32),
     or_provider_public_key = [7], or_payer_session_public_key = [8], or_expires_at_unix_s = decimal 200, or_offer_state_cbor = [0]\<rparr>"

abbreviation demo_offer_db :: receipt_db where
  "demo_offer_db \<equiv> empty_db\<lparr>db_offers := [demo_offer_row]\<rparr>"

lemma demo_offer_request_simps [simp]:
  "rsr_authorization demo_offer_request = srp_authorization (demo_payload 1)" "rsr_route_epoch demo_offer_request = 1"
  "rsr_accounting_commitment demo_offer_request = 8" "rsp_authorization_nonce (demo_policy k) = 5" "rsp_expires_at_unix_s (demo_policy k) = 200"
  by (simp_all add: demo_offer_request_def demo_policy_def session_policy_new_def)

lemma demo_offered_simps [simp]:
  "sr_route_epoch (ssr_receipt demo_offered) = 1" "sr_sequence (ssr_receipt demo_offered) = 1" "sr_service_kind (ssr_receipt demo_offered) = Routing"
  "sr_provider_public_key (ssr_receipt demo_offered) = [7]" "sr_accounting_commitment (ssr_receipt demo_offered) = 8"
  "sr_service_rate (ssr_receipt demo_offered) = 10" "sr_byte_rate (ssr_receipt demo_offered) = 3" "ssr_provider_signature demo_offered = [7, 9]"
  by (simp_all add: demo_offered_def service_receipt_new_def new_with_service_units_def)

lemma demo_offered_charge: "receipt_charge (ssr_receipt demo_offered) = 310" "sr_cumulative_charge_wei (ssr_receipt demo_offered) = 310"
proof -
  show "receipt_charge (ssr_receipt demo_offered) = 310"
    by (simp add: demo_offered_def service_receipt_new_def new_with_service_units_def receipt_charge_def charge_nat_def)
  have "checked_charge_wei 10 1 3 100 = Ok 310" by (simp add: checked_charge_wei_eq_Ok charge_nat_def)
  then show "sr_cumulative_charge_wei (ssr_receipt demo_offered) = 310"
    by (simp add: demo_offered_def service_receipt_new_def new_with_service_units_def unwrap_or_def)
qed

lemma demo_offered_valid: "receipt_validate (ssr_receipt demo_offered) = Ok ()"
  using demo_offered_charge by (simp add: receipt_validate_eq_Ok)
    (simp add: demo_offered_def service_receipt_new_def new_with_service_units_def service_receipt_protocol_version_def)

lemma demo_session_ok:
  assumes "now = 150 \<or> now = 151" "charge \<le> 1000"
  shows "session_verify (demo_env_with last_byte) (srp_authorization (demo_payload 1)) 8453 0xC0 [8] now charge = Ok ()"
  using assms by (auto simp: session_verify_eq_Ok demo_policy_ok word_le_nat_alt) (simp_all add: demo_policy_def session_policy_new_def)

lemma demo_signs: "receipt_sign (demo_env_with last_byte) (ssr_receipt demo_offered) (demo_crypt_de [7]) = Ok demo_offered"
  using demo_offered_valid
  by (simp add: receipt_sign_eq_Ok receipt_signing_data_eq_Ok demo_env_with_def null_crypt_de_def null_sign_eq [OF null_key_pair_from])
    (simp add: demo_offered_def null_from_def null_set_key_pair_def)

lemma demo_offered_verifies: "\<exists>n. signed_verify (demo_env_with last_byte) demo_offered (demo_crypt_de [7]) = Ok n"
  using demo_offered_valid demo_offered_charge
  by (intro exI [of _ 310])
    (simp add: signed_verify_eq_Ok receipt_signing_data_eq_Ok demo_env_with_def signature_rejected_eq_Ok null_crypt_de_def
      null_verify_signature_iff)

abbreviation demo_context :: "receipt_db \<Rightarrow> service_receipt_settlement_context" where
  "demo_context db \<equiv> \<lparr>sc_dao = db, sc_chain_id = 8453, sc_settlement_contract = 0xC0\<rparr>"

lemma demo_prepares:
  assumes "routing_offer_state demo_offer_dao_env db 5 1 [7] [8] = Ok state_opt" "db_checkpoints db = []" "now = 150 \<or> now = 151"
    and "offered_receipt (demo_env_with last_byte) (demo_provider db) demo_offer_request (of_nat n) state_opt None = Ok (demo_offered, fresh)"
    and "n < 2 ^ 64"
  shows "\<exists>e. prepare_offer demo_routing_env now demo_offer_request n (demo_context db) (demo_provider db) = Ok (demo_offered, fresh, e)"
proof -
  have sealed: "\<exists>e. encodex (re_to_vec_offer demo_routing_env) (demo_crypt_de [7]) [8] \<lparr>sop_signed_receipt = demo_offered\<rparr> = Ok e"
    by (simp add: demo_routing_env_def encodex_def table_to_vec_def null_crypt_de_def encode_with_key_data_def)
  have "session_request_verify (demo_env_with last_byte) demo_offer_request 8453 0xC0 now = Ok ()"
    using demo_session_ok [OF assms(3), of 0] by (simp add: session_request_verify_def demo_commitment)
  moreover have "dao_checkpoint demo_offer_dao_env db e k t = Ok None" for e k t
    by (simp add: dao_checkpoint_def find_checkpoint_def assms(2))
  moreover have "session_verify (demo_env_with last_byte) (srp_authorization (demo_payload 1)) 8453 0xC0 [8] now 310 = Ok ()"
    by (rule demo_session_ok [OF assms(3)]) simp
  ultimately show ?thesis
    using sealed assms(1,4,5) by (auto simp: prepare_offer_def acknowledgement_matches_def demo_offered_charge)
qed

lemma demo_first: "\<exists>e. prepare_offer demo_routing_env 150 demo_offer_request 100 (demo_context empty_db) (demo_provider empty_db) = Ok (demo_offered, True, e)"
proof (rule demo_prepares)
  show "routing_offer_state demo_offer_dao_env empty_db 5 1 [7] [8] = Ok None" by (simp add: routing_offer_state_def empty_db_def)
  have "service_receipt_new 1 1 Routing [7] 8 100 10 3 = ssr_receipt demo_offered" by (simp add: demo_offered_def)
  then show "offered_receipt (demo_env_with last_byte) (demo_provider empty_db) demo_offer_request (of_nat 100) None None = Ok (demo_offered, True)"
    by (simp add: offered_receipt_def demo_signs)
qed (simp_all add: empty_db_def)

lemma demo_saves:
  "save_routing_offer_state demo_offer_dao_env empty_db (offer_state_of demo_offer_request demo_offered) 150 max_routing_receipt_session_states =
     (Ok (), demo_offer_db)"
proof -
  have "de_to_vec_offer_state demo_offer_dao_env (offer_state_of demo_offer_request demo_offered) = Ok [0]"
    by (simp add: demo_offer_dao_env_def table_to_vec_def)
  then show ?thesis
    by (simp add: save_routing_offer_state_def run_transaction_def offer_state_ok_def offer_state_of_def prune_offers_def empty_db_def
        max_routing_receipt_session_states_def insert_unique_def demo_offer_row_def)
qed

lemma demo_again: "\<exists>e. prepare_offer demo_routing_env 151 demo_offer_request 2000 (demo_context demo_offer_db) (demo_provider demo_offer_db) =
    Ok (demo_offered, False, e)"
proof (rule demo_prepares)
  have "de_from_slice_offer_state demo_offer_dao_env [0] = Ok (offer_state_of demo_offer_request demo_offered)"
    by (simp add: demo_offer_dao_env_def table_from_slice_def)
  moreover have "(parse_uint (decimal 200) :: u64 option) = Some 200" using parse_decimal [of "200 :: u64"] by simp
  ultimately show "routing_offer_state demo_offer_dao_env demo_offer_db 5 1 [7] [8] = Ok (Some (offer_state_of demo_offer_request demo_offered))"
    by (simp add: routing_offer_state_def deserialize_offer_row_def deserialize_routing_offer_state_def demo_offer_row_def offer_state_of_def or_key_def)
  show "offered_receipt (demo_env_with last_byte) (demo_provider demo_offer_db) demo_offer_request (of_nat 2000)
      (Some (offer_state_of demo_offer_request demo_offered)) None = Ok (demo_offered, False)"
    using demo_offered_verifies by (auto simp: offered_receipt_def offer_identity_kept_def offer_state_of_def)
qed (simp_all add: empty_db_def)

theorem routing_offers_never_fork_witness:
  "\<exists>svc. offer_run demo_routing_env (demo_provider empty_db) [(demo_offer_request, demo_offered), (demo_offer_request, demo_offered)] 151 svc \<and>
     chained [(demo_offer_request, demo_offered), (demo_offer_request, demo_offered)] demo_offer_request demo_offered \<and>
     offer_fits (demo_provider empty_db) demo_offer_request demo_offered"
proof -
  let ?q = demo_offer_request and ?env = demo_routing_env and ?svc = "demo_provider empty_db" and ?svc1 = "demo_provider demo_offer_db"
  obtain e where e: "prepare_offer ?env 150 ?q 100 (demo_context empty_db) ?svc = Ok (demo_offered, True, e)" using demo_first ..
  then have o1: "make_routing_receipt_offer ?env 150 ?q 100 ?svc = (Ok e, ?svc1)"
    by (simp add: make_routing_receipt_offer_def unix_seconds_def demo_saves)
  obtain e' where e': "prepare_offer ?env 151 ?q 2000 (demo_context demo_offer_db) ?svc1 = Ok (demo_offered, False, e')" using demo_again ..
  then have o2: "make_routing_receipt_offer ?env 151 ?q 2000 ?svc1 = (Ok e', ?svc1)"
    by (simp add: make_routing_receipt_offer_def unix_seconds_def)
  have "offer_run ?env ?svc ([] @ [(?q, demo_offered)]) 150 ?svc1"
    by (rule offer_run.offered [OF offer_run.start [of _ _ 150] _ _ o1 _ e [folded word_of_int_numeral]]) simp_all
  then have "offer_run ?env ?svc (([] @ [(?q, demo_offered)]) @ [(?q, demo_offered)]) 151 ?svc1"
    by (rule offer_run.offered [OF _ _ _ o2]) (use e' in simp_all)
  then have run: "offer_run ?env ?svc [(?q, demo_offered), (?q, demo_offered)] 151 ?svc1" by simp
  have "dao_codecs demo_offer_dao_env"
    using demo_codecs by (simp add: dao_codecs_def demo_offer_dao_env_def table_codec)
  then show ?thesis
    using routing_offers_never_fork [OF run, of "demo_context empty_db" ?q demo_offered ?q demo_offered] run
    by (intro exI [of _ ?svc1]) (simp add: empty_db_def same_route_def)
qed

end
