(* ===== verification/CryptDE_Real.thy ===== *)
theory CryptDE_Real
  imports CryptDE Versioned_Data
begin

section \<open>The encryption of production\<close>

text \<open>
  \<open>node/src/sub_lib/cryptde_real.rs\<close>: a key pair for encryption and one for signing, whose public
  halves together are the public key of a node. libsodium and Base64 are parameters, with the lengths
  of their keys; what the code relies on of them is \<open>sodium_ok\<close>. The random bytes that a call draws, for
  a sealed box or a nonce, are an argument. Slices out of range and \<open>copy_from_slice\<close> with
  different lengths panic.
\<close>

record sodium =
  sd_box_public_key_bytes :: nat
  sd_box_secret_key_bytes :: nat
  sd_sign_public_key_bytes :: nat
  sd_sign_secret_key_bytes :: nat
  sd_signature_bytes :: nat
  sd_seal_bytes :: nat
  sd_nonce_bytes :: nat
  sd_secretbox_key_bytes :: nat
  sd_box_public_key :: "bytes \<Rightarrow> bytes"
  sd_sign_public_key :: "bytes \<Rightarrow> bytes"
  sd_seal :: "bytes \<Rightarrow> bytes \<Rightarrow> bytes \<Rightarrow> bytes"
  sd_open :: "bytes \<Rightarrow> bytes \<Rightarrow> bytes \<Rightarrow> bytes option"
  sd_secretbox_seal :: "bytes \<Rightarrow> bytes \<Rightarrow> bytes \<Rightarrow> bytes"
  sd_secretbox_open :: "bytes \<Rightarrow> bytes \<Rightarrow> bytes \<Rightarrow> bytes option"
  sd_sign_detached :: "bytes \<Rightarrow> bytes \<Rightarrow> bytes"
  sd_verify_detached :: "bytes \<Rightarrow> bytes \<Rightarrow> bytes \<Rightarrow> bool"
  sd_hash :: "bytes \<Rightarrow> bytes"
  b64_encode :: "bytes \<Rightarrow> string"
  b64_decode :: "string \<Rightarrow> bytes option"

record crypt_de_real =
  real_public_key :: public_key
  encryption_secret_key :: bytes
  signing_secret_key :: bytes
  real_digest :: bytes32
  pre_shared_data :: bytes

subsection \<open>Keys\<close>

definition real_key_bytes :: "sodium \<Rightarrow> nat" where
  "real_key_bytes S = sd_box_public_key_bytes S + sd_sign_public_key_bytes S"

definition local_public_key_from :: "bytes \<Rightarrow> bytes \<Rightarrow> public_key" where
  "local_public_key_from encryption_public_key signing_public_key = encryption_public_key @ signing_public_key"

definition encryption_public_key_from :: "sodium \<Rightarrow> public_key \<Rightarrow> bytes option" where
  "encryption_public_key_from S key =
     (if length key < sd_box_public_key_bytes S then None else Some (take (sd_box_public_key_bytes S) key))"

definition signing_public_key_from :: "sodium \<Rightarrow> public_key \<Rightarrow> bytes option" where
  "signing_public_key_from S key =
     (if length key < sd_box_public_key_bytes S then None
      else if length (drop (sd_box_public_key_bytes S) key) \<noteq> sd_sign_public_key_bytes S then None
      else Some (drop (sd_box_public_key_bytes S) key))"


definition real_disabled :: "sodium \<Rightarrow> crypt_de_real" where
  "real_disabled S =
     \<lparr>real_public_key = replicate (real_key_bytes S) 0, encryption_secret_key = replicate (sd_box_secret_key_bytes S) 0,
      signing_secret_key = replicate (sd_sign_secret_key_bytes S) 0, real_digest = 0, pre_shared_data = replicate 20 0\<rparr>"

definition real_dup :: "crypt_de_real \<Rightarrow> crypt_de_real" where
  "real_dup c = \<lparr>real_public_key = real_public_key c, encryption_secret_key = encryption_secret_key c,
     signing_secret_key = signing_secret_key c, real_digest = real_digest c, pre_shared_data = pre_shared_data c\<rparr>"

subsection \<open>Encryption and signatures\<close>

definition invalid_length :: "string \<Rightarrow> bytes \<Rightarrow> nat \<Rightarrow> cryptdec_error" where
  "invalid_length kind key expected =
     InvalidKey (kind @ '' key has invalid length '' @ decimal (length key) @ ''; expected '' @ decimal expected)"

definition real_encode :: "sodium \<Rightarrow> bytes \<Rightarrow> public_key \<Rightarrow> plain_data \<Rightarrow> (crypt_data, cryptdec_error) res" where
  "real_encode S random key data =
     (if length key \<noteq> sd_box_public_key_bytes S + sd_sign_public_key_bytes S
      then Err (invalid_length ''public'' key (sd_box_public_key_bytes S + sd_sign_public_key_bytes S))
      else and_then (expect (encryption_public_key_from S key)) (\<lambda>remote_public_key.
        Ok (sd_seal S random data remote_public_key)))"

definition real_decode :: "sodium \<Rightarrow> crypt_de_real \<Rightarrow> crypt_data \<Rightarrow> (plain_data, cryptdec_error) res" where
  "real_decode S c data =
     (if length data < sd_seal_bytes S then Err EmptyData
      else and_then (expect (encryption_public_key_from S (real_public_key c))) (\<lambda>public_key.
        ok_or OpeningFailed (sd_open S data public_key (encryption_secret_key c))))"

definition real_encode_sym :: "sodium \<Rightarrow> bytes \<Rightarrow> symmetric_key \<Rightarrow> plain_data \<Rightarrow> (crypt_data, cryptdec_error) res" where
  "real_encode_sym S nonce key data =
     (if length key \<noteq> sd_secretbox_key_bytes S then Err (invalid_length ''symmetric'' key (sd_secretbox_key_bytes S))
      else Ok (nonce @ sd_secretbox_seal S data nonce key))"

definition real_decode_sym :: "sodium \<Rightarrow> symmetric_key \<Rightarrow> crypt_data \<Rightarrow> (plain_data, cryptdec_error) res" where
  "real_decode_sym S key data =
     (if length data \<le> sd_nonce_bytes S then Err EmptyData
      else if length key \<noteq> sd_secretbox_key_bytes S then Err (invalid_length ''symmetric'' key (sd_secretbox_key_bytes S))
      else ok_or OpeningFailed (sd_secretbox_open S (drop (sd_nonce_bytes S) data) (take (sd_nonce_bytes S) data) key))"

definition real_sign :: "sodium \<Rightarrow> crypt_de_real \<Rightarrow> plain_data \<Rightarrow> (crypt_data, cryptdec_error) res" where
  "real_sign S c data = Ok (sd_sign_detached S (data @ pre_shared_data c) (signing_secret_key c))"

definition real_verify_signature :: "sodium \<Rightarrow> crypt_de_real \<Rightarrow> plain_data \<Rightarrow> crypt_data \<Rightarrow> public_key \<Rightarrow> bool option" where
  "real_verify_signature S c data signature key =
     (if length signature \<noteq> sd_signature_bytes S then Some False
      else map_option (sd_verify_detached S signature (data @ pre_shared_data c)) (signing_public_key_from S key))"

definition real_crypt_de :: "sodium \<Rightarrow> bytes \<Rightarrow> crypt_de_real \<Rightarrow> crypt_de" where
  "real_crypt_de S random c =
     \<lparr>cde_encode = real_encode S random, cde_decode = real_decode S c,
      cde_encode_sym = real_encode_sym S random, cde_decode_sym = real_decode_sym S,
      cde_public_key = real_public_key c, cde_sign = real_sign S c,
      cde_verify_signature = real_verify_signature S c, cde_hash = sd_hash S, cde_digest = real_digest c\<rparr>"

subsection \<open>Texts\<close>






subsection \<open>What the code relies on\<close>

definition sodium_ok :: "sodium \<Rightarrow> bool" where
  "sodium_ok S \<longleftrightarrow>
     0 < sd_box_public_key_bytes S \<and> sd_box_public_key_bytes S + sd_sign_public_key_bytes S \<le> sd_signature_bytes S \<and>
     (\<forall>sk. length sk = sd_box_secret_key_bytes S \<longrightarrow> length (sd_box_public_key S sk) = sd_box_public_key_bytes S \<and>
        (\<forall>r m. length (sd_seal S r m (sd_box_public_key S sk)) = length m + sd_seal_bytes S \<and>
           sd_open S (sd_seal S r m (sd_box_public_key S sk)) (sd_box_public_key S sk) sk = Some m)) \<and>
     (\<forall>sk. length sk = sd_sign_secret_key_bytes S \<longrightarrow> length (sd_sign_public_key S sk) = sd_sign_public_key_bytes S \<and>
        (\<forall>m. length (sd_sign_detached S m sk) = sd_signature_bytes S \<and>
           sd_verify_detached S (sd_sign_detached S m sk) m (sd_sign_public_key S sk))) \<and>
     (\<forall>m n k. length n = sd_nonce_bytes S \<longrightarrow> length k = sd_secretbox_key_bytes S \<longrightarrow>
        sd_secretbox_seal S m n k \<noteq> [] \<and> sd_secretbox_open S (sd_secretbox_seal S m n k) n k = Some m) \<and>
     (\<forall>b. b64_decode S (b64_encode S b) = Some b \<and> CHR '','' \<notin> set (b64_encode S b))"

definition real_key_pair :: "sodium \<Rightarrow> bytes \<Rightarrow> crypt_de_real \<Rightarrow> bool" where
  "real_key_pair S contract c \<longleftrightarrow>
     real_public_key c = local_public_key_from (sd_box_public_key S (encryption_secret_key c)) (sd_sign_public_key S (signing_secret_key c)) \<and>
     length (encryption_secret_key c) = sd_box_secret_key_bytes S \<and> length (signing_secret_key c) = sd_sign_secret_key_bytes S \<and>
     pre_shared_data c = contract"

definition real_member :: "sodium \<Rightarrow> bytes \<Rightarrow> crypt_de \<Rightarrow> bool" where
  "real_member S contract x \<longleftrightarrow> sodium_ok S \<and> (\<exists>random c. real_key_pair S contract c \<and> x = real_crypt_de S random c)"

lemma sodium_box:
  assumes "sodium_ok S" "length sk = sd_box_secret_key_bytes S"
  shows "length (sd_box_public_key S sk) = sd_box_public_key_bytes S"
    and "length (sd_seal S r m (sd_box_public_key S sk)) = length m + sd_seal_bytes S"
    and "sd_open S (sd_seal S r m (sd_box_public_key S sk)) (sd_box_public_key S sk) sk = Some m"
  using assms unfolding sodium_ok_def by blast+

lemma sodium_sign:
  assumes "sodium_ok S" "length sk = sd_sign_secret_key_bytes S"
  shows "length (sd_sign_public_key S sk) = sd_sign_public_key_bytes S"
    and "length (sd_sign_detached S m sk) = sd_signature_bytes S"
    and "sd_verify_detached S (sd_sign_detached S m sk) m (sd_sign_public_key S sk)"
  using assms unfolding sodium_ok_def by blast+

lemma sodium_lengths:
  "sodium_ok S \<Longrightarrow> 0 < sd_box_public_key_bytes S"
  "sodium_ok S \<Longrightarrow> sd_box_public_key_bytes S + sd_sign_public_key_bytes S \<le> sd_signature_bytes S"
  unfolding sodium_ok_def by blast+

lemma real_key_pair_parts:
  assumes "sodium_ok S" "real_key_pair S contract c"
  shows "length (real_public_key c) = sd_box_public_key_bytes S + sd_sign_public_key_bytes S"
    and "encryption_public_key_from S (real_public_key c) = Some (sd_box_public_key S (encryption_secret_key c))"
    and "signing_public_key_from S (real_public_key c) = Some (sd_sign_public_key S (signing_secret_key c))"
    and "real_public_key c \<noteq> []"
proof -
  have k: "real_public_key c = sd_box_public_key S (encryption_secret_key c) @ sd_sign_public_key S (signing_secret_key c)"
    "length (encryption_secret_key c) = sd_box_secret_key_bytes S" "length (signing_secret_key c) = sd_sign_secret_key_bytes S"
    using assms(2) by (simp_all add: real_key_pair_def local_public_key_from_def)
  note n = sodium_box(1) [OF assms(1) k(2)] sodium_sign(1) [OF assms(1) k(3)]
  show "length (real_public_key c) = sd_box_public_key_bytes S + sd_sign_public_key_bytes S"
    and "encryption_public_key_from S (real_public_key c) = Some (sd_box_public_key S (encryption_secret_key c))"
    and "signing_public_key_from S (real_public_key c) = Some (sd_sign_public_key S (signing_secret_key c))"
    by (simp_all add: k(1) n encryption_public_key_from_def signing_public_key_from_def)
  then show "real_public_key c \<noteq> []" using sodium_lengths(1) [OF assms(1)] by auto
qed

lemma real_seal_open:
  assumes "sodium_ok S" "real_key_pair S contract c"
  shows "\<exists>e. real_encode S random (real_public_key c) d = Ok e \<and> real_decode S c e = Ok d"
proof -
  note parts = real_key_pair_parts [OF assms]
  have "length (encryption_secret_key c) = sd_box_secret_key_bytes S" using assms(2) by (simp add: real_key_pair_def)
  note box = sodium_box [OF assms(1) this]
  show ?thesis by (simp add: real_encode_def real_decode_def parts box)
qed

lemma real_sign_verify:
  assumes "sodium_ok S" "real_key_pair S contract c" "pre_shared_data v = contract"
  shows "\<exists>s. real_sign S c d = Ok s \<and> length s = sd_signature_bytes S \<and> real_verify_signature S v d s (real_public_key c) = Some True"
proof -
  have "length (signing_secret_key c) = sd_sign_secret_key_bytes S" "pre_shared_data c = contract"
    using assms(2) by (simp_all add: real_key_pair_def)
  with sodium_sign [OF assms(1) this(1)] show ?thesis
    using real_key_pair_parts(3) [OF assms(1,2)] assms(3) by (simp add: real_sign_def real_verify_signature_def)
qed

interpretation real: sig_family "real_member S contract" for S contract
proof
  fix c v d s assume c: "real_member S contract c" and v: "real_member S contract v" and s: "cde_sign c d = Ok s"
  from c v obtain r x r' y where ok: "sodium_ok S" and x: "real_key_pair S contract x" "c = real_crypt_de S r x"
    and y: "real_key_pair S contract y" "v = real_crypt_de S r' y" by (auto simp: real_member_def)
  have "pre_shared_data y = contract" using y(1) by (simp add: real_key_pair_def)
  from real_sign_verify [OF ok x(1) this, of d] show "cde_verify_signature v d s (cde_public_key c) = Some True"
    using s x(2) y(2) by (auto simp: real_crypt_de_def)
next
  fix c d s assume c: "real_member S contract c" and s: "cde_sign c d = Ok s"
  from c obtain r x where ok: "sodium_ok S" and x: "real_key_pair S contract x" "c = real_crypt_de S r x"
    by (auto simp: real_member_def)
  have "pre_shared_data x = contract" using x(1) by (simp add: real_key_pair_def)
  from real_sign_verify [OF ok x(1) this, of d] real_key_pair_parts(1) [OF ok x(1)] show "length (cde_public_key c) \<le> length s"
    using s x(2) sodium_lengths(2) [OF ok] by (auto simp: real_crypt_de_def)
qed

interpretation real_sealed: seal_family "real_member S contract" for S contract
proof
  fix c v d e assume c: "real_member S contract c" and v: "real_member S contract v" and e: "cde_encode v (cde_public_key c) d = Ok e"
  from c v obtain r x r' y where ok: "sodium_ok S" and x: "real_key_pair S contract x" "c = real_crypt_de S r x"
    and y: "real_key_pair S contract y" "v = real_crypt_de S r' y" by (auto simp: real_member_def)
  from real_seal_open [OF ok x(1), of r' d] show "cde_decode c e = Ok d"
    using e x(2) y(2) by (auto simp: real_crypt_de_def)
qed

lemma real_seals_all: "seals_all (real_member S contract)"
proof -
  have "\<exists>e. cde_encode v (cde_public_key c) d = Ok e" if "real_member S contract c" "real_member S contract v" for c v d
  proof -
    from that obtain r x r' y where "sodium_ok S" "real_key_pair S contract x" "c = real_crypt_de S r x" "v = real_crypt_de S r' y"
      by (auto simp: real_member_def)
    then show ?thesis using real_seal_open [of S contract x r' d] by (auto simp: real_crypt_de_def)
  qed
  then show ?thesis by (simp add: seals_all_def)
qed

lemma real_signs_all: "signs_all (real_member S contract)"
  by (auto simp: signs_all_def real_member_def real_crypt_de_def real_sign_def)

subsection \<open>A key pair and its texts\<close>










end
