(* ===== verification/Receipt_Panics.thy ===== *)
theory Receipt_Panics
  imports Receipt_Trust CryptDE_Real
begin

section \<open>Panics while a receipt is verified\<close>







end
