(* ===== verification/Spec2Isabelle.thy ===== *)
theory Spec2Isabelle
  imports Country_Finder Session_Outcomes Hopper_Examples Receipt_Panics
begin

text \<open>
  A verification library for the MASQ node under \<open>src/masq-node-mobile\<close>: the parts of the node that
  turn bytes from other nodes into decisions about routing and money. Each theory opens with the
  files it models.

  \<^bold>\<open>The parts and how they interact.\<close>
  A client asks its node for a route. The node wraps a chain of hops in layers of encryption
  (\<open>sub_lib/route.rs\<close>, \<open>sub_lib/hop.rs\<close>, \<open>sub_lib/cryptde.rs\<close>), each with a proof of payment
  (\<open>blockchain/payer.rs\<close>, \<open>sub_lib/wallet.rs\<close>). A message goes out on such a route as a package
  (\<open>sub_lib/hopper.rs\<close>, \<open>hopper/live_cores_package.rs\<close>, \<open>hopper/consuming_service.rs\<close>). Every node on the
  way opens its own layer and relays the package, for pay, or hands it to one of its components
  (\<open>hopper/routing_service.rs\<close>). Payloads travel as versioned data (\<open>sub_lib/versioned_data.rs\<close>) in numbered packets that the exit and the
  client put back in order (\<open>sub_lib/sequence_buffer.rs\<close>). Providers of routing and exit service sign
  receipts, the payer's session key acknowledges them within a budget its wallet has signed
  (\<open>sub_lib/service_receipt.rs\<close>, \<open>proxy_server/receipt_session.rs\<close>), the provider keeps accepted
  receipts in its database (\<open>accountant/db_access_objects/receipt_checkpoint_dao.rs\<close>) and settles them
  in batches (\<open>sub_lib/receipt_settlement.rs\<close>, \<open>hopper/provider_settlement.rs\<close>). The country of an exit node comes
  from a table in compressed form (crate \<open>ip_country\<close>).

  \<^bold>\<open>Common ground.\<close>
  \<open>Masq_Prelude\<close> has the result type \<open>Ok\<close>, \<open>Err\<close>, \<open>Panic\<close> with its sequencing, checked arithmetic on
  words, and big-endian bytes; machine integers are words of their width. \<open>Decimal\<close> has the decimal
  texts of unsigned integers. Third-party code (hash functions, elliptic curves, CBOR, random bytes,
  clocks, the file system) is a field of an environment record; what a theorem needs of it is a
  premise of the theorem, and a witness shows that the premises can hold.

  \<^bold>\<open>Countries.\<close>
  \<open>Bit_Queue\<close> (\<open>bit_queue.rs\<close>) refines a list of bits, through the interface \<open>bit_fifo\<close>.
  \<open>Country_Blocks\<close> has addresses, ranges and the country list, \<open>Country_Serde\<close> the compressing
  serializer and the deserializer for both address families, through the interface \<open>ip_segments\<close>,
  with their round trip, and \<open>Country_Finder\<close> the binary search: blocks of a table of countries that went
  through the bytes are found by every address in them, and no others.

  \<^bold>\<open>Packets.\<close>
  \<open>Sequence_Buffer\<close> has the wire form of a packet and the reordering buffer over the interface
  \<open>min_heap\<close>: its invariant over all reachable states, in-order delivery, and delivery of everything
  once the window is complete.

  \<^bold>\<open>Encryption and routes.\<close>
  \<open>CryptDE\<close> has the encryption interface, the test implementation \<open>CryptDENull\<close>, and the interfaces
  \<open>sig_family\<close> and \<open>seal_family\<close> for what users of any implementation rely on. \<open>CryptDE_Real\<close> has the
  implementation of the running node, \<open>CryptDEReal\<close>, over libsodium and Base64 as parameters with their
  contracts, and interprets the same interfaces. \<open>Onion_Route\<close> has payers, hops and routes, and shows that
  every node on a round trip opens exactly its hop. Its codec is asked to give back only hops whose payer
  has an address wallet, since a wallet is written as its address.

  \<^bold>\<open>Packages on their way.\<close>
  \<open>Packed_Version\<close> has the version of a package in three bytes, \<open>Cores_Package\<close> the packages, their payloads
  and the consuming service; what a call sends is the list of its effects. \<open>Routing_Service\<close> has the whole routing service, one definition per method, with
  the receipt database as part of its state. \<open>Hopper_Safety\<close> shows that nothing is relayed without a
  payer who has proved ownership of the wallet to this node and is not banned, and that no package
  changes the books. \<open>Routing_Offers\<close> shows that the receipts a provider offers form one chain per
  authorization and route, over any run of offers and acknowledgements. \<open>Delivery\<close> composes routes,
  packages and the routing services of many nodes: on a route without receipt requests a request reaches
  the exit, its response comes home, and every relay reports its service to its accountant. \<open>Hopper_Examples\<close> holds the concrete network.

  \<^bold>\<open>Receipts.\<close>
  \<open>Service_Receipt\<close> has receipts, signatures, acknowledgements, session policies and checkpoints;
  \<open>Receipt_Trust\<close> shows what verification guarantees (what an accepted session implies, binding of the signed digests, each
  receipt counted once), and \<open>Receipt_Panics\<close> when it panics on data from another node: never with the test
  implementation, and with the real one on a key that is too short. \<open>Receipt_Settlement\<close> has the
  batches with their Merkle root and payout totals, \<open>Typed_Data\<close> the JSON a wallet shows before it
  signs. \<open>Receipt_Session\<close> is the payer's session manager as a state machine; \<open>Session_Safety\<close> and
  \<open>Session_Outcomes\<close> show that no reachable state, across restarts, overspends the signed budget, that a saved session
  restores, that acknowledging twice charges once, and that a failing store revokes the session.

  \<^bold>\<open>The provider's database.\<close>
  \<open>Receipt_Dao\<close> has the tables of the receipt database as lists of rows with the columns of the schema,
  one definition per operation of \<open>ReceiptCheckpointDaoReal\<close>, and a transaction that keeps the old
  tables when its body fails. A run is any sequence of these calls from a fresh database with the log
  of accepted charges, without \<open>save_checkpoint\<close>, which only tests call, and without the accountant's own
  writes to the receivables. \<open>Receipt_Ledger\<close> shows that spending, checkpoints and receivables are the sums of
  the logged charges; \<open>Receipt_Claims\<close> that every claim is kept exactly once, pending or archived, and
  is archived only when the chain confirms it; \<open>Receipt_Pages\<close> that reading page by page, through the
  interface \<open>paged\<close>, gives what one query gives. \<open>Provider_Settlement\<close> is the settlement manager over
  that database: what an exported batch contains, and that a restart in any reachable state resumes the
  payout authorization or, with a clock before its window, is refused without a loss. \<open>Table_Codec\<close> is an encoder over a finite table with which the witnesses meet the
  premises on CBOR; \<open>Receipt_Examples\<close> and \<open>Settlement_Examples\<close> hold the concrete runs.

  \<^bold>\<open>Data formats.\<close>
  \<open>Versioned_Data\<close> has versions and migration chains, with termination and minimality of the chain
  search; \<open>Big_Int_Divider\<close> the two-column form of balances in SQLite.

  \<^bold>\<open>Bounds and fuel.\<close>
  Loops are structural or have a termination proof, with two exceptions. The recursive chain search of
  \<open>Versioned_Data\<close> takes fuel, and its theorem shows that the number of versions of the table is enough.
  The reader of all pages in \<open>Receipt_Pages\<close>, a client of the page operations, takes fuel, and its theorem
  shows that one call more than there are claims is enough.

  \<^bold>\<open>Not modelled.\<close>
  Actors, sockets, threads, logging, the user interface and the platform code are input and output
  around the modelled parts, and so is the hopper's actor. Generated tables of countries, SQLite itself, the blockchain client and
  the cryptographic primitives are not part of the sources or are parameters; so are the steps that
  bring payloads of future versions to the current one. Recipients of messages are alive, so sending does not fail. The accountant's
  payment scans and receivables, the neighborhood's gossip and the HTTP and TLS framers are sizeable parts that the
  library does not reach yet.
\<close>

end
